(* ===== verification/Ts_Prelude.thy ===== *)
theory Ts_Prelude
  imports Main "HOL-Library.Word"
begin

text \<open>
  Shared vocabulary of the development: machine integers, errors as values, bounded
  memory accesses, and the generic lemmas that the component theories use.

  \<^item> Unsigned 32-bit arithmetic on \<^typ>\<open>nat\<close> with the wrap-around written out
    (\<open>add32\<close>, \<open>sub32\<close>, \<open>mul32\<close>); bit-level code uses \<^typ>\<open>32 word\<close>.
  \<^item> \<open>kerror\<close> collects the ways kernel code stops: a call of \<open>panic\<close>, a failing
    \<open>ASSERT\<close> (both spin forever in the source), a dereference of \<open>NULL\<close>, an access
    outside the object a pointer points into, a division by zero, and an access through a page
    that is not mapped.
  \<^item> A C byte is a \<^typ>\<open>char\<close> (8 bits); \<open>schar\<close> reads it as the signed \<open>char\<close> of the
    target compiler, \<open>chr_int\<close> truncates an \<open>int\<close> to a byte.
\<close>

named_theorems c_arith \<open>machine arithmetic without wrap-around\<close>
named_theorems c_mem \<open>reads and writes of buffers\<close>
named_theorems k_defs \<open>constants of the kernel headers\<close>

section \<open>Machine integers\<close>

type_synonym u8 = "8 word"
type_synonym u16 = "16 word"
type_synonym u32 = "32 word"

definition add32 :: "nat \<Rightarrow> nat \<Rightarrow> nat" where
  "add32 a b = (a + b) mod 4294967296"

definition sub32 :: "nat \<Rightarrow> nat \<Rightarrow> nat" where
  "sub32 a b = (a + (4294967296 - b mod 4294967296)) mod 4294967296"

definition mul32 :: "nat \<Rightarrow> nat \<Rightarrow> nat" where
  "mul32 a b = (a * b) mod 4294967296"

lemma add32_exact [c_arith]: "a + b < 4294967296 \<Longrightarrow> add32 a b = a + b"
  by (simp add: add32_def)

lemma sub32_exact [c_arith]:
  assumes "b \<le> a" "a < 4294967296"
  shows "sub32 a b = a - b"
proof -
  obtain d where d: "a = b + d" using assms(1) by (auto simp: le_iff_add)
  then have "sub32 a b = (d + 4294967296) mod 4294967296" using assms by (simp add: sub32_def)
  then show ?thesis using assms d by simp
qed

lemma mul32_exact [c_arith]: "a * b < 4294967296 \<Longrightarrow> mul32 a b = a * b"
  by (simp add: mul32_def)

lemma add32_bound [simp]: "add32 a b < 4294967296"
  by (simp add: add32_def)

lemma sub32_bound [simp]: "sub32 a b < 4294967296"
  by (simp add: sub32_def)

lemma sub32_borrow [c_arith]:
  assumes "a < b" "b < 4294967296"
  shows "sub32 a b = 4294967296 - (b - a)"
  using assms by (simp add: sub32_def)

text \<open>C division truncates towards zero.\<close>

definition c_div :: "int \<Rightarrow> int \<Rightarrow> int" where
  "c_div a b = sgn a * sgn b * (\<bar>a\<bar> div \<bar>b\<bar>)"

definition c_mod :: "int \<Rightarrow> int \<Rightarrow> int" where
  "c_mod a b = a - c_div a b * b"

lemma c_div_nonneg [c_arith]: "0 \<le> a \<Longrightarrow> 0 < b \<Longrightarrow> c_div a b = a div b"
  by (cases "a = 0") (simp_all add: c_div_def)

lemma c_mod_nonneg [c_arith]: "0 \<le> a \<Longrightarrow> 0 < b \<Longrightarrow> c_mod a b = a mod b"
  by (simp add: c_mod_def c_div_nonneg minus_div_mult_eq_mod)

section \<open>Errors\<close>

datatype kerror = Panic string | AssertFail string | NullDeref | OutOfBounds | DivideError | PageFault

type_synonym 'a res = "kerror + 'a"

definition bind_res :: "'a res \<Rightarrow> ('a \<Rightarrow> 'b res) \<Rightarrow> 'b res" where
  "bind_res r f = (case r of Inl e \<Rightarrow> Inl e | Inr x \<Rightarrow> f x)"

lemma bind_res_simps [simp]:
  "bind_res (Inl e) f = Inl e"
  "bind_res (Inr x) f = f x"
  by (simp_all add: bind_res_def)

lemma bind_res_eq_Inr [simp]:
  "(bind_res r f = Inr y) = (\<exists>x. r = Inr x \<and> f x = Inr y)"
  by (cases r) simp_all

lemma bind_res_cong [fundef_cong]:
  "r = r' \<Longrightarrow> (\<And>x. r' = Inr x \<Longrightarrow> f x = g x) \<Longrightarrow> bind_res r f = bind_res r' g"
  by (cases r') simp_all

lemma bind_res_assoc: "bind_res (bind_res r f) g = bind_res r (\<lambda>x. bind_res (f x) g)"
  by (cases r) simp_all

text \<open>Code that may also fail to return: \<^const>\<open>None\<close> is a loop that does not end.\<close>

definition bind_ro :: "'a res option \<Rightarrow> ('a \<Rightarrow> 'b res option) \<Rightarrow> 'b res option" where
  "bind_ro r f = (case r of None \<Rightarrow> None | Some (Inl e) \<Rightarrow> Some (Inl e) | Some (Inr x) \<Rightarrow> f x)"

lemma bind_ro_simps [simp]:
  "bind_ro None f = None"
  "bind_ro (Some (Inl e)) f = Some (Inl e)"
  "bind_ro (Some (Inr x)) f = f x"
  by (simp_all add: bind_ro_def)

lemma bind_ro_mono [partial_function_mono]:
  assumes "mono_option B" "\<And>y. mono_option (\<lambda>f. C y f)"
  shows "mono_option (\<lambda>f. bind_ro (B f) (\<lambda>y. C y f))"
proof -
  have eq: "bind_ro r g = Option.bind r (\<lambda>x. case x of Inl e \<Rightarrow> Some (Inl e) | Inr y \<Rightarrow> g y)" for r g
    by (cases r) (auto simp: bind_ro_def split: sum.splits)
  have "mono_option (\<lambda>f. case x of Inl e \<Rightarrow> Some (Inl e) | Inr y \<Rightarrow> C y f)" for x
    by (cases x) (simp_all add: assms(2) option.const_mono)
  then show ?thesis unfolding eq by (intro bind_mono assms(1))
qed

text \<open>
  Total correctness: the code returns, without an error, and its result satisfies \<open>P\<close>. The collection
  \<open>tc\<close> holds the rules that take a sequence of calls apart.
\<close>

definition returns :: "'a res option \<Rightarrow> ('a \<Rightarrow> bool) \<Rightarrow> bool" where
  "returns r P \<longleftrightarrow> (\<exists>x. r = Some (Inr x) \<and> P x)"

named_theorems tc \<open>rules of total correctness\<close>

lemma returns_Inr [simp]: "returns (Some (Inr x)) P = P x"
  by (simp add: returns_def)

lemma returns_bind_ro [tc]:
  "returns r P \<Longrightarrow> (\<And>x. P x \<Longrightarrow> returns (f x) Q) \<Longrightarrow> returns (bind_ro r f) Q"
  by (auto simp: returns_def)

lemma returns_bind [tc]:
  "\<exists>x. r = Some x \<and> P x \<Longrightarrow> (\<And>x. P x \<Longrightarrow> returns (f x) Q) \<Longrightarrow> returns (Option.bind r f) Q"
  by auto

lemma returnsE: "returns r P \<Longrightarrow> (\<And>x. r = Some (Inr x) \<Longrightarrow> P x \<Longrightarrow> thesis) \<Longrightarrow> thesis"
  by (auto simp: returns_def)

lemma returns_mono: "returns r P \<Longrightarrow> (\<And>x. P x \<Longrightarrow> Q x) \<Longrightarrow> returns r Q"
  by (auto simp: returns_def)

section \<open>Bytes\<close>

abbreviation NUL :: char where
  "NUL \<equiv> CHR 0x00"

abbreviation NL :: char where
  "NL \<equiv> CHR 0x0A"

definition uchar :: "char \<Rightarrow> int" where
  "uchar c = int (of_char c)"

definition schar :: "char \<Rightarrow> int" where
  "schar c = (if uchar c < 128 then uchar c else uchar c - 256)"

definition chr_int :: "int \<Rightarrow> char" where
  "chr_int i = char_of (nat (i mod 256))"

lemma uchar_bounds: "0 \<le> uchar c" "uchar c < 256"
  using nat_of_char_less_256 [of c] by (simp_all add: uchar_def)

lemma uchar_chr_int: "0 \<le> i \<Longrightarrow> i < 256 \<Longrightarrow> uchar (chr_int i) = i"
  by (simp add: uchar_def chr_int_def)

lemma schar_chr_int: "0 \<le> i \<Longrightarrow> i < 128 \<Longrightarrow> schar (chr_int i) = i"
  by (simp add: schar_def uchar_chr_int)

section \<open>Bounded memory\<close>

text \<open>An object of \<open>length xs\<close> elements; an access beyond its end is an error.\<close>

definition rd :: "'a list \<Rightarrow> nat \<Rightarrow> 'a res" where
  "rd xs i = (if i < length xs then Inr (xs ! i) else Inl OutOfBounds)"

definition wr :: "'a list \<Rightarrow> nat \<Rightarrow> 'a \<Rightarrow> 'a list res" where
  "wr xs i v = (if i < length xs then Inr (xs[i := v]) else Inl OutOfBounds)"

lemma rd_in [c_mem]: "i < length xs \<Longrightarrow> rd xs i = Inr (xs ! i)"
  by (simp add: rd_def)

lemma wr_in [c_mem]: "i < length xs \<Longrightarrow> wr xs i v = Inr (xs[i := v])"
  by (simp add: wr_def)

lemma rd_out [c_mem]: "length xs \<le> i \<Longrightarrow> rd xs i = Inl OutOfBounds"
  by (simp add: rd_def)

lemma wr_out [c_mem]: "length xs \<le> i \<Longrightarrow> wr xs i v = Inl OutOfBounds"
  by (simp add: wr_def)

lemma wr_eq_Inr: "(wr xs i v = Inr ys) = (i < length xs \<and> ys = xs[i := v])"
  by (auto simp: wr_def)

text \<open>The loop \<open>for (; i < j; ++i) buf[i] = v;\<close>.\<close>

function fill_range :: "char list \<Rightarrow> nat \<Rightarrow> nat \<Rightarrow> char \<Rightarrow> char list res" where
  "fill_range buf i j v =
     (if i < j then bind_res (wr buf i v) (\<lambda>buf'. fill_range buf' (i + 1) j v) else Inr buf)"
  by auto
termination by (relation "measure (\<lambda>(_, i, j, _). j - i)") auto

declare fill_range.simps [simp del]

lemma fill_range_spec:
  assumes "i \<le> j" "j \<le> length buf"
  shows "fill_range buf i j v = Inr (take i buf @ replicate (j - i) v @ drop j buf)"
  using assms
proof (induction "j - i" arbitrary: i buf)
  case 0
  then show ?case by (simp add: fill_range.simps)
next
  case (Suc n)
  then have lt: "i < j" "i < length buf" by simp_all
  have "fill_range buf i j v = fill_range (buf[i := v]) (i + 1) j v"
    using lt by (subst fill_range.simps) (simp add: wr_in)
  also have "\<dots> = Inr (take (i + 1) (buf[i := v]) @ replicate (j - (i + 1)) v @ drop j (buf[i := v]))"
    using Suc by (intro Suc.hyps(1)) auto
  also have "take (i + 1) (buf[i := v]) = take i buf @ [v]"
    using lt by (simp add: take_Suc_conv_app_nth)
  finally show ?case using lt by (simp add: Suc_diff_Suc flip: replicate_Suc)
qed

section \<open>Lists\<close>

lemma successively_cong_set:
  assumes "\<And>x y. x \<in> set xs \<Longrightarrow> y \<in> set xs \<Longrightarrow> P x y = Q x y"
  shows "successively P xs = successively Q xs"
  using assms by (intro successively_cong) auto

end
