(* ===== verification/Ts_Port.thy ===== *)
theory Ts_Port
  imports Ts_Prelude
begin

text \<open>
  The input and output ports of the processor (\<open>inb\<close>, \<open>outb\<close>, \<open>inw\<close>, \<open>outw\<close> of \<^verbatim>\<open>kernel/common.c\<close>).

  The devices behind the ports are a parameter: \<open>dev\<close> gives the value that a port shows after a
  given sequence of port operations, and \<open>trace\<close> is the sequence so far. A loop that polls a port
  may run for ever; \<open>poll\<close> is \<^const>\<open>None\<close> then.
\<close>

unbundle bit_operations_syntax

datatype port_event = In u16 u16 | Out u16 u16

record io =
  dev :: "port_event list \<Rightarrow> u16 \<Rightarrow> u16"
  trace :: "port_event list"

definition log_event :: "port_event \<Rightarrow> io \<Rightarrow> io" where
  "log_event e p = p\<lparr>trace := trace p @ [e]\<rparr>"

definition inb :: "io \<Rightarrow> u16 \<Rightarrow> u8 \<times> io" where
  "inb p port = (let v = ucast (dev p (trace p) port) in (v, log_event (In port (ucast v)) p))"

definition inw :: "io \<Rightarrow> u16 \<Rightarrow> u16 \<times> io" where
  "inw p port = (let v = dev p (trace p) port in (v, log_event (In port v) p))"

definition outb :: "io \<Rightarrow> u16 \<Rightarrow> u8 \<Rightarrow> io" where
  "outb p port value = log_event (Out port (ucast value)) p"

definition outw :: "io \<Rightarrow> u16 \<Rightarrow> u16 \<Rightarrow> io" where
  "outw p port value = log_event (Out port value) p"

text \<open>The loop \<open>while (!(inb(port) & msk));\<close>.\<close>

partial_function (option) poll :: "u16 \<Rightarrow> u8 \<Rightarrow> io \<Rightarrow> io option" where
  "poll port msk p =
     (let (status, p) = inb p port in if status AND msk \<noteq> 0 then Some p else poll port msk p)"

lemma dev_ports [simp]:
  "dev (log_event e p) = dev p" "trace (log_event e p) = trace p @ [e]"
  "dev (outb p port b) = dev p" "trace (outb p port b) = trace p @ [Out port (ucast b)]"
  "dev (snd (inb p port)) = dev p" "trace (snd (inb p port)) = trace p @ [In port (ucast (fst (inb p port)))]"
  by (simp_all add: log_event_def outb_def inb_def Let_def)

text \<open>\<open>poll\<close> returns if and only if the device shows the bit after finitely many reads.\<close>

primrec reads :: "nat \<Rightarrow> u16 \<Rightarrow> io \<Rightarrow> io" where
  "reads 0 port p = p"
| "reads (Suc n) port p = reads n port (snd (inb p port))"

definition shows_bit :: "u16 \<Rightarrow> u8 \<Rightarrow> io \<Rightarrow> nat \<Rightarrow> bool" where
  "shows_bit port msk p n \<longleftrightarrow> fst (inb (reads n port p) port) AND msk \<noteq> 0"

lemma poll_step:
  "poll port msk p = (if shows_bit port msk p 0 then Some (reads 1 port p) else poll port msk (reads 1 port p))"
  by (subst poll.simps) (simp add: shows_bit_def split_beta Let_def)

lemma poll_returns:
  "shows_bit port msk p n \<Longrightarrow> \<exists>m\<le>n. poll port msk p = Some (reads (Suc m) port p)"
proof (induction n arbitrary: p)
  case 0
  then show ?case by (simp add: poll_step [of _ _ p])
next
  case (Suc n)
  show ?case
  proof (cases "shows_bit port msk p 0")
    case True
    then show ?thesis by (intro exI [of _ 0]) (simp add: poll_step [of _ _ p])
  next
    case False
    have "shows_bit port msk (reads 1 port p) n" using Suc.prems by (simp add: shows_bit_def)
    then obtain m where m: "m \<le> n" "poll port msk (reads 1 port p) = Some (reads (Suc m) port (reads 1 port p))"
      using Suc.IH [of "reads 1 port p"] by blast
    then have "poll port msk p = Some (reads (Suc (Suc m)) port p)"
      using False by (simp add: poll_step [of _ _ p])
    then show ?thesis using m(1) by (intro exI [of _ "Suc m"]) simp
  qed
qed

lemma poll_dev:
  assumes "poll port msk p = Some p'"
  shows "dev p' = dev p"
proof (rule poll.raw_induct [of "\<lambda>port msk p p'. dev p' = dev p" port msk p p', OF _ assms])
  fix poll' port msk p p'
  assume ih: "\<And>port msk p p'. poll' port msk p = Some p' \<Longrightarrow> dev p' = dev p"
    and eq: "(let (status, p) = inb p port in if status AND msk \<noteq> 0 then Some p else poll' port msk p) = Some p'"
  show "dev p' = dev p"
    using eq ih [of port msk "snd (inb p port)" p'] by (auto simp: split_beta Let_def split: if_splits)
qed

lemma poll_trace:
  assumes "poll port msk p = Some p'"
  shows "\<exists>tr. trace p' = trace p @ tr"
proof (rule poll.raw_induct [of "\<lambda>port msk p p'. \<exists>tr. trace p' = trace p @ tr" port msk p p', OF _ assms])
  fix poll' port msk p p'
  assume ih: "\<And>port msk p p'. poll' port msk p = Some p' \<Longrightarrow> \<exists>tr. trace p' = trace p @ tr"
    and eq: "(let (status, p) = inb p port in if status AND msk \<noteq> 0 then Some p else poll' port msk p) = Some p'"
  show "\<exists>tr. trace p' = trace p @ tr"
    using eq ih [of port msk "snd (inb p port)" p'] by (auto simp: split_beta Let_def split: if_splits)
qed

end
