(* ===== verification/Ts_Vga.thy ===== *)
theory Ts_Vga
  imports Ts_Prelude
begin

text \<open>
  The VGA text screen (\<^verbatim>\<open>kernel/vga.c\<close>, \<^verbatim>\<open>kernel/vga.h\<close>).

  A cell \<open>(x, y)\<close> is the byte at \<open>VGA_BASE + (y * max_col + x) * 2\<close>; the attribute byte after it is
  never written. The model keeps the bytes of the text buffer by address, as the code does. The
  locale \<open>text_screen\<close> is what the console relies on: a write changes one cell, writes outside the
  screen change nothing. It is interpreted on \<open>vga_write_char\<close>.
\<close>

section \<open>Operations\<close>

record vga =
  vmem :: "nat \<Rightarrow> char"
  max_col :: nat
  max_row :: nat

abbreviation (input) VGA_BASE :: nat where "VGA_BASE \<equiv> 3221979136"  \<comment> \<open>\<open>0xB8000 + KERNEL_V_START\<close>\<close>
abbreviation (input) VGA_MAX_COL :: nat where "VGA_MAX_COL \<equiv> 80"
abbreviation (input) VGA_MAX_ROW :: nat where "VGA_MAX_ROW \<equiv> 25"

definition vga_init :: "vga \<Rightarrow> vga" where
  "vga_init v = v\<lparr>max_col := VGA_MAX_COL, max_row := VGA_MAX_ROW\<rparr>"

definition vga_addr :: "vga \<Rightarrow> nat \<Rightarrow> nat \<Rightarrow> nat" where
  "vga_addr v x y = add32 VGA_BASE (mul32 (add32 (mul32 y (max_col v)) x) 2)"

definition vga_write_char :: "vga \<Rightarrow> char \<Rightarrow> nat \<Rightarrow> nat \<Rightarrow> vga \<times> int" where
  "vga_write_char v c x y =
     (if max_col v \<le> x then (v, - 1)
      else if max_row v \<le> y then (v, - 1)
      else (v\<lparr>vmem := (vmem v)(vga_addr v x y := c)\<rparr>, 0))"

definition vga_clear_all :: "vga \<Rightarrow> vga" where
  "vga_clear_all v =
     fold (\<lambda>y v. fold (\<lambda>x v. fst (vga_write_char v NUL x y)) [0..<VGA_MAX_COL] v) [0..<VGA_MAX_ROW] v"

definition vga_print_row :: "vga \<Rightarrow> nat \<Rightarrow> char list \<Rightarrow> nat \<Rightarrow> vga res" where
  "vga_print_row v y row row_size =
     fold (\<lambda>x r. bind_res r (\<lambda>v. bind_res (rd row x) (\<lambda>c. Inr (fst (vga_write_char v c x y)))))
       [0..<row_size] (Inr v)"

section \<open>Cells\<close>

text \<open>Screen geometry after \<open>vga_init\<close>.\<close>

definition vga_std :: "vga \<Rightarrow> bool" where
  "vga_std v \<longleftrightarrow> max_col v = 80 \<and> max_row v = 25"

definition vga_cell :: "vga \<Rightarrow> nat \<Rightarrow> nat \<Rightarrow> char" where
  "vga_cell v x y = vmem v (vga_addr v x y)"

lemma vga_addr_std:
  "vga_std v \<Longrightarrow> x < 80 \<Longrightarrow> y < 25 \<Longrightarrow> vga_addr v x y = VGA_BASE + 2 * (80 * y + x)"
  by (simp add: vga_addr_def vga_std_def c_arith)

lemma cell_index_inj:
  assumes "x < 80" "x' < (80 :: nat)" "80 * y + x = 80 * y' + x'"
  shows "x = x' \<and> y = y'"
proof -
  have "(80 * y + x) div 80 = y" "(80 * y' + x') div 80 = y'" using assms(1,2) by simp_all
  then have "y = y'" using assms(3) by simp
  then show ?thesis using assms(3) by simp
qed

lemma vga_addr_inj:
  assumes "vga_std v" "x < 80" "y < 25" "x' < 80" "y' < 25"
  shows "vga_addr v x y = vga_addr v x' y' \<longleftrightarrow> x = x' \<and> y = y'"
  using cell_index_inj [of x x' y y'] assms by (auto simp: vga_addr_std)

text \<open>A text screen: cells, a write, and the geometry.\<close>

locale text_screen =
  fixes cell :: "'v \<Rightarrow> nat \<Rightarrow> nat \<Rightarrow> char"
    and put :: "'v \<Rightarrow> char \<Rightarrow> nat \<Rightarrow> nat \<Rightarrow> 'v"
    and ok :: "'v \<Rightarrow> bool"
    and cols :: nat
    and rows :: nat
  assumes put_ok: "ok v \<Longrightarrow> ok (put v c x y)"
    and put_cell: "ok v \<Longrightarrow> x < cols \<Longrightarrow> y < rows \<Longrightarrow> x' < cols \<Longrightarrow> y' < rows \<Longrightarrow>
      cell (put v c x y) x' y' = (if x' = x \<and> y' = y then c else cell v x' y')"
    and put_outside: "ok v \<Longrightarrow> cols \<le> x \<or> rows \<le> y \<Longrightarrow> put v c x y = v"
begin

text \<open>A sequence of writes \<open>(c, x, y)\<close>, performed left to right.\<close>

definition puts :: "(char \<times> nat \<times> nat) list \<Rightarrow> 'v \<Rightarrow> 'v" where
  "puts ws v = fold (\<lambda>(c, x, y) v. put v c x y) ws v"

lemma puts_simps [simp]:
  "puts [] v = v"
  "puts ((c, x, y) # ws) v = puts ws (put v c x y)"
  by (simp_all add: puts_def)

lemma puts_append: "puts (ws @ us) v = puts us (puts ws v)"
  by (simp add: puts_def)

lemma puts_ok: "ok v \<Longrightarrow> ok (puts ws v)"
  by (induction ws arbitrary: v) (auto simp: puts_def put_ok)

lemma put_cell_gen:
  assumes "ok v" "x' < cols" "y' < rows"
  shows "cell (put v c x y) x' y' = (if x' = x \<and> y' = y then c else cell v x' y')"
proof (cases "x < cols \<and> y < rows")
  case True
  then show ?thesis using put_cell assms by simp
next
  case False
  then have "put v c x y = v" using assms(1) by (intro put_outside) auto
  then show ?thesis using False assms by auto
qed

lemma puts_other:
  assumes "ok v" "x < cols" "y < rows" "(x, y) \<notin> snd ` set ws"
  shows "cell (puts ws v) x y = cell v x y"
  using assms(1,4)
proof (induction ws arbitrary: v)
  case Nil
  then show ?case by simp
next
  case (Cons w ws)
  obtain c a b where w: "w = (c, a, b)" by (cases w) auto
  have "cell (puts ws (put v c a b)) x y = cell (put v c a b) x y"
    using Cons.prems by (intro Cons.IH) (auto simp: put_ok)
  also have "\<dots> = cell v x y" using Cons.prems w assms(2,3) by (auto simp: put_cell_gen)
  finally show ?case using w by simp
qed

lemma puts_written:
  assumes "ok v" "x < cols" "y < rows" "(c, x, y) \<in> set ws" "distinct (map snd ws)"
  shows "cell (puts ws v) x y = c"
  using assms(1,4,5)
proof (induction ws arbitrary: v)
  case Nil
  then show ?case by simp
next
  case (Cons w ws)
  obtain d a b where w: "w = (d, a, b)" by (cases w) auto
  show ?case
  proof (cases "(c, x, y) \<in> set ws")
    case True
    then show ?thesis using Cons w by (simp add: put_ok)
  next
    case False
    then have e: "w = (c, x, y)" using Cons.prems by auto
    then have "(x, y) \<notin> snd ` set ws" using Cons.prems by (auto simp: image_iff)
    then have "cell (puts ws (put v c x y)) x y = cell (put v c x y) x y"
      using puts_other [OF put_ok [OF Cons.prems(1)] assms(2,3)] by simp
    then show ?thesis using e Cons.prems(1) assms(2,3) by (simp add: put_cell_gen)
  qed
qed

lemma fold_put: "fold (\<lambda>i v. put v (f i) (g i) (h i)) is v = puts (map (\<lambda>i. (f i, g i, h i)) is) v"
  by (induction "is" arbitrary: v) simp_all

lemma fold_puts: "fold (\<lambda>j. puts (ws j)) js v = puts (concat (map ws js)) v"
  by (induction js arbitrary: v) (simp_all add: puts_append)

end

interpretation vga_screen: text_screen vga_cell "\<lambda>v c x y. fst (vga_write_char v c x y)" vga_std 80 25
proof (unfold_locales, goal_cases)
  case (1 v c x y)
  then show ?case by (simp add: vga_write_char_def vga_std_def)
next
  case (2 v x y x' y' c)
  then have "fst (vga_write_char v c x y) = v\<lparr>vmem := (vmem v)(vga_addr v x y := c)\<rparr>"
    by (simp add: vga_write_char_def vga_std_def)
  moreover have "vga_addr (v\<lparr>vmem := m\<rparr>) x' y' = vga_addr v x' y'" for m
    by (simp add: vga_addr_def)
  ultimately show ?case using vga_addr_inj [OF 2(1), of x' y' x y] 2 by (simp add: vga_cell_def)
next
  case (3 v x y c)
  then show ?case by (auto simp: vga_write_char_def vga_std_def)
qed

section \<open>Clearing the screen\<close>

text \<open>The bytes that hold characters: the even offsets of the 4000-byte text buffer.\<close>

definition text_buffer :: "nat set" where
  "text_buffer = {VGA_BASE + 2 * i | i. i < 2000}"

lemma vga_write_frame:
  assumes "vga_std v" "a \<notin> text_buffer"
  shows "vmem (fst (vga_write_char v c x y)) a = vmem v a"
proof (cases "x < 80 \<and> y < 25")
  case True
  then have "vga_addr v x y \<in> text_buffer"
    using vga_addr_std [OF assms(1)] by (auto simp: text_buffer_def intro!: exI [of _ "80 * y + x"])
  then show ?thesis using assms(2) by (auto simp: vga_write_char_def)
next
  case False
  then show ?thesis using vga_screen.put_outside [OF assms(1), of x y c] by auto
qed

lemma puts_frame:
  "vga_std v \<Longrightarrow> a \<notin> text_buffer \<Longrightarrow> vmem (vga_screen.puts ws v) a = vmem v a"
proof (induction ws arbitrary: v)
  case (Cons w ws)
  obtain c x y where "w = (c, x, y)" by (cases w) auto
  then show ?case using Cons by (simp add: vga_screen.put_ok vga_write_frame)
qed simp

lemma vga_clear_all_puts:
  "vga_clear_all v = vga_screen.puts (concat (map (\<lambda>y. map (\<lambda>x. (NUL, x, y)) [0..<80]) [0..<25])) v"
  unfolding vga_clear_all_def vga_screen.fold_put vga_screen.fold_puts ..

text \<open>
  After \<open>vga_init\<close>, \<open>vga_clear_all\<close> blanks all 80 by 25 cells and writes no byte outside the
  character bytes of the text buffer.
\<close>

theorem vga_clear_all_blank:
  "(\<forall>x y. x < 80 \<longrightarrow> y < 25 \<longrightarrow> vga_cell (vga_clear_all (vga_init v)) x y = NUL) \<and>
   (\<forall>a. a \<notin> text_buffer \<longrightarrow> vmem (vga_clear_all (vga_init v)) a = vmem v a)"
proof (intro conjI allI impI)
  have std: "vga_std (vga_init v)" by (simp add: vga_std_def vga_init_def)
  let ?ws = "concat (map (\<lambda>y. map (\<lambda>x. (NUL, x, y)) [0..<80]) [0..<25])"
  have ne: "\<exists>x :: nat. x < 80" by (rule exI [of _ 0]) simp
  have d: "distinct (map snd ?ws)" unfolding map_concat
    by (rule distinct_concat) (use ne in \<open>auto simp: distinct_map inj_on_def comp_def map_eq_conv\<close>)
  show "vga_cell (vga_clear_all (vga_init v)) x y = NUL" if "x < 80" "y < 25" for x y
    unfolding vga_clear_all_puts using that by (intro vga_screen.puts_written [OF std _ _ _ d]) (simp_all add: image_iff)
  show "vmem (vga_clear_all (vga_init v)) a = vmem v a" if "a \<notin> text_buffer" for a
    unfolding vga_clear_all_puts puts_frame [OF std that] by (simp add: vga_init_def)
qed

theorem vga_clear_all_blank_witness:
  "vga_cell (vga_clear_all (vga_init \<lparr>vmem = (\<lambda>_. CHR ''x''), max_col = 0, max_row = 0\<rparr>)) 79 24 = NUL"
  using vga_clear_all_blank [of "\<lparr>vmem = (\<lambda>_. CHR ''x''), max_col = 0, max_row = 0\<rparr>"] by simp

end
