(* ===== verification/Ts_Heap.thy ===== *)
theory Ts_Heap
  imports Ts_Prelude
begin

text \<open>
  The kernel heap (\<^verbatim>\<open>kernel/malloc.c\<close>, \<^verbatim>\<open>kernel/malloc.h\<close>).

  The heap is the address range \<open>[HEAP_START, HEAP_END)\<close>, tiled by regions. A region is a
  12-byte header followed by its data. The link field of a free region continues the free
  list, which is kept sorted by size; the link field of an allocated region points back to the
  header of the region before it, for coalescing in \<open>kfree\<close>.

  State: \<open>mem\<close> gives the header stored at an address, \<open>index_head\<close> and \<open>heap_start\<close> are the
  globals. Addresses and sizes are 32-bit (\<open>add32\<close>, \<open>sub32\<close>). A list traversal that does not end
  is the value \<^const>\<open>None\<close>; the invariant rules it out. The header memory keeps two headers at
  different addresses apart and knows no end of the mapped heap: a header is written as a whole,
  at any address. The invariant shows that on the requests the theorems cover headers never overlap
  and never cross \<open>HEAP_END\<close>, so there this view agrees with the byte memory. Outside it, for a size
  that wraps around 32 bits, the C code may write part of a header past the mapped heap and fault;
  no theorem speaks about that case.
\<close>

section \<open>State\<close>

text \<open>\<open>struct RegionHeader\<close>; its size is 12 bytes on the 32-bit target.\<close>

record RegionHeader =
  rtype :: nat
  rmagic :: nat
  rsize :: nat
  rlink :: nat

record heap =
  mem :: "nat \<Rightarrow> RegionHeader"
  index_head :: nat
  heap_start :: nat

abbreviation (input) R_HEADER_SIZE :: nat where "R_HEADER_SIZE \<equiv> 12"
abbreviation (input) HEAP_START :: nat where "HEAP_START \<equiv> 3233808384"  \<comment> \<open>\<open>KERNEL_V_START + 12 MB\<close>\<close>
abbreviation (input) HEAP_END :: nat where "HEAP_END \<equiv> 3238002688"  \<comment> \<open>\<open>KERNEL_V_START + 16 MB\<close>\<close>
abbreviation (input) REGION_FREE :: nat where "REGION_FREE \<equiv> 0"
abbreviation (input) REGION_ALLOC :: nat where "REGION_ALLOC \<equiv> 1"

section \<open>Operations\<close>

definition upd_header :: "heap \<Rightarrow> nat \<Rightarrow> (RegionHeader \<Rightarrow> RegionHeader) \<Rightarrow> heap" where
  "upd_header h a f = h\<lparr>mem := (mem h)(a := f (mem h a))\<rparr>"

definition CREATE_HEADER :: "heap \<Rightarrow> nat \<Rightarrow> nat \<Rightarrow> nat \<Rightarrow> nat \<Rightarrow> heap" where
  "CREATE_HEADER h a ty sz lk = upd_header h a
     (\<lambda>r. r\<lparr>rmagic := 135, rtype := ty, rsize := sz, rlink := lk\<rparr>)"

definition GET_NEXT_HEADER :: "heap \<Rightarrow> nat \<Rightarrow> nat" where
  "GET_NEXT_HEADER h a = add32 (add32 a (rsize (mem h a))) R_HEADER_SIZE"

definition REACH_HEAP_END :: "nat \<Rightarrow> bool" where
  "REACH_HEAP_END a \<longleftrightarrow> HEAP_END \<le> a"

definition init_heap :: "heap \<Rightarrow> heap" where
  "init_heap h = (let h1 = h\<lparr>heap_start := HEAP_START, index_head := HEAP_START\<rparr> in
     CREATE_HEADER h1 (index_head h1) REGION_FREE
       (sub32 (sub32 HEAP_END (heap_start h1)) R_HEADER_SIZE) 0)"

definition add_alloc_region :: "heap \<Rightarrow> nat \<Rightarrow> heap" where
  "add_alloc_region h a = (let nxt = GET_NEXT_HEADER h a in
     if REACH_HEAP_END nxt then h
     else if rtype (mem h nxt) = REGION_FREE then h
     else upd_header h nxt (rlink_update (\<lambda>_. a)))"

definition del_alloc_region :: "heap \<Rightarrow> nat \<Rightarrow> heap" where
  "del_alloc_region h a = (let nxt = GET_NEXT_HEADER h a in
     if REACH_HEAP_END nxt then h
     else if rtype (mem h nxt) = REGION_FREE then h
     else upd_header h nxt (rlink_update (\<lambda>_. rlink (mem h a))))"

definition add_free_region :: "heap \<Rightarrow> nat \<Rightarrow> nat \<Rightarrow> nat \<Rightarrow> heap" where
  "add_free_region h prev nxt new =
     (let h1 = (if prev = 0 then h\<lparr>index_head := new\<rparr>
                else upd_header h prev (rlink_update (\<lambda>_. new)))
      in upd_header h1 new (rlink_update (\<lambda>_. nxt)))"

definition del_free_region :: "heap \<Rightarrow> nat \<Rightarrow> nat \<Rightarrow> heap" where
  "del_free_region h prev deleted =
     (if deleted = 0 then h
      else let nxt = rlink (mem h deleted) in
        if prev \<noteq> 0 then upd_header h prev (rlink_update (\<lambda>_. nxt))
        else h\<lparr>index_head := nxt\<rparr>)"

text \<open>
  The traversal shared by \<open>kmalloc\<close> and \<open>search_and_add_free_region\<close>: stop at the first region
  of at least \<open>need\<close> bytes, remembering its predecessor.
\<close>

partial_function (option) find_fit :: "heap \<Rightarrow> nat \<Rightarrow> nat \<Rightarrow> nat \<Rightarrow> (nat \<times> nat) option" where
  "find_fit h need prev cur =
     (if cur = 0 then Some (prev, cur)
      else if need \<le> rsize (mem h cur) then Some (prev, cur)
      else find_fit h need cur (rlink (mem h cur)))"

text \<open>The traversal of \<open>kfree\<close>: the free-list predecessor of a region.\<close>

partial_function (option) find_prev :: "heap \<Rightarrow> nat \<Rightarrow> nat \<Rightarrow> nat \<Rightarrow> nat option" where
  "find_prev h target it1 it2 =
     (if it2 = target then Some it1
      else find_prev h target it2 (rlink (mem h it2)))"

definition search_and_add_free_region :: "heap \<Rightarrow> nat \<Rightarrow> heap option" where
  "search_and_add_free_region h new =
     (case find_fit h (rsize (mem h new)) 0 (index_head h) of
        None \<Rightarrow> None
      | Some (prev, cur) \<Rightarrow> Some (add_free_region h prev cur new))"

definition kmalloc :: "heap \<Rightarrow> nat \<Rightarrow> (heap \<times> nat) option" where
  "kmalloc h sz =
     (case find_fit h (add32 sz R_HEADER_SIZE) 0 (index_head h) of
        None \<Rightarrow> None
      | Some (prev, cur) \<Rightarrow>
          if cur = 0 then Some (h, 0)
          else
            let h1 = del_free_region h prev cur;
                h2 = upd_header h1 cur
                       (\<lambda>r. r\<lparr>rsize := sub32 (sub32 (rsize r) sz) R_HEADER_SIZE\<rparr>)
            in case search_and_add_free_region h2 cur of
                 None \<Rightarrow> None
               | Some h3 \<Rightarrow>
                   let alloc_hd = GET_NEXT_HEADER h3 cur;
                       h4 = CREATE_HEADER h3 alloc_hd REGION_ALLOC sz cur;
                       h5 = add_alloc_region h4 alloc_hd
                   in Some (h5, add32 alloc_hd R_HEADER_SIZE))"

definition kfree_unlink :: "heap \<Rightarrow> nat \<Rightarrow> heap option" where
  "kfree_unlink h r =
     (if r \<noteq> 0 then
        case find_prev h r 0 (index_head h) of
          None \<Rightarrow> None
        | Some it1 \<Rightarrow> Some (del_free_region h it1 r)
      else Some h)"

definition kfree :: "heap \<Rightarrow> nat \<Rightarrow> heap option" where
  "kfree h addr =
     (let header = sub32 addr R_HEADER_SIZE;
          prev0 = rlink (mem h header);
          next0 = GET_NEXT_HEADER h header;
          nxt = (if REACH_HEAP_END next0 \<or> rtype (mem h next0) = REGION_ALLOC then 0 else next0);
          prev = (if rtype (mem h prev0) = REGION_ALLOC then 0 else prev0);
          h1 = upd_header h header (rtype_update (\<lambda>_. REGION_FREE))
      in case kfree_unlink h1 prev of None \<Rightarrow> None | Some h2 \<Rightarrow>
         case kfree_unlink h2 nxt of None \<Rightarrow> None | Some h3 \<Rightarrow>
         let unified_hd = (if prev \<noteq> 0 then prev else header);
             h4 = (if prev \<noteq> 0 then
                     upd_header h3 unified_hd (\<lambda>r. r\<lparr>rsize :=
                       add32 (rsize r) (add32 R_HEADER_SIZE (rsize (mem h3 header)))\<rparr>)
                   else h3);
             h5 = (if nxt \<noteq> 0 then
                     upd_header h4 unified_hd (\<lambda>r. r\<lparr>rsize :=
                       add32 (rsize r) (add32 R_HEADER_SIZE (rsize (mem h4 nxt)))\<rparr>)
                   else h4)
         in case search_and_add_free_region h5 unified_hd of None \<Rightarrow> None | Some h6 \<Rightarrow>
            let nx = GET_NEXT_HEADER h6 unified_hd in
            Some (if REACH_HEAP_END nx then h6
                  else upd_header h6 nx (rlink_update (\<lambda>_. unified_hd))))"

text \<open>
  The self test \<open>test_heap\<close>: the sequence of requests and the assertions between them (the
  console output is left out). A failing \<open>ASSERT\<close> is an \<^const>\<open>AssertFail\<close>.
\<close>

definition heap_assert :: "bool \<Rightarrow> string \<Rightarrow> heap res option \<Rightarrow> heap res option" where
  "heap_assert b name k = (if b then k else Some (Inl (AssertFail name)))"

definition test_heap1 :: "heap \<Rightarrow> (heap \<Rightarrow> heap res option) \<Rightarrow> heap res option" where
  "test_heap1 h k =
     Option.bind (kmalloc h 8) (\<lambda>(h, addr1). Option.bind (kfree h addr1) (\<lambda>h.
     Option.bind (kmalloc h 8) (\<lambda>(h, addr2). Option.bind (kfree h addr2) (\<lambda>h.
     heap_assert (addr1 = addr2) ''test1'' (k h)))))"

definition test_heap2 :: "heap \<Rightarrow> (heap \<Rightarrow> heap res option) \<Rightarrow> heap res option" where
  "test_heap2 h k =
     Option.bind (kmalloc h 8) (\<lambda>(h, addr1). Option.bind (kmalloc h 8) (\<lambda>(h, addr2).
     Option.bind (kfree h addr1) (\<lambda>h. Option.bind (kfree h addr2) (\<lambda>h.
     Option.bind (kmalloc h 16) (\<lambda>(h, addr3). Option.bind (kfree h addr3) (\<lambda>h.
     heap_assert (addr3 = add32 addr2 R_HEADER_SIZE) ''test2'' (k h)))))))"

definition test_heap3 :: "heap \<Rightarrow> (heap \<Rightarrow> heap res option) \<Rightarrow> heap res option" where
  "test_heap3 h k =
     Option.bind (kmalloc h 8) (\<lambda>(h, addr1). Option.bind (kmalloc h 8) (\<lambda>(h, addr2).
     Option.bind (kmalloc h 8) (\<lambda>(h, addr3).
     Option.bind (kfree h addr1) (\<lambda>h. Option.bind (kfree h addr3) (\<lambda>h.
     Option.bind (kfree h addr2) (\<lambda>h.
     Option.bind (kmalloc h 24) (\<lambda>(h, addr4). Option.bind (kfree h addr4) (\<lambda>h.
     heap_assert (addr4 = add32 addr3 (2 * R_HEADER_SIZE)) ''test3'' (k h)))))))))"

definition test_heap4 :: "heap \<Rightarrow> (heap \<Rightarrow> heap res option) \<Rightarrow> heap res option" where
  "test_heap4 h k =
     Option.bind (kmalloc h 18) (\<lambda>(h, addr1). Option.bind (kmalloc h 16) (\<lambda>(h, addr2).
     Option.bind (kmalloc h 32) (\<lambda>(h, addr3). Option.bind (kmalloc h 24) (\<lambda>(h, addr4).
     Option.bind (kfree h addr2) (\<lambda>h. Option.bind (kfree h addr3) (\<lambda>h.
     Option.bind (kmalloc h 40) (\<lambda>(h, addr5).
     Option.bind (kfree h addr4) (\<lambda>h. Option.bind (kfree h addr1) (\<lambda>h.
     Option.bind (kmalloc h 4) (\<lambda>(h, addr6). Option.bind (kmalloc h 20) (\<lambda>(h, addr7).
     heap_assert (addr5 = add32 addr3 20) ''test4-1''
     (heap_assert (addr6 = add32 addr1 14) ''test4-2''
     (heap_assert (addr7 = add32 addr4 24) ''test4-3''
     (Option.bind (kfree h addr5) (\<lambda>h. Option.bind (kmalloc h 30) (\<lambda>(h, addr8).
     heap_assert (addr8 = add32 addr7 56 \<and> rsize (mem h (sub32 addr8 R_HEADER_SIZE)) = 30) ''test4-4''
     (Option.bind (kmalloc h 100) (\<lambda>(h, addr9).
     heap_assert (add32 addr9 112 = addr7) ''test4-5''
     (Option.bind (kfree h addr6) (\<lambda>h. Option.bind (kfree h addr7) (\<lambda>h.
      Option.bind (kfree h addr8) (\<lambda>h. Option.bind (kfree h addr9) (\<lambda>h. k h)))))))))))))))))))))))"

definition test_heap :: "heap \<Rightarrow> heap res option" where
  "test_heap h = test_heap1 h (\<lambda>h. test_heap2 h (\<lambda>h. test_heap3 h (\<lambda>h. test_heap4 h (\<lambda>h. Some (Inr h)))))"

end
