(* ===== verification/Ts_Console.thy ===== *)
theory Ts_Console
  imports Ts_Vga Ts_Heap
begin

text \<open>
  The console (\<^verbatim>\<open>kernel/console.c\<close>, \<^verbatim>\<open>kernel/console.h\<close>), in the configuration of the kernel
  build: 20 columns, 6 rows, a history ring of 100 bytes, an input area of at most two rows.

  The state is the record \<open>console\<close>: the globals of \<^verbatim>\<open>console.c\<close>, the screen, and the heap that
  \<open>init_console\<close> takes its three buffers from. A buffer is the list of its bytes; the buffer of a
  failed \<open>kmalloc\<close> has no bytes, so that every access to it is an error. \<open>ram\<close> gives the bytes a
  fresh block happens to hold. Counters are 32-bit (\<open>add32\<close>, \<open>sub32\<close>); a division by a column count
  of zero, before \<open>init_console\<close> has run, is a \<^const>\<open>DivideError\<close>.
\<close>

section \<open>State\<close>

record console =
  screen :: vga
  kernel_heap :: heap
  ram :: "nat \<Rightarrow> char"
  console_max_col :: nat
  console_max_row :: nat
  history :: "char list"
  window :: "char list"
  input_buf :: "char list"
  history_cnt :: nat
  max_window_size :: nat
  window_first_history :: nat
  window_last_history :: nat
  window_size :: nat
  input_cnt :: nat
  status_bar_lines :: nat
  console_init_flag :: bool

abbreviation (input) CONSOLE_HISTORY_SIZE :: nat where "CONSOLE_HISTORY_SIZE \<equiv> 100"
abbreviation (input) CONSOLE_COL_SIZE :: nat where "CONSOLE_COL_SIZE \<equiv> 20"
abbreviation (input) CONSOLE_ROW_SIZE :: nat where "CONSOLE_ROW_SIZE \<equiv> 6"
abbreviation (input) INPUT_BUF_SIZE :: nat where "INPUT_BUF_SIZE \<equiv> 512"
abbreviation (input) INPUT_AREA_MAX_ROW :: nat where "INPUT_AREA_MAX_ROW \<equiv> 2"

section \<open>Initialisation\<close>

definition buffer_at :: "(nat \<Rightarrow> char) \<Rightarrow> nat \<Rightarrow> nat \<Rightarrow> char list" where
  "buffer_at m p n = (if p = 0 then [] else map m [p..<p + n])"

definition init_console :: "console \<Rightarrow> console res option" where
  "init_console c0 =
     (let c = c0\<lparr>screen := vga_init (screen c0), console_max_col := CONSOLE_COL_SIZE,
                 console_max_row := CONSOLE_ROW_SIZE\<rparr>;
          c = c\<lparr>max_window_size := mul32 (sub32 (sub32 (console_max_row c) 1) (status_bar_lines c))
                 (console_max_col c)\<rparr>
      in Option.bind (kmalloc (kernel_heap c) CONSOLE_HISTORY_SIZE) (\<lambda>(h1, p1).
      case fill_range (buffer_at (ram c) p1 CONSOLE_HISTORY_SIZE) 0 CONSOLE_HISTORY_SIZE NUL of
        Inl e \<Rightarrow> Some (Inl e)
      | Inr hist \<Rightarrow>
         Option.bind (kmalloc h1 (max_window_size c)) (\<lambda>(h2, p2).
         Option.bind (kmalloc h2 INPUT_BUF_SIZE) (\<lambda>(h3, p3).
         Some (Inr (c\<lparr>kernel_heap := h3, history := hist,
                      window := buffer_at (ram c) p2 (max_window_size c),
                      input_buf := buffer_at (ram c) p3 INPUT_BUF_SIZE,
                      console_init_flag := True\<rparr>))))))"

section \<open>Rows of the history\<close>

definition hist_at :: "console \<Rightarrow> nat \<Rightarrow> char res" where
  "hist_at c i = rd (history c) (i mod CONSOLE_HISTORY_SIZE)"

function prev_line_loop :: "console \<Rightarrow> nat \<Rightarrow> nat \<Rightarrow> nat \<Rightarrow> nat \<Rightarrow> nat res" where
  "prev_line_loop c history_min next_start offset cnt =
     (if history_min < offset \<and> cnt < console_max_col c then
        bind_res (hist_at c (offset - 1)) (\<lambda>ch.
          if ch = NL \<and> offset \<noteq> next_start then Inr offset
          else prev_line_loop c history_min next_start (offset - 1) (cnt + 1))
      else Inr offset)"
  by auto
termination by (relation "measure (\<lambda>(_, _, _, offset, _). offset)") auto

definition prev_line_start :: "console \<Rightarrow> nat \<Rightarrow> nat res" where
  "prev_line_start c next_start =
     (let history_min = (if CONSOLE_HISTORY_SIZE < history_cnt c
                         then sub32 (history_cnt c) CONSOLE_HISTORY_SIZE else 0)
      in prev_line_loop c history_min next_start next_start 0)"

function next_line_loop :: "console \<Rightarrow> nat \<Rightarrow> nat \<Rightarrow> nat res" where
  "next_line_loop c offset cnt =
     (if offset < history_cnt c \<and> cnt < console_max_col c then
        bind_res (hist_at c offset) (\<lambda>ch.
          if ch = NL then Inr (offset + 1) else next_line_loop c (offset + 1) (cnt + 1))
      else Inr offset)"
  by auto
termination by (relation "measure (\<lambda>(c, offset, _). history_cnt c - offset)") auto

definition next_line_start :: "console \<Rightarrow> nat \<Rightarrow> nat res" where
  "next_line_start c line_start = next_line_loop c line_start 0"

declare prev_line_loop.simps [simp del] next_line_loop.simps [simp del]

section \<open>Drawing\<close>

definition inpws_to_rn :: "console \<Rightarrow> nat \<Rightarrow> nat res" where
  "inpws_to_rn c inp_ws =
     (if inp_ws \<le> console_max_col c then Inr 0
      else if console_max_col c = 0 then Inl DivideError
      else Inr ((inp_ws - 1) div console_max_col c))"

definition screen_put :: "console \<Rightarrow> char \<Rightarrow> nat \<Rightarrow> nat \<Rightarrow> console" where
  "screen_put c ch x y = c\<lparr>screen := fst (vga_write_char (screen c) ch x y)\<rparr>"

definition output_window_one_to_vga :: "console \<Rightarrow> nat \<Rightarrow> char \<Rightarrow> (console \<times> int) res" where
  "output_window_one_to_vga c widx ch =
     (if console_max_col c = 0 then Inl DivideError
      else bind_res (inpws_to_rn c (input_cnt c)) (\<lambda>rn.
        let row = add32 (add32 (widx div console_max_col c) rn) 1;
            col = widx mod console_max_col c
        in if sub32 (console_max_row c) (status_bar_lines c) \<le> row then Inr (c, - 1)
           else if ch = NL then Inr (screen_put c NUL col row, 0)
           else Inr (screen_put c ch col row, 0)))"

definition calc_window_delta :: "console \<Rightarrow> nat \<Rightarrow> char \<Rightarrow> nat res" where
  "calc_window_delta c ws ch =
     (if ch = NL then
        if console_max_col c = 0 then Inl DivideError
        else let new_ws = add32 (sub32 (add32 ws (console_max_col c)) 1) 1;
                 new_ws = sub32 new_ws (new_ws mod console_max_col c)
             in Inr (sub32 new_ws ws)
      else Inr 1)"

text \<open>Drawing changes the screen only, so the bound of the loop is read once.\<close>

function draw_window_loop :: "nat \<Rightarrow> console \<Rightarrow> nat \<Rightarrow> console res" where
  "draw_window_loop max_ws c widx =
     (if widx < max_ws then
        bind_res (rd (window c) widx) (\<lambda>ch.
        bind_res (output_window_one_to_vga c widx ch) (\<lambda>(c', r).
          if r < 0 then Inr c' else draw_window_loop max_ws c' (widx + 1)))
      else Inr c)"
  by auto
termination by (relation "measure (\<lambda>(max_ws, _, widx). max_ws - widx)") auto

definition draw_window :: "console \<Rightarrow> console res" where
  "draw_window c = draw_window_loop (max_window_size c) c 0"

declare draw_window_loop.simps [simp del]

section \<open>The window buffer\<close>

function pad_row :: "console \<Rightarrow> char list \<Rightarrow> nat \<Rightarrow> (char list \<times> nat) res" where
  "pad_row c win wsz =
     (if console_max_col c = 0 then Inl DivideError
      else if wsz mod console_max_col c \<noteq> 0 \<and> wsz < max_window_size c
      then bind_res (wr win wsz NUL) (\<lambda>win'. pad_row c win' (wsz + 1))
      else Inr (win, wsz))"
  by auto
termination by (relation "measure (\<lambda>(c, _, wsz). max_window_size c - wsz)") auto

function fill_window :: "console \<Rightarrow> char list \<Rightarrow> nat \<Rightarrow> nat \<Rightarrow> (char list \<times> nat \<times> nat) res" where
  "fill_window c win wsz history_index =
     (if wsz < max_window_size c \<and> history_index < history_cnt c then
        bind_res (hist_at c history_index) (\<lambda>ch.
        bind_res (wr win wsz ch) (\<lambda>win'.
          if ch = NL
          then bind_res (pad_row c win' (wsz + 1)) (\<lambda>(win'', wsz').
                 fill_window c win'' wsz' (history_index + 1))
          else fill_window c win' (wsz + 1) (history_index + 1)))
      else Inr (win, wsz, history_index))"
  by auto
termination by (relation "measure (\<lambda>(c, _, _, history_index). history_cnt c - history_index)") auto

declare pad_row.simps [simp del] fill_window.simps [simp del]

definition update_window_buffer :: "console \<Rightarrow> console res" where
  "update_window_buffer c =
     bind_res (fill_window c (window c) 0 (window_first_history c)) (\<lambda>(win, wsz, history_index).
     bind_res (fill_range win wsz (max_window_size c) NUL) (\<lambda>win'.
     Inr (c\<lparr>window := win', window_size := wsz, window_last_history := history_index\<rparr>)))"

definition move_down_window_start_position :: "console \<Rightarrow> (console \<times> int) res" where
  "move_down_window_start_position c =
     bind_res (next_line_start c (window_first_history c)) (\<lambda>next_start.
       if next_start \<le> window_first_history c then Inr (c, - 1)
       else Inr (c\<lparr>window_first_history := next_start\<rparr>, 0))"

definition move_up_window_start_position :: "console \<Rightarrow> (console \<times> int) res" where
  "move_up_window_start_position c =
     bind_res (prev_line_start c (window_first_history c)) (\<lambda>new_start.
       if window_first_history c \<le> new_start then Inr (c, - 1)
       else Inr (c\<lparr>window_first_history := new_start\<rparr>, 0))"

definition window_move_up :: "console \<Rightarrow> console res" where
  "window_move_up c =
     bind_res (move_up_window_start_position c) (\<lambda>(c, r).
       if r < 0 then Inr c else bind_res (update_window_buffer c) draw_window)"

definition window_move_down :: "console \<Rightarrow> console res" where
  "window_move_down c =
     bind_res (move_down_window_start_position c) (\<lambda>(c, r).
       if r < 0 then Inr c else bind_res (update_window_buffer c) draw_window)"

section \<open>Output\<close>

text \<open>\<open>write_console_one\<close> once the console is initialised, in the order of the code.\<close>

definition append_history :: "console \<Rightarrow> char \<Rightarrow> console res" where
  "append_history c ch =
     bind_res (wr (history c) (history_cnt c mod CONSOLE_HISTORY_SIZE) ch) (\<lambda>hist.
     Inr (c\<lparr>history := hist, history_cnt := add32 (history_cnt c) 1,
            window_last_history := add32 (history_cnt c) 1\<rparr>))"

definition write_console_body :: "console \<Rightarrow> char \<Rightarrow> console res" where
  "write_console_body c0 ch =
     (let follow_current = (history_cnt c0 = window_last_history c0);
          c = (if follow_current then c0
               else c0\<lparr>window_size := 0, window_first_history := history_cnt c0\<rparr>);
          old_window_size = window_size c
      in bind_res (calc_window_delta c (window_size c) ch) (\<lambda>delta.
      bind_res (append_history (c\<lparr>window_size := add32 (window_size c) delta\<rparr>) ch) (\<lambda>c.
      bind_res
        (if max_window_size c < window_size c then
           bind_res (move_down_window_start_position c) (\<lambda>(c, _).
           bind_res (update_window_buffer c) draw_window)
         else
           bind_res (fill_range (window c) old_window_size (sub32 (window_size c) 1) NUL) (\<lambda>win.
           bind_res (wr win (sub32 (window_size c) 1) ch) (\<lambda>win.
           Inr (c\<lparr>window := win\<rparr>))))
        (\<lambda>c. if follow_current
              then bind_res (output_window_one_to_vga c (sub32 (window_size c) 1) ch) (\<lambda>(c, _). Inr c)
              else bind_res (update_window_buffer c) draw_window))))"

definition ensure_init :: "console \<Rightarrow> console res option" where
  "ensure_init c = (if console_init_flag c then Some (Inr c) else init_console c)"

definition write_console_one :: "console \<Rightarrow> char \<Rightarrow> console res option" where
  "write_console_one c ch = bind_ro (ensure_init c) (\<lambda>c. Some (write_console_body c ch))"

definition console_clear :: "console \<Rightarrow> console res option" where
  "console_clear c0 = bind_ro (ensure_init c0) (\<lambda>c.
     let c = c\<lparr>window_last_history := history_cnt c, window_first_history := history_cnt c\<rparr>
     in Some (bind_res (update_window_buffer c) draw_window))"

section \<open>Input\<close>

definition valid_input_cnt :: "console \<Rightarrow> nat \<Rightarrow> int res" where
  "valid_input_cnt c new_input_cnt =
     bind_res (inpws_to_rn c new_input_cnt) (\<lambda>rn. Inr (if INPUT_AREA_MAX_ROW \<le> rn then - 1 else 1))"

definition draw_input_if_need :: "console \<Rightarrow> nat \<Rightarrow> console res" where
  "draw_input_if_need c old_input_cnt =
     (let n = input_cnt c; cols = console_max_col c in
      if cols = 0 then Inl DivideError
      else if old_input_cnt \<le> n then
        let base = n - n mod cols;
            c = fold (\<lambda>i c. screen_put c NUL (i mod cols) (i div cols)) [base..<add32 base cols] c
        in bind_res (rd (input_buf c) (sub32 n 1)) (\<lambda>ch.
           Inr (screen_put c ch (sub32 n 1 mod cols) (sub32 n 1 div cols)))
      else
        fold (\<lambda>i r. bind_res r (\<lambda>c.
            if i < n then bind_res (rd (input_buf c) i) (\<lambda>ch. Inr (screen_put c ch (i mod cols) (i div cols)))
            else Inr (screen_put c NUL (i mod cols) (i div cols))))
          [0..<old_input_cnt] (Inr c))"

definition check_resize_layout :: "console \<Rightarrow> nat \<Rightarrow> nat \<Rightarrow> bool res" where
  "check_resize_layout c old_input_cnt new_input_cnt =
     bind_res (inpws_to_rn c old_input_cnt) (\<lambda>r1.
     bind_res (inpws_to_rn c new_input_cnt) (\<lambda>r2. Inr (r1 \<noteq> r2)))"

definition console_clear_input :: "console \<Rightarrow> console res" where
  "console_clear_input c =
     bind_res (draw_input_if_need (c\<lparr>input_cnt := 0\<rparr>) (input_cnt c)) draw_window"

definition console_clear_all :: "console \<Rightarrow> console res option" where
  "console_clear_all c = bind_ro (ensure_init c) (\<lambda>c. bind_ro (Some (console_clear_input c)) console_clear)"

fun write_input_chars :: "console \<Rightarrow> nat list \<Rightarrow> console res option" where
  "write_input_chars c [] = Some (Inr c)"
| "write_input_chars c (i # is) =
     bind_ro (Some (rd (input_buf c) i)) (\<lambda>ch.
     bind_ro (write_console_one c ch) (\<lambda>c. write_input_chars c is))"

definition flush_input_buffer :: "console \<Rightarrow> console res option" where
  "flush_input_buffer c =
     bind_ro (write_input_chars c [0..<input_cnt c]) (\<lambda>c.
     bind_ro (write_console_one c NL) (\<lambda>c. Some (console_clear_input c)))"

definition get_input_char :: "console \<Rightarrow> char \<Rightarrow> console res" where
  "get_input_char c ch =
     (let old_cnt = input_cnt c; new_cnt = add32 (input_cnt c) 1 in
      bind_res (valid_input_cnt c new_cnt) (\<lambda>v.
      if v < 0 then Inr c
      else bind_res (wr (input_buf c) (input_cnt c) ch) (\<lambda>buf.
        let c = c\<lparr>input_buf := buf, input_cnt := new_cnt\<rparr> in
        bind_res (check_resize_layout c old_cnt new_cnt) (\<lambda>resize.
        if resize then bind_res (draw_input_if_need c old_cnt) draw_window
        else if console_max_col c = 0 then Inl DivideError
        else Inr (screen_put c ch (old_cnt mod console_max_col c) (old_cnt div console_max_col c))))))"

definition modify_input_cnt :: "console \<Rightarrow> int \<Rightarrow> console res" where
  "modify_input_cnt c delta =
     (let old_cnt = input_cnt c;
          new_cnt = (if 0 < delta then add32 (input_cnt c) (nat delta)
                     else sub32 (input_cnt c) (nat (- delta)))
      in bind_res (valid_input_cnt c new_cnt) (\<lambda>v.
      if v < 0 then Inr c
      else bind_res (draw_input_if_need (c\<lparr>input_cnt := new_cnt\<rparr>) old_cnt) (\<lambda>c.
        bind_res (check_resize_layout c old_cnt new_cnt) (\<lambda>resize.
        if resize then draw_window c else Inr c))))"

end
