(* ===== verification/Ts_String.thy ===== *)
theory Ts_String
  imports Ts_Prelude
begin

text \<open>
  The string library (\<^verbatim>\<open>lib/string.c\<close>).

  A C string is a buffer, the list of its bytes, and an offset into it; a pointer that may be
  \<open>NULL\<close> is an option. A loop reads and writes through \<open>rd\<close> and \<open>wr\<close>, so that running past the end of
  a buffer is the error \<^const>\<open>OutOfBounds\<close>; this also bounds every loop. Functions that write return
  the new contents of the destination. The source and the destination of a copy are different
  buffers, as in all callers.
\<close>

section \<open>Characters\<close>

definition upper_case :: "char \<Rightarrow> char" where
  "upper_case c = (if 97 \<le> schar c \<and> schar c \<le> 122 then chr_int (schar c - 97 + 65) else c)"

definition is_num :: "char \<Rightarrow> bool" where
  "is_num c \<longleftrightarrow> 48 \<le> schar c \<and> schar c \<le> 57"

definition is_alpha :: "char \<Rightarrow> bool" where
  "is_alpha c \<longleftrightarrow> 65 \<le> schar c \<and> schar c \<le> 90 \<or> 97 \<le> schar c \<and> schar c \<le> 122"

section \<open>Comparison, length and search\<close>

definition rd_int :: "char list \<Rightarrow> int \<Rightarrow> char res" where
  "rd_int buf i = (if i < 0 then Inl OutOfBounds else rd buf (nat i))"

function str_equal_range :: "char list \<Rightarrow> char list \<Rightarrow> int \<Rightarrow> int \<Rightarrow> nat res" where
  "str_equal_range s1 s2 i e =
     (if i \<le> e then
        bind_res (rd_int s1 i) (\<lambda>a. bind_res (rd_int s2 i) (\<lambda>b.
          if a \<noteq> b then Inr 0 else str_equal_range s1 s2 (i + 1) e))
      else Inr 1)"
  by auto
termination by (relation "measure (\<lambda>(_, _, i, e). nat (e + 1 - i))") auto

function string_equal_loop :: "char list \<Rightarrow> char list \<Rightarrow> nat \<Rightarrow> nat res" where
  "string_equal_loop s1 s2 i =
     (if i < length s1 then
        bind_res (rd s1 i) (\<lambda>a. bind_res (rd s2 i) (\<lambda>b.
          if a \<noteq> NUL \<and> b \<noteq> NUL then
            if a \<noteq> b then Inr 0 else string_equal_loop s1 s2 (i + 1)
          else Inr (if a \<noteq> b then 0 else 1)))
      else Inl OutOfBounds)"
  by auto
termination by (relation "measure (\<lambda>(s1, _, i). length s1 - i)") auto

definition string_equal :: "char list option \<Rightarrow> char list option \<Rightarrow> nat res" where
  "string_equal s1 s2 =
     (case (s1, s2) of
        (None, None) \<Rightarrow> Inr 1
      | (Some a, Some b) \<Rightarrow> string_equal_loop a b 0
      | _ \<Rightarrow> Inr 0)"

function strlen_loop :: "char list \<Rightarrow> nat \<Rightarrow> nat \<Rightarrow> nat res" where
  "strlen_loop s i cnt =
     (if i < length s then
        if s ! i \<noteq> NUL then strlen_loop s (i + 1) (add32 cnt 1) else Inr cnt
      else Inl OutOfBounds)"
  by auto
termination by (relation "measure (\<lambda>(s, i, _). length s - i)") auto

definition strlen :: "char list \<Rightarrow> nat \<Rightarrow> nat res" where
  "strlen s i = strlen_loop s i 0"

definition strlen_ptr :: "(char list \<times> nat) option \<Rightarrow> nat res" where
  "strlen_ptr p = (case p of None \<Rightarrow> Inr 0 | Some (s, i) \<Rightarrow> strlen s i)"

text \<open>
  \<open>strfd\<close>: the inner loop runs over the pattern and yields the position where it stopped; the
  match is complete when the pattern ends there.
\<close>

function strfd_inner :: "char list \<Rightarrow> nat \<Rightarrow> char list \<Rightarrow> nat \<Rightarrow> nat res" where
  "strfd_inner s i pat j =
     (if j < length pat then
        if pat ! j \<noteq> NUL then
          bind_res (rd s (i + j)) (\<lambda>c. if c = NUL \<or> c \<noteq> pat ! j then Inr j else strfd_inner s i pat (j + 1))
        else Inr j
      else Inl OutOfBounds)"
  by auto
termination by (relation "measure (\<lambda>(_, _, pat, j). length pat - j)") auto

function strfd_loop :: "char list \<Rightarrow> nat \<Rightarrow> char list \<Rightarrow> nat option res" where
  "strfd_loop s i pat =
     (if i < length s then
        if s ! i \<noteq> NUL then
          bind_res (strfd_inner s i pat 0) (\<lambda>j. bind_res (rd pat j) (\<lambda>c.
            if c = NUL then Inr (Some i) else strfd_loop s (i + 1) pat))
        else Inr None
      else Inl OutOfBounds)"
  by auto
termination by (relation "measure (\<lambda>(s, i, _). length s - i)") auto

definition strfd :: "char list \<Rightarrow> nat \<Rightarrow> char list \<Rightarrow> nat option res" where
  "strfd s i pat = bind_res (rd pat 0) (\<lambda>c. if c = NUL then Inr None else strfd_loop s i pat)"

text \<open>
  A pattern of length 0 is never found, so that the test \<open>0 < l\<close>, which bounds the two loops below,
  never decides anything.
\<close>

function no_leading_loop :: "char list \<Rightarrow> nat \<Rightarrow> char list \<Rightarrow> nat \<Rightarrow> nat res" where
  "no_leading_loop s i pat l =
     (if i < length s then
        if s ! i \<noteq> NUL then
          bind_res (strfd s i pat) (\<lambda>r.
            if r = Some i \<and> 0 < l then no_leading_loop s (i + l) pat l else Inr i)
        else Inr i
      else Inl OutOfBounds)"
  by auto
termination by (relation "measure (\<lambda>(s, i, _, _). length s - i)") auto

definition no_leading :: "char list \<Rightarrow> nat \<Rightarrow> char list \<Rightarrow> nat res" where
  "no_leading s i pat = bind_res (strlen pat 0) (\<lambda>l. no_leading_loop s i pat l)"

function no_trailing_loop :: "char list \<Rightarrow> nat \<Rightarrow> int \<Rightarrow> char list \<Rightarrow> nat \<Rightarrow> int res" where
  "no_trailing_loop s i p pat l =
     (if int i \<le> p then
        bind_res (strfd s (nat p) pat) (\<lambda>r.
          if r = Some (nat p) \<and> 0 < l then no_trailing_loop s i (p - int l) pat l else Inr p)
      else Inr p)"
  by auto
termination by (relation "measure (\<lambda>(_, i, p, _, _). nat (p + 1 - int i))") auto

definition no_trailing :: "char list \<Rightarrow> nat \<Rightarrow> char list \<Rightarrow> int res" where
  "no_trailing s i pat = bind_res (strlen pat 0) (\<lambda>l. bind_res (strlen s i) (\<lambda>n.
     no_trailing_loop s i (int i + int n - int l) pat l))"

section \<open>Copying\<close>

definition memset :: "char list \<Rightarrow> char \<Rightarrow> int \<Rightarrow> char list res" where
  "memset buf v n = fill_range buf 0 (nat n) v"

function strcpy_loop :: "char list \<Rightarrow> nat \<Rightarrow> char list \<Rightarrow> nat \<Rightarrow> char list res" where
  "strcpy_loop src i dst j =
     (if i < length src then
        bind_res (wr dst j (src ! i)) (\<lambda>dst'.
          if src ! i \<noteq> NUL then strcpy_loop src (i + 1) dst' (j + 1) else Inr dst')
      else Inl OutOfBounds)"
  by auto
termination by (relation "measure (\<lambda>(src, i, _, _). length src - i)") auto

definition strcpy :: "(char list \<times> nat) option \<Rightarrow> (char list \<times> nat) option \<Rightarrow> char list option res" where
  "strcpy src dst =
     (case (src, dst) of
        (Some (s, i), Some (d, j)) \<Rightarrow> bind_res (strcpy_loop s i d j) (\<lambda>d'. Inr (Some d'))
      | (_, Some (d, _)) \<Rightarrow> Inr (Some d)
      | (_, None) \<Rightarrow> Inr None)"

primrec memcpy :: "char list \<Rightarrow> nat \<Rightarrow> char list \<Rightarrow> nat \<Rightarrow> nat \<Rightarrow> char list res" where
  "memcpy src i dst j 0 = Inr dst"
| "memcpy src i dst j (Suc n) =
     bind_res (rd src i) (\<lambda>c. bind_res (wr dst j c) (\<lambda>dst'. memcpy src (i + 1) dst' (j + 1) n))"

definition strncpy :: "(char list \<times> nat) option \<Rightarrow> (char list \<times> nat) option \<Rightarrow> nat \<Rightarrow> char list option res" where
  "strncpy src dst n =
     (case (src, dst) of
        (Some (s, i), Some (d, j)) \<Rightarrow> bind_res (memcpy s i d j n) (\<lambda>d'. Inr (Some d'))
      | (_, Some (d, _)) \<Rightarrow> Inr (Some d)
      | (_, None) \<Rightarrow> Inr None)"

definition strcat :: "char list option \<Rightarrow> char list option \<Rightarrow> char list option \<Rightarrow> char list option res" where
  "strcat s1 s2 buf =
     (case (s1, s2, buf) of
        (Some a, Some b, Some d) \<Rightarrow>
          bind_res (strlen a 0) (\<lambda>l1.
          bind_res (strcpy_loop a 0 d 0) (\<lambda>d1.
          bind_res (strcpy_loop b 0 d1 l1) (\<lambda>d2. Inr (Some d2))))
      | _ \<Rightarrow> Inr buf)"

definition str_pad :: "char list \<Rightarrow> char \<Rightarrow> int \<Rightarrow> char list res" where
  "str_pad s v n = bind_res (strlen s 0) (\<lambda>cnt.
     bind_res (fill_range s cnt (nat n) v) (\<lambda>s'. wr s' (max cnt (nat n)) NUL))"

section \<open>Tokens\<close>

text \<open>\<open>strtok\<close> returns the buffer that received the token and the offset of the rest, if any.\<close>

definition strtok :: "char list \<Rightarrow> nat \<Rightarrow> char list \<Rightarrow> char list \<Rightarrow> (char list \<times> nat option) res" where
  "strtok s i del buffer =
     bind_res (no_leading s i del) (\<lambda>s0.
     bind_res (strfd s s0 del) (\<lambda>r.
       case r of
         None \<Rightarrow> bind_res (strcpy_loop s s0 buffer 0) (\<lambda>b. Inr (b, None))
       | Some next \<Rightarrow>
           bind_res (memcpy s s0 buffer 0 (next - s0)) (\<lambda>b.
           bind_res (wr b (next - s0) NUL) (\<lambda>b.
           bind_res (strlen del 0) (\<lambda>l.
           bind_res (no_leading s (next + l) del) (\<lambda>next.
           bind_res (rd s next) (\<lambda>c. Inr (b, if c = NUL then None else Some next))))))))"

section \<open>Numbers\<close>

text \<open>\<open>itoa\<close>: the digits in reverse order, then the reversal in place.\<close>

function itoa_digits :: "int \<Rightarrow> char list \<Rightarrow> nat \<Rightarrow> (char list \<times> nat) res" where
  "itoa_digits a buf i =
     bind_res (wr buf i (chr_int (c_mod a 10 + 48))) (\<lambda>buf'.
       if c_div a 10 \<noteq> 0 then itoa_digits (c_div a 10) buf' (i + 1) else Inr (buf', i + 1))"
  by auto
termination by (relation "measure (\<lambda>(_, buf, i). length buf - i)") (auto simp: wr_eq_Inr)

function itoa_reverse :: "char list \<Rightarrow> nat \<Rightarrow> nat \<Rightarrow> char list res" where
  "itoa_reverse buf j i =
     (if j < i then
        bind_res (rd buf j) (\<lambda>c. bind_res (rd buf i) (\<lambda>d.
        bind_res (wr buf j d) (\<lambda>b. bind_res (wr b i c) (\<lambda>b. itoa_reverse b (j + 1) (i - 1)))))
      else Inr buf)"
  by auto
termination by (relation "measure (\<lambda>(_, _, i). i)") auto

definition itoa :: "int \<Rightarrow> char list \<Rightarrow> int \<Rightarrow> char list res" where
  "itoa a buf buf_size =
     bind_res (memset buf NUL buf_size) (\<lambda>b.
     bind_res (itoa_digits a b 0) (\<lambda>(b, i). itoa_reverse b 0 (i - 1)))"

function atoi_loop :: "char list \<Rightarrow> nat \<Rightarrow> nat \<Rightarrow> int \<Rightarrow> nat res" where
  "atoi_loop s i base acc =
     (if i < length s then
        if s ! i \<noteq> NUL then
          let acc = acc * int base mod 4294967296;
              c = schar (s ! i)
          in if c \<le> 57 \<and> 48 \<le> c
             then atoi_loop s (i + 1) base ((acc + (c - 48)) mod 4294967296)
             else atoi_loop s (i + 1) base ((acc + (c - 65 + 10)) mod 4294967296)
        else Inr (nat acc)
      else Inl OutOfBounds)"
  by auto
termination by (relation "measure (\<lambda>(s, i, _, _). length s - i)") auto

definition atoi :: "char list \<Rightarrow> nat \<Rightarrow> nat \<Rightarrow> nat res" where
  "atoi s i base = atoi_loop s i base 0"

declare str_equal_range.simps [simp del] string_equal_loop.simps [simp del] strlen_loop.simps [simp del]
  strfd_inner.simps [simp del] strfd_loop.simps [simp del] no_leading_loop.simps [simp del]
  no_trailing_loop.simps [simp del] strcpy_loop.simps [simp del] itoa_digits.simps [simp del]
  itoa_reverse.simps [simp del] atoi_loop.simps [simp del]

end
