(* ===== verification/Ts_Print.thy ===== *)
theory Ts_Print
  imports Ts_Console Ts_String
begin

text \<open>
  Formatted output (\<^verbatim>\<open>lib/print.c\<close>, \<^verbatim>\<open>lib/varg.h\<close>).

  Every function passes the console on; \<^const>\<open>None\<close> comes only from the start of the console. A byte
  is a number below 256, an \<open>int\<close> a two's complement number, given by its 32 bits where the code
  looks at its bytes. The variable arguments of \<open>printf\<close> are a list of values; taking an argument
  that is missing or of another kind than the directive says reads other data of the caller's stack
  frame and is an error of the model.
\<close>

section \<open>Characters and strings\<close>

definition print_char :: "console \<Rightarrow> char \<Rightarrow> console res option" where
  "print_char c ch = write_console_one c ch"

fun print_chars_loop :: "console \<Rightarrow> char list \<Rightarrow> nat list \<Rightarrow> console res option" where
  "print_chars_loop c s [] = Some (Inr c)"
| "print_chars_loop c s (i # is) =
     bind_ro (Some (rd s i)) (\<lambda>ch. bind_ro (print_char c ch) (\<lambda>c. print_chars_loop c s is))"

definition print_chars :: "console \<Rightarrow> char list \<Rightarrow> int \<Rightarrow> console res option" where
  "print_chars c s n = print_chars_loop c s [0..<nat n]"

function printstr :: "console \<Rightarrow> char list \<Rightarrow> nat \<Rightarrow> console res option" where
  "printstr c s i =
     (if i < length s then
        if s ! i \<noteq> NUL then bind_ro (print_char c (s ! i)) (\<lambda>c. printstr c s (i + 1)) else Some (Inr c)
      else Some (Inl OutOfBounds))"
  by auto
termination by (relation "measure (\<lambda>(_, s, i). length s - i)") auto

declare printstr.simps [simp del]

definition printl :: "console \<Rightarrow> char list \<Rightarrow> console res option" where
  "printl c s = bind_ro (printstr c s 0) (\<lambda>c. print_char c NL)"

section \<open>Hexadecimal\<close>

definition hb_to_hex :: "nat \<Rightarrow> char" where
  "hb_to_hex b = (if b div 16 \<le> 9 then chr_int (int (b div 16) + 48) else chr_int (int (b div 16) - 10 + 65))"

definition lb_to_hex :: "nat \<Rightarrow> char" where
  "lb_to_hex b = (if b mod 16 \<le> 9 then chr_int (int (b mod 16) + 48) else chr_int (int (b mod 16) - 10 + 65))"

definition print_byte' :: "console \<Rightarrow> nat \<Rightarrow> console res option" where
  "print_byte' c b = bind_ro (print_char c (hb_to_hex b)) (\<lambda>c. print_char c (lb_to_hex b))"

definition print_byte :: "console \<Rightarrow> nat \<Rightarrow> console res option" where
  "print_byte c x = bind_ro (print_char c (CHR ''0'')) (\<lambda>c. bind_ro (print_char c (CHR ''x'')) (\<lambda>c. print_byte' c x))"

text \<open>Byte \<open>k\<close> of a 32-bit number in little endian order.\<close>

definition byte_of :: "nat \<Rightarrow> nat \<Rightarrow> nat" where
  "byte_of x k = x div 256 ^ k mod 256"

fun print_hex_bytes :: "console \<Rightarrow> nat \<Rightarrow> nat list \<Rightarrow> console res option" where
  "print_hex_bytes c x [] = Some (Inr c)"
| "print_hex_bytes c x (k # ks) = bind_ro (print_byte' c (byte_of x k)) (\<lambda>c. print_hex_bytes c x ks)"

definition print_hex :: "console \<Rightarrow> nat \<Rightarrow> console res option" where
  "print_hex c x = bind_ro (print_char c (CHR ''0'')) (\<lambda>c. bind_ro (print_char c (CHR ''x'')) (\<lambda>c.
     print_hex_bytes c x [3, 2, 1, 0]))"

fun sprint_hex_bytes :: "nat \<Rightarrow> nat list \<Rightarrow> nat \<Rightarrow> char list \<Rightarrow> char list res" where
  "sprint_hex_bytes x [] cnt buf = Inr buf"
| "sprint_hex_bytes x (k # ks) cnt buf =
     bind_res (wr buf cnt (hb_to_hex (byte_of x k))) (\<lambda>buf.
     bind_res (wr buf (cnt + 1) (lb_to_hex (byte_of x k))) (\<lambda>buf. sprint_hex_bytes x ks (cnt + 2) buf))"

definition sprint_hex :: "nat \<Rightarrow> char list \<Rightarrow> char list res" where
  "sprint_hex x buf = sprint_hex_bytes x [3, 2, 1, 0] 0 buf"

section \<open>Numbers\<close>

definition to_int32 :: "nat \<Rightarrow> int" where
  "to_int32 x = (if x mod 4294967296 < 2147483648 then int (x mod 4294967296) else int (x mod 4294967296) - 4294967296)"

definition of_int32 :: "int \<Rightarrow> nat" where
  "of_int32 a = nat (a mod 4294967296)"

text \<open>The check that all characters of a format are digits.\<close>

function all_num :: "char list \<Rightarrow> nat \<Rightarrow> bool res" where
  "all_num fmt i =
     (if i < length fmt then
        if fmt ! i \<noteq> NUL then if is_num (fmt ! i) then all_num fmt (i + 1) else Inr False else Inr True
      else Inl OutOfBounds)"
  by auto
termination by (relation "measure (\<lambda>(fmt, i). length fmt - i)") auto

function skip_zeros :: "char list \<Rightarrow> nat \<Rightarrow> nat res" where
  "skip_zeros buf p =
     (if p + 1 < length buf then
        if buf ! (p + 1) \<noteq> NUL \<and> buf ! p = CHR ''0'' then skip_zeros buf (p + 1) else Inr p
      else Inl OutOfBounds)"
  by auto
termination by (relation "measure (\<lambda>(buf, p). length buf - p)") auto

declare all_num.simps [simp del] skip_zeros.simps [simp del]

text \<open>
  The format analysis of \<open>_print_num\<close>: the zero flag and the length, -1 for no length. A format that
  is not a number is reported and treated like no format.
\<close>

definition print_num_fmt :: "console \<Rightarrow> char list \<Rightarrow> (console \<times> bool \<times> int) res option" where
  "print_num_fmt c fmt =
     bind_ro (Some (rd fmt 0)) (\<lambda>f0.
     if f0 = NUL then Some (Inr (c, False, - 1))
     else bind_ro (Some (if f0 = CHR ''0'' then bind_res (rd fmt 1) (\<lambda>f1. Inr (f1 = NUL)) else Inr False)) (\<lambda>single.
       if single then Some (Inr (c, False, - 1))
       else bind_ro (Some (all_num fmt 0)) (\<lambda>ok.
         if \<not> ok then bind_ro (printl c (''error print num format'' @ [NUL])) (\<lambda>c. Some (Inr (c, False, - 1)))
         else bind_ro (Some (atoi fmt (if f0 = CHR ''0'' then 1 else 0) 10)) (\<lambda>n.
           Some (Inr (c, f0 = CHR ''0'', to_int32 n))))))"

primrec print_zeros :: "console \<Rightarrow> nat \<Rightarrow> console res option" where
  "print_zeros c 0 = Some (Inr c)"
| "print_zeros c (Suc n) = bind_ro (print_char c (CHR ''0'')) (\<lambda>c. print_zeros c n)"

definition print_num :: "console \<Rightarrow> char list \<Rightarrow> char \<Rightarrow> int \<Rightarrow> console res option" where
  "print_num c fmt num_type num =
     bind_ro (print_num_fmt c fmt) (\<lambda>(c, zero_flag, num_str_len).
     bind_ro (if num_type = CHR ''x''
       then bind_ro (print_char c (CHR ''0'')) (\<lambda>c. bind_ro (print_char c (CHR ''x'')) (\<lambda>c.
            bind_ro (Some (sprint_hex (of_int32 num) (replicate 33 NUL))) (\<lambda>buf. Some (Inr (c, buf)))))
       else bind_ro (Some (itoa num (replicate 33 NUL) 33)) (\<lambda>buf. Some (Inr (c, buf)))) (\<lambda>(c, buf).
     bind_ro (Some (skip_zeros buf 0)) (\<lambda>p.
     if num_str_len = - 1 then printstr c buf p
     else bind_ro (Some (strlen buf p)) (\<lambda>num_len.
       let len_diff = num_str_len - int num_len in
       if 0 < len_diff
       then bind_ro (if zero_flag then print_zeros c (nat len_diff) else Some (Inr c)) (\<lambda>c. printstr c buf p)
       else let q = int p + int num_len - num_str_len in
         if q < 0 then Some (Inl OutOfBounds) else printstr c buf (nat q)))))"

section \<open>printf\<close>

datatype varg = VInt int | VChar char | VStr "char list"

function find_alpha :: "char list \<Rightarrow> nat \<Rightarrow> nat res" where
  "find_alpha fmt p =
     (if p < length fmt then
        if fmt ! p \<noteq> NUL \<and> \<not> is_alpha (fmt ! p) then find_alpha fmt (p + 1) else Inr p
      else Inl OutOfBounds)"
  by auto
termination by (relation "measure (\<lambda>(fmt, p). length fmt - p)") auto

declare find_alpha.simps [simp del]

text \<open>\<open>_print_arg_handler\<close>: the position after the directive, or \<^const>\<open>None\<close> for a format error.\<close>

definition print_arg_handler ::
  "console \<Rightarrow> char list \<Rightarrow> nat \<Rightarrow> varg list \<Rightarrow> (console \<times> varg list \<times> nat option) res option" where
  "print_arg_handler c fmt i args =
     bind_ro (Some (find_alpha fmt i)) (\<lambda>p.
     if fmt ! p = CHR ''c'' then
       (case args of VChar ch # as \<Rightarrow> bind_ro (print_char c ch) (\<lambda>c. Some (Inr (c, as, Some (p + 1))))
        | _ \<Rightarrow> Some (Inl OutOfBounds))
     else if fmt ! p = CHR ''x'' \<or> fmt ! p = CHR ''d'' then
       bind_ro (Some (memcpy fmt i (replicate 32 NUL) 0 (p - i))) (\<lambda>buf.
       bind_ro (Some (wr buf (p - i) NUL)) (\<lambda>buf.
       case args of VInt a # as \<Rightarrow> bind_ro (print_num c buf (fmt ! p) a) (\<lambda>c. Some (Inr (c, as, Some (p + 1))))
        | _ \<Rightarrow> Some (Inl OutOfBounds)))
     else if fmt ! p = CHR ''s'' then
       (case args of VStr s # as \<Rightarrow> bind_ro (printstr c s 0) (\<lambda>c. Some (Inr (c, as, Some (p + 1))))
        | _ \<Rightarrow> Some (Inl OutOfBounds))
     else Some (Inr (c, args, None)))"

text \<open>
  The loop of \<open>printf\<close>. The position after a directive lies behind it; the first argument, the
  length of the format, bounds the number of steps.
\<close>

primrec printf_loop :: "nat \<Rightarrow> console \<Rightarrow> char list \<Rightarrow> nat \<Rightarrow> varg list \<Rightarrow> console res option" where
  "printf_loop 0 c fmt i args = None"
| "printf_loop (Suc n) c fmt i args =
     (if i < length fmt then
        if fmt ! i = NUL then Some (Inr c)
        else if fmt ! i = CHR ''%'' then
          bind_ro (print_arg_handler c fmt (i + 1) args) (\<lambda>(c, args, r).
            case r of None \<Rightarrow> printl c (''printf format error!'' @ [NUL])
            | Some j \<Rightarrow> printf_loop n c fmt j args)
        else bind_ro (print_char c (fmt ! i)) (\<lambda>c. printf_loop n c fmt (i + 1) args)
      else Some (Inl OutOfBounds))"

definition printf :: "console \<Rightarrow> char list option \<Rightarrow> varg list \<Rightarrow> console res option" where
  "printf c fmt args =
     (case fmt of None \<Rightarrow> Some (Inr c) | Some f \<Rightarrow> printf_loop (length f + 1) c f 0 args)"

end
