(* ===== verification/Ts_Task.thy ===== *)
theory Ts_Task
  imports Ts_Prelude
begin

text \<open>
  Tasks and the scheduler (\<^verbatim>\<open>kernel/task.c\<close>, \<^verbatim>\<open>kernel/task.h\<close>), the switch of contexts
  (\<^verbatim>\<open>asm/process.asm\<close>) and the timer (\<^verbatim>\<open>drivers/timer.c\<close>).

  The record \<open>ksched\<close> holds the task array, \<open>current\<close> (the index of the slot it points to, \<^const>\<open>None\<close>
  for \<open>NULL\<close>), the task state segment and the descriptor of the TSS, the stack pointer and the page
  directory register of the processor, and the counters of the timer. All numbers are 32-bit words.
  A call that switches the task returns in the new one: the state after it is the state that the
  resumed task sees.
\<close>

unbundle bit_operations_syntax

section \<open>Data\<close>

record Task =
  t_esp :: u32
  t_phy_dir :: u32
  t_esp0 :: u32
  t_ptid :: u32
  t_tid :: u32
  t_state :: u32
  t_ttl :: u32

record gdt_entry =
  limit_low :: u16
  base_low :: u16
  base_middle :: u8
  access :: u8
  granularity :: u8
  base_high :: u8

record tss_entry_struct =
  prev_tss :: u32
  esp0 :: u32
  ss0 :: u32
  esp1 :: u32
  ss1 :: u32
  esp2 :: u32
  ss2 :: u32
  tss_cr3 :: u32
  tss_eip :: u32
  tss_eflags :: u32
  tss_eax :: u32
  tss_ecx :: u32
  tss_edx :: u32
  tss_ebx :: u32
  tss_esp :: u32
  tss_ebp :: u32
  tss_esi :: u32
  tss_edi :: u32
  tss_es :: u32
  tss_cs :: u32
  tss_ss :: u32
  tss_ds :: u32
  tss_fs :: u32
  tss_gs :: u32
  tss_ldt :: u32
  tss_trap :: u16
  tss_iomap_base :: u16

record ksched =
  task_arr :: "Task list"
  current :: "nat option"
  tss_entry :: tss_entry_struct
  TSS_SEGMENT :: gdt_entry
  reg_esp :: u32
  reg_cr3 :: u32
  secs :: u32
  freq_counter :: u32

abbreviation (input) MAX_TASK_NUM :: nat where "MAX_TASK_NUM \<equiv> 32"
abbreviation (input) TASK_PRESENT :: u32 where "TASK_PRESENT \<equiv> 1"
abbreviation (input) TASK_NEED_SCHED :: u32 where "TASK_NEED_SCHED \<equiv> 2"
abbreviation (input) KSTACK_FRAME :: u32 where "KSTACK_FRAME \<equiv> 0xFF7FF000"  \<comment> \<open>\<open>IX_TO_VA(1021,1023)\<close>\<close>
abbreviation (input) SIZEOF_TASK :: u32 where "SIZEOF_TASK \<equiv> 28"

section \<open>Descriptors\<close>

definition gdt_set_gate :: "gdt_entry \<Rightarrow> u32 \<Rightarrow> u32 \<Rightarrow> u8 \<Rightarrow> u8 \<Rightarrow> gdt_entry" where
  "gdt_set_gate entry base limit acc gran =
     entry\<lparr>base_low := ucast (base AND 0xFFFF),
           base_middle := ucast (drop_bit 16 base AND 0xFF),
           base_high := ucast (drop_bit 24 base AND 0xFF),
           limit_low := ucast (limit AND 0xFFFF),
           granularity := ucast (drop_bit 16 limit AND 0x0F) OR (gran AND 0xF0),
           access := acc\<rparr>"

text \<open>\<open>setup_tss\<close>, given the address of \<open>tss_entry\<close>, an object of 104 bytes.\<close>

definition setup_tss :: "u32 \<Rightarrow> ksched \<Rightarrow> ksched" where
  "setup_tss tss_addr s =
     (let base = tss_addr; limit = base + 104 in
      s\<lparr>TSS_SEGMENT := gdt_set_gate (TSS_SEGMENT s) base limit 0xE9 0,
        tss_entry := (tss_entry s)\<lparr>esp0 := 0xFFFFFF00, ss0 := 0x10\<rparr>\<rparr>)"

section \<open>The current task\<close>

definition current_task :: "ksched \<Rightarrow> Task res" where
  "current_task s = (case current s of None \<Rightarrow> Inl NullDeref | Some i \<Rightarrow> rd (task_arr s) i)"

definition update_current :: "(Task \<Rightarrow> Task) \<Rightarrow> ksched \<Rightarrow> ksched res" where
  "update_current f s =
     (case current s of None \<Rightarrow> Inl NullDeref
      | Some i \<Rightarrow> bind_res (rd (task_arr s) i) (\<lambda>t. Inr (s\<lparr>task_arr := (task_arr s)[i := f t]\<rparr>)))"

section \<open>Switching\<close>

text \<open>
  \<open>__context_switch\<close>: the page directory and the stack pointer go into the current task, after
  \<open>pusha\<close> and \<open>pushf\<close> (36 bytes); those of the new task are loaded and \<open>popf\<close>, \<open>popa\<close> undo the pushes.
  The registers that the pushes leave on the stack are not part of the model.
\<close>

definition context_switch' :: "ksched \<Rightarrow> nat \<Rightarrow> ksched res" where
  "context_switch' s new =
     bind_res (update_current (\<lambda>t. t\<lparr>t_phy_dir := reg_cr3 s, t_esp := reg_esp s - 36\<rparr>) s) (\<lambda>s.
     bind_res (rd (task_arr s) new) (\<lambda>t.
     Inr (s\<lparr>current := Some new, reg_esp := t_esp t + 36, reg_cr3 := t_phy_dir t\<rparr>)))"

definition context_switch :: "ksched \<Rightarrow> nat option \<Rightarrow> ksched res" where
  "context_switch s new =
     (if current s = new then Inr s
      else case new of None \<Rightarrow> Inl NullDeref
        | Some j \<Rightarrow> bind_res (rd (task_arr s) j) (\<lambda>t.
            context_switch' (s\<lparr>tss_entry := (tss_entry s)\<lparr>esp0 := t_esp0 t, ss0 := 0x10\<rparr>\<rparr>) j))"

section \<open>Scheduling\<close>

primrec get_next_tid_loop :: "Task list \<Rightarrow> nat list \<Rightarrow> nat res" where
  "get_next_tid_loop arr [] = Inl (AssertFail ''can't get next tid'')"
| "get_next_tid_loop arr (i # is) =
     bind_res (rd arr i) (\<lambda>t. if t_state t = 0 then Inr i else get_next_tid_loop arr is)"

definition get_next_tid :: "ksched \<Rightarrow> nat res" where
  "get_next_tid s = get_next_tid_loop (task_arr s) [0..<MAX_TASK_NUM]"

primrec next_task_loop :: "Task list \<Rightarrow> u32 \<Rightarrow> nat list \<Rightarrow> nat option res" where
  "next_task_loop arr tid [] = Inr None"
| "next_task_loop arr tid (i # is) =
     (let k = unat (tid + of_nat i) mod MAX_TASK_NUM in
      bind_res (rd arr k) (\<lambda>t. if t_state t \<noteq> 0 then Inr (Some k) else next_task_loop arr tid is))"

definition schedule :: "ksched \<Rightarrow> ksched res" where
  "schedule s =
     bind_res (current_task s) (\<lambda>t.
     bind_res (next_task_loop (task_arr s) (t_tid t) [1..<MAX_TASK_NUM + 1]) (\<lambda>next_task.
     if t_state t \<noteq> 0
     then bind_res (update_current (\<lambda>t. t\<lparr>t_state := t_state t AND NOT TASK_NEED_SCHED, t_ttl := 10\<rparr>) s)
            (\<lambda>s. context_switch s next_task)
     else context_switch s next_task))"

definition cond_schedule :: "ksched \<Rightarrow> ksched res" where
  "cond_schedule s =
     bind_res (current_task s) (\<lambda>t. if t_state t AND TASK_NEED_SCHED \<noteq> 0 then schedule s else Inr s)"

text \<open>The state changes of \<open>terminate_process\<close>, after its message on the console.\<close>

definition exit_current :: "ksched \<Rightarrow> ksched res" where
  "exit_current s = bind_res (update_current (\<lambda>t. t\<lparr>t_state := 0\<rparr>) s) schedule"

text \<open>
  The part of \<open>alloc_kstack_and_task\<close> that fills in the control block and copies it to the task
  array. The stack pointer is not assigned: the control block keeps the word \<open>esp\<close> that the stack
  frame holds at its place.
\<close>

definition new_task :: "ksched \<Rightarrow> u32 \<Rightarrow> u32 \<Rightarrow> (ksched \<times> Task) res" where
  "new_task s new_cr3 esp =
     bind_res (current_task s) (\<lambda>c.
     bind_res (get_next_tid s) (\<lambda>tid.
     let task = \<lparr>t_esp = esp, t_phy_dir = new_cr3, t_esp0 = KSTACK_FRAME + 4096 - SIZEOF_TASK - 4,
                 t_ptid = t_tid c, t_tid = of_nat tid, t_state = TASK_PRESENT, t_ttl = 10\<rparr>
     in bind_res (wr (task_arr s) tid task) (\<lambda>arr. Inr (s\<lparr>task_arr := arr\<rparr>, task))))"

section \<open>The timer\<close>

abbreviation (input) TIMER_FREQUENCY :: u32 where "TIMER_FREQUENCY \<equiv> 25"

definition timer_handler :: "ksched \<Rightarrow> ksched res" where
  "timer_handler s =
     (let s = s\<lparr>freq_counter := freq_counter s + 1\<rparr>;
          s = (if freq_counter s \<ge> TIMER_FREQUENCY then s\<lparr>secs := secs s + 1, freq_counter := 0\<rparr> else s)
      in bind_res (update_current (\<lambda>t. t\<lparr>t_ttl := t_ttl t - 1\<rparr>) s) (\<lambda>s.
      bind_res (current_task s) (\<lambda>t.
      if t_ttl t = 0 then update_current (\<lambda>t. t\<lparr>t_state := t_state t OR TASK_NEED_SCHED\<rparr>) s else Inr s)))"

end
