(* ===== verification/Ts_Com.thy ===== *)
theory Ts_Com
  imports Ts_Port Ts_Print Ts_Task
begin

text \<open>
  The serial port (\<^verbatim>\<open>drivers/com.c\<close>) and the state of the machine that the drivers share.

  \<open>machine\<close> holds the console, the ports, the memory that a received file is stored to, by address,
  and the scheduler. A wait for the port that never ends is \<^const>\<open>None\<close>. The local buffer of
  \<open>serial_file_transfer\<close> starts with arbitrary bytes, which are an argument.
\<close>

record machine =
  con :: console
  pio :: io
  mem :: "u32 \<Rightarrow> char"
  sched :: ksched

abbreviation (input) PORT :: u16 where "PORT \<equiv> 0x3F8"
abbreviation (input) BUF_SIZE :: nat where "BUF_SIZE \<equiv> 256"

definition byte_chr :: "u8 \<Rightarrow> char" where
  "byte_chr b = char_of (unat b)"

definition chr_byte :: "char \<Rightarrow> u8" where
  "chr_byte c = of_nat (of_char c)"

section \<open>Bytes\<close>

text \<open>
  \<open>while (is_transmit_empty() == 0);\<close> and \<open>while (serial_received() == 0);\<close> poll the line status.
\<close>

definition write_serial :: "io \<Rightarrow> char \<Rightarrow> io option" where
  "write_serial p a = map_option (\<lambda>p. outb p PORT (chr_byte a)) (poll (PORT + 5) 0x20 p)"

definition read_serial :: "io \<Rightarrow> (char \<times> io) option" where
  "read_serial p = map_option (\<lambda>p. let (v, p) = inb p PORT in (byte_chr v, p)) (poll (PORT + 5) 1 p)"

text \<open>\<open>put_char_to_buffer\<close> has no body and an unsigned result, so the test on it does nothing.\<close>

definition com1_handler :: "io \<Rightarrow> io option" where
  "com1_handler p = map_option snd (read_serial p)"

definition init_serial :: "machine \<Rightarrow> (machine \<times> int) res option" where
  "init_serial m =
     (let p = pio m;
          p = outb p (PORT + 1) 0x00;
          p = outb p (PORT + 3) 0x80;
          p = outb p (PORT + 0) 0x01;
          p = outb p (PORT + 1) 0x00;
          p = outb p (PORT + 3) 0x03;
          p = outb p (PORT + 2) 0xC7;
          p = outb p (PORT + 4) 0x0B;
          p = outb p (PORT + 4) 0x1E;
          p = outb p (PORT + 0) 0xAE;
          (v, p) = inb p (PORT + 0)
      in if v \<noteq> 0xAE
         then bind_ro (printl (con m) (''gg serial'' @ [NUL])) (\<lambda>c. Some (Inr (m\<lparr>pio := p, con := c\<rparr>, 1)))
         else Some (Inr (m\<lparr>pio := outb p (PORT + 4) 0x0F\<rparr>, 0)))"

section \<open>Buffers\<close>

function read_until_loop :: "io \<Rightarrow> char list \<Rightarrow> nat \<Rightarrow> char \<Rightarrow> nat \<Rightarrow> (char list \<times> nat \<times> io) res option" where
  "read_until_loop p buf buf_size end_char rx_cnt =
     (if rx_cnt \<noteq> sub32 buf_size 1 then
        case read_serial p of None \<Rightarrow> None
        | Some (c, p) \<Rightarrow>
            if rx_cnt < length buf then
              if c = end_char then Some (Inr (buf[rx_cnt := c], rx_cnt + 1, p))
              else read_until_loop p (buf[rx_cnt := c]) buf_size end_char (rx_cnt + 1)
            else Some (Inl OutOfBounds)
      else Some (Inr (buf, rx_cnt, p)))"
  by auto
termination by (relation "measure (\<lambda>(_, buf, _, _, rx_cnt). length buf - rx_cnt)") auto

definition read_until :: "io \<Rightarrow> char list \<Rightarrow> nat \<Rightarrow> char \<Rightarrow> (char list \<times> nat \<times> io) res option" where
  "read_until p buf buf_size end_char =
     bind_ro (read_until_loop p buf buf_size end_char 0) (\<lambda>(buf, rx_cnt, p).
     bind_ro (Some (wr buf rx_cnt NUL)) (\<lambda>buf. Some (Inr (buf, rx_cnt, p))))"

function read_bytes_loop :: "io \<Rightarrow> char list \<Rightarrow> nat \<Rightarrow> nat \<Rightarrow> nat \<Rightarrow> (char list \<times> nat \<times> io) res option" where
  "read_bytes_loop p buf buf_size tot rx_cnt =
     (if rx_cnt \<noteq> tot \<and> rx_cnt \<noteq> sub32 buf_size 1 then
        case read_serial p of None \<Rightarrow> None
        | Some (c, p) \<Rightarrow>
            if rx_cnt < length buf then read_bytes_loop p (buf[rx_cnt := c]) buf_size tot (rx_cnt + 1)
            else Some (Inl OutOfBounds)
      else Some (Inr (buf, rx_cnt, p)))"
  by auto
termination by (relation "measure (\<lambda>(_, buf, _, _, rx_cnt). length buf - rx_cnt)") auto

definition read_bytes :: "io \<Rightarrow> char list \<Rightarrow> nat \<Rightarrow> nat \<Rightarrow> (char list \<times> nat \<times> io) res option" where
  "read_bytes p buf buf_size tot =
     bind_ro (read_bytes_loop p buf buf_size tot 0) (\<lambda>(buf, rx_cnt, p).
     bind_ro (Some (wr buf rx_cnt NUL)) (\<lambda>buf. Some (Inr (buf, rx_cnt, p))))"

declare read_until_loop.simps [simp del] read_bytes_loop.simps [simp del]

section \<open>File transfer\<close>

text \<open>\<open>memcpy\<close> from the buffer to memory.\<close>

primrec copy_to_mem :: "char list \<Rightarrow> u32 \<Rightarrow> nat list \<Rightarrow> (u32 \<Rightarrow> char) \<Rightarrow> (u32 \<Rightarrow> char) res" where
  "copy_to_mem buf addr [] mm = Inr mm"
| "copy_to_mem buf addr (i # is) mm =
     bind_res (rd buf i) (\<lambda>c. copy_to_mem buf addr is (mm(addr + of_nat i := c)))"

text \<open>
  The loop that receives the file. Every round receives at least one byte, so the number of missing
  bytes bounds the number of rounds; it is the first argument.
\<close>

primrec transfer_loop ::
  "nat \<Rightarrow> u32 \<Rightarrow> nat \<Rightarrow> io \<Rightarrow> (u32 \<Rightarrow> char) \<Rightarrow> char list \<Rightarrow> nat \<Rightarrow> (io \<times> (u32 \<Rightarrow> char) \<times> nat) res option" where
  "transfer_loop 0 mem_addr expected_bytes p mm buf rx_total =
     (if rx_total < expected_bytes then None else Some (Inr (p, mm, rx_total)))"
| "transfer_loop (Suc n) mem_addr expected_bytes p mm buf rx_total =
     (if rx_total < expected_bytes then
        bind_ro (read_bytes p buf BUF_SIZE (expected_bytes - rx_total)) (\<lambda>(buf, rx_cnt, p).
        bind_ro (Some (copy_to_mem buf (mem_addr + of_nat rx_total) [0..<rx_cnt] mm)) (\<lambda>mm.
        transfer_loop n mem_addr expected_bytes p mm buf (add32 rx_total rx_cnt)))
      else Some (Inr (p, mm, rx_total)))"

definition serial_file_transfer :: "machine \<Rightarrow> char list \<Rightarrow> u32 \<Rightarrow> (machine \<times> nat) res option" where
  "serial_file_transfer m buffer mem_addr =
     bind_ro (printl (con m) (''start to transfer file'' @ [NUL])) (\<lambda>c.
     bind_ro (read_until (pio m) buffer BUF_SIZE NUL) (\<lambda>(buffer, _, p).
     bind_ro (Some (atoi buffer 0 10)) (\<lambda>expected_bytes.
     bind_ro (printstr c (''expected '' @ [NUL]) 0) (\<lambda>c.
     bind_ro (print_hex c expected_bytes) (\<lambda>c.
     bind_ro (printl c ('' bytes'' @ [NUL])) (\<lambda>c.
     bind_ro (transfer_loop expected_bytes mem_addr expected_bytes p (mem m) buffer 0) (\<lambda>(p, mm, rx_total).
     bind_ro (printstr c (''recieved '' @ [NUL]) 0) (\<lambda>c.
     bind_ro (print_hex c rx_total) (\<lambda>c.
     bind_ro (printl c ('' bytes'' @ [NUL])) (\<lambda>c.
     Some (Inr (m\<lparr>con := c, pio := p, mem := mm\<rparr>, rx_total))))))))))))"

end
