(* ===== verification/Ts_String_Props.thy ===== *)
theory Ts_String_Props
  imports Ts_String "HOL-Library.Sublist"
begin

text \<open>
  Correctness of the string library. \<open>cstr buf i s\<close> says that the buffer holds the string \<open>s\<close>, closed
  by a NUL, from offset \<open>i\<close> on; the lemmas give each function's result on strings.
\<close>

section \<open>Strings in buffers\<close>

definition cstr :: "char list \<Rightarrow> nat \<Rightarrow> char list \<Rightarrow> bool" where
  "cstr buf i s \<longleftrightarrow> NUL \<notin> set s \<and> i + length s < length buf \<and> take (length s + 1) (drop i buf) = s @ [NUL]"

lemma cstr_nth:
  assumes "cstr buf i s"
  shows "k < length s \<Longrightarrow> buf ! (i + k) = s ! k" "buf ! (i + length s) = NUL"
    "i + length s < length buf" "NUL \<notin> set s" "k < length s \<Longrightarrow> s ! k \<noteq> NUL"
proof -
  have t: "take (length s + 1) (drop i buf) = s @ [NUL]" and l: "i + length s < length buf" and n: "NUL \<notin> set s"
    using assms by (simp_all add: cstr_def)
  have *: "buf ! (i + k) = (s @ [NUL]) ! k" if "k \<le> length s" for k
    using arg_cong [OF t, of "\<lambda>l. l ! k"] that l by simp
  show "k < length s \<Longrightarrow> buf ! (i + k) = s ! k" using * [of k] by (simp add: nth_append)
  show "buf ! (i + length s) = NUL" using * [of "length s"] by simp
  show "i + length s < length buf" "NUL \<notin> set s" by fact+
  show "k < length s \<Longrightarrow> s ! k \<noteq> NUL" using n by (metis nth_mem)
qed

lemma cstr_drop:
  assumes "cstr buf i s" "k \<le> length s"
  shows "cstr buf (i + k) (drop k s)"
proof -
  have "take (length (drop k s) + 1) (drop (i + k) buf) = drop k (take (length s + 1) (drop i buf))"
    using assms(2) by (simp add: drop_take add.commute Suc_diff_le)
  also have "\<dots> = drop k s @ [NUL]" using assms by (simp add: cstr_def)
  finally show ?thesis using assms by (auto simp: cstr_def dest: in_set_dropD)
qed

lemma cstr_Cons: "cstr buf i (c # s) \<Longrightarrow> cstr buf (i + 1) s"
  using cstr_drop [of buf i "c # s" 1] by simp

lemma cstr_head:
  "cstr buf i (c # s) \<Longrightarrow> i < length buf \<and> buf ! i = c \<and> c \<noteq> NUL"
  "cstr buf i [] \<Longrightarrow> i < length buf \<and> buf ! i = NUL"
  using cstr_nth(1,5) [of buf i "c # s" 0] cstr_nth(3) [of buf i "c # s"]
    cstr_nth(2,3) [of buf i "[]"] by simp_all

lemma cstr_end: "cstr buf k w \<Longrightarrow> k < length buf \<and> (buf ! k = NUL \<longleftrightarrow> w = [])"
  by (cases w) (auto dest: cstr_head)

lemma cstr_append_NUL: "NUL \<notin> set s \<Longrightarrow> cstr (pre @ s @ NUL # post) (length pre) s"
  by (simp add: cstr_def)

section \<open>Length and comparison\<close>

lemma strlen_loop_spec:
  "cstr buf i s \<Longrightarrow> n + length s < 4294967296 \<Longrightarrow> strlen_loop buf i n = Inr (n + length s)"
proof (induction s arbitrary: i n)
  case Nil
  then show ?case using cstr_head(2) by (subst strlen_loop.simps) simp
next
  case (Cons c s)
  then show ?case using cstr_head(1) [OF Cons.prems(1)] cstr_Cons [OF Cons.prems(1)]
    by (subst strlen_loop.simps) (simp add: add32_exact)
qed

lemma strlen_spec: "cstr buf i s \<Longrightarrow> length s < 4294967296 \<Longrightarrow> strlen buf i = Inr (length s)"
  using strlen_loop_spec [of buf i s 0] by (simp add: strlen_def)

lemma string_equal_loop_spec:
  "cstr a i s \<Longrightarrow> cstr b i t \<Longrightarrow> string_equal_loop a b i = Inr (if s = t then 1 else 0)"
proof (induction s arbitrary: i t)
  case Nil
  then show ?case using cstr_head(2) [OF Nil(1)]
    by (subst string_equal_loop.simps; cases t) (auto simp: rd_def dest: cstr_head)
next
  case (Cons x s)
  note a = cstr_head(1) [OF Cons.prems(1)] cstr_Cons [OF Cons.prems(1)]
  show ?case
  proof (cases t)
    case Nil
    then show ?thesis using a cstr_head(2) [of b i] Cons.prems(2)
      by (subst string_equal_loop.simps) (simp add: rd_def)
  next
    case (Cons y t')
    note b = cstr_head(1) [OF Cons.prems(2) [unfolded Cons]] cstr_Cons [OF Cons.prems(2) [unfolded Cons]]
    show ?thesis using a b Cons.IH [OF a(2) b(2)] Cons
      by (subst string_equal_loop.simps) (simp add: rd_def)
  qed
qed

section \<open>Copying\<close>

definition put_str :: "char list \<Rightarrow> nat \<Rightarrow> char list \<Rightarrow> char list" where
  "put_str d j s = take j d @ s @ drop (j + length s) d"

lemma put_str_Cons: "j < length d \<Longrightarrow> put_str (d[j := c]) (j + 1) s = put_str d j (c # s)"
  by (simp add: put_str_def take_Suc_conv_app_nth)

lemma length_put_str: "j + length s \<le> length d \<Longrightarrow> length (put_str d j s) = length d"
  by (simp add: put_str_def)

lemma put_str_cstr:
  "NUL \<notin> set s \<Longrightarrow> j + length s < length d \<Longrightarrow> cstr (put_str d j (s @ [NUL])) j s"
  by (simp add: cstr_def put_str_def)

lemma strcpy_loop_spec:
  "cstr src i s \<Longrightarrow> strcpy_loop src i d j =
     (if j + length s < length d then Inr (put_str d j (s @ [NUL])) else Inl OutOfBounds)"
proof (induction s arbitrary: i d j)
  case Nil
  then show ?case using cstr_head(2) [OF Nil]
    by (subst strcpy_loop.simps) (simp add: wr_def put_str_def upd_conv_take_nth_drop)
next
  case (Cons c s)
  note h = cstr_head(1) [OF Cons.prems] cstr_Cons [OF Cons.prems]
  show ?case
  proof (cases "j < length d")
    case True
    then show ?thesis using h Cons.IH [OF h(2), of "d[j := c]" "j + 1"]
      by (subst strcpy_loop.simps) (simp add: wr_def put_str_Cons [symmetric])
  qed (use h in \<open>subst strcpy_loop.simps, simp add: wr_def\<close>)
qed

lemma memcpy_spec:
  "i + n \<le> length src \<Longrightarrow> j + n \<le> length d \<Longrightarrow>
     memcpy src i d j n = Inr (put_str d j (take n (drop i src)))"
proof (induction n arbitrary: i j d)
  case 0
  then show ?case by (simp add: put_str_def)
next
  case (Suc n)
  have "take (Suc n) (drop i src) = src ! i # take n (drop (i + 1) src)"
    using Suc.prems(1) by (simp add: Cons_nth_drop_Suc [symmetric])
  then show ?case using Suc by (simp add: rd_in wr_in put_str_Cons [symmetric])
qed

section \<open>Search\<close>

text \<open>The first occurrence of a pattern.\<close>

primrec find_sub :: "char list \<Rightarrow> char list \<Rightarrow> nat option" where
  "find_sub p [] = None"
| "find_sub p (c # s) = (if prefix p (c # s) then Some 0 else map_option Suc (find_sub p s))"

lemma find_sub_Some:
  "p \<noteq> [] \<Longrightarrow> find_sub p s = Some k \<longleftrightarrow> prefix p (drop k s) \<and> (\<forall>m < k. \<not> prefix p (drop m s))"
proof (induction s arbitrary: k)
  case (Cons c s)
  show ?case
  proof (cases k)
    case (Suc n)
    have "(\<forall>m < Suc n. \<not> prefix p (drop m (c # s))) \<longleftrightarrow> \<not> prefix p (c # s) \<and> (\<forall>m < n. \<not> prefix p (drop m s))"
      by (auto simp: less_Suc_eq_0_disj)
    then show ?thesis using Suc Cons by auto
  qed (use Cons in auto)
qed auto

lemma find_sub_None: "p \<noteq> [] \<Longrightarrow> find_sub p s = None \<longleftrightarrow> (\<forall>k. \<not> prefix p (drop k s))"
proof (induction s)
  case (Cons c s)
  have "(\<forall>k. \<not> prefix p (drop k (c # s))) \<longleftrightarrow> \<not> prefix p (c # s) \<and> (\<forall>k. \<not> prefix p (drop k s))"
    by (metis drop0 drop_Suc_Cons not0_implies_Suc)
  then show ?case using Cons by simp
qed auto

lemma strfd_inner_spec:
  "cstr pat j p \<Longrightarrow> cstr buf (i + j) s \<Longrightarrow>
     \<exists>k. strfd_inner buf i pat j = Inr k \<and> k < length pat \<and> (pat ! k = NUL \<longleftrightarrow> prefix p s)"
proof (induction p arbitrary: j s)
  case Nil
  then show ?case using cstr_head(2) by (subst strfd_inner.simps) auto
next
  case (Cons c p)
  note h = cstr_head(1) [OF Cons.prems(1)] cstr_Cons [OF Cons.prems(1)]
  show ?case
  proof (cases s)
    case Nil
    then show ?thesis using h cstr_head(2) [of buf "i + j"] Cons.prems(2)
      by (subst strfd_inner.simps) (simp add: rd_in)
  next
    case (Cons d s')
    note b = cstr_head(1) [OF Cons.prems(2) [unfolded Cons]] cstr_Cons [OF Cons.prems(2) [unfolded Cons]]
    show ?thesis
    proof (cases "d = c")
      case True
      then show ?thesis using Cons.IH [OF h(2), of s'] h b Cons
        by (subst strfd_inner.simps) (simp add: rd_in)
    next
      case False
      then show ?thesis using h b Cons by (subst strfd_inner.simps) (auto simp: rd_in)
    qed
  qed
qed

lemma strfd_loop_spec:
  assumes "cstr pat 0 p"
  shows "cstr buf i s \<Longrightarrow> strfd_loop buf i pat = Inr (map_option ((+) i) (find_sub p s))"
proof (induction s arbitrary: i)
  case Nil
  then show ?case using cstr_head(2) by (subst strfd_loop.simps) simp
next
  case (Cons c s)
  note h = cstr_head(1) [OF Cons.prems] cstr_Cons [OF Cons.prems]
  obtain k where k: "strfd_inner buf i pat 0 = Inr k" "k < length pat" "pat ! k = NUL \<longleftrightarrow> prefix p (c # s)"
    using strfd_inner_spec [OF assms, of buf i "c # s"] Cons.prems by auto
  show ?case
  proof (cases "prefix p (c # s)")
    case True
    then show ?thesis using h k by (subst strfd_loop.simps) (simp add: rd_in)
  next
    case False
    then have "strfd_loop buf i pat = strfd_loop buf (i + 1) pat"
      using h k by (subst strfd_loop.simps) (simp add: rd_in)
    then show ?thesis using Cons.IH [OF h(2)] False by (simp add: option.map_comp comp_def)
  qed
qed

lemma strfd_spec:
  assumes "cstr pat 0 p" "cstr buf i s"
  shows "strfd buf i pat = Inr (if p = [] then None else map_option ((+) i) (find_sub p s))"
proof (cases p)
  case Nil
  then show ?thesis using cstr_head(2) [of pat 0] assms(1) by (simp add: strfd_def rd_in)
next
  case (Cons c q)
  then show ?thesis using cstr_head(1) [of pat 0 c q] strfd_loop_spec [OF assms] assms(1)
    by (simp add: strfd_def rd_in)
qed

text \<open>The search finds the text's own start exactly when the pattern is a prefix of it.\<close>

lemma find_sub_0: "p \<noteq> [] \<Longrightarrow> find_sub p s = Some 0 \<longleftrightarrow> prefix p s"
  by (cases s) auto

function strip :: "char list \<Rightarrow> char list \<Rightarrow> char list" where
  "strip p s = (if p \<noteq> [] \<and> prefix p s then strip p (drop (length p) s) else s)"
  by auto
termination by (relation "measure (\<lambda>(_, s). length s)") (auto dest: prefix_length_le intro!: diff_less)

declare strip.simps [simp del]

lemma no_leading_loop_spec:
  assumes pat: "cstr pat 0 p"
  shows "cstr buf i s \<Longrightarrow> \<exists>j. no_leading_loop buf i pat (length p) = Inr j \<and> i \<le> j \<and>
     cstr buf j (strip p s) \<and> j + length (strip p s) = i + length s"
proof (induction "length s" arbitrary: i s rule: less_induct)
  case less
  show ?case
  proof (cases "p \<noteq> [] \<and> prefix p s")
    case True
    then obtain c s' where s: "s = c # s'" by (cases s) auto
    have le: "length p \<le> length s" using True by (auto dest: prefix_length_le)
    have d: "cstr buf (i + length p) (drop (length p) s)" by (rule cstr_drop [OF less.prems le])
    have "strfd buf i pat = Inr (Some i)"
      using strfd_spec [OF pat less.prems] True by (simp add: find_sub_0 [THEN iffD2])
    then have "no_leading_loop buf i pat (length p) = no_leading_loop buf (i + length p) pat (length p)"
      using True cstr_head(1) [OF less.prems [unfolded s]] by (subst no_leading_loop.simps) simp
    moreover have "length (drop (length p) s) < length s" using True s by (simp add: diff_less)
    moreover have "strip p s = strip p (drop (length p) s)" using True by (subst strip.simps) simp
    ultimately show ?thesis using less.hyps [OF _ d] le by fastforce
  next
    case False
    then have st: "strip p s = s" by (subst strip.simps) auto
    have "no_leading_loop buf i pat (length p) = Inr i"
    proof (cases s)
      case Nil
      then show ?thesis using cstr_head(2) [of buf i] less.prems by (subst no_leading_loop.simps) simp
    next
      case (Cons c s')
      have "strfd buf i pat \<noteq> Inr (Some i)"
        using strfd_spec [OF pat less.prems] False find_sub_0 [of p s] by auto
      then show ?thesis using cstr_head(1) [OF less.prems [unfolded Cons]] strfd_spec [OF pat less.prems]
        by (subst no_leading_loop.simps) auto
    qed
    then show ?thesis using st less.prems by simp
  qed
qed

lemma no_leading_spec:
  assumes "cstr pat 0 p" "length p < 4294967296" "cstr buf i s"
  shows "\<exists>j. no_leading buf i pat = Inr j \<and> i \<le> j \<and> cstr buf j (strip p s) \<and>
     j + length (strip p s) = i + length s"
  using no_leading_loop_spec [OF assms(1,3)] strlen_spec [OF assms(1,2)] by (simp add: no_leading_def)

section \<open>Tokens\<close>

text \<open>A delimiter of one character.\<close>

lemma prefix_single: "prefix [d] s \<longleftrightarrow> (\<exists>t. s = d # t)"
  by (auto simp: prefix_def)

lemma strip_single: "strip [d] s = dropWhile ((=) d) s"
proof (induction s)
  case Nil
  then show ?case by (subst strip.simps) simp
next
  case (Cons c s)
  then show ?case by (subst strip.simps) (auto simp: prefix_single)
qed

lemma find_sub_single:
  "find_sub [d] s = (if d \<in> set s then Some (length (takeWhile ((\<noteq>) d) s)) else None)"
  by (induction s) (auto simp: prefix_single)

definition token :: "char \<Rightarrow> char list \<Rightarrow> char list" where
  "token d s = takeWhile ((\<noteq>) d) (dropWhile ((=) d) s)"

definition rest :: "char \<Rightarrow> char list \<Rightarrow> char list" where
  "rest d s = dropWhile ((=) d) (dropWhile ((\<noteq>) d) (dropWhile ((=) d) s))"

lemma memcpy_overflow:
  "i + n \<le> length src \<Longrightarrow> j \<le> length d \<Longrightarrow> length d < j + n \<Longrightarrow> memcpy src i d j n = Inl OutOfBounds"
proof (induction n arbitrary: i j d)
  case (Suc n)
  show ?case
  proof (cases "j < length d")
    case True
    then show ?thesis using Suc by (simp add: rd_in wr_in)
  next
    case False
    then show ?thesis using Suc.prems by (simp add: rd_in wr_out)
  qed
qed simp

text \<open>Copying a token and closing it.\<close>

lemma copy_token:
  assumes "cstr buf j (t @ u)"
  shows "bind_res (memcpy buf j b 0 (length t)) (\<lambda>b. wr b (length t) NUL) =
     (if length t < length b then Inr (put_str b 0 (t @ [NUL])) else Inl OutOfBounds)"
proof -
  have l: "j + length t \<le> length buf" using cstr_nth(3) [OF assms] by simp
  have t: "take (length t) (drop j buf) = t"
  proof -
    have "take (length t) (take (length (t @ u) + 1) (drop j buf)) = t"
      using assms by (simp add: cstr_def)
    then show ?thesis by (simp add: min_def)
  qed
  show ?thesis
  proof (cases "length t \<le> length b")
    case True
    then have "memcpy buf j b 0 (length t) = Inr (put_str b 0 t)" using memcpy_spec [of j "length t" buf 0 b] l t by simp
    then show ?thesis using True by (simp add: wr_def put_str_def upd_conv_take_nth_drop)
  next
    case False
    then show ?thesis using memcpy_overflow [of j "length t" buf 0 b] l by simp
  qed
qed

lemma bind_res_merge: "bind_res r (\<lambda>b. bind_res (f b) g) = bind_res (bind_res r f) g"
  by (simp add: bind_res_assoc)

lemma strtok_spec:
  assumes del: "cstr del 0 [d]" and s: "cstr buf i s"
  shows "if length (token d s) < length buffer
     then \<exists>r. strtok buf i del buffer = Inr (put_str buffer 0 (token d s @ [NUL]), r) \<and>
       (case r of None \<Rightarrow> rest d s = [] | Some j \<Rightarrow> rest d s \<noteq> [] \<and> cstr buf j (rest d s))
     else strtok buf i del buffer = Inl OutOfBounds"
proof -
  let ?s0 = "dropWhile ((=) d) s"
  obtain j where j: "no_leading buf i del = Inr j" "cstr buf j ?s0"
    using no_leading_spec [OF del _ s] by (auto simp: strip_single)
  note fd = strfd_spec [OF del j(2)]
  show ?thesis
  proof (cases "d \<in> set ?s0")
    case False
    then have "strfd buf j del = Inr None" using fd by (simp add: find_sub_single)
    moreover have "token d s = ?s0" using False by (auto simp: token_def takeWhile_eq_all_conv)
    moreover have "dropWhile ((\<noteq>) d) ?s0 = []" unfolding dropWhile_eq_Nil_conv using False by auto
    then have "rest d s = []" unfolding rest_def by (simp only: dropWhile.simps)
    ultimately show ?thesis using strcpy_loop_spec [OF j(2), of buffer 0] j(1) by (simp add: strtok_def)
  next
    case True
    let ?t = "token d s"
    have ne: "dropWhile ((\<noteq>) d) ?s0 \<noteq> []" unfolding dropWhile_eq_Nil_conv using True by auto
    then obtain a u where u: "dropWhile ((\<noteq>) d) ?s0 = a # u" by (cases "dropWhile ((\<noteq>) d) ?s0") simp_all
    with hd_dropWhile [OF ne] have u: "dropWhile ((\<noteq>) d) ?s0 = d # u" by simp
    have sp: "?s0 = ?t @ d # u" using u takeWhile_dropWhile_id [of "(\<noteq>) d" ?s0] by (simp add: token_def)
    have fs: "strfd buf j del = Inr (Some (j + length ?t))"
      using fd True by (simp add: find_sub_single token_def)
    have cu: "cstr buf (j + length ?t + 1) u"
      using cstr_drop [OF j(2), of "length ?t + 1"] sp by (simp add: add.assoc)
    obtain k where k: "no_leading buf (j + length ?t + 1) del = Inr k" "cstr buf k (dropWhile ((=) d) u)"
      using no_leading_spec [OF del _ cu] by (auto simp: strip_single)
    have r: "rest d s = dropWhile ((=) d) u" using u by (simp add: rest_def)
    have rk: "rd buf k = Inr (buf ! k)" "buf ! k = NUL \<longleftrightarrow> rest d s = []" "cstr buf k (rest d s)"
      using cstr_end [OF k(2)] k(2) unfolding r by (simp_all only: rd_in simp_thms)
    have sl: "strlen del 0 = Inr 1" using strlen_spec [OF del] by simp
    have cp: "bind_res (memcpy buf j buffer 0 (length ?t)) (\<lambda>b. wr b (length ?t) NUL) =
       (if length ?t < length buffer then Inr (put_str buffer 0 (?t @ [NUL])) else Inl OutOfBounds)"
      by (rule copy_token) (use j(2) sp in simp)
    have "strtok buf i del buffer =
       (if length ?t < length buffer
        then Inr (put_str buffer 0 (?t @ [NUL]), if rest d s = [] then None else Some k) else Inl OutOfBounds)"
      unfolding strtok_def j(1) bind_res_simps fs option.case sl add_diff_cancel_left'
        bind_res_merge [of "memcpy _ _ _ _ _"] cp k(1) rk(1,2) by (cases "length ?t < length buffer") simp_all
    then show ?thesis using rk(3) by (cases "rest d s = []") auto
  qed
qed

text \<open>The fields of a text between the delimiters; the tokens are those that are not empty.\<close>

primrec fields :: "char \<Rightarrow> char list \<Rightarrow> char list list" where
  "fields d [] = [[]]"
| "fields d (c # s) = (if c = d then [] # fields d s else (c # hd (fields d s)) # tl (fields d s))"

definition runs :: "char \<Rightarrow> char list \<Rightarrow> char list list" where
  "runs d s = filter (\<lambda>t. t \<noteq> []) (fields d s)"

lemma fields_ne: "fields d s \<noteq> []"
  by (induction s) simp_all

lemma fields_append: "d \<notin> set t \<Longrightarrow> fields d (t @ d # u) = t # fields d u"
  by (induction t) auto

lemma fields_single: "d \<notin> set t \<Longrightarrow> fields d t = [t]"
  by (induction t) auto

lemma runs_skip: "runs d (dropWhile ((=) d) s) = runs d s"
  by (induction s) (auto simp: runs_def)

lemma runs_unfold:
  "runs d s = (if dropWhile ((=) d) s = [] then [] else token d s # runs d (rest d s))"
proof (cases "dropWhile ((=) d) s")
  case Nil
  have "runs d s = []" using runs_skip [of d s] unfolding Nil by (simp add: runs_def)
  then show ?thesis unfolding Nil by simp
next
  case (Cons c s')
  let ?s0 = "dropWhile ((=) d) s" and ?t = "token d s" and ?v = "dropWhile ((\<noteq>) d) (dropWhile ((=) d) s)"
  have "d \<noteq> hd ?s0" by (rule hd_dropWhile) (simp add: Cons)
  then have t: "?t \<noteq> []" "d \<notin> set ?t" using Cons by (auto simp: token_def dest: set_takeWhileD)
  have sp: "?s0 = ?t @ ?v" by (simp add: token_def)
  have "runs d ?s0 = ?t # runs d (rest d s)"
  proof (cases ?v)
    case Nil
    have "runs d ?t = [?t]" using t(1) fields_single [OF t(2)] by (simp add: runs_def)
    moreover have "?s0 = ?t" using sp unfolding Nil by (simp only: append_Nil2)
    ultimately have "runs d ?s0 = [?t]" by (simp only:)
    moreover have "rest d s = []" unfolding rest_def Nil by simp
    ultimately show ?thesis by (simp add: runs_def)
  next
    case v: (Cons a u)
    have "a = d" using hd_dropWhile [of "(\<noteq>) d" ?s0] unfolding v by simp
    then have "runs d ?s0 = ?t # runs d u" using t sp v fields_append [OF t(2), of u] by (simp add: runs_def)
    moreover have "rest d s = dropWhile ((=) d) u" unfolding rest_def v \<open>a = d\<close> by simp
    ultimately show ?thesis using runs_skip by simp
  qed
  then show ?thesis using runs_skip [of d s] Cons by simp
qed

lemma length_rest: "dropWhile ((=) d) s \<noteq> [] \<Longrightarrow> length (rest d s) < length s"
proof -
  assume ne: "dropWhile ((=) d) s \<noteq> []"
  have "d \<noteq> hd (dropWhile ((=) d) s)" by (rule hd_dropWhile [OF ne])
  then have "length (dropWhile ((\<noteq>) d) (dropWhile ((=) d) s)) < length (dropWhile ((=) d) s)"
    using ne by (cases "dropWhile ((=) d) s") (auto simp: less_Suc_eq_le length_dropWhile_le)
  also have "\<dots> \<le> length s" by (rule length_dropWhile_le)
  finally show ?thesis using length_dropWhile_le [of "(=) d" "dropWhile ((\<noteq>) d) (dropWhile ((=) d) s)"]
    by (simp add: rest_def)
qed

text \<open>
  A caller that asks for token after token with the same buffer, as the path walk of the file system
  does. The first argument bounds the number of calls.
\<close>

definition string_at :: "char list \<Rightarrow> char list" where
  "string_at b = takeWhile (\<lambda>c. c \<noteq> NUL) b"

primrec strtok_all :: "nat \<Rightarrow> char list \<Rightarrow> nat \<Rightarrow> char list \<Rightarrow> char list \<Rightarrow> char list list res option" where
  "strtok_all 0 s i del buffer = None"
| "strtok_all (Suc n) s i del buffer =
     bind_ro (Some (strtok s i del buffer)) (\<lambda>(b, r).
       case r of None \<Rightarrow> Some (Inr [string_at b])
       | Some j \<Rightarrow> bind_ro (strtok_all n s j del b) (\<lambda>ts. Some (Inr (string_at b # ts))))"

lemma string_at_put: "NUL \<notin> set t \<Longrightarrow> string_at (put_str b 0 (t @ [NUL])) = t"
proof -
  assume "NUL \<notin> set t"
  then have "takeWhile (\<lambda>c. c \<noteq> NUL) (t @ NUL # xs) = t" for xs by (induction t) auto
  then show ?thesis by (simp add: string_at_def put_str_def)
qed

lemma token_no_NUL: "NUL \<notin> set s \<Longrightarrow> NUL \<notin> set (token d s)"
  by (auto simp: token_def dest!: set_takeWhileD set_dropWhileD)

lemma rest_starts: "rest d s \<noteq> [] \<Longrightarrow> dropWhile ((=) d) (rest d s) \<noteq> []"
  unfolding rest_def by (simp only: dropWhile_idem not_False_eq_True)

lemma strtok_all_spec:
  assumes del: "cstr del 0 [d]"
  shows "cstr buf i s \<Longrightarrow> dropWhile ((=) d) s \<noteq> [] \<Longrightarrow> \<forall>t \<in> set (runs d s). length t < length b \<Longrightarrow>
     length s < n \<Longrightarrow> strtok_all n buf i del b = Some (Inr (runs d s))"
proof (induction n arbitrary: i s b)
  case (Suc n)
  let ?t = "token d s" and ?b = "put_str b 0 (token d s @ [NUL])"
  have ru: "runs d s = ?t # runs d (rest d s)" using runs_unfold [of d s] Suc.prems(2) by simp
  have lt: "length ?t < length b" using Suc.prems(3) ru by simp
  have sa: "string_at ?b = ?t"
    using cstr_nth(4) [OF Suc.prems(1)] by (intro string_at_put token_no_NUL)
  have lb: "length ?b = length b" using length_put_str [of 0 "?t @ [NUL]" b] lt by simp
  obtain r where r: "strtok buf i del b = Inr (?b, r)"
    "case r of None \<Rightarrow> rest d s = [] | Some j \<Rightarrow> rest d s \<noteq> [] \<and> cstr buf j (rest d s)"
    using strtok_spec [OF del Suc.prems(1), of b] lt by auto
  show ?case
  proof (cases r)
    case None
    then show ?thesis using r sa ru by (simp add: runs_def)
  next
    case (Some j)
    have ih: "strtok_all n buf j del ?b = Some (Inr (runs d (rest d s)))"
      using Suc.IH [of j "rest d s" ?b] r(2) Some rest_starts [of d s] length_rest [OF Suc.prems(2)]
        Suc.prems(3,4) ru lb by simp
    show ?thesis using r(1) Some ih sa ru by simp
  qed
qed simp

lemma strtok_all_blank:
  assumes "cstr del 0 [d]" "cstr buf i s" "dropWhile ((=) d) s = []" "0 < length b" "0 < n"
  shows "strtok_all n buf i del b = Some (Inr [[]])"
proof -
  have t: "token d s = []" "rest d s = []" unfolding token_def rest_def assms(3) by simp_all
  obtain r where r: "strtok buf i del b = Inr (put_str b 0 ([] @ [NUL]), r)" "r = None"
    using strtok_spec [OF assms(1,2), of b] assms(4) unfolding t by (auto split: option.splits)
  then show ?thesis using assms(5) string_at_put [of "[]" b] by (cases n) simp_all
qed

section \<open>Numbers\<close>

definition digit :: "nat \<Rightarrow> char" where
  "digit n = chr_int (int n + 48)"

function rdigits :: "nat \<Rightarrow> char list" where
  "rdigits n = digit (n mod 10) # (if n div 10 = 0 then [] else rdigits (n div 10))"
  by auto
termination by (relation "measure id") auto

declare rdigits.simps [simp del]

definition decimal :: "nat \<Rightarrow> char list" where
  "decimal n = rev (rdigits n)"

lemma schar_digit: "n < 10 \<Longrightarrow> schar (digit n) = int n + 48"
  by (simp add: digit_def schar_chr_int)

lemma digit_ne_NUL: "n < 10 \<Longrightarrow> digit n \<noteq> NUL"
  using schar_digit [of n] by (auto simp: schar_def uchar_def)

lemma rdigits_digits: "c \<in> set (rdigits n) \<Longrightarrow> \<exists>k < 10. c = digit k"
proof (induction n rule: rdigits.induct)
  case (1 n)
  have "c = digit (n mod 10) \<or> n div 10 \<noteq> 0 \<and> c \<in> set (rdigits (n div 10))"
    using 1(2) by (subst (asm) rdigits.simps) (auto split: if_splits)
  then show ?case
  proof
    assume "c = digit (n mod 10)"
    then show ?thesis by (intro exI [of _ "n mod 10"]) simp
  qed (use 1(1) in blast)
qed

lemma rdigits_no_NUL: "NUL \<notin> set (rdigits n)"
  using rdigits_digits [of NUL n] digit_ne_NUL by metis

lemma itoa_digits_spec:
  "i + length (rdigits n) \<le> length buf \<Longrightarrow>
     itoa_digits (int n) buf i = Inr (put_str buf i (rdigits n), i + length (rdigits n))"
proof (induction n arbitrary: i buf rule: rdigits.induct)
  case (1 n)
  have d: "c_mod (int n) 10 + 48 = int (n mod 10) + 48" "c_div (int n) 10 = int (n div 10)"
    by (simp_all add: c_arith zmod_int zdiv_int)
  have i: "i < length buf" using 1(2) by (subst (asm) rdigits.simps) simp
  show ?case
  proof (cases "n div 10 = 0")
    case True
    then have "rdigits n = [digit (n mod 10)]" by (subst rdigits.simps) simp
    then show ?thesis using True i d
      by (subst itoa_digits.simps) (simp add: wr_in digit_def put_str_def upd_conv_take_nth_drop)
  next
    case False
    then have r: "rdigits n = digit (n mod 10) # rdigits (n div 10)" by (subst rdigits.simps) simp
    have ih: "itoa_digits (int (n div 10)) (buf[i := digit (n mod 10)]) (i + 1) =
        Inr (put_str (buf[i := digit (n mod 10)]) (i + 1) (rdigits (n div 10)), i + 1 + length (rdigits (n div 10)))"
      using 1(2) r by (intro 1(1) [OF False]) simp
    have "itoa_digits (int n) buf i = itoa_digits (int (n div 10)) (buf[i := digit (n mod 10)]) (i + 1)"
      using False i unfolding itoa_digits.simps [of "int n"] d by (simp add: wr_in digit_def)
    then show ?thesis unfolding ih r using put_str_Cons [OF i] by simp
  qed
qed

lemma itoa_reverse_spec:
  "n = i + 1 - j \<Longrightarrow> j \<le> i + 1 \<Longrightarrow> i < length buf \<Longrightarrow>
     itoa_reverse buf j i = Inr (take j buf @ rev (take n (drop j buf)) @ drop (i + 1) buf)"
proof (induction n arbitrary: i j buf rule: less_induct)
  case (less n)
  show ?case
  proof (cases "j < i")
    case False
    then have n: "n \<le> 1" using less.prems by simp
    have "rev (take n (drop j buf)) = take n (drop j buf)"
      using n by (cases "drop j buf"; cases n) simp_all
    moreover have "take j buf @ take n (drop j buf) = take (i + 1) buf"
      using less.prems by (metis append_take_drop_id le_add_diff_inverse take_add)
    ultimately show ?thesis using False by (subst itoa_reverse.simps) (metis append_assoc append_take_drop_id)
  next
    case True
    let ?b = "buf[j := buf ! i, i := buf ! j]"
    let ?mid = "take (n - 2) (drop (j + 1) buf)"
    have l: "j < length buf" "i < length buf" using True less.prems by simp_all
    have step: "itoa_reverse buf j i = itoa_reverse ?b (j + 1) (i - 1)"
      using True l by (subst itoa_reverse.simps) (simp add: rd_in wr_in)
    have ih: "itoa_reverse ?b (j + 1) (i - 1) =
        Inr (take (j + 1) ?b @ rev (take (n - 2) (drop (j + 1) ?b)) @ drop (i - 1 + 1) ?b)"
      using True less.prems by (intro less.IH) auto
    have tj: "take (j + 1) ?b = take j buf @ [buf ! i]"
      using True l by (simp add: take_Suc_conv_app_nth)
    have mid: "take (n - 2) (drop (j + 1) ?b) = ?mid"
      using True less.prems l by (simp add: list_eq_iff_nth_eq nth_list_update min_def)
    have di: "drop (i - 1 + 1) ?b = buf ! j # drop (i + 1) buf"
      using True l by (simp add: Cons_nth_drop_Suc [symmetric] drop_update_cancel)
    have seg: "take n (drop j buf) = buf ! j # ?mid @ [buf ! i]"
    proof -
      obtain m where m: "n = Suc (Suc m)" "i = Suc (j + m)" using True less.prems by (intro that [of "n - 2"]) auto
      have "take n (drop j buf) = buf ! j # take (Suc m) (drop (Suc j) buf)"
        using m l by (simp add: Cons_nth_drop_Suc [symmetric])
      also have "take (Suc m) (drop (Suc j) buf) = take m (drop (Suc j) buf) @ [buf ! i]"
        using m l by (simp add: take_Suc_conv_app_nth)
      finally show ?thesis using m by simp
    qed
    show ?thesis unfolding step ih tj mid di seg by simp
  qed
qed

lemma itoa_spec:
  assumes "length (decimal n) < k" "k \<le> length buf"
  shows "itoa (int n) buf (int k) =
     Inr (decimal n @ replicate (k - length (decimal n)) NUL @ drop k buf)"
proof -
  let ?r = "rdigits n"
  let ?z = "replicate k NUL @ drop k buf"
  have len: "length ?r < k" using assms(1) by (simp add: decimal_def)
  have ms: "memset buf NUL (int k) = Inr ?z" using fill_range_spec [of 0 k buf NUL] assms(2) by (simp add: memset_def)
  have p: "put_str ?z 0 ?r = ?r @ replicate (k - length ?r) NUL @ drop k buf"
    using len by (simp add: put_str_def)
  have id: "itoa_digits (int n) ?z 0 = Inr (?r @ replicate (k - length ?r) NUL @ drop k buf, length ?r)"
    using itoa_digits_spec [of 0 n ?z] len assms(2) p by simp
  have pos: "0 < length ?r" by (subst rdigits.simps) simp
  have "itoa_reverse (?r @ replicate (k - length ?r) NUL @ drop k buf) 0 (length ?r - 1) =
      Inr (rev ?r @ replicate (k - length ?r) NUL @ drop k buf)"
    using itoa_reverse_spec [of "length ?r" "length ?r - 1" 0 "?r @ replicate (k - length ?r) NUL @ drop k buf"] pos
    by simp
  then show ?thesis using ms id by (simp add: itoa_def decimal_def)
qed

definition dec_val :: "char list \<Rightarrow> int" where
  "dec_val w = foldl (\<lambda>v c. v * 10 + (schar c - 48)) 0 w"

lemma dec_val_decimal: "dec_val (decimal n) = int n"
proof (induction n rule: rdigits.induct)
  case (1 n)
  have m: "schar (digit (n mod 10)) - 48 = int (n mod 10)" by (simp add: schar_digit)
  show ?case
  proof (cases "n div 10 = 0")
    case True
    then have "rdigits n = [digit (n mod 10)]" by (subst rdigits.simps) simp
    then show ?thesis using True m by (simp add: dec_val_def decimal_def div_eq_0_iff)
  next
    case False
    then have "decimal n = decimal (n div 10) @ [digit (n mod 10)]"
      unfolding decimal_def by (subst rdigits.simps) simp
    then have "dec_val (decimal n) = int (n div 10) * 10 + int (n mod 10)"
      using 1(1) [OF False] m by (simp add: dec_val_def)
    also have "\<dots> = int n" by (metis div_mult_mod_eq of_nat_add of_nat_mult of_nat_numeral)
    finally show ?thesis .
  qed
qed

lemma atoi_loop_digits:
  "cstr buf i w \<Longrightarrow> \<forall>c \<in> set w. \<exists>k < 10. c = digit k \<Longrightarrow>
     atoi_loop buf i 10 (v mod 4294967296) =
       Inr (nat (foldl (\<lambda>v c. v * 10 + (schar c - 48)) v w mod 4294967296))"
proof (induction w arbitrary: i v)
  case Nil
  then show ?case using cstr_head(2) by (subst atoi_loop.simps) simp
next
  case (Cons c w)
  note h = cstr_head(1) [OF Cons.prems(1)] cstr_Cons [OF Cons.prems(1)]
  obtain k where k: "k < 10" "c = digit k" using Cons.prems(2) by auto
  have sc: "schar c \<le> 57" "48 \<le> schar c" using k schar_digit [of k] by simp_all
  have m: "(v mod 4294967296 * int 10 mod 4294967296 + (schar c - 48)) mod 4294967296 =
      (v * 10 + (schar c - 48)) mod 4294967296"
    by (simp add: mod_simps)
  have "atoi_loop buf i 10 (v mod 4294967296) = atoi_loop buf (i + 1) 10 ((v * 10 + (schar c - 48)) mod 4294967296)"
    unfolding atoi_loop.simps [of buf i] using h sc by (simp only: Let_def if_True m simp_thms)
  then show ?case using Cons.IH [OF h(2)] Cons.prems(2) by simp
qed

lemma atoi_decimal:
  "cstr buf i (decimal n) \<Longrightarrow> n < 4294967296 \<Longrightarrow> atoi buf i 10 = Inr n"
  using atoi_loop_digits [of buf i "decimal n" 0] dec_val_decimal [of n] rdigits_digits
  by (auto simp: atoi_def dec_val_def decimal_def)

section \<open>Properties\<close>

text \<open>
  C33. Asking \<open>strtok\<close> for token after token, with a delimiter of one character and a buffer that holds
  every token, ends for every text. If the text has a character other than the delimiter, the tokens are exactly
  the fields between delimiters that are not empty, in order: leading, trailing and repeated delimiters
  make no difference. For an empty text or one of delimiters only it yields a single empty token.
\<close>

theorem strtok_yields_fields:
  assumes "cstr del 0 [d]" "cstr buf i s" "\<forall>t \<in> set (fields d s). length t < length buffer" "length s < n"
  shows "strtok_all n buf i del buffer =
    Some (Inr (if \<exists>c \<in> set s. c \<noteq> d then filter (\<lambda>t. t \<noteq> []) (fields d s) else [[]]))"
proof (cases "\<exists>c \<in> set s. c \<noteq> d")
  case True
  then have "dropWhile ((=) d) s \<noteq> []" unfolding dropWhile_eq_Nil_conv by auto
  moreover have "\<forall>t \<in> set (runs d s). length t < length buffer" using assms(3) by (simp add: runs_def)
  ultimately show ?thesis using strtok_all_spec [OF assms(1,2) _ _ assms(4)] True by (simp add: runs_def)
next
  case False
  then have "dropWhile ((=) d) s = []" by auto
  moreover have "0 < length buffer" using assms(3) fields_ne [of d s] by (cases "fields d s") auto
  ultimately show ?thesis using strtok_all_blank [OF assms(1,2)] False assms(4) by auto
qed

theorem strtok_yields_fields_witness:
  "strtok_all 9 (''//usr//a'' @ [NUL]) 0 (''/'' @ [NUL]) (replicate 4 NUL) =
     Some (Inr (filter (\<lambda>t. t \<noteq> []) (fields (CHR ''/'') ''//usr//a''))) \<and>
   filter (\<lambda>t. t \<noteq> []) (fields (CHR ''/'') ''//usr//a'') = [''usr'', ''a''] \<and>
   strtok_all 9 (''//'' @ [NUL]) 0 (''/'' @ [NUL]) (replicate 4 NUL) = Some (Inr [[]])"
proof -
  have c: "cstr (''/'' @ [NUL]) 0 ''/''" "cstr (''//usr//a'' @ [NUL]) 0 ''//usr//a''" "cstr (''//'' @ [NUL]) 0 ''//''"
    by (simp_all add: cstr_def)
  from strtok_yields_fields [OF c(1,2), of "replicate 4 NUL" 9] strtok_yields_fields [OF c(1,3), of "replicate 4 NUL" 9]
  show ?thesis by simp
qed

text \<open>
  \<open>strfd\<close> on strings: an empty pattern is never found; otherwise the result is the first position
  where the pattern occurs, or \<open>NULL\<close> when it occurs nowhere. It always returns.
\<close>

theorem strfd_first_occurrence:
  assumes "cstr pat 0 p" "cstr buf i s"
  shows "\<exists>r. strfd buf i pat = Inr r \<and>
     (case r of None \<Rightarrow> p = [] \<or> (\<forall>k. \<not> prefix p (drop k s))
      | Some j \<Rightarrow> p \<noteq> [] \<and> i \<le> j \<and> prefix p (drop (j - i) s) \<and> (\<forall>m < j - i. \<not> prefix p (drop m s)))"
proof (cases "p = []")
  case True
  then show ?thesis using strfd_spec [OF assms] by simp
next
  case False
  show ?thesis
  proof (cases "find_sub p s")
    case None
    then show ?thesis using strfd_spec [OF assms] False find_sub_None [OF False, of s] by simp
  next
    case (Some k)
    then show ?thesis using strfd_spec [OF assms] False find_sub_Some [OF False, of s k] by simp
  qed
qed

theorem strfd_first_occurrence_witness:
  "\<exists>r. strfd (''abcbc'' @ [NUL]) 0 (''bc'' @ [NUL]) = Inr r \<and>
     (case r of None \<Rightarrow> ''bc'' = [] \<or> (\<forall>k. \<not> prefix ''bc'' (drop k ''abcbc''))
      | Some j \<Rightarrow> ''bc'' \<noteq> [] \<and> 0 \<le> j \<and> prefix ''bc'' (drop (j - 0) ''abcbc'') \<and>
          (\<forall>m < j - 0. \<not> prefix ''bc'' (drop m ''abcbc'')))"
  by (rule strfd_first_occurrence) (simp_all add: cstr_def)

text \<open>
  \<open>string_equal\<close> on two strings returns 1 when they are the same and 0 otherwise; it never reads
  past the end of either.
\<close>

theorem string_equal_correct:
  assumes "cstr a 0 s" "cstr b 0 t"
  shows "string_equal (Some a) (Some b) = Inr (if s = t then 1 else 0)"
  using string_equal_loop_spec [OF assms] by (simp add: string_equal_def)

theorem string_equal_correct_witness:
  "string_equal (Some (''ab'' @ [NUL])) (Some (''abc'' @ [NUL])) = Inr (if ''ab'' = ''abc'' then 1 else 0)"
  by (rule string_equal_correct) (simp_all add: cstr_def)

text \<open>
  \<open>strcat\<close> writes the concatenation of the two strings, closed by a NUL, to the destination and
  leaves its other bytes alone; it has no bounds check, and a destination that is too short is
  overrun.
\<close>

theorem strcat_concatenates:
  assumes "cstr a 0 s" "cstr b 0 t" "length s < 4294967296"
  shows "strcat (Some a) (Some b) (Some d) =
     (if length s + length t < length d
      then Inr (Some (s @ t @ NUL # drop (length s + length t + 1) d)) else Inl OutOfBounds)"
proof (cases "length s < length d")
  case True
  let ?d1 = "put_str d 0 (s @ [NUL])"
  have d1: "strcpy_loop a 0 d 0 = Inr ?d1" "length ?d1 = length d"
    using strcpy_loop_spec [OF assms(1), of d 0] True length_put_str [of 0 "s @ [NUL]" d] by simp_all
  have "take (length s) ?d1 = s" "drop (length s + Suc (length t)) ?d1 = drop (length s + Suc (length t)) d"
    by (simp_all add: put_str_def add.commute)
  then have "put_str ?d1 (length s) (t @ [NUL]) = s @ t @ NUL # drop (length s + length t + 1) d"
    unfolding put_str_def [of ?d1] by simp
  then show ?thesis
    using strlen_spec [OF assms(1,3)] d1 strcpy_loop_spec [OF assms(2), of ?d1 "length s"]
    by (simp add: strcat_def)
next
  case False
  then show ?thesis
    using strlen_spec [OF assms(1,3)] strcpy_loop_spec [OF assms(1), of d 0] by (simp add: strcat_def)
qed

theorem strcat_concatenates_witness:
  "strcat (Some (''ab'' @ [NUL])) (Some (''c'' @ [NUL])) (Some ''xxxxx'') =
     Inr (Some (''abc'' @ [NUL] @ ''x''))"
  using strcat_concatenates [of "''ab'' @ [NUL]" "''ab''" "''c'' @ [NUL]" "''c''" "''xxxxx''"]
  by (simp add: cstr_def)

text \<open>
  C34. \<open>itoa\<close> of a number that is not negative, with room for its digits and a NUL, leaves a string
  that \<open>atoi\<close> with base 10 reads back as the same number.
\<close>

theorem itoa_atoi_roundtrip:
  assumes "n < 2147483648" "length (decimal n) < k" "k \<le> length buf"
  shows "\<exists>b. itoa (int n) buf (int k) = Inr b \<and> cstr b 0 (decimal n) \<and> atoi b 0 10 = Inr n"
proof -
  let ?b = "decimal n @ replicate (k - length (decimal n)) NUL @ drop k buf"
  have nn: "NUL \<notin> set (decimal n)" using rdigits_no_NUL by (simp add: decimal_def)
  have "replicate (k - length (decimal n)) NUL = NUL # replicate (k - length (decimal n) - 1) NUL"
    using assms(2) by (cases "k - length (decimal n)") simp_all
  then have "cstr ?b 0 (decimal n)"
    using cstr_append_NUL [OF nn, of "[]"] by simp
  then show ?thesis using itoa_spec [OF assms(2,3)] atoi_decimal [of ?b 0 n] assms(1) by auto
qed

theorem itoa_atoi_roundtrip_witness:
  "\<exists>b. itoa (int 1024) (replicate 8 NUL) (int 8) = Inr b \<and> cstr b 0 (decimal 1024) \<and> atoi b 0 10 = Inr 1024"
  by (rule itoa_atoi_roundtrip) (simp_all add: decimal_def rdigits.simps)

text \<open>
  \<open>itoa\<close> is wrong for negative numbers: C's remainder is negative too, so that -12 comes out as
  the characters before the digit 0, without a sign.
\<close>

theorem itoa_negative_wrong: "\<exists>b. itoa (- 12) (replicate 8 NUL) 8 = Inr b \<and> cstr b 0 ''/.''"
proof -
  have d: "c_div (- 12) 10 = - 1" "c_mod (- 12) 10 = - 2" "c_div (- 1) 10 = 0" "c_mod (- 1) 10 = - 1"
    by (simp_all add: c_div_def c_mod_def)
  have m: "memset (replicate 8 NUL) NUL 8 = Inr (replicate 8 NUL)"
    using fill_range_spec [of 0 8 "replicate 8 NUL" NUL] by (simp add: memset_def)
  have ch: "chr_int 46 = CHR ''.''" "chr_int 47 = CHR ''/''" by (simp_all add: chr_int_def char_of_def bit_0)
  have "itoa_digits (- 12) (replicate 8 NUL) 0 = Inr (''./'' @ replicate 6 NUL, 2)"
    by (subst itoa_digits.simps, subst itoa_digits.simps) (simp add: d ch wr_def numeral_eq_Suc)
  moreover have "itoa_reverse (''./'' @ replicate 6 NUL) 0 1 = Inr (''/.'' @ replicate 6 NUL)"
    using itoa_reverse_spec [of 2 1 0 "''./'' @ replicate 6 NUL"] by (simp add: numeral_eq_Suc)
  ultimately show ?thesis using m by (simp add: itoa_def cstr_def numeral_eq_Suc)
qed

end
