(* ===== verification/Ts_Console_Inv.thy ===== *)
theory Ts_Console_Inv
  imports Ts_Console
begin

text \<open>
  The layout of a text on 20 columns and the invariant of the console.

  \<open>lay\<close> gives the cells a text occupies: a newline takes a cell and blanks the rest of its row. The
  lemmas show what each loop of the console computes in these terms; \<open>con_inv c log\<close> says that the
  history ring holds the end of the text \<open>log\<close> written so far, that the window holds the layout of the
  part it shows, and that the screen shows the window.
\<close>

section \<open>Layout\<close>

definition row_pad :: "nat \<Rightarrow> nat" where
  "row_pad n = (20 - n mod 20) mod 20"

definition cell_len :: "nat \<Rightarrow> char \<Rightarrow> nat" where
  "cell_len n ch = (if ch = NL then Suc (row_pad (Suc n)) else 1)"

primrec lay_from :: "nat \<Rightarrow> char list \<Rightarrow> char list" where
  "lay_from n [] = []"
| "lay_from n (ch # cs) =
     ch # replicate (cell_len n ch - 1) NUL @ lay_from (n + cell_len n ch) cs"

abbreviation lay :: "char list \<Rightarrow> char list" where
  "lay \<equiv> lay_from 0"

text \<open>How many characters of a text fit the window from cell \<open>n\<close> on, and how many the row.\<close>

primrec fitn :: "nat \<Rightarrow> char list \<Rightarrow> nat" where
  "fitn n [] = 0"
| "fitn n (ch # cs) = (if n < 80 then Suc (fitn (n + cell_len n ch) cs) else 0)"

primrec rowlen :: "nat \<Rightarrow> char list \<Rightarrow> nat" where
  "rowlen n [] = 0"
| "rowlen n (ch # cs) = (if n < 20 then if ch = NL then 1 else Suc (rowlen (Suc n) cs) else 0)"

definition disp :: "char \<Rightarrow> char" where
  "disp ch = (if ch = NL then NUL else ch)"

lemma disp_simps [simp]: "disp NL = NUL" "disp NUL = NUL" "ch \<noteq> NL \<Longrightarrow> disp ch = ch"
  by (simp_all add: disp_def)

lemma cell_len_pos [simp]: "0 < cell_len n ch"
  by (simp add: cell_len_def)

lemma cell_len_other [simp]: "ch \<noteq> NL \<Longrightarrow> cell_len n ch = Suc 0"
  by (simp add: cell_len_def)

lemma row_end:
  assumes "q * 20 \<le> n" "n < q * 20 + 20"
  shows "n + cell_len n NL = q * 20 + 20"
proof -
  obtain r where r: "n = q * 20 + r" "r < 20" using assms by (metis le_add_diff_inverse add_less_cancel_left)
  then have "Suc n mod 20 = Suc r mod 20" by (metis add_Suc_right mod_mult_self3)
  then show ?thesis using r by (cases "r = 19") (simp_all add: cell_len_def row_pad_def)
qed

lemma newline_end: "n + cell_len n NL = n div 20 * 20 + 20"
  by (rule row_end) (simp_all add: div_times_less_eq_dividend dividend_less_div_times)

lemma newline_end_80: "n < 80 \<Longrightarrow> n + cell_len n NL \<le> 80"
  unfolding newline_end by (simp add: less_mult_imp_div_less)

lemma length_lay_Cons: "length (lay_from n (ch # cs)) = cell_len n ch + length (lay_from (n + cell_len n ch) cs)"
  using cell_len_pos [of n ch] by simp

lemma lay_append: "lay_from n (xs @ ys) = lay_from n xs @ lay_from (n + length (lay_from n xs)) ys"
proof (induction xs arbitrary: n)
  case (Cons ch cs)
  have "n + length (lay_from n (ch # cs)) =
      n + cell_len n ch + length (lay_from (n + cell_len n ch) cs)"
    unfolding length_lay_Cons by simp
  then show ?case using Cons.IH by (simp add: add.assoc del: length_append)
qed simp

lemma row_pad_period: "row_pad (20 * k + n) = row_pad n"
  by (simp add: row_pad_def)

lemma cell_len_period: "cell_len (20 * k + n) ch = cell_len n ch"
  using row_pad_period [of k "Suc n"] by (simp add: cell_len_def)

lemma lay_period: "lay_from (20 * k + n) xs = lay_from n xs"
  by (induction xs arbitrary: n) (simp_all add: cell_len_period add.assoc)

lemma lay_append_row: "length (lay xs) = 20 * k \<Longrightarrow> lay (xs @ ys) = lay xs @ lay ys"
  using lay_period [of k 0 ys] by (simp add: lay_append)

lemma length_lay_ge: "length xs \<le> length (lay_from n xs)"
proof (induction xs arbitrary: n)
  case (Cons ch cs)
  have "length cs \<le> length (lay_from (n + cell_len n ch) cs)" by (rule Cons.IH)
  then show ?case unfolding length_lay_Cons list.size using cell_len_pos [of n ch] by linarith
qed simp

lemma fitn_le: "fitn n xs \<le> length xs"
  by (induction xs arbitrary: n) auto

lemma length_fitn: "n \<le> 80 \<Longrightarrow> n + length (lay_from n (take (fitn n xs) xs)) \<le> 80"
proof (induction xs arbitrary: n)
  case (Cons ch cs)
  show ?case
  proof (cases "n < 80")
    case True
    then have "n + cell_len n ch \<le> 80" by (cases "ch = NL") (simp_all add: newline_end_80)
    then show ?thesis using Cons.IH [of "n + cell_len n ch"] True
      by (simp only: fitn.simps if_True take_Suc_Cons length_lay_Cons add.assoc)
  qed (use Cons.prems in simp)
qed simp

lemma fitn_all: "n + length (lay_from n xs) \<le> 80 \<Longrightarrow> fitn n xs = length xs"
proof (induction xs arbitrary: n)
  case (Cons ch cs)
  then have le: "n + cell_len n ch + length (lay_from (n + cell_len n ch) cs) \<le> 80"
    unfolding length_lay_Cons by simp
  then have "n < 80" using cell_len_pos [of n ch] by linarith
  then show ?case using Cons.IH [OF le] by simp
qed simp

lemma rowlen_le: "rowlen n xs \<le> length xs"
  by (induction xs arbitrary: n) auto

lemma rowlen_pos: "xs \<noteq> [] \<Longrightarrow> 0 < rowlen 0 xs"
  by (cases xs) simp_all

lemma length_row:
  "n < 20 \<Longrightarrow> 20 \<le> n + length (lay_from n xs) \<Longrightarrow>
     n + length (lay_from n (take (rowlen n xs) xs)) = 20"
proof (induction xs arbitrary: n)
  case (Cons ch cs)
  show ?case
  proof (cases "ch = NL")
    case True
    then show ?thesis using Cons.prems(1) row_end [of 0 n] by (simp add: length_lay_Cons del: lay_from.simps) simp
  next
    case False
    show ?thesis
    proof (cases "Suc n < 20")
      case True
      then show ?thesis using False Cons.IH [of "Suc n"] Cons.prems by simp
    next
      case f: False
      then have "rowlen (Suc n) cs = 0" by (cases cs) simp_all
      then show ?thesis using False f Cons.prems by simp
    qed
  qed
qed simp

lemma lay_drop_row:
  assumes "20 \<le> length (lay xs)"
  shows "lay xs = lay (take (rowlen 0 xs) xs) @ lay (drop (rowlen 0 xs) xs)"
    and "length (lay (take (rowlen 0 xs) xs)) = 20"
proof -
  show len: "length (lay (take (rowlen 0 xs) xs)) = 20" using length_row [of 0 xs] assms by simp
  then show "lay xs = lay (take (rowlen 0 xs) xs) @ lay (drop (rowlen 0 xs) xs)"
    using lay_append_row [of "take (rowlen 0 xs) xs" 1 "drop (rowlen 0 xs) xs"] by simp
qed

section \<open>The loops\<close>

definition con_geom :: "console \<Rightarrow> bool" where
  "con_geom c \<longleftrightarrow> vga_std (screen c) \<and> console_max_col c = 20 \<and> console_max_row c = 6 \<and>
     status_bar_lines c = 1 \<and> max_window_size c = 80 \<and> console_init_flag c \<and>
     length (history c) = 100 \<and> length (window c) = 80 \<and> length (input_buf c) = 512 \<and> input_cnt c \<le> 40"

lemma con_geomD:
  assumes "con_geom c"
  shows "vga_std (screen c)" "console_max_col c = 20" "console_max_row c = 6" "status_bar_lines c = 1"
    "max_window_size c = 80" "console_init_flag c" "length (history c) = 100"
    "length (window c) = 80" "length (input_buf c) = 512" "input_cnt c \<le> 40"
  using assms by (simp_all add: con_geom_def)

text \<open>The ring holds the last 100 characters of the text written so far.\<close>

definition ring :: "console \<Rightarrow> char list \<Rightarrow> bool" where
  "ring c log \<longleftrightarrow> history_cnt c = length log \<and>
     (\<forall>i. i < length log \<longrightarrow> length log \<le> i + 100 \<longrightarrow> history c ! (i mod 100) = log ! i)"

lemma hist_at_ring:
  assumes "con_geom c" "ring c log" "i < length log" "length log \<le> i + 100"
  shows "hist_at c i = Inr (log ! i)"
  using assms by (simp add: hist_at_def rd_def con_geomD ring_def)

lemma pad_row_spec:
  assumes "con_geom c" "length win = 80" "n \<le> 80"
  shows "pad_row c win n = Inr (take n win @ replicate (row_pad n) NUL @ drop (n + row_pad n) win, n + row_pad n)"
    and "n + row_pad n \<le> 80"
proof -
  have "pad_row c win n = Inr (take n win @ replicate (row_pad n) NUL @ drop (n + row_pad n) win, n + row_pad n)
      \<and> n + row_pad n \<le> 80"
    using assms(2,3)
  proof (induction "80 - n" arbitrary: n win)
    case 0
    then show ?case using assms(1) by (simp add: pad_row.simps con_geomD row_pad_def)
  next
    case (Suc k)
    show ?case
    proof (cases "n mod 20 = 0")
      case True
      then show ?thesis using assms(1) Suc.prems by (subst pad_row.simps) (simp add: con_geomD row_pad_def)
    next
      case False
      then have p: "row_pad n = Suc (row_pad (Suc n))"
      proof -
        have "n mod 20 < 20" by simp
        moreover have "Suc n mod 20 = (if Suc (n mod 20) = 20 then 0 else Suc (n mod 20))"
          by (rule mod_Suc)
        ultimately show ?thesis using False by (auto simp: row_pad_def)
      qed
      have lt: "n < 80" using Suc.hyps(2) by simp
      have "pad_row c win n = pad_row c (win[n := NUL]) (Suc n)"
        using False lt assms(1) Suc.prems by (subst pad_row.simps) (simp add: con_geomD wr_in)
      moreover have "pad_row c (win[n := NUL]) (Suc n) = Inr (take (Suc n) (win[n := NUL]) @
          replicate (row_pad (Suc n)) NUL @ drop (Suc n + row_pad (Suc n)) (win[n := NUL]),
          Suc n + row_pad (Suc n)) \<and> Suc n + row_pad (Suc n) \<le> 80"
        using Suc lt by (intro Suc.hyps(1)) auto
      moreover have "take (Suc n) (win[n := NUL]) = take n win @ [NUL]"
        using lt Suc.prems by (simp add: take_Suc_conv_app_nth)
      ultimately show ?thesis using p by simp
    qed
  qed
  then show "pad_row c win n = Inr (take n win @ replicate (row_pad n) NUL @ drop (n + row_pad n) win, n + row_pad n)"
    "n + row_pad n \<le> 80" by simp_all
qed

text \<open>Cells written into the window from position \<open>n\<close>.\<close>

definition overlay :: "char list \<Rightarrow> nat \<Rightarrow> char list \<Rightarrow> char list" where
  "overlay win n cells = take n win @ cells @ drop (n + length cells) win"

lemma length_overlay: "n + length cells \<le> length win \<Longrightarrow> length (overlay win n cells) = length win"
  by (simp add: overlay_def)

lemma overlay_overlay:
  "n + length xs \<le> length win \<Longrightarrow>
     overlay (overlay win n xs) (n + length xs) ys = overlay win n (xs @ ys)"
  by (simp add: overlay_def ac_simps)

lemma overlay_upd: "n < length win \<Longrightarrow> win[n := v] = overlay win n [v]"
  by (simp add: overlay_def upd_conv_take_nth_drop)

lemma fill_window_step:
  assumes "con_geom c" "ring c log" "length win = 80" "n < 80" "i < length log" "length log \<le> i + 100"
  shows "fill_window c win n i =
     fill_window c (overlay win n (log ! i # replicate (cell_len n (log ! i) - 1) NUL)) (n + cell_len n (log ! i)) (i + 1)"
proof -
  have cnt: "history_cnt c = length log" using assms(2) by (simp add: ring_def)
  show ?thesis
  proof (cases "log ! i = NL")
    case True
    let ?w = "win[n := NL]"
    have pad: "pad_row c ?w (n + 1) = Inr (overlay ?w (n + 1) (replicate (row_pad (n + 1)) NUL),
        n + 1 + row_pad (n + 1))"
      using pad_row_spec(1) [OF assms(1), of ?w "n + 1"] assms(3,4) by (simp add: overlay_def)
    have "overlay ?w (n + 1) (replicate (row_pad (n + 1)) NUL) =
        overlay win n ([NL] @ replicate (row_pad (n + 1)) NUL)"
      using overlay_overlay [of n "[NL]" win] assms(3,4) by (simp add: overlay_upd)
    then show ?thesis using pad assms True cnt hist_at_ring [OF assms(1,2,5,6)]
      by (subst fill_window.simps) (simp add: con_geomD wr_in cell_len_def)
  next
    case False
    then show ?thesis using assms cnt hist_at_ring [OF assms(1,2,5,6)]
      by (subst fill_window.simps) (simp add: con_geomD wr_in overlay_upd)
  qed
qed

lemma fill_window_spec:
  assumes "con_geom c" "ring c log" "length win = 80" "n \<le> 80" "i \<le> length log" "length log \<le> i + 100"
  shows "fill_window c win n i =
     (let k = fitn n (drop i log); cells = lay_from n (take k (drop i log))
      in Inr (overlay win n cells, n + length cells, i + k))"
  using assms(3-6)
proof (induction "length log - i" arbitrary: n i win)
  case 0
  then have "history_cnt c \<le> i" using assms(2) by (simp add: ring_def)
  then show ?case using 0 by (subst fill_window.simps) (simp add: overlay_def)
next
  case (Suc m)
  then have i: "i < length log" by simp
  then have d: "drop i log = log ! i # drop (Suc i) log" by (simp add: Cons_nth_drop_Suc)
  show ?case
  proof (cases "n < 80")
    case False
    then show ?thesis using Suc.prems assms(1)
      by (subst fill_window.simps) (simp add: con_geomD d overlay_def)
  next
    case True
    let ?ch = "log ! i"
    let ?cells = "?ch # replicate (cell_len n ?ch - 1) NUL"
    have len: "length ?cells = cell_len n ?ch" using cell_len_pos [of n ?ch] by simp
    have le: "n + cell_len n ?ch \<le> 80" using True by (cases "?ch = NL") (simp_all add: newline_end_80)
    let ?n = "n + cell_len n ?ch" and ?k = "fitn (n + cell_len n (log ! i)) (drop (Suc i) log)"
    let ?rest = "lay_from ?n (take ?k (drop (Suc i) log))"
    have "fill_window c win n i = fill_window c (overlay win n ?cells) ?n (i + 1)"
      using fill_window_step [OF assms(1,2) Suc.prems(1) True i Suc.prems(4)] .
    moreover have "fill_window c (overlay win n ?cells) ?n (i + 1) =
        (let k = fitn ?n (drop (i + 1) log); cells = lay_from ?n (take k (drop (i + 1) log))
         in Inr (overlay (overlay win n ?cells) ?n cells, ?n + length cells, i + 1 + k))"
      using Suc.hyps(2) Suc.prems le i length_overlay [of n ?cells win] len
      by (intro Suc.hyps(1)) (simp_all add: len)
    moreover have "overlay (overlay win n ?cells) ?n ?rest = overlay win n (?cells @ ?rest)"
      using overlay_overlay [of n ?cells win ?rest] le Suc.prems(1) unfolding len by simp
    moreover have "lay_from n (take (Suc ?k) (drop i log)) = ?cells @ ?rest" by (simp add: d)
    moreover have "fitn n (drop i log) = Suc ?k" using True by (simp add: d)
    ultimately show ?thesis using len by (simp add: Let_def add.assoc)
  qed
qed

text \<open>The cells of a text, filled up to the whole window.\<close>

definition win_cells :: "char list \<Rightarrow> char list" where
  "win_cells txt = lay txt @ replicate (80 - length (lay txt)) NUL"

lemma update_window_buffer_spec:
  assumes "con_geom c" "ring c log" "window_first_history c \<le> length log"
    "length log \<le> window_first_history c + 100"
  shows "update_window_buffer c =
     (let xs = drop (window_first_history c) log; k = fitn 0 xs in
      Inr (c\<lparr>window := win_cells (take k xs), window_size := length (lay (take k xs)),
             window_last_history := window_first_history c + k\<rparr>))"
proof -
  let ?xs = "drop (window_first_history c) log"
  let ?k = "fitn 0 ?xs"
  let ?L = "lay (take ?k ?xs)"
  have le: "length ?L \<le> 80" using length_fitn [of 0 ?xs] by simp
  have fw: "fill_window c (window c) 0 (window_first_history c) =
      Inr (overlay (window c) 0 ?L, length ?L, window_first_history c + ?k)"
    using fill_window_spec [OF assms(1,2) _ _ assms(3,4), of "window c" 0] con_geomD(8) [OF assms(1)]
    by (simp add: Let_def)
  have len: "length (overlay (window c) 0 ?L) = 80"
    using length_overlay [of 0 ?L "window c"] le con_geomD(8) [OF assms(1)] by simp
  have "fill_range (overlay (window c) 0 ?L) (length ?L) 80 NUL = Inr (win_cells (take ?k ?xs))"
    using fill_range_spec [of "length ?L" 80 "overlay (window c) 0 ?L" NUL] le len
    by (simp add: win_cells_def overlay_def con_geomD(8) [OF assms(1)])
  then show ?thesis using fw con_geomD(5) [OF assms(1)] by (simp add: update_window_buffer_def Let_def)
qed

lemma next_line_loop_spec:
  assumes "con_geom c" "ring c log" "i \<le> length log" "length log \<le> i + 100"
  shows "next_line_loop c i n = Inr (i + rowlen n (drop i log))"
  using assms(3,4)
proof (induction "length log - i" arbitrary: i n)
  case 0
  then have "history_cnt c \<le> i" using assms(2) by (simp add: ring_def)
  then show ?case using 0 by (subst next_line_loop.simps) simp
next
  case (Suc m)
  then have i: "i < length log" by simp
  then have d: "drop i log = log ! i # drop (Suc i) log" by (simp add: Cons_nth_drop_Suc)
  have cnt: "history_cnt c = length log" using assms(2) by (simp add: ring_def)
  have "next_line_loop c (i + 1) (n + 1) = Inr (i + 1 + rowlen (n + 1) (drop (i + 1) log))"
    using Suc.hyps(2) Suc.prems i by (intro Suc.hyps(1)) simp_all
  then show ?case
    using i cnt hist_at_ring [OF assms(1,2) i Suc.prems(2)] con_geomD(2) [OF assms(1)]
    by (subst next_line_loop.simps) (simp add: d)
qed

lemma next_line_start_spec:
  assumes "con_geom c" "ring c log" "i \<le> length log" "length log \<le> i + 100"
  shows "next_line_start c i = Inr (i + rowlen 0 (drop i log))"
  using next_line_loop_spec [OF assms] by (simp add: next_line_start_def)

text \<open>
  Going up stops at the start of the history, after 20 characters, or behind a newline that is
  not the last character before the start.
\<close>

lemma prev_line_loop_spec:
  assumes "con_geom c" "ring c log" "length log \<le> hmin + 100" "s \<le> length log"
  shows "hmin \<le> j \<Longrightarrow> j \<le> s \<Longrightarrow> n = s - j \<Longrightarrow> n \<le> 20 \<Longrightarrow> \<forall>i. j \<le> i \<and> i + 1 < s \<longrightarrow> log ! i \<noteq> NL \<Longrightarrow>
     \<exists>p. prev_line_loop c hmin s j n = Inr p \<and> hmin \<le> p \<and> p \<le> j \<and> s \<le> p + 20 \<and>
       (\<forall>i. p \<le> i \<and> i + 1 < s \<longrightarrow> log ! i \<noteq> NL) \<and>
       (p = hmin \<or> s = p + 20 \<or> log ! (p - 1) = NL)"
proof (induction j arbitrary: n)
  case 0
  then show ?case by (simp add: prev_line_loop.simps)
next
  case (Suc j)
  show ?case
  proof (cases "hmin < Suc j \<and> n < 20")
    case False
    then have "\<not> (hmin < Suc j \<and> n < console_max_col c)" using con_geomD(2) [OF assms(1)] by simp
    then have "prev_line_loop c hmin s (Suc j) n = Inr (Suc j)"
      by (subst prev_line_loop.simps) (simp only: if_False)
    moreover have "Suc j = hmin \<or> s = Suc j + 20" using False Suc.prems(1-4) by linarith
    ultimately show ?thesis using Suc.prems by (intro exI [of _ "Suc j"] conjI) (simp_all, blast)
  next
    case True
    have h: "hist_at c j = Inr (log ! j)"
      using Suc.prems assms True by (intro hist_at_ring) auto
    show ?thesis
    proof (cases "log ! j = NL \<and> Suc j \<noteq> s")
      case stop: True
      then have "prev_line_loop c hmin s (Suc j) n = Inr (Suc j)"
        using True h con_geomD(2) [OF assms(1)] by (subst prev_line_loop.simps) simp
      then show ?thesis using Suc.prems stop by (intro exI [of _ "Suc j"] conjI) simp_all
    next
      case go: False
      then have "prev_line_loop c hmin s (Suc j) n = prev_line_loop c hmin s j (n + 1)"
        using True h con_geomD(2) [OF assms(1)] by (subst prev_line_loop.simps) auto
      moreover have "\<forall>i. j \<le> i \<and> i + 1 < s \<longrightarrow> log ! i \<noteq> NL"
        using go Suc.prems(5) by (metis Suc_eq_plus1 Suc_leI le_neq_implies_less less_irrefl)
      moreover have "hmin \<le> j" "j \<le> s" "n + 1 = s - j" "n + 1 \<le> 20" using Suc.prems(2,3) True by simp_all
      ultimately obtain p where "prev_line_loop c hmin s (Suc j) n = Inr p"
        "hmin \<le> p" "p \<le> j" "s \<le> p + 20" "\<forall>i. p \<le> i \<and> i + 1 < s \<longrightarrow> log ! i \<noteq> NL"
        "p = hmin \<or> s = p + 20 \<or> log ! (p - 1) = NL"
        using Suc.IH [of "n + 1"] by metis
      then show ?thesis by (intro exI [of _ p]) simp
    qed
  qed
qed

lemma prev_line_start_spec:
  assumes "con_geom c" "ring c log" "s \<le> length log" "length log \<le> s + 100" "length log < 4294967296"
  shows "\<exists>p. prev_line_start c s = Inr p \<and> p \<le> s \<and> length log \<le> p + 100 \<and> s \<le> p + 20 \<and>
     (\<forall>i. p \<le> i \<and> i + 1 < s \<longrightarrow> log ! i \<noteq> NL) \<and>
     (p = length log - 100 \<or> s = p + 20 \<or> log ! (p - 1) = NL)"
proof -
  have cnt: "history_cnt c = length log" using assms(2) by (simp add: ring_def)
  have m: "(if 100 < history_cnt c then sub32 (history_cnt c) 100 else 0) = length log - 100"
    using cnt assms(5) by (simp add: sub32_exact)
  obtain p where p: "prev_line_loop c (length log - 100) s s 0 = Inr p" "length log - 100 \<le> p" "p \<le> s"
      "s \<le> p + 20" "\<forall>i. p \<le> i \<and> i + 1 < s \<longrightarrow> log ! i \<noteq> NL"
      "p = length log - 100 \<or> s = p + 20 \<or> log ! (p - 1) = NL"
    using prev_line_loop_spec [OF assms(1,2), of "length log - 100" s s 0] assms(3,4) by force
  have "prev_line_start c s = prev_line_loop c (length log - 100) s s 0"
    unfolding prev_line_start_def Let_def m ..
  with p show ?thesis by force
qed

section \<open>Drawing\<close>

text \<open>Rows taken by the input beyond the first, and the number of window cells below them.\<close>

definition rows_of :: "nat \<Rightarrow> nat" where
  "rows_of n = (if n \<le> 20 then 0 else (n - 1) div 20)"

abbreviation in_rows :: "console \<Rightarrow> nat" where
  "in_rows c \<equiv> rows_of (input_cnt c)"

abbreviation visible :: "console \<Rightarrow> nat" where
  "visible c \<equiv> 20 * (4 - in_rows c)"

definition draw_list :: "console \<Rightarrow> nat list \<Rightarrow> (char \<times> nat \<times> nat) list" where
  "draw_list c is = map (\<lambda>i. (disp (window c ! i), i mod 20, i div 20 + in_rows c + 1)) is"

lemma inpws_to_rn_spec: "con_geom c \<Longrightarrow> inpws_to_rn c n = Inr (rows_of n)"
  by (simp add: inpws_to_rn_def con_geomD rows_of_def)

lemma rows_of_le: "n \<le> 40 \<Longrightarrow> rows_of n \<le> 1"
  using div_le_mono [of "n - 1" 39 20] by (simp add: rows_of_def)

lemma rows_of_ge: "40 < n \<Longrightarrow> 2 \<le> rows_of n"
proof -
  assume "40 < n"
  then have "40 \<le> n - 1" by simp
  then have "40 div 20 \<le> (n - 1) div 20" by (rule div_le_mono)
  then show ?thesis using \<open>40 < n\<close> by (simp add: rows_of_def)
qed

lemma cell_pos_inj: "i mod 20 = j mod 20 \<Longrightarrow> i div 20 + k = j div 20 + k \<Longrightarrow> i = (j :: nat)"
  by (metis add_right_cancel div_mult_mod_eq)

lemma cell_pos_screen: "i < 80 \<Longrightarrow> r \<le> 1 \<Longrightarrow> i mod 20 < 80 \<and> i div 20 + r + 1 < (25 :: nat)"
  using mod_less_divisor [of 20 i] less_mult_imp_div_less [of i 4 20] by linarith

lemma screen_put_simps [simp]:
  "window (screen_put c ch x y) = window c" "history (screen_put c ch x y) = history c"
  "input_buf (screen_put c ch x y) = input_buf c" "history_cnt (screen_put c ch x y) = history_cnt c"
  "input_cnt (screen_put c ch x y) = input_cnt c" "window_size (screen_put c ch x y) = window_size c"
  "window_first_history (screen_put c ch x y) = window_first_history c"
  "window_last_history (screen_put c ch x y) = window_last_history c"
  "screen (screen_put c ch x y) = fst (vga_write_char (screen c) ch x y)"
  by (simp_all add: screen_put_def)

lemma con_geom_screen: "con_geom c \<Longrightarrow> vga_std v \<Longrightarrow> con_geom (c\<lparr>screen := v\<rparr>)"
  by (simp add: con_geom_def)

lemma con_geom_put: "con_geom c \<Longrightarrow> con_geom (screen_put c ch x y)"
  unfolding screen_put_def by (simp add: con_geom_screen con_geomD(1) vga_screen.put_ok)

lemma output_one_spec:
  assumes "con_geom c" "i < 80"
  shows "output_window_one_to_vga c i ch =
     Inr (if visible c \<le> i then (c, - 1)
          else (screen_put c (disp ch) (i mod 20) (i div 20 + in_rows c + 1), 0))"
proof -
  have r: "in_rows c \<le> 1" using con_geomD(10) [OF assms(1)] by (rule rows_of_le)
  have row: "i div 20 < 4" using assms(2) by (simp add: less_mult_imp_div_less)
  have "5 \<le> i div 20 + in_rows c + 1 \<longleftrightarrow> visible c \<le> i"
  proof -
    have "5 \<le> i div 20 + in_rows c + 1 \<longleftrightarrow> 4 - in_rows c \<le> i div 20" using r by linarith
    also have "\<dots> \<longleftrightarrow> visible c \<le> i" by (simp add: less_eq_div_iff_mult_less_eq mult.commute)
    finally show ?thesis .
  qed
  then show ?thesis using r row
    by (simp add: output_window_one_to_vga_def inpws_to_rn_spec [OF assms(1)] con_geomD [OF assms(1)] c_arith Let_def)
qed

lemma draw_window_loop_spec:
  assumes "con_geom c" "i \<le> 80"
  shows "draw_window_loop 80 c i =
     Inr (c\<lparr>screen := vga_screen.puts (draw_list c [i..<visible c]) (screen c)\<rparr>)"
  using assms
proof (induction "80 - i" arbitrary: i c)
  case 0
  then have "visible c \<le> i" by simp
  then show ?case using 0 by (subst draw_window_loop.simps) (simp add: draw_list_def)
next
  case (Suc m)
  then have i: "i < 80" by simp
  have rdw: "rd (window c) i = Inr (window c ! i)" using i con_geomD(8) [OF Suc.prems(1)] by (simp add: rd_in)
  show ?case
  proof (cases "visible c \<le> i")
    case True
    then show ?thesis using i rdw output_one_spec [OF Suc.prems(1) i]
      by (subst draw_window_loop.simps) (simp add: draw_list_def)
  next
    case False
    let ?c = "screen_put c (disp (window c ! i)) (i mod 20) (i div 20 + in_rows c + 1)"
    have "draw_window_loop 80 c i = draw_window_loop 80 ?c (i + 1)"
      using False i rdw output_one_spec [OF Suc.prems(1) i] by (subst draw_window_loop.simps) simp
    moreover have "draw_window_loop 80 ?c (i + 1) =
        Inr (?c\<lparr>screen := vga_screen.puts (draw_list ?c [i + 1..<visible ?c]) (screen ?c)\<rparr>)"
      using Suc.hyps(2) Suc.prems i by (intro Suc.hyps(1)) (simp_all add: con_geom_put)
    moreover have "[i..<visible c] = i # [i + 1..<visible c]" using False by (simp add: upt_conv_Cons)
    ultimately show ?thesis by (simp add: draw_list_def screen_put_def)
  qed
qed

text \<open>What the output area shows.\<close>

definition shown :: "console \<Rightarrow> bool" where
  "shown c \<longleftrightarrow> (\<forall>i < visible c.
     vga_cell (screen c) (i mod 20) (i div 20 + in_rows c + 1) = disp (window c ! i))"

lemma draw_window_spec:
  assumes "con_geom c"
  shows "\<exists>v. draw_window c = Inr (c\<lparr>screen := v\<rparr>) \<and> vga_std v \<and> shown (c\<lparr>screen := v\<rparr>) \<and>
     (\<forall>x < 80. \<forall>y < 25. y \<le> in_rows c \<longrightarrow> vga_cell v x y = vga_cell (screen c) x y)"
proof (intro exI conjI allI impI)
  let ?v = "vga_screen.puts (draw_list c [0..<visible c]) (screen c)"
  note std = con_geomD(1) [OF assms]
  have r: "in_rows c \<le> 1" using con_geomD(10) [OF assms] by (rule rows_of_le)
  show "draw_window c = Inr (c\<lparr>screen := ?v\<rparr>)"
    using draw_window_loop_spec [OF assms, of 0] con_geomD(5) [OF assms] by (simp add: draw_window_def)
  show "vga_std ?v" using std by (rule vga_screen.puts_ok)
  have d: "distinct (map snd (draw_list c [0..<visible c]))"
    unfolding draw_list_def map_map comp_def snd_conv distinct_map
    by (auto intro!: inj_onI dest: cell_pos_inj)
  have "vga_cell ?v (i mod 20) (i div 20 + in_rows c + 1) = disp (window c ! i)" if "i < visible c" for i
  proof (rule vga_screen.puts_written [OF std _ _ _ d])
    have "i < 80" using that by simp
    with cell_pos_screen [OF this r] show "i mod 20 < 80" "i div 20 + in_rows c + 1 < 25" by simp_all
    show "(disp (window c ! i), i mod 20, i div 20 + in_rows c + 1) \<in> set (draw_list c [0..<visible c])"
      using that by (simp add: draw_list_def)
  qed
  then show "shown (c\<lparr>screen := ?v\<rparr>)" by (simp add: shown_def)
  show "vga_cell ?v x y = vga_cell (screen c) x y" if "x < 80" "y < 25" "y \<le> in_rows c" for x y
    using that by (intro vga_screen.puts_other [OF std]) (auto simp: draw_list_def)
qed

end
