(* ===== verification/Ts_Console_Output.thy ===== *)
theory Ts_Console_Output
  imports Ts_Console_Inv
begin

text \<open>
  The invariant of the console, output as a refinement of an abstract view that keeps the newest
  rows of the text, scrolling and clearing.
\<close>

section \<open>The invariant\<close>

definition seg :: "console \<Rightarrow> char list \<Rightarrow> char list" where
  "seg c log = drop (window_first_history c) (take (window_last_history c) log)"

definition con_inv :: "console \<Rightarrow> char list \<Rightarrow> bool" where
  "con_inv c log \<longleftrightarrow> con_geom c \<and> ring c log \<and>
     window_first_history c \<le> window_last_history c \<and> window_last_history c \<le> length log \<and>
     length log \<le> window_first_history c + 100 \<and>
     window_size c = length (lay (seg c log)) \<and> length (lay (seg c log)) \<le> 80 \<and>
     map disp (window c) = map disp (win_cells (seg c log)) \<and> shown c"

definition following :: "console \<Rightarrow> bool" where
  "following c \<longleftrightarrow> window_last_history c = history_cnt c"

text \<open>An operation on the output area leaves the input line alone.\<close>

definition same_input :: "console \<Rightarrow> console \<Rightarrow> bool" where
  "same_input c c' \<longleftrightarrow> input_cnt c' = input_cnt c \<and> input_buf c' = input_buf c \<and>
     (\<forall>x < 80. \<forall>y < 25. y \<le> in_rows c \<longrightarrow> vga_cell (screen c') x y = vga_cell (screen c) x y)"

lemma same_input_refl [simp]: "same_input c c"
  by (simp add: same_input_def)

lemma same_input_trans: "same_input a b \<Longrightarrow> same_input b c \<Longrightarrow> same_input a c"
  by (simp add: same_input_def)

lemma length_win_cells: "length (lay xs) \<le> 80 \<Longrightarrow> length (win_cells xs) = 80"
  by (simp add: win_cells_def)

lemma con_invD:
  assumes "con_inv c log"
  shows "con_geom c" "ring c log" "window_first_history c \<le> window_last_history c"
    "window_last_history c \<le> length log" "length log \<le> window_first_history c + 100"
    "window_size c = length (lay (seg c log))" "length (lay (seg c log)) \<le> 80"
    "map disp (window c) = map disp (win_cells (seg c log))" "shown c" "history_cnt c = length log"
  using assms by (simp_all add: con_inv_def ring_def)

section \<open>Redrawing\<close>

definition redraw :: "console \<Rightarrow> console res" where
  "redraw c = bind_res (update_window_buffer c) draw_window"

lemma redraw_spec:
  assumes "con_geom c" "ring c log" "window_first_history c \<le> length log"
    "length log \<le> window_first_history c + 100"
  shows "\<exists>c'. redraw c = Inr c' \<and> con_inv c' log \<and> same_input c c' \<and>
     window_first_history c' = window_first_history c \<and>
     window_last_history c' = window_first_history c + fitn 0 (drop (window_first_history c) log) \<and>
     window c' = win_cells (seg c' log)"
proof -
  let ?f = "window_first_history c"
  let ?k = "fitn 0 (drop ?f log)"
  let ?txt = "take ?k (drop ?f log)"
  let ?c1 = "c\<lparr>window := win_cells ?txt, window_size := length (lay ?txt), window_last_history := ?f + ?k\<rparr>"
  have le: "length (lay ?txt) \<le> 80" using length_fitn [of 0 "drop ?f log"] by simp
  have g1: "con_geom ?c1" using assms(1) length_win_cells [OF le] by (simp add: con_geom_def)
  have up: "update_window_buffer c = Inr ?c1"
    using update_window_buffer_spec [OF assms] by (simp add: Let_def)
  obtain v where v: "draw_window ?c1 = Inr (?c1\<lparr>screen := v\<rparr>)" "vga_std v" "shown (?c1\<lparr>screen := v\<rparr>)"
    "\<forall>x < 80. \<forall>y < 25. y \<le> in_rows ?c1 \<longrightarrow> vga_cell v x y = vga_cell (screen ?c1) x y"
    using draw_window_spec [OF g1] by blast
  let ?c2 = "?c1\<lparr>screen := v\<rparr>"
  have sg: "seg ?c2 log = ?txt" by (simp add: seg_def take_drop add.commute)
  have "?f + ?k \<le> length log" using fitn_le [of 0 "drop ?f log"] assms(3) by simp
  then have "con_inv ?c2 log"
    using con_geom_screen [OF g1 v(2)] assms(2,4) le v(3) sg by (simp add: con_inv_def ring_def)
  moreover have "redraw c = Inr ?c2" using up v(1) by (simp add: redraw_def)
  moreover have "same_input c ?c2" using v(4) by (simp add: same_input_def)
  ultimately show ?thesis using sg by (intro exI [of _ ?c2]) simp
qed

section \<open>Output\<close>

text \<open>
  The abstract view: the text of the rows on display. A character is appended; when the rows no
  longer fit the window, the first row is dropped.
\<close>

definition view_write :: "char list \<Rightarrow> char \<Rightarrow> char list" where
  "view_write txt ch = (let t = txt @ [ch] in
     if length (lay t) \<le> 80 then t else drop (rowlen 0 t) t)"

lemma lay_snoc: "lay (xs @ [ch]) =
    lay xs @ ch # replicate (cell_len (length (lay xs)) ch - 1) NUL"
  by (simp add: lay_append)

lemma length_lay_snoc: "length (lay (xs @ [ch])) = length (lay xs) + cell_len (length (lay xs)) ch"
  using cell_len_pos [of "length (lay xs)" ch] by (simp add: lay_snoc)

lemma cell_len_le: "cell_len n ch \<le> 20"
proof -
  have "row_pad (Suc n) < 20" by (simp add: row_pad_def)
  then show ?thesis by (simp add: cell_len_def)
qed

lemma disp_last_cell: "disp (lay (xs @ [ch]) ! (length (lay (xs @ [ch])) - 1)) = disp ch"
proof -
  have "lay (xs @ [ch]) \<noteq> []" by (simp add: lay_snoc)
  from last_conv_nth [OF this]
  have "lay (xs @ [ch]) ! (length (lay (xs @ [ch])) - 1) = last (lay (xs @ [ch]))" by simp
  also have "\<dots> = (if cell_len (length (lay xs)) ch = 1 then ch else NUL)"
    using cell_len_pos [of "length (lay xs)" ch] by (simp add: lay_snoc del: cell_len_pos)
  finally show ?thesis by (cases "ch = NL") simp_all
qed

lemma win_cells_snoc:
  assumes "length (lay (xs @ [ch])) \<le> 80" "i < 80"
  shows "disp (win_cells (xs @ [ch]) ! i) =
     (if i = length (lay (xs @ [ch])) - 1 then disp ch else disp (win_cells xs ! i))"
proof -
  let ?n = "length (lay xs)" and ?m = "length (lay (xs @ [ch]))"
  have m: "?m = ?n + cell_len ?n ch" by (rule length_lay_snoc)
  consider "i < ?n" | "?n \<le> i" "i < ?m" | "?m \<le> i" by linarith
  then show ?thesis
  proof cases
    case 1
    then have "i \<noteq> ?m - 1" using m cell_len_pos [of ?n ch] by linarith
    then show ?thesis using 1 by (simp add: win_cells_def nth_append lay_snoc)
  next
    case 2
    then have w: "win_cells (xs @ [ch]) ! i = lay (xs @ [ch]) ! i" by (simp add: win_cells_def nth_append)
    show ?thesis
    proof (cases "i = ?m - 1")
      case True
      then show ?thesis using w disp_last_cell [of xs ch] by simp
    next
      case False
      then have nl: "ch = NL" using 2 m by (cases "ch = NL") simp_all
      have "win_cells (xs @ [ch]) ! i = (ch # replicate (cell_len ?n ch - 1) NUL) ! (i - ?n)"
        using 2(1) unfolding w by (simp add: nth_append lay_snoc)
      then have "disp (win_cells (xs @ [ch]) ! i) = NUL"
        using nl 2 m by (cases "i - ?n") (auto simp: nth_Cons)
      moreover have "win_cells xs ! i = NUL" using 2 assms(2) by (simp add: win_cells_def nth_append)
      ultimately show ?thesis using False by simp
    qed
  next
    case 3
    then have "i \<noteq> ?m - 1" "?n \<le> i" using m cell_len_pos [of ?n ch] by linarith+
    then show ?thesis using 3 assms(2) by (simp add: win_cells_def nth_append)
  qed
qed

lemma calc_window_delta_spec:
  assumes "con_geom c" "n \<le> 80"
  shows "calc_window_delta c n ch = Inr (cell_len n ch)"
proof (cases "ch = NL")
  case True
  have e: "(n + 20) - (n + 20) mod 20 = n div 20 * 20 + 20"
    by (metis minus_mod_eq_div_mult div_add_self2 add_mult_distrib mult_1 zero_neq_numeral)
  have "add32 (sub32 (add32 n 20) 1) 1 = n + 20" using assms(2) by (simp add: c_arith)
  moreover have "(n + 20) mod 20 \<le> n + 20" by simp
  ultimately show ?thesis using True con_geomD(2) [OF assms(1)] e newline_end [of n] assms(2)
    by (simp add: calc_window_delta_def Let_def sub32_exact del: mod_add_self2)
next
  case False
  then show ?thesis by (simp add: calc_window_delta_def)
qed

lemma append_history_spec:
  assumes "con_geom c" "ring c log" "length log + 1 < 4294967296"
  shows "\<exists>c'. append_history c ch = Inr c' \<and> con_geom c' \<and> ring c' (log @ [ch]) \<and>
     c' = c\<lparr>history := history c', history_cnt := length log + 1, window_last_history := length log + 1\<rparr>"
proof -
  have cnt: "history_cnt c = length log" using assms(2) by (simp add: ring_def)
  let ?h = "(history c)[length log mod 100 := ch]"
  let ?c = "c\<lparr>history := ?h, history_cnt := length log + 1, window_last_history := length log + 1\<rparr>"
  have "append_history c ch = Inr ?c"
    using con_geomD(7) [OF assms(1)] cnt assms(3) by (simp add: append_history_def wr_in add32_exact)
  moreover have "con_geom ?c" using assms(1) by (simp add: con_geom_def)
  moreover have "?h ! (i mod 100) = (log @ [ch]) ! i"
    if "i < length log + 1" "length log + 1 \<le> i + 100" for i
  proof (cases "i = length log")
    case True
    then show ?thesis using con_geomD(7) [OF assms(1)] by simp
  next
    case False
    then have i: "i < length log" "length log < i + 100" using that by simp_all
    have "i mod 100 \<noteq> length log mod 100"
    proof
      assume "i mod 100 = length log mod 100"
      then have "100 dvd length log - i" using i(1) mod_eq_dvd_iff_nat [of i "length log" 100] by simp
      then show False using i dvd_imp_le [of 100 "length log - i"] by simp
    qed
    then show ?thesis using i assms(2) by (simp add: ring_def nth_append)
  qed
  then have "ring ?c (log @ [ch])" by (simp add: ring_def)
  ultimately show ?thesis by (intro exI [of _ ?c]) simp
qed

text \<open>Putting one character on the screen keeps the picture, when the window already has it there.\<close>

lemma output_one_shown:
  assumes "con_geom c" "i < 80" "disp (window c ! i) = disp ch"
    "\<forall>j < visible c. j \<noteq> i \<longrightarrow>
       vga_cell (screen c) (j mod 20) (j div 20 + in_rows c + 1) = disp (window c ! j)"
  shows "\<exists>v r. output_window_one_to_vga c i ch = Inr (c\<lparr>screen := v\<rparr>, r) \<and> vga_std v \<and>
     shown (c\<lparr>screen := v\<rparr>) \<and> same_input c (c\<lparr>screen := v\<rparr>)"
proof -
  have r: "in_rows c \<le> 1" using con_geomD(10) [OF assms(1)] by (rule rows_of_le)
  note std = con_geomD(1) [OF assms(1)]
  note pos = cell_pos_screen [OF _ r]
  show ?thesis
  proof (cases "visible c \<le> i")
    case True
    then have "output_window_one_to_vga c i ch = Inr (c\<lparr>screen := screen c\<rparr>, - 1)"
      using output_one_spec [OF assms(1,2)] by simp
    moreover have "shown (c\<lparr>screen := screen c\<rparr>)" using assms(4) True by (auto simp: shown_def)
    ultimately show ?thesis using std by (intro exI [of _ "screen c"] exI [of _ "- 1"]) simp
  next
    case False
    let ?v = "fst (vga_write_char (screen c) (disp ch) (i mod 20) (i div 20 + in_rows c + 1))"
    have "output_window_one_to_vga c i ch = Inr (c\<lparr>screen := ?v\<rparr>, 0)"
      using output_one_spec [OF assms(1,2)] False by (simp add: screen_put_def)
    moreover have "vga_std ?v" using std by (rule vga_screen.put_ok)
    moreover have "vga_cell ?v (j mod 20) (j div 20 + in_rows c + 1) = disp (window c ! j)"
      if "j < visible c" for j
    proof -
      have "j < 80" using that by simp
      then show ?thesis using vga_screen.put_cell_gen [OF std, of "j mod 20" "j div 20 + in_rows c + 1"]
        pos [of j] assms(3,4) that cell_pos_inj [of j i "in_rows c + 1"] by (cases "j = i") auto
    qed
    moreover have "same_input c (c\<lparr>screen := ?v\<rparr>)"
      using vga_screen.put_cell_gen [OF std] by (auto simp: same_input_def)
    ultimately show ?thesis by (intro exI [of _ ?v] exI [of _ 0]) (simp add: shown_def)
  qed
qed

text \<open>
  The incremental update of the window: blanks up to the last cell of the character, then the
  character. It displays like the layout of the longer text, and only that last cell changes.
\<close>

lemma window_append:
  assumes win: "length win = 80" "map disp win = map disp (win_cells s)"
    and fit: "length (lay (s @ [ch])) \<le> 80"
  defines "n \<equiv> length (lay s)" and "m \<equiv> length (lay (s @ [ch]))"
  shows "\<exists>w. bind_res (fill_range win n (m - 1) NUL) (\<lambda>w. wr w (m - 1) ch) = Inr w \<and> length w = 80 \<and>
     map disp w = map disp (win_cells (s @ [ch])) \<and> disp (w ! (m - 1)) = disp ch \<and>
     (\<forall>i < 80. i \<noteq> m - 1 \<longrightarrow> disp (w ! i) = disp (win ! i))"
proof -
  let ?w1 = "take n win @ replicate (m - 1 - n) NUL @ drop (m - 1) win"
  let ?w = "?w1[m - 1 := ch]"
  have m: "m = n + cell_len n ch" unfolding m_def n_def by (rule length_lay_snoc)
  then have nm: "n < m" "m - 1 < 80" "m \<le> 80" using cell_len_pos [of n ch] fit m_def by auto
  have len: "length ?w1 = 80" using nm win(1) by simp
  have fr: "fill_range win n (m - 1) NUL = Inr ?w1" using nm win(1) by (intro fill_range_spec) simp_all
  have s80: "length (lay s) \<le> 80" using nm n_def by simp
  have dw: "disp (win ! i) = disp (win_cells s ! i)" if "i < 80" for i
    using arg_cong [OF win(2), of "\<lambda>l. l ! i"] that win(1) length_win_cells [OF s80] by simp
  have old: "disp (?w ! i) = disp (win ! i)" if i: "i < 80" "i \<noteq> m - 1" for i
  proof -
    consider "i < n" | "n \<le> i" "i < m - 1" | "m - 1 < i" using i(2) by linarith
    then show ?thesis
    proof cases
      case 2
      then have "i - n < m - 1 - n" by linarith
      then have "?w ! i = NUL" using 2 nm win(1) by (simp add: nth_append)
      moreover have "win_cells s ! i = NUL" using 2 i n_def by (simp add: win_cells_def nth_append)
      ultimately show ?thesis using dw [OF i(1)] by simp
    next
      case 3
      then have "\<not> i < n" "\<not> i - n < m - 1 - n" "m - 1 + (i - n - (m - 1 - n)) = i" using nm(1) by linarith+
      then have "?w1 ! i = win ! i" using i nm win(1) by (simp add: nth_append)
      then show ?thesis using i(2) by simp
    qed (use nm win(1) i in \<open>simp add: nth_append\<close>)
  qed
  obtain w where w: "w = ?w" by simp
  have "?w ! (m - 1) = ch" using len nm(2) by (intro nth_list_update_eq) linarith
  then have wl: "length w = 80" "disp (w ! (m - 1)) = disp ch" using len w by simp_all
  have "map disp w = map disp (win_cells (s @ [ch]))"
  proof (rule nth_equalityI)
    show "length (map disp w) = length (map disp (win_cells (s @ [ch])))"
      using wl length_win_cells [OF fit] by simp
    show "map disp w ! i = map disp (win_cells (s @ [ch])) ! i" if "i < length (map disp w)" for i
    proof -
      have i: "i < 80" using that wl by simp
      have "disp (win_cells (s @ [ch]) ! i) = (if i = m - 1 then disp ch else disp (win_cells s ! i))"
        unfolding m_def by (rule win_cells_snoc [OF fit i])
      then show ?thesis using wl old [OF i, folded w] dw [OF i] i length_win_cells [OF fit] by auto
    qed
  qed
  then show ?thesis using fr len nm old wl w by (intro exI [of _ w]) (simp add: wr_in)
qed

text \<open>The window follows the output and the new character fits.\<close>

lemma write_fits:
  assumes inv: "con_inv c log" and fol: "following c" and len: "length log + 1 < 4294967296"
    and fit: "length (lay (seg c log @ [ch])) \<le> 80"
  shows "\<exists>c'. write_console_body c ch = Inr c' \<and> con_inv c' (log @ [ch]) \<and> following c' \<and>
     same_input c c' \<and> seg c' (log @ [ch]) = seg c log @ [ch]"
proof -
  note D = con_invD [OF inv]
  let ?s = "seg c log" and ?m = "length (lay (seg c log @ [ch]))"
  have m: "?m = window_size c + cell_len (window_size c) ch"
    using length_lay_snoc [of ?s ch] D(6) by simp
  have lt: "0 < ?m" "?m - 1 < 80" using m cell_len_pos [of "window_size c" ch] fit by linarith+
  have last: "window_last_history c = length log" using fol D(10) by (simp add: following_def)
  have g1: "con_geom (c\<lparr>window_size := ?m\<rparr>)" "ring (c\<lparr>window_size := ?m\<rparr>) log"
    using D(1,2) by (simp_all add: con_geom_def ring_def)
  obtain c2 where c2: "append_history (c\<lparr>window_size := ?m\<rparr>) ch = Inr c2" "con_geom c2" "ring c2 (log @ [ch])"
    "c2 = c\<lparr>window_size := ?m, history := history c2, history_cnt := length log + 1,
       window_last_history := length log + 1\<rparr>"
    using append_history_spec [OF g1 len, of ch] by auto
  have c2': "window c2 = window c" "window_size c2 = ?m" "screen c2 = screen c" "input_cnt c2 = input_cnt c"
    "input_buf c2 = input_buf c" "window_first_history c2 = window_first_history c"
    "window_last_history c2 = length log + 1" "history_cnt c2 = length log + 1"
    by (subst c2(4), simp)+
  obtain w1 w where fr: "fill_range (window c) (window_size c) (?m - 1) NUL = Inr w1" "wr w1 (?m - 1) ch = Inr w"
    and w: "length w = 80" "map disp w = map disp (win_cells (?s @ [ch]))" "disp (w ! (?m - 1)) = disp ch"
    "\<forall>i < 80. i \<noteq> ?m - 1 \<longrightarrow> disp (w ! i) = disp (window c ! i)"
    using window_append [OF con_geomD(8) [OF D(1)] D(8) fit] D(6) by auto
  let ?c3 = "c2\<lparr>window := w\<rparr>"
  have g3: "con_geom ?c3" using c2(2) w(1) by (simp add: con_geom_def)
  have "\<forall>j < visible ?c3. j \<noteq> ?m - 1 \<longrightarrow>
      vga_cell (screen ?c3) (j mod 20) (j div 20 + in_rows ?c3 + 1) = disp (window ?c3 ! j)"
    using D(9) w(4) c2' by (auto simp: shown_def)
  then obtain v r where v: "output_window_one_to_vga ?c3 (?m - 1) ch = Inr (?c3\<lparr>screen := v\<rparr>, r)"
    "vga_std v" "shown (?c3\<lparr>screen := v\<rparr>)" "same_input ?c3 (?c3\<lparr>screen := v\<rparr>)"
    using output_one_shown [OF g3 lt(2)] w(3) by force
  let ?c4 = "?c3\<lparr>screen := v\<rparr>"
  have delta: "calc_window_delta c (window_size c) ch = Inr (cell_len (window_size c) ch)"
    using calc_window_delta_spec [OF D(1)] D(6,7) by simp
  have add: "add32 (window_size c) (cell_len (window_size c) ch) = ?m" using m fit by (simp add: add32_exact)
  have sub: "sub32 ?m (Suc 0) = ?m - Suc 0" using lt fit by (intro sub32_exact) linarith+
  have body: "write_console_body c ch = Inr ?c4"
    using fol last delta c2(1) c2' fr v(1) fit con_geomD(5) [OF c2(2)]
    by (simp add: write_console_body_def Let_def following_def add sub del: bind_res_eq_Inr)
  have sg: "seg ?c4 (log @ [ch]) = ?s @ [ch]" using D(3,4) last c2' by (simp add: seg_def)
  have lenle: "length log + 1 \<le> window_first_history c + 100"
    using length_lay_ge [of "?s @ [ch]" 0] fit D(3) last by (simp add: seg_def)
  have "con_inv ?c4 (log @ [ch])"
    using con_geom_screen [OF g3 v(2)] c2(3) c2' sg w(2) fit v(3) lenle D(3) last
    by (simp add: con_inv_def ring_def)
  then show ?thesis using body sg c2' v(4) by (intro exI [of _ ?c4]) (simp add: following_def same_input_def)
qed

lemma console_append:
  assumes "con_geom c" "ring c log" "length log + 1 < 4294967296"
  obtains c2 where "append_history c ch = Inr c2" "con_geom c2" "ring c2 (log @ [ch])"
    "window c2 = window c" "window_size c2 = window_size c" "screen c2 = screen c"
    "input_cnt c2 = input_cnt c" "input_buf c2 = input_buf c"
    "window_first_history c2 = window_first_history c" "history_cnt c2 = length log + 1"
    "window_last_history c2 = length log + 1"
proof -
  obtain c2 where c2: "append_history c ch = Inr c2" "con_geom c2" "ring c2 (log @ [ch])"
    "c2 = c\<lparr>history := history c2, history_cnt := length log + 1, window_last_history := length log + 1\<rparr>"
    using append_history_spec [OF assms, of ch] by blast
  show thesis by (rule that [OF c2(1-3)]) (subst c2(4), simp)+
qed

lemma redraw_res: "bind_res (update_window_buffer c) draw_window = redraw c"
  by (simp add: redraw_def)

text \<open>Dropping the first row of a text that has just outgrown the window.\<close>

lemma drop_first_row:
  assumes "length (lay s) \<le> 80" "80 < length (lay (s @ [ch]))"
  shows "length (lay (drop (rowlen 0 (s @ [ch])) (s @ [ch]))) \<le> 80"
    and "\<exists>u. drop (rowlen 0 (s @ [ch])) (s @ [ch]) = u @ [ch]"
proof -
  let ?t = "s @ [ch]" and ?k = "rowlen 0 (s @ [ch])"
  have "20 \<le> length (lay ?t)" using assms(2) by linarith
  note row = lay_drop_row [OF this]
  have sum: "length (lay ?t) = 20 + length (lay (drop ?k ?t))"
    using arg_cong [OF row(1), of length] row(2) by simp
  moreover have "length (lay ?t) \<le> 80 + 20"
    using length_lay_snoc [of s ch] assms(1) cell_len_le [of "length (lay s)" ch] by linarith
  ultimately show "length (lay (drop ?k ?t)) \<le> 80" by linarith
  have "?k < length ?t"
  proof (rule ccontr)
    assume "\<not> ?k < length ?t"
    then show False using sum assms(2) by simp
  qed
  then show "\<exists>u. drop ?k ?t = u @ [ch]" by simp
qed

text \<open>The newest character is the last cell on display.\<close>

lemma newest_cell:
  assumes "con_inv c log" "window c = win_cells (seg c log)" "seg c log = u @ [ch]"
  shows "\<exists>c'. bind_res (output_window_one_to_vga c (sub32 (window_size c) 1) ch) (\<lambda>(c, _). Inr c) = Inr c' \<and>
     con_inv c' log \<and> same_input c c' \<and> seg c' log = seg c log \<and>
     window_last_history c' = window_last_history c"
proof -
  note D = con_invD [OF assms(1)]
  have ws: "window_size c = length (lay (u @ [ch]))" "window_size c \<le> 80" using D(6,7) assms(3) by simp_all
  then have pos: "0 < window_size c" by (simp add: length_lay_snoc)
  have sub: "sub32 (window_size c) 1 = window_size c - 1" using ws pos by (intro sub32_exact) linarith+
  have lt: "window_size c - 1 < 80" using ws pos by linarith
  have "window c ! (window_size c - 1) = lay (u @ [ch]) ! (length (lay (u @ [ch])) - 1)"
    using ws pos assms(2,3) by (simp add: win_cells_def nth_append)
  then have "disp (window c ! (window_size c - 1)) = disp ch" using disp_last_cell by simp
  then obtain v r where v: "output_window_one_to_vga c (window_size c - 1) ch = Inr (c\<lparr>screen := v\<rparr>, r)"
    "vga_std v" "shown (c\<lparr>screen := v\<rparr>)" "same_input c (c\<lparr>screen := v\<rparr>)"
    using output_one_shown [OF D(1) lt] D(9) unfolding shown_def by blast
  have sg: "seg (c\<lparr>screen := v\<rparr>) log = seg c log" by (simp add: seg_def)
  have "con_inv (c\<lparr>screen := v\<rparr>) log"
    using D con_geom_screen [OF D(1) v(2)] v(3) sg by (simp add: con_inv_def ring_def)
  then show ?thesis using v(1,4) sg by (intro exI [of _ "c\<lparr>screen := v\<rparr>"]) (simp only: sub, simp)
qed

text \<open>One row further down, then a redraw.\<close>

lemma scroll_down:
  assumes "con_geom c" "ring c log" "window_first_history c < length log"
    "length log \<le> window_first_history c + 100"
  shows "\<exists>c'. bind_res (move_down_window_start_position c) (\<lambda>(c, _). redraw c) = Inr c' \<and>
     con_inv c' log \<and> same_input c c' \<and> window c' = win_cells (seg c' log) \<and>
     window_first_history c' = window_first_history c + rowlen 0 (drop (window_first_history c) log) \<and>
     window_last_history c' = window_first_history c' + fitn 0 (drop (window_first_history c') log)"
proof -
  let ?f = "window_first_history c"
  let ?k = "rowlen 0 (drop ?f log)"
  have k: "0 < ?k" "?k \<le> length log - ?f"
    using rowlen_pos [of "drop ?f log"] rowlen_le [of 0 "drop ?f log"] assms(3) by simp_all
  let ?c = "c\<lparr>window_first_history := ?f + ?k\<rparr>"
  have mv: "move_down_window_start_position c = Inr (?c, 0)"
    using next_line_start_spec [OF assms(1,2) _ assms(4)] assms(3) k(1)
    by (simp add: move_down_window_start_position_def)
  have g: "con_geom ?c" "ring ?c log" using assms(1,2) by (simp_all add: con_geom_def ring_def)
  have "window_first_history ?c \<le> length log" "length log \<le> window_first_history ?c + 100"
    using k assms(3,4) by simp_all
  from redraw_spec [OF g this] obtain c' where c': "redraw ?c = Inr c'" "con_inv c' log" "same_input ?c c'"
    "window_first_history c' = ?f + ?k" "window_last_history c' = ?f + ?k + fitn 0 (drop (?f + ?k) log)"
    "window c' = win_cells (seg c' log)" by auto
  have "same_input c c'" using c'(3) by (simp add: same_input_def)
  then show ?thesis using mv c' by (intro exI [of _ c']) simp
qed

text \<open>The window follows the output and is full: the first row is dropped.\<close>

lemma write_overflow:
  assumes inv: "con_inv c log" and fol: "following c" and len: "length log + 1 < 4294967296"
    and full: "80 < length (lay (seg c log @ [ch]))"
  shows "\<exists>c'. write_console_body c ch = Inr c' \<and> con_inv c' (log @ [ch]) \<and> following c' \<and>
     same_input c c' \<and>
     seg c' (log @ [ch]) = drop (rowlen 0 (seg c log @ [ch])) (seg c log @ [ch])"
proof -
  note D = con_invD [OF inv]
  let ?t = "seg c log @ [ch]"
  let ?k = "rowlen 0 ?t" and ?m = "length (lay ?t)" and ?f = "window_first_history c"
  have m: "?m = window_size c + cell_len (window_size c) ch"
    using length_lay_snoc [of "seg c log" ch] D(6) by simp
  have last: "window_last_history c = length log" using fol D(10) by (simp add: following_def)
  have g1: "con_geom (c\<lparr>window_size := ?m\<rparr>)" "ring (c\<lparr>window_size := ?m\<rparr>) log"
    using D(1,2) by (simp_all add: con_geom_def ring_def)
  obtain c2 where c2: "append_history (c\<lparr>window_size := ?m\<rparr>) ch = Inr c2" "con_geom c2" "ring c2 (log @ [ch])"
    and c2': "window_size c2 = ?m" "screen c2 = screen c" "input_cnt c2 = input_cnt c"
    "input_buf c2 = input_buf c" "window_first_history c2 = ?f"
    by (rule console_append [OF g1 len, of ch]) auto
  have dr: "drop ?f (log @ [ch]) = ?t" using D(3) last by (simp add: seg_def)
  have "length (seg c log) \<le> 80" using length_lay_ge [of "seg c log" 0] D(7) by simp
  then have "length (log @ [ch]) \<le> window_first_history c2 + 100" using last c2' by (simp add: seg_def)
  moreover have "window_first_history c2 < length (log @ [ch])" using D(3) last c2' by simp
  ultimately obtain c3 where c3: "bind_res (move_down_window_start_position c2) (\<lambda>(c, _). redraw c) = Inr c3"
    "con_inv c3 (log @ [ch])" "same_input c2 c3" "window c3 = win_cells (seg c3 (log @ [ch]))"
    "window_first_history c3 = ?f + ?k"
    "window_last_history c3 = ?f + ?k + fitn 0 (drop (?f + ?k) (log @ [ch]))"
    using scroll_down [OF c2(2,3)] c2'(5) dr by auto
  note row = drop_first_row [OF D(7) full]
  have dk: "drop (?f + ?k) (log @ [ch]) = drop ?k ?t"
    unfolding dr [symmetric] by (simp only: drop_drop add.commute)
  have fk: "fitn 0 (drop ?k ?t) = length (drop ?k ?t)" using row(1) by (intro fitn_all) simp
  have "window_last_history c3 = ?f + ?k + length (drop (?f + ?k) (log @ [ch]))"
    using c3(6) unfolding dk fk .
  then have "window_last_history c3 = length (log @ [ch])"
    using con_invD(3,4) [OF c3(2)] c3(5) unfolding length_drop by linarith
  then have l3: "window_last_history c3 = length (log @ [ch])" "seg c3 (log @ [ch]) = drop ?k ?t"
    using dk c3(5) by (simp_all add: seg_def)
  obtain u where u: "seg c3 (log @ [ch]) = u @ [ch]" using row(2) l3(2) by auto
  obtain c4 where c4: "bind_res (output_window_one_to_vga c3 (sub32 (window_size c3) 1) ch) (\<lambda>(c, _). Inr c) = Inr c4"
    "con_inv c4 (log @ [ch])" "same_input c3 c4" "seg c4 (log @ [ch]) = seg c3 (log @ [ch])"
    "window_last_history c4 = window_last_history c3"
    using newest_cell [OF c3(2,4) u] by blast
  have delta: "calc_window_delta c (window_size c) ch = Inr (cell_len (window_size c) ch)"
    using calc_window_delta_spec [OF D(1)] D(6,7) by simp
  have add: "add32 (window_size c) (cell_len (window_size c) ch) = ?m"
    using m D(6,7) cell_len_le [of "window_size c" ch] by (simp add: add32_exact)
  have "write_console_body c ch = Inr c4"
    using fol last delta c2(1) c2'(1) c3(1) c4(1) full con_geomD(5) [OF c2(2)] D(10)
    by (simp add: write_console_body_def Let_def following_def add redraw_res split_def del: bind_res_eq_Inr)
  moreover have "same_input c c4"
    using same_input_trans [OF c3(3) c4(3)] c2' by (simp add: same_input_def)
  moreover have "following c4" using c4(5) l3(1) con_invD(10) [OF c4(2)] by (simp add: following_def)
  ultimately show ?thesis using c4(2,4) l3(2) by auto
qed

text \<open>The window shows an older part of the history: it jumps to the new character.\<close>

lemma write_detached:
  assumes inv: "con_inv c log" and nf: "\<not> following c" and len: "length log + 1 < 4294967296"
  shows "\<exists>c'. write_console_body c ch = Inr c' \<and> con_inv c' (log @ [ch]) \<and> following c' \<and>
     same_input c c' \<and> seg c' (log @ [ch]) = [ch]"
proof -
  note D = con_invD [OF inv]
  let ?n = "length log" and ?m = "cell_len 0 ch"
  let ?c1 = "c\<lparr>window_size := 0, window_first_history := ?n\<rparr>"
  let ?c2 = "c\<lparr>window_first_history := ?n, window_size := ?m\<rparr>"
  have g1: "con_geom ?c1" "con_geom ?c2" "ring ?c2 log" using D(1,2) by (simp_all add: con_geom_def ring_def)
  obtain c3 where c3: "append_history ?c2 ch = Inr c3" "con_geom c3" "ring c3 (log @ [ch])"
    and c3': "window c3 = window c" "window_size c3 = ?m" "screen c3 = screen c" "input_cnt c3 = input_cnt c"
    "input_buf c3 = input_buf c" "window_first_history c3 = ?n"
    by (rule console_append [OF g1(2,3) len, of ch]) auto
  have m: "0 < ?m" "?m \<le> 20" using cell_len_le by simp_all
  have sub: "sub32 ?m (Suc 0) = ?m - Suc 0" using m by (intro sub32_exact) linarith+
  have w80: "length (window c) = 80" using con_geomD(8) [OF D(1)] .
  obtain w1 where w1: "fill_range (window c) 0 (?m - Suc 0) NUL = Inr w1" "length w1 = 80"
    using fill_range_spec [of 0 "?m - Suc 0" "window c" NUL] m w80 by auto
  let ?c4 = "c3\<lparr>window := w1[?m - Suc 0 := ch]\<rparr>"
  have wr: "wr w1 (?m - Suc 0) ch = Inr (w1[?m - Suc 0 := ch])" using w1(2) m by (intro wr_in) linarith
  have g4: "con_geom ?c4" "ring ?c4 (log @ [ch])" using c3(2,3) w1(2) by (simp_all add: con_geom_def ring_def)
  obtain c5 where c5: "redraw ?c4 = Inr c5" "con_inv c5 (log @ [ch])" "same_input ?c4 c5"
    "window_first_history c5 = ?n" "window_last_history c5 = ?n + 1"
    using redraw_spec [OF g4] c3'(6) by auto
  have "calc_window_delta ?c1 0 ch = Inr ?m" using calc_window_delta_spec [OF g1(1), of 0] by simp
  moreover have "add32 0 ?m = ?m" using m by (simp add: add32_exact)
  ultimately have "write_console_body c ch = Inr c5"
    using nf D(10) c3(1) c3' w1(1) wr c5(1) m con_geomD(5) [OF c3(2)]
    by (simp add: write_console_body_def Let_def following_def sub redraw_res del: bind_res_eq_Inr)
  moreover have "same_input c c5" using c5(3) c3' by (simp add: same_input_def)
  moreover have "following c5" using c5(5) con_invD(10) [OF c5(2)] by (simp add: following_def)
  moreover have "seg c5 (log @ [ch]) = [ch]" using c5(4,5) by (simp add: seg_def)
  ultimately show ?thesis using c5(2) by blast
qed

lemma write_console_one_spec:
  assumes "con_inv c log" "length log + 1 < 4294967296"
  shows "\<exists>c'. write_console_one c ch = Some (Inr c') \<and> con_inv c' (log @ [ch]) \<and> following c' \<and>
     same_input c c' \<and>
     seg c' (log @ [ch]) = (if following c then view_write (seg c log) ch else [ch])"
proof -
  have "\<exists>c'. write_console_body c ch = Inr c' \<and> con_inv c' (log @ [ch]) \<and> following c' \<and>
     same_input c c' \<and> seg c' (log @ [ch]) = (if following c then view_write (seg c log) ch else [ch])"
    using write_fits [OF assms(1) _ assms(2), of ch] write_overflow [OF assms(1) _ assms(2), of ch]
      write_detached [OF assms(1) _ assms(2), of ch]
    by (cases "following c"; cases "length (lay (seg c log @ [ch])) \<le> 80") (simp_all add: view_write_def Let_def)
  then show ?thesis using con_geomD(6) [OF con_invD(1) [OF assms(1)]]
    by (simp add: write_console_one_def ensure_init_def)
qed

section \<open>Scrolling and clearing\<close>

lemma rowlen_ge:
  "n + j \<le> 20 \<Longrightarrow> j \<le> length xs \<Longrightarrow> \<forall>i. i + 1 < j \<longrightarrow> xs ! i \<noteq> NL \<Longrightarrow> j \<le> rowlen n xs"
proof (induction xs arbitrary: n j)
  case (Cons x xs)
  show ?case
  proof (cases "j \<le> 1")
    case True
    then show ?thesis using Cons.prems(1) by (cases j) auto
  next
    case False
    then obtain k where k: "j = Suc k" "0 < k" by (cases j) auto
    have x: "x \<noteq> NL" using Cons.prems(3) k by fastforce
    have "xs ! i \<noteq> NL" if "i + 1 < k" for i using Cons.prems(3) [rule_format, of "Suc i"] that k by simp
    then have "k \<le> rowlen (Suc n) xs" using Cons.prems(1,2) k by (intro Cons.IH) auto
    then show ?thesis using x k Cons.prems(1) by simp
  qed
qed simp

lemma prev_line_moves:
  assumes "con_geom c" "ring c log" "s \<le> length log" "length log \<le> s + 100" "length log < 4294967296"
    "length log - 100 < s"
  shows "prev_line_start c s \<noteq> Inr s"
proof -
  have cnt: "history_cnt c = length log" using assms(2) by (simp add: ring_def)
  have m: "(if 100 < history_cnt c then sub32 (history_cnt c) 100 else 0) = length log - 100"
    using cnt assms(5) by (simp add: sub32_exact)
  obtain j where j: "s = Suc j" using assms(6) by (cases s) auto
  have "hist_at c j = Inr (log ! j)" using assms j by (intro hist_at_ring) auto
  then have "prev_line_start c s = prev_line_loop c (length log - 100) s j 1"
    unfolding prev_line_start_def Let_def m
    using assms(6) j con_geomD(2) [OF assms(1)] by (subst prev_line_loop.simps) simp
  moreover have "length log \<le> length log - 100 + 100" "length log - 100 \<le> j" "j \<le> s" "1 = s - j"
    "\<forall>i. j \<le> i \<and> i + 1 < s \<longrightarrow> log ! i \<noteq> NL" using assms(6) j by auto
  then have "\<exists>p. prev_line_loop c (length log - 100) s j 1 = Inr p \<and> p \<le> j"
    using prev_line_loop_spec [OF assms(1,2) _ assms(3), of "length log - 100" j 1] by auto
  ultimately show ?thesis using j by auto
qed

lemma window_move_up_spec:
  assumes "con_inv c log" "length log < 4294967296"
  shows "\<exists>c'. window_move_up c = Inr c' \<and> con_inv c' log \<and> same_input c c' \<and>
     (window_first_history c = length log - 100 \<and> c' = c \<or>
      window_first_history c' < window_first_history c \<and>
      window_first_history c \<le> window_first_history c' + rowlen 0 (drop (window_first_history c') log))"
proof -
  note D = con_invD [OF assms(1)]
  let ?f = "window_first_history c"
  have f: "?f \<le> length log" using D(3,4) by simp
  obtain p where p: "prev_line_start c ?f = Inr p" "p \<le> ?f" "length log \<le> p + 100" "?f \<le> p + 20"
    "\<forall>i. p \<le> i \<and> i + 1 < ?f \<longrightarrow> log ! i \<noteq> NL" "p = length log - 100 \<or> ?f = p + 20 \<or> log ! (p - 1) = NL"
    using prev_line_start_spec [OF D(1,2) f D(5) assms(2)] by blast
  show ?thesis
  proof (cases "p = ?f")
    case True
    then have "window_move_up c = Inr c"
      using p(1) by (simp add: window_move_up_def move_up_window_start_position_def)
    moreover have "?f = length log - 100"
    proof (rule ccontr)
      assume "?f \<noteq> length log - 100"
      then have "length log - 100 < ?f" using D(5) by simp
      then have "prev_line_start c ?f \<noteq> Inr ?f" using prev_line_moves [OF D(1,2) f D(5) assms(2)] by simp
      then show False using True p(1) by simp
    qed
    ultimately show ?thesis using assms(1) by auto
  next
    case False
    let ?c = "c\<lparr>window_first_history := p\<rparr>"
    have g: "con_geom ?c" "ring ?c log" using D(1,2) by (simp_all add: con_geom_def ring_def)
    obtain c' where c': "redraw ?c = Inr c'" "con_inv c' log" "same_input ?c c'" "window_first_history c' = p"
      using redraw_spec [OF g] p(2,3) f by auto
    have "window_move_up c = Inr c'" using p(1,2) False c'(1)
      by (simp add: window_move_up_def move_up_window_start_position_def redraw_res del: bind_res_eq_Inr)
    moreover have "?f - p \<le> rowlen 0 (drop p log)"
      using p(2,4,5) f by (intro rowlen_ge) (auto simp: add.commute)
    moreover have "same_input c c'" using c'(3) by (simp add: same_input_def)
    ultimately show ?thesis using c' p(2) False by auto
  qed
qed

lemma window_move_down_spec:
  assumes "con_inv c log"
  shows "\<exists>c'. window_move_down c = Inr c' \<and> con_inv c' log \<and> same_input c c' \<and>
     window_first_history c' = window_first_history c + rowlen 0 (drop (window_first_history c) log)"
proof -
  note D = con_invD [OF assms]
  let ?f = "window_first_history c"
  have f: "?f \<le> length log" using D(3,4) by simp
  note nls = next_line_start_spec [OF D(1,2) f D(5)]
  show ?thesis
  proof (cases "?f = length log")
    case True
    then have "window_move_down c = Inr c"
      using nls by (simp add: window_move_down_def move_down_window_start_position_def)
    then show ?thesis using assms True by simp
  next
    case False
    then have "0 < rowlen 0 (drop ?f log)" using f by (intro rowlen_pos) simp
    then have "window_move_down c = bind_res (move_down_window_start_position c) (\<lambda>(c, _). redraw c)"
      using nls by (simp add: window_move_down_def move_down_window_start_position_def redraw_res)
    then show ?thesis using scroll_down [OF D(1,2) _ D(5)] False f by auto
  qed
qed

lemma console_clear_spec:
  assumes "con_geom c" "ring c log"
  shows "\<exists>c'. console_clear c = Some (Inr c') \<and> con_inv c' log \<and> same_input c c' \<and>
     following c' \<and> seg c' log = []"
proof -
  let ?n = "length log"
  have cnt: "history_cnt c = ?n" using assms(2) by (simp add: ring_def)
  let ?c = "c\<lparr>window_last_history := ?n, window_first_history := ?n\<rparr>"
  have g: "con_geom ?c" "ring ?c log" using assms by (simp_all add: con_geom_def ring_def)
  obtain c' where c': "redraw ?c = Inr c'" "con_inv c' log" "same_input ?c c'"
    "window_first_history c' = ?n" "window_last_history c' = ?n"
    using redraw_spec [OF g] by auto
  have "console_clear c = Some (Inr c')"
    using c'(1) con_geomD(6) [OF assms(1)] cnt
    by (simp add: console_clear_def ensure_init_def redraw_res Let_def del: bind_res_eq_Inr)
  moreover have "same_input c c'" using c'(3) by (simp add: same_input_def)
  ultimately show ?thesis using c' con_invD(10) [OF c'(2)] by (auto simp: following_def seg_def)
qed

end
