(* ===== verification/Ts_Console_Input.thy ===== *)
theory Ts_Console_Input
  imports Ts_Console_Output
begin

text \<open>
  The input line of the console: what typing, deleting and clearing do to the line, to its picture
  in the top rows of the screen and to the output area below, which moves when the line grows into
  a second row or shrinks back.
\<close>

section \<open>The line and its picture\<close>

definition input_text :: "console \<Rightarrow> char list" where
  "input_text c = take (input_cnt c) (input_buf c)"

definition input_cell :: "console \<Rightarrow> nat \<Rightarrow> char" where
  "input_cell c i = (if i < input_cnt c then input_buf c ! i else NUL)"

definition input_shown :: "console \<Rightarrow> bool" where
  "input_shown c \<longleftrightarrow> (\<forall>i < 20 * (in_rows c + 1).
     vga_cell (screen c) (i mod 20) (i div 20) = input_cell c i)"

lemma length_input_text: "con_geom c \<Longrightarrow> length (input_text c) = input_cnt c"
  by (simp add: input_text_def con_geom_def)

lemma input_pos: "i < 40 \<Longrightarrow> i mod 20 < 80 \<and> i div 20 < (25 :: nat)"
  using mod_less_divisor [of 20 i] less_mult_imp_div_less [of i 2 20] by linarith

lemma same_input_shown:
  assumes "same_input c c'" "input_shown c" "in_rows c \<le> 1"
  shows "input_shown c'" "input_text c' = input_text c"
proof -
  have s: "input_cnt c' = input_cnt c" "input_buf c' = input_buf c" using assms(1) by (simp_all add: same_input_def)
  have "vga_cell (screen c') (i mod 20) (i div 20) = vga_cell (screen c) (i mod 20) (i div 20)"
    if "i < 20 * (in_rows c + 1)" for i
  proof -
    have "20 * (in_rows c + 1) \<le> 40" using assms(3) by simp
    with that have "i < 40" by (rule less_le_trans)
    moreover have "i div 20 \<le> in_rows c" using that less_mult_imp_div_less [of i "in_rows c + 1" 20] by simp
    ultimately show ?thesis using assms(1) input_pos [of i] by (simp add: same_input_def)
  qed
  then show "input_shown c'" using assms(2) s by (simp add: input_shown_def input_cell_def)
  show "input_text c' = input_text c" using s by (simp add: input_text_def)
qed

text \<open>The invariant speaks about the input line only through its number of rows.\<close>

lemma redraw_after_input:
  assumes "con_inv c log" "con_geom c1" "c1 = c\<lparr>input_cnt := n, input_buf := b, screen := v\<rparr>"
  shows "\<exists>c2. draw_window c1 = Inr c2 \<and> con_inv c2 log \<and> same_input c1 c2"
proof -
  obtain v' where v': "draw_window c1 = Inr (c1\<lparr>screen := v'\<rparr>)" "vga_std v'" "shown (c1\<lparr>screen := v'\<rparr>)"
    "\<forall>x < 80. \<forall>y < 25. y \<le> in_rows c1 \<longrightarrow> vga_cell v' x y = vga_cell (screen c1) x y"
    using draw_window_spec [OF assms(2)] by blast
  let ?c2 = "c1\<lparr>screen := v'\<rparr>"
  have "con_inv ?c2 log"
    using con_invD [OF assms(1)] con_geom_screen [OF assms(2) v'(2)] v'(3)
    unfolding assms(3) by (simp add: con_inv_def ring_def seg_def)
  moreover have "same_input c1 ?c2" using v'(4) by (simp add: same_input_def)
  ultimately show ?thesis using v'(1) by blast
qed

lemma con_inv_same_rows:
  assumes "con_inv c log" "con_geom c1" "c1 = c\<lparr>input_cnt := n, input_buf := b, screen := v\<rparr>"
    "rows_of n = in_rows c"
    "\<forall>x < 80. \<forall>y < 25. in_rows c < y \<longrightarrow> vga_cell v x y = vga_cell (screen c) x y"
  shows "con_inv c1 log"
proof -
  note D = con_invD [OF assms(1)]
  have r: "in_rows c \<le> 1" using con_geomD(10) [OF D(1)] by (rule rows_of_le)
  have "vga_cell v (i mod 20) (i div 20 + in_rows c + 1) = disp (window c ! i)" if "i < visible c" for i
  proof -
    have "i < 80" using that by simp
    with cell_pos_screen [OF this r] have "i mod 20 < 80" "i div 20 + in_rows c + 1 < 25" by simp_all
    then show ?thesis using assms(5) D(9) that by (simp add: shown_def)
  qed
  then have "shown c1" using assms(3,4) by (simp add: shown_def)
  then show ?thesis using D assms(2) unfolding assms(3) by (simp add: con_inv_def ring_def seg_def)
qed

section \<open>Drawing the line\<close>

definition line_cells :: "console \<Rightarrow> nat list \<Rightarrow> (char \<times> nat \<times> nat) list" where
  "line_cells c is = map (\<lambda>i. (input_cell c i, i mod 20, i div 20)) is"

lemma screen_put_fold:
  "fold (\<lambda>i c. screen_put c (f i) (g i) (h i)) is c =
     c\<lparr>screen := vga_screen.puts (map (\<lambda>i. (f i, g i, h i)) is) (screen c)\<rparr>"
  by (induction "is" arbitrary: c) (simp_all add: screen_put_def)

lemma line_cells_distinct: "distinct is \<Longrightarrow> distinct (map snd (line_cells c is))"
  unfolding line_cells_def map_map comp_def snd_conv distinct_map
  by (auto intro!: inj_onI dest: cell_pos_inj [of _ _ 0, simplified])

lemma puts_line:
  assumes "vga_std v" "distinct is" "set is \<subseteq> {..<40}" "i < 40"
  shows "vga_cell (vga_screen.puts (line_cells c is) v) (i mod 20) (i div 20) =
     (if i \<in> set is then input_cell c i else vga_cell v (i mod 20) (i div 20))"
proof (cases "i \<in> set is")
  case True
  then have "(input_cell c i, i mod 20, i div 20) \<in> set (line_cells c is)" by (simp add: line_cells_def)
  then show ?thesis using True input_pos [OF assms(4)]
    by (simp add: vga_screen.puts_written [OF assms(1) _ _ _ line_cells_distinct [OF assms(2)]])
next
  case False
  have "(i mod 20, i div 20) \<notin> snd ` set (line_cells c is)"
  proof
    assume "(i mod 20, i div 20) \<in> snd ` set (line_cells c is)"
    then obtain j where "j \<in> set is" "i mod 20 = j mod 20" "i div 20 = j div 20"
      by (auto simp: line_cells_def)
    then show False using False cell_pos_inj [of i j 0] by simp
  qed
  then show ?thesis using False input_pos [OF assms(4)] by (simp add: vga_screen.puts_other [OF assms(1)])
qed

lemma puts_line_below:
  assumes "vga_std v" "\<forall>i \<in> set is. i < 20 * (r + 1)" "x < 80" "y < 25" "r < y"
  shows "vga_cell (vga_screen.puts (line_cells c is) v) x y = vga_cell v x y"
proof (rule vga_screen.puts_other [OF assms(1,3,4)])
  have "i div 20 < r + 1" if "i \<in> set is" for i
    using assms(2) that by (intro less_mult_imp_div_less) (simp add: mult.commute)
  then show "(x, y) \<notin> snd ` set (line_cells c is)" using assms(5) by (fastforce simp: line_cells_def)
qed

text \<open>The line got shorter: all old cells are drawn again.\<close>

lemma draw_input_shrink:
  assumes "con_geom c" "input_cnt c < old" "old \<le> 40"
  shows "draw_input_if_need c old =
     Inr (c\<lparr>screen := vga_screen.puts (line_cells c [0..<old]) (screen c)\<rparr>)"
proof -
  let ?step = "\<lambda>i r. bind_res r (\<lambda>c'. if i < input_cnt c
      then bind_res (rd (input_buf c') i) (\<lambda>ch. Inr (screen_put c' ch (i mod 20) (i div 20)))
      else Inr (screen_put c' NUL (i mod 20) (i div 20)))"
  have "fold ?step is (Inr c') = Inr (c'\<lparr>screen := vga_screen.puts (line_cells c is) (screen c')\<rparr>)"
    if "input_buf c' = input_buf c" for "is" c'
    using that
  proof (induction "is" arbitrary: c')
    case Nil
    then show ?case by (simp add: line_cells_def)
  next
    case (Cons i "is")
    have "?step i (Inr c') = Inr (screen_put c' (input_cell c i) (i mod 20) (i div 20))"
      using Cons.prems con_geomD(9,10) [OF assms(1)] by (simp add: input_cell_def rd_def)
    then have "fold ?step (i # is) (Inr c') = fold ?step is (Inr (screen_put c' (input_cell c i) (i mod 20) (i div 20)))"
      by (simp only: fold.simps comp_def)
    also have "\<dots> = Inr (screen_put c' (input_cell c i) (i mod 20) (i div 20)
        \<lparr>screen := vga_screen.puts (line_cells c is) (screen (screen_put c' (input_cell c i) (i mod 20) (i div 20)))\<rparr>)"
      using Cons.prems by (intro Cons.IH) simp
    finally show ?case by (simp add: line_cells_def screen_put_def)
  qed
  from this [of c "[0..<old]"] show ?thesis using assms(2) con_geomD(2) [OF assms(1)]
    by (simp add: draw_input_if_need_def Let_def)
qed

section \<open>Typing\<close>

lemma valid_input_cnt_spec:
  assumes "con_geom c"
  shows "valid_input_cnt c n = Inr (if n \<le> 40 then 1 else - 1)"
  using rows_of_le [of n] rows_of_ge [of n]
  by (cases "n \<le> 40") (simp_all add: valid_input_cnt_def inpws_to_rn_spec [OF assms])

lemma check_resize_spec: "con_geom c \<Longrightarrow> check_resize_layout c n k = Inr (rows_of n \<noteq> rows_of k)"
  by (simp add: check_resize_layout_def inpws_to_rn_spec)

lemma rows_of_Suc: "n < 40 \<Longrightarrow> rows_of (n + 1) \<noteq> rows_of n \<longleftrightarrow> n = 20"
proof -
  assume n: "n < 40"
  have "(n - 1) div 20 = 1" "n div 20 = 1" if "20 < n"
    using that n by (simp_all add: div_nat_eqI)
  then show ?thesis using n by (cases "n < 20"; cases "n = 20") (simp_all add: rows_of_def)
qed

text \<open>The state after the character has been stored, before anything is drawn.\<close>

definition typed :: "console \<Rightarrow> char \<Rightarrow> console" where
  "typed c ch = c\<lparr>input_buf := (input_buf c)[input_cnt c := ch], input_cnt := input_cnt c + 1\<rparr>"

lemma typed_geom: "con_geom c \<Longrightarrow> input_cnt c < 40 \<Longrightarrow> con_geom (typed c ch)"
  by (simp add: typed_def con_geom_def)

lemma typed_cell:
  "con_geom c \<Longrightarrow> input_cnt c < 40 \<Longrightarrow>
     input_cell (typed c ch) i = (if i = input_cnt c then ch else input_cell c i)"
  by (auto simp: typed_def input_cell_def con_geom_def)

lemma get_input_char_unfold:
  assumes "con_geom c"
  shows "get_input_char c ch =
     (if 40 \<le> input_cnt c then Inr c
      else if input_cnt c = 20 then bind_res (draw_input_if_need (typed c ch) 20) draw_window
      else Inr (screen_put (typed c ch) ch (input_cnt c mod 20) (input_cnt c div 20)))"
proof (cases "40 \<le> input_cnt c")
  case True
  then show ?thesis using con_geomD(10) [OF assms]
    by (simp add: get_input_char_def Let_def add32_exact valid_input_cnt_spec [OF assms])
next
  case False
  then have lt: "input_cnt c < 40" by simp
  have add: "add32 (input_cnt c) 1 = input_cnt c + 1" using lt by (simp add: add32_exact)
  have wr: "wr (input_buf c) (input_cnt c) ch = Inr ((input_buf c)[input_cnt c := ch])"
    using con_geomD(9) [OF assms] lt by (simp add: wr_in)
  have ty: "c\<lparr>input_buf := (input_buf c)[input_cnt c := ch], input_cnt := input_cnt c + 1\<rparr> = typed c ch"
    by (simp add: typed_def)
  have rs: "(rows_of (input_cnt c) \<noteq> rows_of (input_cnt c + 1)) = (input_cnt c = 20)"
    using rows_of_Suc [OF lt] by auto
  show ?thesis using lt con_geomD(2) [OF typed_geom [OF assms lt]]
    unfolding get_input_char_def Let_def add valid_input_cnt_spec [OF assms] wr bind_res_simps ty
      check_resize_spec [OF typed_geom [OF assms lt]] rs by simp
qed

lemma typed_text:
  assumes "con_geom c" "input_cnt c < 40"
  shows "input_text (typed c ch) = input_text c @ [ch]"
  using assms con_geomD(9) [OF assms(1)]
  by (simp add: typed_def input_text_def take_Suc_conv_app_nth)

lemma row_of_cursor: "n < 40 \<Longrightarrow> n \<noteq> 20 \<Longrightarrow> n div 20 = rows_of n"
proof -
  assume n: "n < 40" "n \<noteq> 20"
  have "(n - 1) div 20 = 1" "n div 20 = 1" if "20 < n" using that n by (simp_all add: div_nat_eqI)
  then show ?thesis using n by (cases "n < 20") (simp_all add: rows_of_def)
qed

lemma type_same_row:
  assumes inv: "con_inv c log" and sh: "input_shown c" and n: "input_cnt c < 40" "input_cnt c \<noteq> 20"
    and c1_def: "c1 = screen_put (typed c ch) ch (input_cnt c mod 20) (input_cnt c div 20)"
  shows "con_inv c1 log \<and> input_shown c1"
proof -
  note D = con_invD [OF inv]
  note std = con_geomD(1) [OF D(1)]
  let ?n = "input_cnt c"
  let ?v = "fst (vga_write_char (screen c) ch (?n mod 20) (?n div 20))"
  have c1: "c1 = c\<lparr>input_cnt := ?n + 1, input_buf := (input_buf c)[?n := ch], screen := ?v\<rparr>"
    by (simp add: c1_def screen_put_def typed_def)
  have g: "con_geom c1" unfolding c1_def by (intro con_geom_put typed_geom D(1) n(1))
  have rows: "rows_of (?n + 1) = in_rows c" using rows_of_Suc [OF n(1)] n(2) by auto
  have below: "vga_cell ?v x y = vga_cell (screen c) x y" if "x < 80" "y < 25" "in_rows c < y" for x y
    using vga_screen.put_cell_gen [OF std that(1,2)] that(3) row_of_cursor [OF n] by auto
  have "con_inv c1 log" using below by (intro con_inv_same_rows [OF inv g c1 rows]) blast
  moreover have "vga_cell ?v (i mod 20) (i div 20) = input_cell (typed c ch) i"
    if i: "i < 20 * (in_rows c + 1)" for i
  proof -
    have "20 * (in_rows c + 1) \<le> 40" using rows_of_le [of ?n] n(1) by simp
    with i have i40: "i < 40" by (rule less_le_trans)
    then show ?thesis using vga_screen.put_cell_gen [OF std, of "i mod 20" "i div 20"] input_pos [OF i40]
        typed_cell [OF D(1) n(1)] sh i cell_pos_inj [of i ?n 0] by (auto simp: input_shown_def)
  qed
  then have "input_shown c1" using rows by (simp add: input_shown_def c1 input_cell_def typed_def)
  ultimately show ?thesis by blast
qed

lemma draw_input_new_row:
  assumes "con_geom c" "input_cnt c = 21"
  shows "draw_input_if_need c 20 =
     Inr (c\<lparr>screen := vga_screen.puts (map (\<lambda>i. (NUL, i mod 20, i div 20)) [20..<40] @ [(input_buf c ! 20, 0, 1)]) (screen c)\<rparr>)"
  using assms con_geomD(2,9) [OF assms(1)]
  by (simp add: draw_input_if_need_def Let_def add32_exact sub32_exact screen_put_fold rd_in vga_screen.puts_append
      del: upt_rec_numeral) (simp add: screen_put_def)

lemma type_new_row:
  assumes inv: "con_inv c log" and sh: "input_shown c" and n: "input_cnt c = 20"
  shows "\<exists>c2. bind_res (draw_input_if_need (typed c ch) 20) draw_window = Inr c2 \<and> con_inv c2 log \<and>
     input_shown c2 \<and> input_text c2 = input_text c @ [ch]"
proof -
  note D = con_invD [OF inv]
  note std = con_geomD(1) [OF D(1)]
  let ?ws = "map (\<lambda>i. (NUL, i mod 20, i div 20)) [20..<40]"
  let ?v1 = "vga_screen.puts ?ws (screen c)"
  let ?v = "fst (vga_write_char ?v1 ch 0 1)"
  have lt: "input_cnt c < 40" using n by simp
  have g: "con_geom (typed c ch)" using typed_geom [OF D(1) lt] .
  have n1: "input_cnt (typed c ch) = 21" "input_buf (typed c ch) ! 20 = ch" "screen (typed c ch) = screen c"
    using n con_geomD(9) [OF D(1)] by (simp_all add: typed_def)
  let ?c1 = "(typed c ch)\<lparr>screen := ?v\<rparr>"
  have di: "draw_input_if_need (typed c ch) 20 = Inr ?c1"
    using draw_input_new_row [OF g n1(1)] n1 by (simp add: vga_screen.puts_append del: upt_rec_numeral)
  have v1: "vga_std ?v1" using std by (rule vga_screen.puts_ok)
  have g1: "con_geom ?c1" by (intro con_geom_screen g vga_screen.put_ok v1)
  have "?c1 = c\<lparr>input_cnt := input_cnt c + 1, input_buf := (input_buf c)[input_cnt c := ch], screen := ?v\<rparr>"
    by (simp add: typed_def)
  from redraw_after_input [OF inv g1 this] obtain c2
    where c2: "draw_window ?c1 = Inr c2" "con_inv c2 log" "same_input ?c1 c2" by blast
  have ws: "?ws = line_cells (c\<lparr>input_cnt := 0\<rparr>) [20..<40]" by (simp add: line_cells_def input_cell_def del: upt_rec_numeral)
  have "vga_cell ?v (i mod 20) (i div 20) = input_cell (typed c ch) i" if i: "i < 40" for i
  proof -
    have "vga_cell ?v1 (i mod 20) (i div 20) = (if 20 \<le> i then NUL else vga_cell (screen c) (i mod 20) (i div 20))"
      unfolding ws by (subst puts_line [OF std]) (use i in \<open>auto simp: input_cell_def simp del: upt_rec_numeral\<close>)
    moreover have "vga_cell (screen c) (i mod 20) (i div 20) = input_cell c i" if "i < 20"
      using sh that n by (simp add: input_shown_def rows_of_def)
    moreover have "(i mod 20 = 0 \<and> i div 20 = 1) = (i = 20)" using cell_pos_inj [of i 20 0] by auto
    ultimately show ?thesis
      using vga_screen.put_cell_gen [OF v1, of "i mod 20" "i div 20" ch 0 1] input_pos [OF i]
        typed_cell [OF D(1) lt, of ch i] n by (auto simp: input_cell_def)
  qed
  moreover have r1: "in_rows ?c1 = 1" using n1(1) by (simp add: rows_of_def)
  ultimately have "input_shown ?c1" by (simp add: input_shown_def input_cell_def)
  then have "input_shown c2" "input_text c2 = input_text ?c1" using same_input_shown [OF c2(3)] r1 by simp_all
  moreover have "input_text ?c1 = input_text c @ [ch]" using typed_text [OF D(1) lt, of ch] by (simp add: input_text_def)
  ultimately show ?thesis using di c2 by auto
qed

lemma get_input_char_spec:
  assumes "con_inv c log" "input_shown c"
  shows "\<exists>c'. get_input_char c ch = Inr c' \<and> con_inv c' log \<and> input_shown c' \<and>
     input_text c' = (if length (input_text c) < 40 then input_text c @ [ch] else input_text c)"
proof -
  note g = con_invD(1) [OF assms(1)]
  note len = length_input_text [OF g]
  consider "40 \<le> input_cnt c" | "input_cnt c = 20" | "input_cnt c < 40" "input_cnt c \<noteq> 20" by linarith
  then show ?thesis
  proof cases
    case 1
    then show ?thesis using assms len by (simp add: get_input_char_unfold [OF g])
  next
    case 2
    then show ?thesis using type_new_row [OF assms 2, of ch] len
      by (auto simp: get_input_char_unfold [OF g])
  next
    case 3
    have "input_text (screen_put (typed c ch) ch (input_cnt c mod 20) (input_cnt c div 20)) = input_text c @ [ch]"
      using typed_text [OF g 3(1), of ch] by (simp add: input_text_def)
    then show ?thesis using type_same_row [OF assms 3 refl, of ch] 3 len
      by (auto simp: get_input_char_unfold [OF g])
  qed
qed

section \<open>Deleting and clearing\<close>

lemma rows_of_mono: "n \<le> m \<Longrightarrow> rows_of n \<le> rows_of m"
  using div_le_mono [of "n - 1" "m - 1" 20] by (auto simp: rows_of_def)

lemma line_in_rows: "i < n \<Longrightarrow> i < 20 * (rows_of n + 1)"
proof -
  assume i: "i < n"
  have "n - 1 < 20 * ((n - 1) div 20 + 1)"
    using dividend_less_times_div [of 20 "n - 1"] by (simp add: algebra_simps)
  then show ?thesis using i by (auto simp: rows_of_def)
qed

text \<open>The picture after a shorter line has been drawn over the old one.\<close>

lemma shorter_line:
  assumes inv: "con_inv c log" and sh: "input_shown c" and new: "n < input_cnt c"
  defines "c0 \<equiv> c\<lparr>input_cnt := n\<rparr>"
  defines "c1 \<equiv> c0\<lparr>screen := vga_screen.puts (line_cells c0 [0..<input_cnt c]) (screen c)\<rparr>"
  shows "draw_input_if_need c0 (input_cnt c) = Inr c1" "con_geom c1" "input_shown c1"
    "input_text c1 = take n (input_text c)"
    "rows_of n = in_rows c \<Longrightarrow> con_inv c1 log"
    "\<exists>c2. draw_window c1 = Inr c2 \<and> con_inv c2 log \<and> same_input c1 c2"
proof -
  note D = con_invD [OF inv]
  note std = con_geomD(1) [OF D(1)] and c40 = con_geomD(10) [OF D(1)]
  let ?v = "vga_screen.puts (line_cells c0 [0..<input_cnt c]) (screen c)"
  have g0: "con_geom c0" using D(1) new by (simp add: c0_def con_geom_def)
  show "draw_input_if_need c0 (input_cnt c) = Inr c1"
    using draw_input_shrink [OF g0 _ c40] new by (simp add: c1_def c0_def)
  show g1: "con_geom c1" unfolding c1_def by (intro con_geom_screen g0 vga_screen.puts_ok std)
  have r: "rows_of n \<le> in_rows c" using new by (intro rows_of_mono) simp
  have le40: "20 * (in_rows c + 1) \<le> 40" using rows_of_le [OF c40] by simp
  have cell: "vga_cell ?v (i mod 20) (i div 20) = input_cell c0 i" if i: "i < 20 * (rows_of n + 1)" for i
  proof -
    have "20 * (rows_of n + 1) \<le> 20 * (in_rows c + 1)" by (intro mult_le_mono2 add_right_mono r)
    with i have i': "i < 20 * (in_rows c + 1)" by (rule less_le_trans)
    then have "i < 40" using le40 by (rule less_le_trans)
    then have "vga_cell ?v (i mod 20) (i div 20) =
        (if i < input_cnt c then input_cell c0 i else vga_cell (screen c) (i mod 20) (i div 20))"
      using c40 by (subst puts_line [OF std]) auto
    moreover have "vga_cell (screen c) (i mod 20) (i div 20) = input_cell c i"
      using sh i' by (simp add: input_shown_def)
    ultimately show ?thesis using new by (auto simp: input_cell_def c0_def)
  qed
  then show "input_shown c1" by (simp add: input_shown_def c1_def c0_def input_cell_def)
  show "input_text c1 = take n (input_text c)" using new by (simp add: input_text_def c1_def c0_def)
  have c1: "c1 = c\<lparr>input_cnt := n, input_buf := input_buf c, screen := ?v\<rparr>" by (simp add: c1_def c0_def)
  have "\<forall>i \<in> set [0..<input_cnt c]. i < 20 * (in_rows c + 1)"
    unfolding set_upt using line_in_rows by (meson atLeastLessThan_iff)
  then have "vga_cell ?v x y = vga_cell (screen c) x y" if "x < 80" "y < 25" "in_rows c < y" for x y
    using that by (intro puts_line_below [OF std])
  then show "rows_of n = in_rows c \<Longrightarrow> con_inv c1 log" by (intro con_inv_same_rows [OF inv g1 c1]) blast+
  show "\<exists>c2. draw_window c1 = Inr c2 \<and> con_inv c2 log \<and> same_input c1 c2"
    by (rule redraw_after_input [OF inv g1 c1])
qed

lemma backspace_spec:
  assumes inv: "con_inv c log" and sh: "input_shown c"
  shows "\<exists>c'. modify_input_cnt c (- 1) = Inr c' \<and> con_inv c' log \<and> input_shown c' \<and>
     input_text c' = butlast (input_text c)"
proof -
  note D = con_invD [OF inv]
  note len = length_input_text [OF D(1)] and c40 = con_geomD(10) [OF D(1)]
  show ?thesis
  proof (cases "input_cnt c = 0")
    case True
    then have "modify_input_cnt c (- 1) = Inr c"
      by (simp add: modify_input_cnt_def Let_def sub32_borrow valid_input_cnt_spec [OF D(1)])
    then show ?thesis using inv sh True by (simp add: input_text_def)
  next
    case False
    let ?n = "input_cnt c - 1"
    have lt: "?n < input_cnt c" "?n \<le> 40" using False c40 by simp_all
    have sub: "sub32 (input_cnt c) 1 = ?n" using False c40 by (intro sub32_exact) linarith+
    note S = shorter_line [OF inv sh lt(1)]
    let ?c0 = "c\<lparr>input_cnt := ?n\<rparr>"
    let ?c1 = "?c0\<lparr>screen := vga_screen.puts (line_cells ?c0 [0..<input_cnt c]) (screen c)\<rparr>"
    have m: "modify_input_cnt c (- 1) = (if in_rows c \<noteq> rows_of ?n then draw_window ?c1 else Inr ?c1)"
      using lt(2) S(1) check_resize_spec [OF S(2)] sub
      by (simp add: modify_input_cnt_def Let_def valid_input_cnt_spec [OF D(1)])
    have tx: "input_text ?c1 = butlast (input_text c)" using S(4) len by (simp add: butlast_conv_take)
    show ?thesis
    proof (cases "in_rows c = rows_of ?n")
      case True
      then show ?thesis using m S(3,5) tx by simp
    next
      case resize: False
      obtain c2 where c2: "draw_window ?c1 = Inr c2" "con_inv c2 log" "same_input ?c1 c2" using S(6) by blast
      have "in_rows ?c1 \<le> 1" using rows_of_le [of ?n] c40 by simp
      then show ?thesis using m resize c2 tx same_input_shown [OF c2(3) S(3)] by simp
    qed
  qed
qed

lemma console_clear_input_spec:
  assumes inv: "con_inv c log" and sh: "input_shown c" and ne: "input_text c \<noteq> []"
  shows "\<exists>c'. console_clear_input c = Inr c' \<and> con_inv c' log \<and> input_shown c' \<and> input_text c' = []"
proof -
  have lt: "0 < input_cnt c" using ne by (cases "input_cnt c") (simp_all add: input_text_def)
  note S = shorter_line [OF inv sh lt]
  let ?c0 = "c\<lparr>input_cnt := 0\<rparr>"
  let ?c1 = "?c0\<lparr>screen := vga_screen.puts (line_cells ?c0 [0..<input_cnt c]) (screen c)\<rparr>"
  obtain c2 where c2: "draw_window ?c1 = Inr c2" "con_inv c2 log" "same_input ?c1 c2" using S(6) by blast
  have "in_rows ?c1 \<le> 1" by (simp add: rows_of_def)
  from same_input_shown [OF c2(3) S(3) this] S(4)
  have "input_shown c2" "input_text c2 = []" by simp_all
  then show ?thesis using S(1) c2 by (simp add: console_clear_input_def)
qed

text \<open>Clearing a line that is already empty reads the byte before the input buffer.\<close>

lemma console_clear_input_empty:
  "con_geom c \<Longrightarrow> input_cnt c = 0 \<Longrightarrow> console_clear_input c = Inl OutOfBounds"
  using con_geomD(2,9) [of c]
  by (simp add: console_clear_input_def draw_input_if_need_def Let_def add32_exact sub32_borrow
      screen_put_fold rd_def del: upt_rec_numeral)

section \<open>Sending the line to the output\<close>

lemma write_input_chars_spec:
  assumes "con_inv c log" "\<forall>i \<in> set is. i < 512" "length log + length is < 4294967296"
  shows "\<exists>c'. write_input_chars c is = Some (Inr c') \<and> same_input c c' \<and>
     con_inv c' (log @ map (\<lambda>i. input_buf c ! i) is)"
  using assms
proof (induction "is" arbitrary: c log)
  case Nil
  then show ?case by simp
next
  case (Cons i "is")
  let ?ch = "input_buf c ! i"
  have rdi: "rd (input_buf c) i = Inr ?ch"
    using Cons.prems(2) con_geomD(9) [OF con_invD(1) [OF Cons.prems(1)]] by (simp add: rd_in)
  obtain c1 where c1: "write_console_one c ?ch = Some (Inr c1)" "con_inv c1 (log @ [?ch])" "same_input c c1"
    using write_console_one_spec [OF Cons.prems(1), of ?ch] Cons.prems(3) by auto
  have b: "input_buf c1 = input_buf c" using c1(3) by (simp add: same_input_def)
  obtain c2 where "write_input_chars c1 is = Some (Inr c2)" "same_input c1 c2"
    "con_inv c2 ((log @ [?ch]) @ map (\<lambda>i. input_buf c1 ! i) is)"
    using Cons.IH [OF c1(2)] Cons.prems(2,3) by auto
  then show ?case using rdi c1 b same_input_trans by auto
qed

lemma flush_input_buffer_spec:
  assumes inv: "con_inv c log" and sh: "input_shown c" and ne: "input_text c \<noteq> []"
    and len: "length log + 41 < 4294967296"
  shows "\<exists>c'. flush_input_buffer c = Some (Inr c') \<and> con_inv c' (log @ input_text c @ [NL]) \<and>
     input_shown c' \<and> input_text c' = []"
proof -
  note D = con_invD [OF inv]
  note c40 = con_geomD(10) [OF D(1)] and b512 = con_geomD(9) [OF D(1)]
  have tx: "map (\<lambda>i. input_buf c ! i) [0..<input_cnt c] = input_text c"
    using c40 b512 by (simp add: input_text_def map_nth [symmetric] take_map min_def) (simp add: list_eq_iff_nth_eq)
  obtain c1 where c1: "write_input_chars c [0..<input_cnt c] = Some (Inr c1)" "same_input c c1"
    "con_inv c1 (log @ input_text c)"
    using write_input_chars_spec [OF inv, of "[0..<input_cnt c]"] tx c40 len by auto
  have "length (log @ input_text c) + 1 < 4294967296" using length_input_text [OF D(1)] c40 len by simp
  then obtain c2 where c2: "write_console_one c1 NL = Some (Inr c2)" "con_inv c2 ((log @ input_text c) @ [NL])"
    "same_input c1 c2" using write_console_one_spec [OF c1(3)] by blast
  have s2: "same_input c c2" using same_input_trans [OF c1(2) c2(3)] .
  note i2 = same_input_shown [OF s2 sh rows_of_le [OF c40]]
  have "input_text c2 \<noteq> []" using i2(2) ne by simp
  from console_clear_input_spec [OF c2(2) i2(1) this] show ?thesis using c1(1) c2(1)
    by (auto simp: flush_input_buffer_def)
qed

end
