(* ===== verification/Ts_Heap_Inv.thy ===== *)
theory Ts_Heap_Inv
  imports Ts_Heap
begin

text \<open>
  The heap invariant and its parts. \<open>tiles\<close> says that a list of header addresses tiles an
  address range; \<open>adj\<close> relates neighbouring regions (the back link of an allocated region, no
  two adjacent free regions); \<open>flist\<close> is the free list as a path in header memory.
  \<open>heap_rel\<close> puts them together; \<open>regions\<close> computes the tiling by walking the headers.
\<close>

section \<open>Tiling\<close>

fun tiles :: "(nat \<Rightarrow> RegionHeader) \<Rightarrow> nat \<Rightarrow> nat list \<Rightarrow> nat \<Rightarrow> bool" where
  "tiles m a [] e \<longleftrightarrow> a = e"
| "tiles m a (x # xs) e \<longleftrightarrow> x = a \<and> tiles m (a + 12 + rsize (m a)) xs e"

lemma tiles_append:
  "tiles m a (xs @ ys) e \<longleftrightarrow> (\<exists>b. tiles m a xs b \<and> tiles m b ys e)"
  by (induction xs arbitrary: a) auto

lemma tiles_cong:
  "(\<And>x. x \<in> set xs \<Longrightarrow> rsize (m' x) = rsize (m x)) \<Longrightarrow> tiles m a xs e \<Longrightarrow> tiles m' a xs e"
  by (induction xs arbitrary: a) auto

lemma tiles_le: "tiles m a xs e \<Longrightarrow> a \<le> e"
  by (induction xs arbitrary: a) fastforce+

lemma tiles_member:
  "tiles m a xs e \<Longrightarrow> x \<in> set xs \<Longrightarrow> a \<le> x \<and> x + 12 + rsize (m x) \<le> e"
proof (induction xs arbitrary: a)
  case (Cons y ys)
  show ?case
  proof (cases "x = y")
    case True
    with Cons.prems show ?thesis using tiles_le by auto
  next
    case False
    with Cons show ?thesis by fastforce
  qed
qed simp

lemma tiles_distinct: "tiles m a xs e \<Longrightarrow> distinct xs"
proof (induction xs arbitrary: a)
  case (Cons y ys)
  then have "y \<notin> set ys" using tiles_member by fastforce
  with Cons show ?case by auto
qed simp

text \<open>No header starts inside another region.\<close>

lemma tiles_separate:
  assumes "tiles m a (ps @ c # qs) e" "x \<in> set (ps @ c # qs)" "c < x"
  shows "c + 12 + rsize (m c) \<le> x"
proof -
  from assms(1) obtain b where p: "tiles m a ps b" and c: "c = b"
    and q: "tiles m (c + 12 + rsize (m c)) qs e" by (auto simp: tiles_append)
  have "x \<notin> set ps" using p c assms(3) tiles_member by fastforce
  then have "x \<in> set qs" using assms(2,3) by auto
  with q show ?thesis using tiles_member by blast
qed

lemma tiles_disjoint:
  assumes "tiles m a xs e" "x \<in> set xs" "y \<in> set xs" "x < y"
  shows "x + 12 + rsize (m x) \<le> y"
proof -
  obtain ps qs where "xs = ps @ x # qs" using assms(2) by (auto simp: in_set_conv_decomp)
  with assms show ?thesis using tiles_separate by blast
qed

text \<open>The walk over the headers, from an address to the end of the heap.\<close>

function regions_from :: "(nat \<Rightarrow> RegionHeader) \<Rightarrow> nat \<Rightarrow> nat list" where
  "regions_from m a =
     (if a < HEAP_END then a # regions_from m (a + 12 + rsize (m a)) else [])"
  by pat_completeness auto
termination
  by (relation "measure (\<lambda>(m, a). HEAP_END - a)") auto

declare regions_from.simps [simp del]

lemma regions_from_tiles: "tiles m a xs HEAP_END \<Longrightarrow> regions_from m a = xs"
proof (induction xs arbitrary: a)
  case Nil
  then show ?case by (simp add: regions_from.simps)
next
  case (Cons x xs)
  then have "a < HEAP_END" using tiles_member [OF Cons.prems, of x] by auto
  with Cons show ?case by (simp add: regions_from.simps [of m a])
qed

definition regions :: "heap \<Rightarrow> nat list" where
  "regions h = regions_from (mem h) HEAP_START"

section \<open>Neighbours and the free list\<close>

definition adj :: "(nat \<Rightarrow> RegionHeader) \<Rightarrow> nat \<Rightarrow> nat \<Rightarrow> bool" where
  "adj m x y \<longleftrightarrow> (rtype (m y) = REGION_ALLOC \<longrightarrow> rlink (m y) = x) \<and>
     \<not> (rtype (m x) = REGION_FREE \<and> rtype (m y) = REGION_FREE)"

fun flist :: "(nat \<Rightarrow> RegionHeader) \<Rightarrow> nat \<Rightarrow> nat list \<Rightarrow> bool" where
  "flist m p [] \<longleftrightarrow> p = 0"
| "flist m p (x # xs) \<longleftrightarrow> p = x \<and> x \<noteq> 0 \<and> flist m (rlink (m x)) xs"

text \<open>First and last element of a free list, with \<open>NULL\<close> for the empty one.\<close>

fun first0 :: "nat list \<Rightarrow> nat" where
  "first0 [] = 0"
| "first0 (x # _) = x"

definition last0 :: "nat list \<Rightarrow> nat" where
  "last0 xs = last (0 # xs)"

lemma last0_simps [simp]: "last0 [] = 0" "last0 (xs @ [x]) = x"
  by (simp_all add: last0_def)

lemma flist_first0: "flist m p xs \<Longrightarrow> p = first0 xs"
  by (cases xs) auto

lemma flist_nonzero: "flist m p xs \<Longrightarrow> x \<in> set xs \<Longrightarrow> x \<noteq> 0"
  by (induction xs arbitrary: p) auto

lemma flist_cong:
  "(\<And>x. x \<in> set xs \<Longrightarrow> rlink (m' x) = rlink (m x)) \<Longrightarrow> flist m p xs \<Longrightarrow> flist m' p xs"
  by (induction xs arbitrary: p) auto

text \<open>A list ending in \<open>a\<close> whose last link is redirected to the head of another list.\<close>

lemma flist_redirect:
  assumes "flist m p (xs @ a # ys)" "distinct (xs @ [a])" "flist m' q zs"
    and "\<And>x. x \<in> set xs \<Longrightarrow> rlink (m' x) = rlink (m x)" "rlink (m' a) = q"
  shows "flist m' p (xs @ a # zs)"
  using assms by (induction xs arbitrary: p) auto

lemma flist_suffix: "flist m p (xs @ ys) \<Longrightarrow> flist m (first0 ys) ys"
proof (induction xs arbitrary: p)
  case Nil
  then show ?case using flist_first0 by fastforce
qed auto

section \<open>Traversals\<close>

lemma find_fit_spec:
  "flist (mem h) p xs \<Longrightarrow>
   find_fit h need q p =
     Some (last (q # takeWhile (\<lambda>x. rsize (mem h x) < need) xs),
           first0 (dropWhile (\<lambda>x. rsize (mem h x) < need) xs))"
proof (induction xs arbitrary: p q)
  case Nil
  then show ?case by (simp add: find_fit.simps)
next
  case (Cons x xs)
  then show ?case by (subst find_fit.simps) auto
qed

lemma find_prev_spec:
  "flist (mem h) p (as @ r # bs) \<Longrightarrow> r \<notin> set as \<Longrightarrow> find_prev h r q p = Some (last (q # as))"
proof (induction as arbitrary: p q)
  case Nil
  then show ?case by (simp add: find_prev.simps)
next
  case (Cons x xs)
  then show ?case by (subst find_prev.simps) auto
qed

section \<open>Unlinking and inserting\<close>

text \<open>
  \<open>links_only h h' S\<close>: the two header memories differ at most in the link fields at the
  addresses of \<open>S\<close>.
\<close>

definition links_only :: "heap \<Rightarrow> heap \<Rightarrow> nat set \<Rightarrow> bool" where
  "links_only h h' S \<longleftrightarrow> heap_start h' = heap_start h \<and>
     (\<forall>x. rsize (mem h' x) = rsize (mem h x) \<and> rtype (mem h' x) = rtype (mem h x) \<and>
          (x \<notin> S \<longrightarrow> mem h' x = mem h x))"

lemma links_only_size: "links_only h h' S \<Longrightarrow> rsize (mem h' x) = rsize (mem h x)"
  and links_only_type: "links_only h h' S \<Longrightarrow> rtype (mem h' x) = rtype (mem h x)"
  and links_only_out: "links_only h h' S \<Longrightarrow> x \<notin> S \<Longrightarrow> mem h' x = mem h x"
  by (simp_all add: links_only_def)

lemmas links_onlyD = links_only_size links_only_type links_only_out

lemma last0_in: "last0 as \<noteq> 0 \<Longrightarrow> last0 as \<in> set as"
  by (cases as rule: rev_cases) auto

lemma del_free_region_links:
  "links_only h (del_free_region h (last0 as) c) (set as)"
  using last0_in [of as]
  by (auto simp: links_only_def del_free_region_def upd_header_def Let_def)

lemma del_free_region_flist:
  assumes fl: "flist (mem h) (index_head h) (as @ c # bs)" and d: "distinct (as @ c # bs)"
  shows "flist (mem (del_free_region h (last0 as) c))
           (index_head (del_free_region h (last0 as) c)) (as @ bs)"
proof -
  have nz: "c \<noteq> 0" "0 \<notin> set as" using flist_nonzero [OF fl] by auto
  have tl: "flist (mem h) (rlink (mem h c)) bs" using flist_suffix [OF fl] by simp
  show ?thesis
  proof (cases as rule: rev_cases)
    case Nil
    then show ?thesis using tl nz by (simp add: del_free_region_def)
  next
    case (snoc xs a)
    let ?h = "del_free_region h (last0 as) c"
    have a: "a \<noteq> 0" "a \<notin> set bs" "a \<notin> set xs" using nz d snoc by auto
    have m: "mem ?h = (mem h)(a := mem h a\<lparr>rlink := rlink (mem h c)\<rparr>)" "index_head ?h = index_head h"
      using nz a snoc by (simp_all add: del_free_region_def upd_header_def Let_def)
    have "flist (mem ?h) (index_head h) (xs @ a # bs)"
    proof (rule flist_redirect)
      show "flist (mem h) (index_head h) (xs @ a # c # bs)" using fl snoc by simp
      show "flist (mem ?h) (rlink (mem h c)) bs"
        by (rule flist_cong [OF _ tl]) (use a m in auto)
    qed (use d snoc a m in auto)
    then show ?thesis using snoc m by simp
  qed
qed

lemma add_free_region_links:
  "links_only h (add_free_region h (last0 as) n c) (insert c (set as))"
  using last0_in [of as]
  by (auto simp: links_only_def add_free_region_def upd_header_def Let_def)

lemma add_free_region_flist:
  assumes fl: "flist (mem h) (index_head h) (as @ bs)" and d: "distinct (as @ c # bs)" and c: "c \<noteq> 0"
  shows "flist (mem (add_free_region h (last0 as) (first0 bs) c))
           (index_head (add_free_region h (last0 as) (first0 bs) c)) (as @ c # bs)"
proof -
  let ?h = "add_free_region h (last0 as) (first0 bs) c"
  have nz: "0 \<notin> set as" using flist_nonzero [OF fl] by auto
  have out: "mem ?h x = mem h x" if "x \<notin> insert c (set as)" for x
    using links_only_out [OF add_free_region_links that] by simp
  have tl: "flist (mem ?h) (first0 bs) bs"
  proof (rule flist_cong [OF _ flist_suffix [OF fl]])
    fix x assume "x \<in> set bs"
    then have "x \<notin> insert c (set as)" using d by auto
    then have "mem ?h x = mem h x" by (rule out)
    then show "rlink (mem ?h x) = rlink (mem h x)" by (rule arg_cong)
  qed
  have link: "rlink (mem ?h c) = first0 bs"
    by (simp add: add_free_region_def upd_header_def Let_def)
  have c_bs: "flist (mem ?h) c (c # bs)" using tl link c by simp
  show ?thesis
  proof (cases as rule: rev_cases)
    case Nil
    then show ?thesis using c_bs by (simp add: add_free_region_def upd_header_def)
  next
    case (snoc xs a)
    have a: "a \<noteq> 0" "a \<noteq> c" using nz d snoc by auto
    have head: "index_head ?h = index_head h" and la: "rlink (mem ?h a) = c"
      and sm: "\<And>x. x \<in> set xs \<Longrightarrow> rlink (mem ?h x) = rlink (mem h x)"
      using a d snoc by (auto simp: add_free_region_def upd_header_def Let_def)
    have "flist (mem ?h) (index_head h) (xs @ a # c # bs)"
    proof (rule flist_redirect)
      show "flist (mem h) (index_head h) (xs @ a # bs)" using fl snoc by simp
    qed (use d snoc la sm c_bs in auto)
    then show ?thesis using snoc head by simp
  qed
qed

end
