(* ===== verification/Ts_Heap_Correct.thy ===== *)
theory Ts_Heap_Correct
  imports Ts_Heap_Inv
begin

text \<open>
  Correctness of the allocator: \<open>kmalloc\<close> and \<open>kfree\<close> return, keep the invariant, and act on
  the sequence of regions (\<open>view\<close>) as an abstract best-fit allocator with coalescing does.
\<close>

section \<open>The invariant\<close>

definition layout :: "(nat \<Rightarrow> RegionHeader) \<Rightarrow> nat list \<Rightarrow> bool" where
  "layout m rs \<longleftrightarrow> tiles m HEAP_START rs HEAP_END \<and> successively (adj m) rs \<and>
     (\<forall>x \<in> set rs. rtype (m x) = REGION_FREE \<or> rtype (m x) = REGION_ALLOC) \<and>
     rtype (m HEAP_START) = REGION_FREE"

definition free_regions :: "heap \<Rightarrow> nat set \<Rightarrow> nat list \<Rightarrow> bool" where
  "free_regions h F fs \<longleftrightarrow> flist (mem h) (index_head h) fs \<and> distinct fs \<and> set fs = F \<and>
     sorted (map (\<lambda>x. rsize (mem h x)) fs)"

definition heap_rel :: "heap \<Rightarrow> nat list \<Rightarrow> nat list \<Rightarrow> bool" where
  "heap_rel h rs fs \<longleftrightarrow> layout (mem h) rs \<and>
     free_regions h {x \<in> set rs. rtype (mem h x) = REGION_FREE} fs"

definition heap_inv :: "heap \<Rightarrow> bool" where
  "heap_inv h \<longleftrightarrow> (\<exists>fs. heap_rel h (regions h) fs)"

lemma layout_regions: "layout (mem h) rs \<Longrightarrow> regions h = rs"
  by (simp add: layout_def regions_def regions_from_tiles)

lemma heap_invI: "heap_rel h rs fs \<Longrightarrow> heap_inv h"
  unfolding heap_inv_def using layout_regions by (auto simp: heap_rel_def)

lemma heap_rel_tiles: "heap_rel h rs fs \<Longrightarrow> tiles (mem h) HEAP_START rs HEAP_END"
  by (simp add: heap_rel_def layout_def)

lemma adj_cong:
  assumes "rtype (m' x) = rtype (m x)" "rtype (m' y) = rtype (m y)"
    and "rtype (m y) = REGION_ALLOC \<Longrightarrow> rlink (m' y) = rlink (m y)"
  shows "adj m' x y = adj m x y"
  using assms by (auto simp: adj_def)

lemma successively_adj_cong:
  assumes "successively (adj m) xs"
    and "\<And>x. x \<in> set xs \<Longrightarrow> rtype (m' x) = rtype (m x) \<and>
           (rtype (m x) = REGION_ALLOC \<longrightarrow> rlink (m' x) = rlink (m x))"
  shows "successively (adj m') xs"
proof -
  have "successively (adj m') xs = successively (adj m) xs"
    by (rule successively_cong_set, rule adj_cong) (use assms(2) in auto)
  with assms(1) show ?thesis by simp
qed

text \<open>The link of the first region is not constrained by the rest.\<close>

lemma successively_upd_hd:
  assumes "successively (adj m) (q # qs)" "rtype (m' q) = rtype (m q)"
    and "\<And>x. x \<in> set qs \<Longrightarrow> rtype (m' x) = rtype (m x) \<and>
           (rtype (m x) = REGION_ALLOC \<longrightarrow> rlink (m' x) = rlink (m x))"
  shows "successively (adj m') (q # qs)"
proof (cases qs)
  case (Cons r rs)
  have "successively (adj m') qs"
    by (rule successively_adj_cong [where m = m]) (use assms Cons in auto)
  moreover have "adj m' q r" using assms Cons adj_cong [of m' q m r] by auto
  ultimately show ?thesis using Cons by simp
qed simp

section \<open>Operations on the free list\<close>

lemma free_regions_cong:
  assumes "free_regions h F fs" "index_head h' = index_head h"
    and "\<And>x. x \<in> F \<Longrightarrow> rlink (mem h' x) = rlink (mem h x) \<and> rsize (mem h' x) = rsize (mem h x)"
  shows "free_regions h' F fs"
proof -
  have "map (\<lambda>x. rsize (mem h' x)) fs = map (\<lambda>x. rsize (mem h x)) fs"
    using assms by (intro map_cong) (auto simp: free_regions_def)
  moreover have "flist (mem h') (index_head h') fs"
    by (rule flist_cong [where m = "mem h"]) (use assms in \<open>auto simp: free_regions_def\<close>)
  ultimately show ?thesis using assms(1) unfolding free_regions_def by metis
qed

lemma free_regions_del:
  assumes "free_regions h F (as @ c # bs)"
  shows "free_regions (del_free_region h (last0 as) c) (F - {c}) (as @ bs)"
    and "links_only h (del_free_region h (last0 as) c) (F - {c})"
proof -
  let ?h = "del_free_region h (last0 as) c"
  have sz: "rsize (mem ?h x) = rsize (mem h x)" for x
    using links_only_size [OF del_free_region_links] .
  show "free_regions ?h (F - {c}) (as @ bs)"
    using assms del_free_region_flist [of h as c bs]
    by (auto simp: free_regions_def sz sorted_append)
  have "set as \<subseteq> F - {c}" using assms by (auto simp: free_regions_def)
  then show "links_only h ?h (F - {c})"
    using del_free_region_links [of h as c] by (auto simp: links_only_def)
qed

lemma kfree_unlink_spec:
  assumes "free_regions h F fs" "c \<in> F"
  shows "\<exists>h' fs'. kfree_unlink h c = Some h' \<and> free_regions h' (F - {c}) fs' \<and>
           links_only h h' (F - {c})"
proof -
  obtain as bs where fs: "fs = as @ c # bs"
    using assms by (auto simp: free_regions_def in_set_conv_decomp)
  have c: "c \<noteq> 0" using assms flist_nonzero by (auto simp: free_regions_def)
  have "find_prev h c 0 (index_head h) = Some (last0 as)"
    using assms fs find_prev_spec [of h "index_head h" as c bs 0]
    by (simp add: free_regions_def last0_def)
  then have "kfree_unlink h c = Some (del_free_region h (last0 as) c)"
    using c by (simp add: kfree_unlink_def)
  then show ?thesis using free_regions_del assms(1) fs by blast
qed

lemma sorted_insert_position:
  fixes f :: "'a \<Rightarrow> nat"
  assumes "sorted (map f xs)"
  shows "sorted (map f (takeWhile (\<lambda>x. f x < f c) xs) @ f c # map f (dropWhile (\<lambda>x. f x < f c) xs))"
  using assms
proof (induction xs)
  case (Cons x xs)
  then show ?case by (auto dest: set_takeWhileD set_dropWhileD)
qed simp

lemma search_and_add_spec:
  assumes fr: "free_regions h F fs" and c: "c \<notin> F" "c \<noteq> 0"
  shows "\<exists>h' fs'. search_and_add_free_region h c = Some h' \<and>
           free_regions h' (insert c F) fs' \<and> links_only h h' (insert c F)"
proof -
  define as where "as = takeWhile (\<lambda>x. rsize (mem h x) < rsize (mem h c)) fs"
  define bs where "bs = dropWhile (\<lambda>x. rsize (mem h x) < rsize (mem h c)) fs"
  have fs: "fs = as @ bs" by (simp add: as_def bs_def)
  have fl: "flist (mem h) (index_head h) (as @ bs)" and d: "distinct (as @ c # bs)"
    and F: "F = set as \<union> set bs"
    using fr c fs by (auto simp: free_regions_def)
  let ?h = "add_free_region h (last0 as) (first0 bs) c"
  have lo: "links_only h ?h (insert c (set as))" by (rule add_free_region_links)
  have "search_and_add_free_region h c = Some ?h"
    using find_fit_spec [of h "index_head h" fs "rsize (mem h c)" 0] fr
    by (simp add: search_and_add_free_region_def free_regions_def last0_def as_def bs_def)
  moreover have "sorted (map (\<lambda>x. rsize (mem ?h x)) (as @ c # bs))"
    using sorted_insert_position [of "\<lambda>x. rsize (mem h x)" fs c] fr
    unfolding links_only_size [OF lo] by (simp add: free_regions_def as_def bs_def)
  then have "free_regions ?h (insert c F) (as @ c # bs)"
    using add_free_region_flist [OF fl d c(2)] d F by (simp add: free_regions_def)
  moreover have "links_only h ?h (insert c F)"
    using lo F by (auto simp: links_only_def)
  ultimately show ?thesis by blast
qed

text \<open>The search of \<open>kmalloc\<close>: best fit, or no region is large enough.\<close>

lemma find_fit_best:
  assumes fr: "free_regions h F fs"
  obtains (none) p where "find_fit h need 0 (index_head h) = Some (p, 0)"
      "\<forall>x \<in> F. rsize (mem h x) < need"
  | (fit) p c fs' where "find_fit h need 0 (index_head h) = Some (p, c)" "c \<in> F" "c \<noteq> 0"
      "need \<le> rsize (mem h c)" "\<forall>x \<in> F. need \<le> rsize (mem h x) \<longrightarrow> rsize (mem h c) \<le> rsize (mem h x)"
      "free_regions (del_free_region h p c) (F - {c}) fs'"
      "links_only h (del_free_region h p c) (F - {c})"
proof -
  define as where "as = takeWhile (\<lambda>x. rsize (mem h x) < need) fs"
  define bs where "bs = dropWhile (\<lambda>x. rsize (mem h x) < need) fs"
  have fs: "fs = as @ bs" by (simp add: as_def bs_def)
  have small: "\<forall>x \<in> set as. rsize (mem h x) < need"
    by (auto simp: as_def dest: set_takeWhileD)
  have ff: "find_fit h need 0 (index_head h) = Some (last0 as, first0 bs)"
    using find_fit_spec fr by (simp add: free_regions_def last0_def as_def bs_def)
  show thesis
  proof (cases bs)
    case Nil
    then show thesis using none [of "last0 as"] ff small fr fs by (auto simp: free_regions_def)
  next
    case (Cons c cs)
    have "need \<le> rsize (mem h c)"
      using Cons dropWhile_eq_Cons_conv [of "\<lambda>x. rsize (mem h x) < need" fs c cs]
      by (simp add: bs_def)
    moreover have "c \<in> F" "c \<noteq> 0" using fr fs Cons flist_nonzero by (auto simp: free_regions_def)
    moreover have "\<forall>x \<in> F. need \<le> rsize (mem h x) \<longrightarrow> rsize (mem h c) \<le> rsize (mem h x)"
      using fr fs Cons small by (fastforce simp: free_regions_def sorted_append)
    ultimately show thesis
      using fit [of "last0 as" c "as @ cs"] ff Cons free_regions_del fr fs by simp
  qed
qed

section \<open>Regions as an abstract list\<close>

text \<open>A region seen from outside: address of its header, size, and whether it is free.\<close>

type_synonym region = "nat \<times> nat \<times> bool"

definition region_of :: "(nat \<Rightarrow> RegionHeader) \<Rightarrow> nat \<Rightarrow> region" where
  "region_of m x = (x, rsize (m x), rtype (m x) = REGION_FREE)"

definition view :: "heap \<Rightarrow> region list" where
  "view h = map (region_of (mem h)) (regions h)"

lemma view_eq: "heap_rel h rs fs \<Longrightarrow> view h = map (region_of (mem h)) rs"
  using layout_regions [of h rs] by (simp add: view_def heap_rel_def)

lemma region_of_cong:
  "rsize (m' x) = rsize (m x) \<Longrightarrow> rtype (m' x) = rtype (m x) \<Longrightarrow> region_of m' x = region_of m x"
  by (simp add: region_of_def)

section \<open>kmalloc\<close>

text \<open>
  Cutting an allocated region off the end of a free one: the new header at \<open>x\<close>, behind the
  shortened region \<open>c\<close>, keeps the layout.
\<close>

lemma layout_split:
  assumes lay: "layout m (ps @ c # qs)" and c: "rtype (m c) = REGION_FREE"
    and sz: "n + 12 \<le> rsize (m c)" and x: "x = c + rsize (m c) - n"
    and sizes: "\<And>y. y \<noteq> c \<Longrightarrow> y \<noteq> x \<Longrightarrow> rsize (m' y) = rsize (m y)"
    and types: "\<And>y. y \<noteq> x \<Longrightarrow> rtype (m' y) = rtype (m y)"
    and links: "\<And>y. y \<noteq> x \<Longrightarrow> y \<noteq> x + n + 12 \<Longrightarrow> rtype (m y) = REGION_ALLOC \<Longrightarrow> rlink (m' y) = rlink (m y)"
    and new: "rsize (m' c) = rsize (m c) - n - 12" "rtype (m' x) = REGION_ALLOC" "rsize (m' x) = n" "rlink (m' x) = c"
    and nx: "x + n + 12 < HEAP_END \<Longrightarrow> rlink (m' (x + n + 12)) = x"
  shows "layout m' (ps @ c # x # qs)" and "x \<notin> set (ps @ c # qs)"
proof -
  let ?nx = "x + n + 12"
  from lay have t: "tiles m HEAP_START (ps @ c # qs) HEAP_END" by (simp add: layout_def)
  have xc: "c < x" and nxe: "?nx = c + 12 + rsize (m c)" using sz x by auto
  show xn: "x \<notin> set (ps @ c # qs)"
    using tiles_separate [OF t] xc sz x by fastforce
  from t have tp: "tiles m HEAP_START ps c" and tq: "tiles m ?nx qs HEAP_END"
    by (auto simp: tiles_append nxe)
  have cn: "c \<notin> set ps" "c \<notin> set qs" using tiles_distinct [OF t] by auto
  have nxp: "?nx \<notin> set (ps @ [c])"
    using tiles_member [OF tp] nxe by fastforce
  have other: "\<And>y. y \<in> set ps \<union> set qs \<Longrightarrow> y \<noteq> c \<and> y \<noteq> x" using cn xn by auto
  have t': "tiles m' HEAP_START (ps @ c # x # qs) HEAP_END"
  proof -
    have "tiles m' HEAP_START ps c" by (rule tiles_cong [OF _ tp]) (use sizes other in blast)
    moreover have "tiles m' ?nx qs HEAP_END" by (rule tiles_cong [OF _ tq]) (use sizes other in blast)
    moreover have "c + 12 + rsize (m' c) = x" "x + 12 + rsize (m' x) = ?nx"
      using new sz x by simp_all
    ultimately show ?thesis unfolding tiles_append tiles.simps by metis
  qed
  have suc: "successively (adj m) (ps @ [c])" "successively (adj m) qs"
    "qs \<noteq> [] \<Longrightarrow> adj m c (hd qs)"
    using lay by (auto simp: layout_def successively_append_iff successively_Cons)
  have p1: "successively (adj m') (ps @ [c])"
  proof (rule successively_adj_cong [OF suc(1)])
    fix y assume "y \<in> set (ps @ [c])"
    then have "y \<noteq> x" "y \<noteq> ?nx" using xn nxp by auto
    then show "rtype (m' y) = rtype (m y) \<and> (rtype (m y) = REGION_ALLOC \<longrightarrow> rlink (m' y) = rlink (m y))"
      using types links by blast
  qed
  have q1: "successively (adj m') (x # qs)"
  proof (cases qs)
    case Nil
    then show ?thesis by simp
  next
    case (Cons q qs')
    have q: "q = ?nx" "q \<notin> set qs'" "?nx < HEAP_END"
      using tq Cons tiles_distinct [OF tq] tiles_member [OF tq, of q] by auto
    have "rtype (m q) = REGION_ALLOC"
      using suc(3) Cons c lay by (auto simp: adj_def layout_def)
    then have "adj m' x q" using nx q new(2) xn Cons types by (auto simp: adj_def)
    moreover have "successively (adj m') (q # qs')"
    proof (rule successively_upd_hd [of m])
      show "successively (adj m) (q # qs')" using suc(2) Cons by simp
      fix y assume "y \<in> set qs'"
      then have "y \<noteq> x" "y \<noteq> ?nx" using xn q Cons by auto
      then show "rtype (m' y) = rtype (m y) \<and> (rtype (m y) = REGION_ALLOC \<longrightarrow> rlink (m' y) = rlink (m y))"
        using types links by blast
    qed (use types xn Cons in auto)
    ultimately show ?thesis using Cons by simp
  qed
  have "adj m' c x" using new(2,4) by (simp add: adj_def)
  then have "successively (adj m') (ps @ c # x # qs)"
    using p1 q1 by (auto simp: successively_append_iff)
  moreover have "HEAP_START \<noteq> x" using xc tiles_member [OF t, of c] by auto
  moreover have "rtype (m' y) = REGION_FREE \<or> rtype (m' y) = REGION_ALLOC"
    if "y \<in> set (ps @ c # x # qs)" for y
    using that types [of y] new(2) lay by (cases "y = x") (auto simp: layout_def)
  ultimately show "layout m' (ps @ c # x # qs)"
    using t' lay types [of HEAP_START] by (simp add: layout_def)
qed

lemma layout_next_alloc:
  assumes "layout m (ps @ c # qs)" "rtype (m c) = REGION_FREE" "c + 12 + rsize (m c) < HEAP_END"
  shows "rtype (m (c + 12 + rsize (m c))) = REGION_ALLOC"
proof -
  have t: "tiles m (c + 12 + rsize (m c)) qs HEAP_END"
    using assms(1) by (auto simp: layout_def tiles_append)
  then obtain qs' where "qs = (c + 12 + rsize (m c)) # qs'" using assms(3) by (cases qs) auto
  then show ?thesis using assms(1,2)
    by (auto simp: layout_def successively_append_iff adj_def)
qed

text \<open>The header writes that end \<open>kmalloc\<close>.\<close>

lemma create_alloc_mem:
  assumes "x + n + 12 < 4294967296"
    and h5: "h5 = add_alloc_region (CREATE_HEADER h3 x REGION_ALLOC n c) x"
  shows "index_head h5 = index_head h3"
    and "rsize (mem h5 y) = (if y = x then n else rsize (mem h3 y))"
    and "rtype (mem h5 y) = (if y = x then REGION_ALLOC else rtype (mem h3 y))"
    and "rlink (mem h5 x) = c"
    and "y \<noteq> x \<Longrightarrow> y \<noteq> x + n + 12 \<Longrightarrow> rlink (mem h5 y) = rlink (mem h3 y)"
    and "x + n + 12 < HEAP_END \<Longrightarrow> rtype (mem h3 (x + n + 12)) = REGION_ALLOC \<Longrightarrow>
           rlink (mem h5 (x + n + 12)) = x"
proof -
  have nx: "GET_NEXT_HEADER (CREATE_HEADER h3 x REGION_ALLOC n c) x = x + n + 12"
    using assms(1) by (simp add: GET_NEXT_HEADER_def CREATE_HEADER_def upd_header_def add32_exact)
  have e: "h5 = (let h4 = CREATE_HEADER h3 x REGION_ALLOC n c in
       if HEAP_END \<le> x + n + 12 \<or> rtype (mem h4 (x + n + 12)) = REGION_FREE then h4
       else upd_header h4 (x + n + 12) (rlink_update (\<lambda>_. x)))"
    by (simp only: h5 add_alloc_region_def nx REACH_HEAP_END_def Let_def) simp
  note d = e CREATE_HEADER_def upd_header_def Let_def
  show "index_head h5 = index_head h3" by (simp add: d)
  show "rsize (mem h5 y) = (if y = x then n else rsize (mem h3 y))" by (simp add: d)
  show "rtype (mem h5 y) = (if y = x then REGION_ALLOC else rtype (mem h3 y))" by (simp add: d)
  show "rlink (mem h5 x) = c" by (simp add: d)
  show "y \<noteq> x \<Longrightarrow> y \<noteq> x + n + 12 \<Longrightarrow> rlink (mem h5 y) = rlink (mem h3 y)" by (simp add: d)
  show "x + n + 12 < HEAP_END \<Longrightarrow> rtype (mem h3 (x + n + 12)) = REGION_ALLOC \<Longrightarrow>
           rlink (mem h5 (x + n + 12)) = x" by (simp add: d)
qed

lemma kmalloc_rel:
  assumes rel: "heap_rel h rs fs" and n: "n + 12 < 4294967296"
  obtains (fail) "kmalloc h n = Some (h, 0)"
      "\<forall>x \<in> set rs. rtype (mem h x) = REGION_FREE \<longrightarrow> rsize (mem h x) < n + 12"
  | (ok) h' ps c qs fs' x where "kmalloc h n = Some (h', x + 12)"
      "rs = ps @ c # qs" "rtype (mem h c) = REGION_FREE" "n + 12 \<le> rsize (mem h c)"
      "\<forall>y \<in> set rs. rtype (mem h y) = REGION_FREE \<longrightarrow> n + 12 \<le> rsize (mem h y) \<longrightarrow>
         rsize (mem h c) \<le> rsize (mem h y)"
      "x = c + rsize (mem h c) - n" "x \<notin> set rs" "heap_rel h' (ps @ c # x # qs) fs'"
      "\<And>y. y \<noteq> c \<Longrightarrow> y \<noteq> x \<Longrightarrow> region_of (mem h') y = region_of (mem h) y"
      "region_of (mem h') c = (c, rsize (mem h c) - n - 12, True)"
      "region_of (mem h') x = (x, n, False)"
proof -
  define F where "F = {x \<in> set rs. rtype (mem h x) = REGION_FREE}"
  have lay: "layout (mem h) rs" and fr: "free_regions h F fs"
    using rel by (simp_all add: heap_rel_def F_def)
  have need: "add32 n 12 = n + 12" using n by (simp add: add32_exact)
  from fr show thesis
  proof (cases rule: find_fit_best [where need = "n + 12"])
    case (none p)
    then show thesis using fail need by (auto simp: kmalloc_def F_def)
  next
    case (fit p c fs1)
    obtain ps qs where rs: "rs = ps @ c # qs"
      using fit(2) by (auto simp: F_def in_set_conv_decomp)
    have c: "rtype (mem h c) = REGION_FREE" using fit(2) by (simp add: F_def)
    define x where "x = c + rsize (mem h c) - n"
    have cb: "c + 12 + rsize (mem h c) \<le> HEAP_END"
      using lay rs tiles_member [of "mem h" HEAP_START rs HEAP_END c] by (simp add: layout_def)
    let ?h1 = "del_free_region h p c"
    let ?h2 = "upd_header ?h1 c (\<lambda>r. r\<lparr>rsize := sub32 (sub32 (rsize r) n) 12\<rparr>)"
    have s2: "rsize (mem ?h2 y) = (if y = c then rsize (mem h c) - n - 12 else rsize (mem h y))"
      and t2: "rtype (mem ?h2 y) = rtype (mem h y)" and i2: "index_head ?h2 = index_head ?h1" for y
      using fit(4) cb links_onlyD(1,2) [OF fit(7)] by (auto simp: upd_header_def sub32_exact)
    have out2: "y \<notin> F \<Longrightarrow> mem ?h2 y = mem h y" for y
      using links_only_out [OF fit(7), of y] fit(2) by (auto simp: upd_header_def)
    have "free_regions ?h2 (F - {c}) fs1"
      by (rule free_regions_cong [OF fit(6)]) (auto simp: upd_header_def)
    then obtain h3 fs3 where h3: "search_and_add_free_region ?h2 c = Some h3"
      and fr3: "free_regions h3 F fs3" and lo3: "links_only ?h2 h3 F"
      using search_and_add_spec [of ?h2 "F - {c}" fs1 c] fit(2,3) by (auto simp: insert_absorb)
    have s3: "rsize (mem h3 y) = (if y = c then rsize (mem h c) - n - 12 else rsize (mem h y))"
      and t3: "rtype (mem h3 y) = rtype (mem h y)" for y
      using links_onlyD(1,2) [OF lo3] s2 t2 by simp_all
    have l3: "y \<notin> F \<Longrightarrow> rlink (mem h3 y) = rlink (mem h y)" for y
      using links_only_out [OF lo3] out2 by simp
    have x3: "GET_NEXT_HEADER h3 c = x" and x12: "add32 x 12 = x + 12"
      and nx: "x + n + 12 = c + 12 + rsize (mem h c)" "x + n + 12 < 4294967296"
      using s3 [of c] cb fit(4) by (auto simp: GET_NEXT_HEADER_def x_def add32_exact)
    define h5 where "h5 = add_alloc_region (CREATE_HEADER h3 x REGION_ALLOC n c) x"
    note m5 = create_alloc_mem [OF nx(2) h5_def]
    have km: "kmalloc h n = Some (h5, x + 12)"
      using fit(1,3) h3 x3 x12 by (simp add: kmalloc_def need Let_def h5_def)
    have nxa: "rtype (mem h (x + n + 12)) = REGION_ALLOC" if "x + n + 12 < HEAP_END"
      unfolding nx(1) by (rule layout_next_alloc) (use lay rs c that nx in auto)
    have cx: "c \<noteq> x" using fit(4) by (simp add: x_def)
    have s5: "\<And>y. y \<noteq> c \<Longrightarrow> y \<noteq> x \<Longrightarrow> rsize (mem h5 y) = rsize (mem h y)"
      and t5: "\<And>y. y \<noteq> x \<Longrightarrow> rtype (mem h5 y) = rtype (mem h y)"
      and l5: "\<And>y. y \<noteq> x \<Longrightarrow> y \<noteq> x + n + 12 \<Longrightarrow> rtype (mem h y) = REGION_ALLOC \<Longrightarrow>
                 rlink (mem h5 y) = rlink (mem h y)"
      and n5: "rsize (mem h5 c) = rsize (mem h c) - n - 12" "rtype (mem h5 x) = REGION_ALLOC"
        "rsize (mem h5 x) = n" "rlink (mem h5 x) = c"
      and x5: "x + n + 12 < HEAP_END \<Longrightarrow> rlink (mem h5 (x + n + 12)) = x"
      using m5 s3 t3 l3 nxa cx by (simp_all add: F_def)
    have lay5: "layout (mem h5) (ps @ c # x # qs)" and xn: "x \<notin> set (ps @ c # qs)"
      using layout_split [OF lay [unfolded rs] c fit(4) x_def s5 t5 l5 n5 x5] by auto
    have nF: "y \<noteq> x \<and> y \<noteq> x + n + 12" if "y \<in> F" for y
      using that xn rs nxa lay tiles_member [of "mem h" HEAP_START rs HEAP_END y]
      by (auto simp: F_def layout_def)
    have "free_regions h5 F fs3"
      by (rule free_regions_cong [OF fr3]) (use m5 nF in auto)
    moreover have "F = {y \<in> set (ps @ c # x # qs). rtype (mem h5 y) = REGION_FREE}"
      using t5 n5(2) xn unfolding F_def rs by force
    ultimately have rel5: "heap_rel h5 (ps @ c # x # qs) fs3" using lay5 by (simp add: heap_rel_def)
    show thesis
      by (rule ok [OF km rs c fit(4) _ x_def _ rel5])
         (use fit(5) xn rs c s5 t5 n5 cx in \<open>auto simp: F_def region_of_def\<close>)
  qed
qed

section \<open>kfree\<close>

text \<open>The abstract effect of freeing: mark the region free, then merge free neighbours.\<close>

fun merge_free :: "region list \<Rightarrow> region list" where
  "merge_free ((a, s, True) # (b, t, True) # xs) = merge_free ((a, s + 12 + t, True) # xs)"
| "merge_free (x # xs) = x # merge_free xs"
| "merge_free [] = []"

definition is_free :: "region \<Rightarrow> bool" where
  "is_free r = snd (snd r)"

lemma is_free_simps [simp]:
  "is_free (a, s, f) = f"
  "is_free (region_of m x) = (rtype (m x) = REGION_FREE)"
  by (simp_all add: is_free_def region_of_def)

lemma merge_free_Cons_alloc: "\<not> is_free r \<Longrightarrow> merge_free (r # xs) = r # merge_free xs"
  by (cases r) (auto simp: is_free_def)

lemma merge_free_stop:
  "xs = [] \<or> \<not> is_free (hd xs) \<Longrightarrow> merge_free (r # xs) = r # merge_free xs"
  by (cases r; cases xs) (auto simp: is_free_def)

lemma merge_free_append:
  assumes "successively (\<lambda>r t. \<not> (is_free r \<and> is_free t)) xs" "xs = [] \<or> \<not> is_free (last xs)"
  shows "merge_free (xs @ ys) = xs @ merge_free ys"
  using assms
proof (induction xs)
  case (Cons r xs)
  show ?case
  proof (cases "is_free r")
    case True
    then have xs: "xs \<noteq> []" "\<not> is_free (hd xs)" using Cons.prems by (auto simp: successively_Cons)
    then have "merge_free (r # xs @ ys) = r # merge_free (xs @ ys)"
      by (intro merge_free_stop) simp
    with Cons xs show ?thesis by (auto simp: successively_Cons)
  next
    case False
    have "xs = [] \<or> \<not> is_free (last xs)" using Cons.prems(2) by auto
    with Cons False show ?thesis by (auto simp: merge_free_Cons_alloc successively_Cons)
  qed
qed simp

lemma merge_free_id:
  "successively (\<lambda>r t. \<not> (is_free r \<and> is_free t)) xs \<Longrightarrow> merge_free xs = xs"
proof (induction xs)
  case (Cons r xs)
  show ?case
  proof (cases "is_free r")
    case True
    with Cons.prems have "xs = [] \<or> \<not> is_free (hd xs)" by (auto simp: successively_Cons)
    with Cons show ?thesis by (auto simp: merge_free_stop successively_Cons)
  next
    case False
    with Cons show ?thesis by (auto simp: merge_free_Cons_alloc successively_Cons)
  qed
qed simp

lemma adj_view:
  assumes "successively (adj m) xs"
  shows "successively (\<lambda>r t. \<not> (is_free r \<and> is_free t)) (map (region_of m) xs)"
  unfolding successively_map
  by (rule successively_mono [OF assms]) (auto simp: adj_def)

lemma tiles_join:
  assumes "tiles m a (ps @ p # x # qs) e" "rsize (m' p) = rsize (m p) + 12 + rsize (m x)"
    and "\<And>y. y \<in> set ps \<union> set qs \<Longrightarrow> rsize (m' y) = rsize (m y)"
  shows "tiles m' a (ps @ p # qs) e"
proof -
  from assms(1) have t: "tiles m a ps p" "tiles m (p + 12 + rsize (m p) + 12 + rsize (m x)) qs e"
    by (auto simp: tiles_append)
  have "tiles m' a ps p" by (rule tiles_cong [OF _ t(1)]) (use assms(3) in blast)
  moreover have "tiles m' (p + 12 + rsize (m p) + 12 + rsize (m x)) qs e"
    by (rule tiles_cong [OF _ t(2)]) (use assms(3) in blast)
  moreover have "p + 12 + rsize (m' p) = p + 12 + rsize (m p) + 12 + rsize (m x)"
    using assms(2) by simp
  ultimately show ?thesis unfolding tiles_append tiles.simps by metis
qed

lemma kfree_unlink_opt:
  assumes "free_regions h F fs" "c = 0 \<or> c \<in> F"
  obtains h' fs' where "kfree_unlink h c = Some h'" "free_regions h' (F - {c}) fs'"
    "links_only h h' F"
proof (cases "c = 0")
  case True
  have "0 \<notin> F" using assms(1) flist_nonzero by (auto simp: free_regions_def)
  then show thesis using that [of h fs] True assms(1) by (simp add: kfree_unlink_def links_only_def)
next
  case False
  then obtain h' fs' where "kfree_unlink h c = Some h'" "free_regions h' (F - {c}) fs'"
    "links_only h h' (F - {c})"
    using kfree_unlink_spec [OF assms(1)] assms(2) by blast
  moreover from this(3) have "links_only h h' F" by (auto simp: links_only_def)
  ultimately show thesis using that by blast
qed

text \<open>Inserting a free region between allocated neighbours restores the invariant.\<close>

lemma kfree_finish:
  assumes fr: "free_regions h F fs" and u: "u \<notin> F"
    and t: "tiles (mem h) HEAP_START (ps @ u # qs) HEAP_END"
    and ty: "\<And>x. x \<in> set (ps @ u # qs) \<Longrightarrow> rtype (mem h x) = REGION_FREE \<or> rtype (mem h x) = REGION_ALLOC"
      "rtype (mem h HEAP_START) = REGION_FREE" "rtype (mem h u) = REGION_FREE"
    and sp: "successively (adj (mem h)) ps" and sq: "successively (adj (mem h)) qs"
    and lp: "ps \<noteq> [] \<Longrightarrow> rtype (mem h (last ps)) = REGION_ALLOC"
    and hq: "qs \<noteq> [] \<Longrightarrow> rtype (mem h (hd qs)) = REGION_ALLOC"
    and F: "F = {x \<in> set ps \<union> set qs. rtype (mem h x) = REGION_FREE}"
  obtains h6 fs' where "search_and_add_free_region h u = Some h6"
    "heap_rel (if REACH_HEAP_END (GET_NEXT_HEADER h6 u) then h6
               else upd_header h6 (GET_NEXT_HEADER h6 u) (rlink_update (\<lambda>_. u))) (ps @ u # qs) fs'"
    "\<And>x. region_of (mem (if REACH_HEAP_END (GET_NEXT_HEADER h6 u) then h6
               else upd_header h6 (GET_NEXT_HEADER h6 u) (rlink_update (\<lambda>_. u)))) x = region_of (mem h) x"
proof -
  have ub: "HEAP_START \<le> u" "u + 12 + rsize (mem h u) \<le> HEAP_END"
    using tiles_member [OF t, of u] by auto
  obtain h6 fs' where h6: "search_and_add_free_region h u = Some h6"
    and fr6: "free_regions h6 (insert u F) fs'" and lo: "links_only h h6 (insert u F)"
    using search_and_add_spec [OF fr u] ub by auto
  define nx where "nx = u + 12 + rsize (mem h u)"
  have nx: "GET_NEXT_HEADER h6 u = nx"
    using ub links_only_size [OF lo] by (simp add: GET_NEXT_HEADER_def nx_def add32_exact)
  define h7 where "h7 = (if REACH_HEAP_END nx then h6 else upd_header h6 nx (rlink_update (\<lambda>_. u)))"
  have st: "rsize (mem h7 y) = rsize (mem h y)" "rtype (mem h7 y) = rtype (mem h y)" for y
    using links_onlyD(1,2) [OF lo] by (simp_all add: h7_def upd_header_def)
  have l7: "rlink (mem h7 y) = rlink (mem h6 y)" if "y \<noteq> nx" for y
    using that by (simp add: h7_def upd_header_def)
  have l7a: "rlink (mem h7 y) = rlink (mem h y)" if "rtype (mem h y) = REGION_ALLOC" "y \<noteq> nx" for y
  proof -
    have "y \<notin> insert u F" using that F ty(3) by auto
    then show ?thesis using that l7 links_only_out [OF lo] by simp
  qed
  have tp: "tiles (mem h) HEAP_START ps u" and tq: "tiles (mem h) nx qs HEAP_END"
    using t by (auto simp: tiles_append nx_def)
  have nxp: "nx \<notin> set ps" "nx \<noteq> u" using tiles_member [OF tp, of nx] by (auto simp: nx_def)
  have p7: "successively (adj (mem h7)) ps"
    by (rule successively_adj_cong [OF sp]) (use st l7a nxp in auto)
  have q7: "successively (adj (mem h7)) (u # qs)"
  proof (cases qs)
    case (Cons q qs')
    have q: "q = nx" "q \<notin> set qs'" "nx < HEAP_END"
      using tq Cons tiles_distinct [OF tq] tiles_member [OF tq, of q] by auto
    have "rtype (mem h7 q) = REGION_ALLOC" using hq Cons st by simp
    moreover have "rlink (mem h7 q) = u"
      using q by (simp add: h7_def REACH_HEAP_END_def upd_header_def)
    ultimately have "adj (mem h7) u q" by (simp add: adj_def)
    moreover have "successively (adj (mem h7)) (q # qs')"
      by (rule successively_upd_hd [of "mem h"]) (use sq Cons st l7a q in auto)
    ultimately show ?thesis using Cons by simp
  qed simp
  have "ps \<noteq> [] \<Longrightarrow> adj (mem h7) (last ps) u" using lp ty(3) st by (simp add: adj_def)
  then have "successively (adj (mem h7)) (ps @ u # qs)"
    using p7 q7 by (auto simp: successively_append_iff)
  moreover have "tiles (mem h7) HEAP_START (ps @ u # qs) HEAP_END"
    by (rule tiles_cong [OF _ t]) (simp add: st)
  ultimately have "layout (mem h7) (ps @ u # qs)" using ty st by (simp add: layout_def)
  moreover have nF: "nx \<notin> insert u F"
    using nxp hq tq tiles_member [OF tq, of nx] F by (cases qs) auto
  then have "free_regions h7 (insert u F) fs'"
    by (intro free_regions_cong [OF fr6])
       (use st l7 links_only_size [OF lo] in \<open>auto simp: h7_def upd_header_def\<close>)
  moreover have "insert u F = {x \<in> set (ps @ u # qs). rtype (mem h7 x) = REGION_FREE}"
    using F ty(3) st by auto
  ultimately have "heap_rel h7 (ps @ u # qs) fs'" by (simp add: heap_rel_def)
  then show thesis using that [OF h6, unfolded nx, folded h7_def] st by (simp add: region_of_def)
qed

text \<open>Merging with the region before, and with the region after.\<close>

lemma layout_type: "layout m rs \<Longrightarrow> x \<in> set rs \<Longrightarrow> rtype (m x) \<noteq> REGION_FREE \<Longrightarrow> rtype (m x) = REGION_ALLOC"
  by (auto simp: layout_def)

lemma free_left:
  assumes lay: "layout m (P @ p # x # qs)" and x: "rtype (m x) = REGION_ALLOC"
    and u: "u = (if rtype (m p) = REGION_FREE then p else x)"
    and m': "\<And>y. rsize (m' y) = (if y = u then rsize (m x) + (if rtype (m p) = REGION_FREE
                then rsize (m p) + 12 else 0) else rsize (m y))"
  obtains P' where "tiles m' HEAP_START (P' @ u # qs) HEAP_END" "successively (adj m) P'"
    "P' \<noteq> [] \<longrightarrow> rtype (m (last P')) = REGION_ALLOC" "set P' = set P \<union> {p} - {u}"
    "merge_free (map (\<lambda>y. if y = x then (x, rsize (m x), True) else region_of m y) (P @ p # x # qs))
       = map (region_of m) P' @ merge_free ((u, rsize (m' u), True) # map (region_of m) qs)"
proof -
  let ?g = "\<lambda>y. if y = x then (x, rsize (m x), True) else region_of m y"
  from lay have t: "tiles m HEAP_START (P @ p # x # qs) HEAP_END"
    and suc: "successively (adj m) (P @ [p])" "P \<noteq> [] \<Longrightarrow> adj m (last P) p"
    by (auto simp: layout_def successively_append_iff)
  have d: "distinct (P @ p # x # qs)" by (rule tiles_distinct [OF t])
  have g: "map ?g (P @ p # x # qs) = map (region_of m) (P @ [p]) @ (x, rsize (m x), True) # map (region_of m) qs"
    using d by auto
  show thesis
  proof (cases "rtype (m p) = REGION_FREE")
    case True
    have tl: "tiles m' HEAP_START (P @ p # qs) HEAP_END"
      by (rule tiles_join [OF t]) (use True u d m' in auto)
    have lP: "P \<noteq> [] \<Longrightarrow> rtype (m (last P)) = REGION_ALLOC"
      using suc(2) True by (intro layout_type [OF lay]) (auto simp: adj_def)
    have sP: "successively (adj m) P" using suc(1) by (simp add: successively_append_iff)
    have "merge_free (map (region_of m) P @ region_of m p # (x, rsize (m x), True) # map (region_of m) qs)
        = map (region_of m) P @ merge_free ((p, rsize (m p) + 12 + rsize (m x), True) # map (region_of m) qs)"
      by (subst merge_free_append [OF adj_view [OF sP]])
         (use lP True in \<open>auto simp: last_map region_of_def\<close>)
    then have eq: "merge_free (map ?g (P @ p # x # qs))
        = map (region_of m) P @ merge_free ((u, rsize (m' u), True) # map (region_of m) qs)"
      unfolding g using True u m' by (simp add: add.commute add.left_commute)
    show thesis by (rule that [OF _ sP _ _ eq]) (use tl True u d lP in auto)
  next
    case False
    have tl: "tiles m' HEAP_START ((P @ [p]) @ x # qs) HEAP_END"
      by (rule tiles_cong [where m = m]) (use t False u m' in auto)
    have "rtype (m p) = REGION_ALLOC" using lay False by (auto simp: layout_def)
    then have "merge_free (map (region_of m) (P @ [p]) @ (x, rsize (m x), True) # map (region_of m) qs)
        = map (region_of m) (P @ [p]) @ merge_free ((x, rsize (m x), True) # map (region_of m) qs)"
      by (subst merge_free_append [OF adj_view [OF suc(1)]]) auto
    then have eq: "merge_free (map ?g (P @ p # x # qs))
        = map (region_of m) (P @ [p]) @ merge_free ((u, rsize (m' u), True) # map (region_of m) qs)"
      unfolding g using False u m' by simp
    show thesis by (rule that [OF _ suc(1) _ _ eq]) (use tl False u d lay in \<open>auto simp: layout_def\<close>)
  qed
qed

lemma free_right:
  assumes lay: "layout m (P @ x # qs)" and nx: "nx = x + 12 + rsize (m x)"
    and nf: "nf = (nx < HEAP_END \<and> rtype (m nx) = REGION_FREE)"
    and t': "tiles m' HEAP_START (P' @ u # qs) HEAP_END"
    and m': "\<And>y. y \<noteq> u \<Longrightarrow> rsize (m' y) = rsize (m y)"
    and m'': "\<And>y. rsize (m'' y) = (if y = u then rsize (m' u) + (if nf then 12 + rsize (m nx) else 0) else rsize (m y))"
  obtains Q where "tiles m'' HEAP_START (P' @ u # Q) HEAP_END" "successively (adj m) Q"
    "Q \<noteq> [] \<longrightarrow> rtype (m (hd Q)) = REGION_ALLOC" "set Q = set qs - (if nf then {nx} else {})"
    "merge_free ((u, rsize (m' u), True) # map (region_of m) qs) = (u, rsize (m'' u), True) # map (region_of m) Q"
proof -
  from lay have tq: "tiles m nx qs HEAP_END" and sq: "successively (adj m) qs"
    by (auto simp: layout_def tiles_append successively_append_iff successively_Cons nx)
  have d: "distinct (P' @ u # qs)" by (rule tiles_distinct [OF t'])
  show thesis
  proof (cases nf)
    case True
    then obtain Q where qs: "qs = nx # Q" using tq nf by (cases qs) auto
    have "tiles m' HEAP_START (P' @ u # nx # Q) HEAP_END" using t' qs by simp
    then have tl: "tiles m'' HEAP_START (P' @ u # Q) HEAP_END"
      by (rule tiles_join) (use True qs d m' m'' in auto)
    have sQ: "successively (adj m) Q" using sq qs by (auto simp: successively_Cons)
    have hQ: "Q \<noteq> [] \<Longrightarrow> rtype (m (hd Q)) = REGION_ALLOC"
      using sq qs True nf by (intro layout_type [OF lay]) (auto simp: successively_Cons adj_def)
    have "merge_free ((u, rsize (m' u), True) # map (region_of m) qs)
        = merge_free ((u, rsize (m' u) + 12 + rsize (m nx), True) # map (region_of m) Q)"
      using qs True nf by (simp add: region_of_def)
    also have "\<dots> = (u, rsize (m' u) + 12 + rsize (m nx), True) # map (region_of m) Q"
      using hQ merge_free_id [OF adj_view [OF sQ]] by (subst merge_free_stop) (auto simp: hd_map)
    finally show thesis using that [of Q] tl sQ hQ True qs d m'' by auto
  next
    case False
    have hq: "qs \<noteq> [] \<Longrightarrow> rtype (m (hd qs)) = REGION_ALLOC"
      using tq nf False lay tiles_member [OF tq, of nx] by (cases qs) (auto simp: layout_def)
    have tl: "tiles m'' HEAP_START (P' @ u # qs) HEAP_END"
      by (rule tiles_cong [OF _ t']) (use False m' m'' in auto)
    have "merge_free ((u, rsize (m' u), True) # map (region_of m) qs)
        = (u, rsize (m' u), True) # map (region_of m) qs"
      using hq merge_free_id [OF adj_view [OF sq]] by (subst merge_free_stop) (auto simp: hd_map)
    then show thesis using that [of qs] tl sq hq False m'' by auto
  qed
qed

text \<open>The state after both neighbours are unlinked and the sizes added up.\<close>

lemma kfree_sizes:
  assumes "s < 4294967296" "u \<noteq> a" "rsize (mem h3 u) + 12 + rsize (mem h3 a) = s"
  shows "rsize (mem (upd_header h3 u (\<lambda>r. r\<lparr>rsize := add32 (rsize r) (add32 12 (rsize (mem h3 a)))\<rparr>)) y)
     = (if y = u then s else rsize (mem h3 y))"
  using assms by (auto simp: upd_header_def add32_exact)

lemma kfree_rel:
  assumes rel: "heap_rel h rs fs" and x: "x \<in> set rs" "rtype (mem h x) = REGION_ALLOC"
  obtains h' rs' fs' where "kfree h (x + 12) = Some h'" "heap_rel h' rs' fs'"
    "map (region_of (mem h')) rs' =
       merge_free (map (\<lambda>y. if y = x then (x, rsize (mem h x), True) else region_of (mem h) y) rs)"
proof -
  define m where "m = mem h"
  define F where "F = {y \<in> set rs. rtype (m y) = REGION_FREE}"
  have lay: "layout m rs" and fr: "free_regions h F fs"
    using rel by (simp_all add: heap_rel_def F_def m_def)
  have t: "tiles m HEAP_START rs HEAP_END" using lay by (simp add: layout_def)
  obtain P p qs where rs: "rs = P @ p # x # qs" and link: "rlink (m x) = p"
  proof -
    obtain ps qs where ps: "rs = ps @ x # qs" using x(1) by (auto simp: in_set_conv_decomp)
    have "ps \<noteq> []" using t ps lay x(2) by (auto simp: layout_def m_def)
    then obtain P p where P: "ps = P @ [p]" by (cases ps rule: rev_cases) auto
    then have "adj m p x" using lay ps by (simp add: layout_def successively_append_iff)
    then show thesis using that ps P x(2) by (simp add: adj_def m_def)
  qed
  have d: "distinct rs" by (rule tiles_distinct [OF t])
  have bnd: "HEAP_START \<le> y \<and> y + 12 + rsize (m y) \<le> HEAP_END" if "y \<in> set rs" for y
    using tiles_member [OF t that] by simp
  define nx where "nx = x + 12 + rsize (m x)"
  define pf where "pf = (rtype (m p) = REGION_FREE)"
  define nf where "nf = (nx < HEAP_END \<and> rtype (m nx) = REGION_FREE)"
  define u where "u = (if pf then p else x)"
  let ?pv = "if pf then p else 0" and ?nv = "if nf then nx else 0"
  let ?h1 = "upd_header h x (rtype_update (\<lambda>_. REGION_FREE))"
  have nz: "p \<noteq> 0" "nx \<noteq> 0" using bnd [of p] rs by (auto simp: nx_def)
  have xb: "x + 12 + rsize (m x) \<le> HEAP_END" using bnd rs by simp
  have nxq: "nx \<in> set qs" if nf
  proof -
    have "tiles m nx qs HEAP_END" using t rs by (auto simp: tiles_append nx_def)
    with that show ?thesis by (cases qs) (auto simp: nf_def)
  qed
  have nxt: "rtype (m nx) = REGION_ALLOC" if "nx < HEAP_END" "\<not> nf"
  proof -
    have "tiles m nx qs HEAP_END" using t rs by (auto simp: tiles_append nx_def)
    then have "nx \<in> set rs" using that(1) rs by (cases qs) auto
    with that show ?thesis using layout_type [OF lay] by (auto simp: nf_def)
  qed
  have xF: "x \<notin> F" using x(2) by (simp add: F_def m_def)
  have "free_regions ?h1 F fs"
    by (rule free_regions_cong [OF fr]) (auto simp: upd_header_def)
  moreover have "?pv = 0 \<or> ?pv \<in> F" using rs by (auto simp: F_def pf_def)
  ultimately obtain h2 fs2 where h2: "kfree_unlink ?h1 ?pv = Some h2"
    "free_regions h2 (F - {?pv}) fs2" "links_only ?h1 h2 F"
    by (rule kfree_unlink_opt)
  have "?nv = 0 \<or> ?nv \<in> F - {?pv}" using nxq d rs nz by (auto simp: F_def nf_def)
  with h2(2) obtain h3 fs3 where h3: "kfree_unlink h2 ?nv = Some h3"
    "free_regions h3 (F - {?pv} - {?nv}) fs3" "links_only h2 h3 (F - {?pv})"
    by (rule kfree_unlink_opt)
  have s3: "rsize (mem h3 y) = rsize (m y)" and t3: "rtype (mem h3 y) = (if y = x then REGION_FREE else rtype (m y))"
    and o3: "y \<notin> F \<Longrightarrow> rlink (mem h3 y) = rlink (m y)" for y
    using links_onlyD [OF h2(3)] links_onlyD [OF h3(3)] by (auto simp: upd_header_def m_def)
  define h4 where "h4 = (if pf then upd_header h3 u (\<lambda>r. r\<lparr>rsize := add32 (rsize r) (add32 12 (rsize (mem h3 x)))\<rparr>) else h3)"
  define h5 where "h5 = (if nf then upd_header h4 u (\<lambda>r. r\<lparr>rsize := add32 (rsize r) (add32 12 (rsize (mem h4 nx)))\<rparr>) else h4)"
  have px: "p + 12 + rsize (m p) = x" using t rs by (auto simp: tiles_append)
  then have un: "u \<noteq> nx" "pf \<Longrightarrow> u \<noteq> x" by (auto simp: u_def nx_def)
  have s4: "rsize (mem h4 y) = (if y = u then rsize (m x) + (if rtype (m p) = REGION_FREE
              then rsize (m p) + 12 else 0) else rsize (m y))" for y
    using kfree_sizes [of "rsize (m p) + 12 + rsize (m x)" u x h3 y] un xb px s3
    by (auto simp: u_def pf_def h4_def)
  have "u + 12 + rsize (mem h4 u) = nx" using s4 px by (auto simp: u_def nx_def pf_def)
  then have "nf \<Longrightarrow> rsize (mem h4 u) + 12 + rsize (m nx) < 4294967296"
    using bnd [of nx] nxq rs by auto
  then have s5: "rsize (mem h5 y) = (if y = u then rsize (mem h4 u) + (if nf then 12 + rsize (m nx) else 0)
              else rsize (m y))" for y
    using kfree_sizes [of "rsize (mem h4 u) + 12 + rsize (m nx)" u nx h4 y] un s4 by (auto simp: h5_def)
  have k5: "rtype (mem h5 y) = rtype (mem h3 y)" "rlink (mem h5 y) = rlink (mem h3 y)"
    "index_head h5 = index_head h3" for y by (auto simp: h4_def h5_def upd_header_def)
  obtain P' where P': "tiles (mem h4) HEAP_START (P' @ u # qs) HEAP_END" "successively (adj m) P'"
    "P' \<noteq> [] \<longrightarrow> rtype (m (last P')) = REGION_ALLOC" "set P' = set P \<union> {p} - {u}"
    "merge_free (map (\<lambda>y. if y = x then (x, rsize (m x), True) else region_of m y) (P @ p # x # qs))
       = map (region_of m) P' @ merge_free ((u, rsize (mem h4 u), True) # map (region_of m) qs)"
    by (rule free_left [OF lay [unfolded rs] x(2) [folded m_def] u_def [unfolded pf_def] s4])
  have "layout m ((P @ [p]) @ x # qs)" "\<And>y. y \<noteq> u \<Longrightarrow> rsize (mem h4 y) = rsize (m y)"
    using lay rs s4 by simp_all
  then obtain Q where Q: "tiles (mem h5) HEAP_START (P' @ u # Q) HEAP_END" "successively (adj m) Q"
    "Q \<noteq> [] \<longrightarrow> rtype (m (hd Q)) = REGION_ALLOC" "set Q = set qs - (if nf then {nx} else {})"
    "merge_free ((u, rsize (mem h4 u), True) # map (region_of m) qs) =
       (u, rsize (mem h5 u), True) # map (region_of m) Q"
    by (rule free_right [OF _ nx_def nf_def P'(1) _ s5])
  have other: "y \<noteq> x" "y \<noteq> u" if "y \<in> set P' \<union> set Q" for y
    using that P'(4) Q(4) d rs by (auto simp: u_def)
  have keep: "rtype (mem h5 y) = rtype (m y) \<and> (rtype (m y) = REGION_ALLOC \<longrightarrow> rlink (mem h5 y) = rlink (m y))"
    if "y \<in> set P' \<union> set Q" for y
    using other [OF that] k5 t3 o3 [of y] by (simp add: F_def)
  have sub: "set P' \<union> set Q \<subseteq> set rs" using P'(4) Q(4) rs by auto
  have ty: "rtype (m y) = REGION_FREE \<or> rtype (m y) = REGION_ALLOC" if "y \<in> set rs" for y
    using lay that by (auto simp: layout_def)
  have u5: "rtype (mem h5 u) = REGION_FREE" using k5 t3 by (auto simp: u_def pf_def)
  have F5: "F - {?pv} - {?nv} = {y \<in> set P' \<union> set Q. rtype (mem h5 y) = REGION_FREE}"
  proof -
    have F: "F = {y \<in> set P \<union> {p} \<union> set qs. rtype (m y) = REGION_FREE}"
      using x(2) by (auto simp: F_def m_def rs)
    have z: "0 \<notin> set rs" using bnd by fastforce
    have dd: "p \<notin> set qs" "p \<notin> set P" "x \<notin> set P" "x \<noteq> p" "set P \<inter> set qs = {}" using d by (auto simp: rs)
    have "F - {?pv} - {?nv} = {y \<in> set P' \<union> set Q. rtype (m y) = REGION_FREE}"
      using F dd nxq P'(4) Q(4) z by (cases pf; cases nf) (auto simp: u_def pf_def rs)
    also have "\<dots> = {y \<in> set P' \<union> set Q. rtype (mem h5 y) = REGION_FREE}"
      using keep by auto
    finally show ?thesis .
  qed
  have fr5: "free_regions h5 (F - {?pv} - {?nv}) fs3"
    by (rule free_regions_cong [OF h3(2)])
       (use k5 s5 s3 F5 other in \<open>auto\<close>)
  obtain h6 fs' where fin: "search_and_add_free_region h5 u = Some h6"
    "heap_rel (if REACH_HEAP_END (GET_NEXT_HEADER h6 u) then h6
       else upd_header h6 (GET_NEXT_HEADER h6 u) (rlink_update (\<lambda>_. u))) (P' @ u # Q) fs'"
    "\<And>y. region_of (mem (if REACH_HEAP_END (GET_NEXT_HEADER h6 u) then h6
       else upd_header h6 (GET_NEXT_HEADER h6 u) (rlink_update (\<lambda>_. u)))) y = region_of (mem h5) y"
  proof (rule kfree_finish [OF fr5 _ Q(1) _ _ u5])
    show "u \<notin> F - {?pv} - {?nv}" using F5 other by auto
    show "rtype (mem h5 y) = REGION_FREE \<or> rtype (mem h5 y) = REGION_ALLOC" if "y \<in> set (P' @ u # Q)" for y
      using that keep [of y] ty [of y] sub u5 by auto
    show "rtype (mem h5 HEAP_START) = REGION_FREE" using k5 t3 lay by (simp add: layout_def)
    show "successively (adj (mem h5)) P'" "successively (adj (mem h5)) Q"
      by (rule successively_adj_cong [OF P'(2)], use keep in auto)
         (rule successively_adj_cong [OF Q(2)], use keep in auto)
    show "P' \<noteq> [] \<Longrightarrow> rtype (mem h5 (last P')) = REGION_ALLOC" using P'(3) keep [of "last P'"] by simp
    show "Q \<noteq> [] \<Longrightarrow> rtype (mem h5 (hd Q)) = REGION_ALLOC" using Q(3) keep [of "hd Q"] by simp
  qed (use F5 in auto)
  have hdr: "sub32 (x + 12) 12 = x" and nx0: "GET_NEXT_HEADER h x = nx"
    using xb by (simp_all add: sub32_exact GET_NEXT_HEADER_def add32_exact nx_def m_def)
  have pv: "(if rtype (mem h p) = REGION_ALLOC then 0 else p) = ?pv"
    using ty [of p] rs by (auto simp: pf_def m_def)
  have nv: "(if REACH_HEAP_END nx \<or> rtype (mem h nx) = REGION_ALLOC then 0 else nx) = ?nv"
    using nxt by (auto simp: REACH_HEAP_END_def nf_def m_def)
  have uv: "(if ?pv \<noteq> 0 then ?pv else x) = u" "(?pv \<noteq> 0) = pf" "(?nv \<noteq> 0) = nf"
    using nz by (auto simp: u_def)
  have h4': "(if ?nv \<noteq> 0 then upd_header h4 u (\<lambda>r. r\<lparr>rsize := add32 (rsize r) (add32 12 (rsize (mem h4 ?nv)))\<rparr>) else h4) = h5"
    using nz by (simp add: h5_def)
  have kf: "kfree h (x + 12) = Some (if REACH_HEAP_END (GET_NEXT_HEADER h6 u) then h6
      else upd_header h6 (GET_NEXT_HEADER h6 u) (rlink_update (\<lambda>_. u)))"
    unfolding kfree_def Let_def hdr nx0 link [unfolded m_def] pv nv h2(1) option.case h3(1) uv(1)
    unfolding uv(2) h4_def [symmetric] h4' fin(1) option.case ..
  have view5: "map (region_of (mem h5)) (P' @ u # Q) =
      map (region_of m) P' @ (u, rsize (mem h5 u), True) # map (region_of m) Q"
    using keep s5 other u5 by (auto simp: region_of_def)
  show thesis
    by (rule that [OF kf fin(2)])
       (simp only: ext [OF fin(3)] view5 P'(5) Q(5) rs m_def [symmetric])
qed

end
