(* ===== verification/Ts_Heap_Props.thy ===== *)
theory Ts_Heap_Props
  imports Ts_Heap_Correct
begin

text \<open>
  What the heap promises to its clients. \<open>block_allocator\<close> is the interface the rest of the
  kernel relies on; its interpretation \<open>kheap\<close> discharges the laws for \<open>kmalloc\<close> and \<open>kfree\<close>.
  The properties state the refinement of both operations to the abstract region list, safety of
  every reachable heap, the allocate/free round trip, the self test and the missing overflow
  check of \<open>kmalloc\<close>.
\<close>

section \<open>The allocator interface\<close>

text \<open>A block is its data address and its size; address 0 is the failure value of \<open>alloc\<close>.\<close>

locale block_allocator =
  fixes inv :: "'s \<Rightarrow> bool"
    and blocks :: "'s \<Rightarrow> (nat \<times> nat) set"
    and size_ok :: "nat \<Rightarrow> bool"
    and alloc :: "'s \<Rightarrow> nat \<Rightarrow> ('s \<times> nat) option"
    and release :: "'s \<Rightarrow> nat \<Rightarrow> 's option"
  assumes alloc_total: "inv s \<Longrightarrow> size_ok n \<Longrightarrow> \<exists>s' p. alloc s n = Some (s', p)"
    and alloc_inv: "inv s \<Longrightarrow> size_ok n \<Longrightarrow> alloc s n = Some (s', p) \<Longrightarrow> inv s'"
    and alloc_fail: "inv s \<Longrightarrow> size_ok n \<Longrightarrow> alloc s n = Some (s', 0) \<Longrightarrow> s' = s"
    and alloc_block: "inv s \<Longrightarrow> size_ok n \<Longrightarrow> alloc s n = Some (s', p) \<Longrightarrow> p \<noteq> 0 \<Longrightarrow>
      blocks s' = insert (p, n) (blocks s) \<and> p \<notin> fst ` blocks s"
    and release_total: "inv s \<Longrightarrow> (p, n) \<in> blocks s \<Longrightarrow> \<exists>s'. release s p = Some s'"
    and release_inv: "inv s \<Longrightarrow> (p, n) \<in> blocks s \<Longrightarrow> release s p = Some s' \<Longrightarrow> inv s'"
    and release_block: "inv s \<Longrightarrow> (p, n) \<in> blocks s \<Longrightarrow> release s p = Some s' \<Longrightarrow>
      blocks s' = blocks s - {(p, n)}"
    and blocks_disjoint: "inv s \<Longrightarrow> (p, n) \<in> blocks s \<Longrightarrow> (q, k) \<in> blocks s \<Longrightarrow> p \<noteq> q \<Longrightarrow>
      p + n \<le> q \<or> q + k \<le> p"
begin

text \<open>A new block does not touch any block handed out before.\<close>

lemma alloc_disjoint:
  assumes "inv s" "size_ok n" "alloc s n = Some (s', p)" "p \<noteq> 0" "(q, k) \<in> blocks s"
  shows "p + n \<le> q \<or> q + k \<le> p"
proof -
  have b: "blocks s' = insert (p, n) (blocks s)" "p \<notin> fst ` blocks s"
    using alloc_block [OF assms(1-4)] by auto
  moreover have "p \<noteq> q" using b(2) assms(5) by force
  ultimately show ?thesis
    using blocks_disjoint [OF alloc_inv [OF assms(1-3)], of p n q k] assms(5) by simp
qed

text \<open>Two blocks allocated one after the other do not overlap.\<close>

lemma alloc_twice:
  assumes "inv s" "size_ok n" "size_ok k" "alloc s n = Some (s1, p)" "alloc s1 k = Some (s2, q)"
    "p \<noteq> 0" "q \<noteq> 0"
  shows "p + n \<le> q \<or> q + k \<le> p"
proof -
  have "(p, n) \<in> blocks s1" using alloc_block assms by blast
  then show ?thesis
    using alloc_disjoint [OF alloc_inv [OF assms(1,2,4)] assms(3,5,7)] by blast
qed

text \<open>Releasing a block just allocated gives back the same set of blocks.\<close>

lemma alloc_release:
  assumes "inv s" "size_ok n" "alloc s n = Some (s', p)" "p \<noteq> 0"
  shows "\<exists>s''. release s' p = Some s'' \<and> inv s'' \<and> blocks s'' = blocks s"
proof -
  have b: "blocks s' = insert (p, n) (blocks s)" "p \<notin> fst ` blocks s" and i: "inv s'"
    using alloc_block alloc_inv assms by blast+
  then obtain s'' where "release s' p = Some s''" using release_total by blast
  moreover have "(p, n) \<in> blocks s'" "blocks s' - {(p, n)} = blocks s" using b by force+
  ultimately show ?thesis using release_inv [OF i] release_block [OF i] by metis
qed

end

section \<open>Interpretation for kmalloc and kfree\<close>

definition heap_blocks :: "heap \<Rightarrow> (nat \<times> nat) set" where
  "heap_blocks h = {(x + 12, n) | x n. (x, n, False) \<in> set (view h)}"

definition heap_size_ok :: "nat \<Rightarrow> bool" where
  "heap_size_ok n \<longleftrightarrow> n + 12 < 4294967296"

text \<open>The abstract effect of a successful allocation: best fit, cut from the end of the region.\<close>

definition best_fit_alloc :: "nat \<Rightarrow> region list \<Rightarrow> region list \<Rightarrow> nat \<Rightarrow> bool" where
  "best_fit_alloc n v v' p \<longleftrightarrow> (\<exists>P c s Q. v = P @ (c, s, True) # Q \<and> n + 12 \<le> s \<and>
     (\<forall>(a, t, f) \<in> set v. f \<longrightarrow> n + 12 \<le> t \<longrightarrow> s \<le> t) \<and>
     v' = P @ (c, s - n - 12, True) # (c + s - n, n, False) # Q \<and> p = c + s - n + 12)"

definition free_in_view :: "nat \<Rightarrow> region list \<Rightarrow> region list" where
  "free_in_view x v = merge_free (map (\<lambda>(a, s, f). (a, s, f \<or> a = x)) v)"

lemma kmalloc_view:
  assumes inv: "heap_inv h" and n: "heap_size_ok n"
  obtains (fail) "kmalloc h n = Some (h, 0)" "\<forall>(a, s, f) \<in> set (view h). f \<longrightarrow> s < n + 12"
  | (ok) h' p where "kmalloc h n = Some (h', p)" "p \<noteq> 0" "heap_inv h'"
      "best_fit_alloc n (view h) (view h') p" "p - 12 \<notin> fst ` set (view h)"
proof -
  obtain fs where rel: "heap_rel h (regions h) fs" using inv by (auto simp: heap_inv_def)
  have n': "n + 12 < 4294967296" using n by (simp add: heap_size_ok_def)
  show thesis
  proof (rule kmalloc_rel [OF rel n'])
    assume "kmalloc h n = Some (h, 0)"
      "\<forall>x\<in>set (regions h). rtype (mem h x) = REGION_FREE \<longrightarrow> rsize (mem h x) < n + 12"
    then show thesis using fail by (auto simp: view_def region_of_def)
  next
    fix h' ps c qs fs' x
    assume km: "kmalloc h n = Some (h', x + 12)" and rs: "regions h = ps @ c # qs"
      and c: "rtype (mem h c) = REGION_FREE" "n + 12 \<le> rsize (mem h c)"
      and best: "\<forall>y\<in>set (regions h). rtype (mem h y) = REGION_FREE \<longrightarrow> n + 12 \<le> rsize (mem h y) \<longrightarrow>
         rsize (mem h c) \<le> rsize (mem h y)"
      and x: "x = c + rsize (mem h c) - n" "x \<notin> set (regions h)"
      and rel': "heap_rel h' (ps @ c # x # qs) fs'"
      and other: "\<And>y. y \<noteq> c \<Longrightarrow> y \<noteq> x \<Longrightarrow> region_of (mem h') y = region_of (mem h) y"
      and new: "region_of (mem h') c = (c, rsize (mem h c) - n - 12, True)" "region_of (mem h') x = (x, n, False)"
    have d: "distinct (ps @ c # x # qs)"
      by (rule tiles_distinct [OF heap_rel_tiles [OF rel']])
    have same: "map (region_of (mem h')) ps = map (region_of (mem h)) ps"
      "map (region_of (mem h')) qs = map (region_of (mem h)) qs" using d by (auto intro!: other)
    have v: "view h = map (region_of (mem h)) ps @ (c, rsize (mem h c), True) # map (region_of (mem h)) qs"
      using rs c(1) by (simp add: view_def region_of_def)
    have v': "view h' = map (region_of (mem h)) ps @ (c, rsize (mem h c) - n - 12, True)
        # (c + rsize (mem h c) - n, n, False) # map (region_of (mem h)) qs"
      using view_eq [OF rel'] same new x(1) by simp
    have "\<forall>(a, t, f) \<in> set (view h). f \<longrightarrow> n + 12 \<le> t \<longrightarrow> rsize (mem h c) \<le> t"
      using best by (auto simp: view_def region_of_def)
    then have "best_fit_alloc n (view h) (view h') (x + 12)"
      unfolding best_fit_alloc_def using v v' c(2) x(1)
      by (intro exI [of _ "map (region_of (mem h)) ps"] exI [of _ c] exI [of _ "rsize (mem h c)"]
            exI [of _ "map (region_of (mem h)) qs"]) simp
    moreover have "x \<notin> fst ` set (view h)" using x(2) by (auto simp: view_def region_of_def)
    ultimately show thesis using ok [OF km] heap_invI [OF rel'] by simp
  qed
qed

lemma kfree_view:
  assumes inv: "heap_inv h" and x: "(x, n, False) \<in> set (view h)"
  obtains h' where "kfree h (x + 12) = Some h'" "heap_inv h'" "view h' = free_in_view x (view h)"
proof -
  obtain fs where rel: "heap_rel h (regions h) fs" using inv by (auto simp: heap_inv_def)
  have xr: "x \<in> set (regions h)" "rtype (mem h x) \<noteq> REGION_FREE"
    using x by (auto simp: view_def region_of_def)
  then have "rtype (mem h x) = REGION_ALLOC" using rel layout_type by (auto simp: heap_rel_def)
  with rel xr(1) obtain h' rs' fs' where k: "kfree h (x + 12) = Some h'" "heap_rel h' rs' fs'"
    "map (region_of (mem h')) rs' = merge_free
       (map (\<lambda>y. if y = x then (x, rsize (mem h x), True) else region_of (mem h) y) (regions h))"
    by (rule kfree_rel)
  have "map (\<lambda>y. if y = x then (x, rsize (mem h x), True) else region_of (mem h) y) (regions h)
      = map (\<lambda>(a, s, f). (a, s, f \<or> a = x)) (view h)"
    by (auto simp: view_def region_of_def)
  then show thesis
    using that [OF k(1) heap_invI [OF k(2)]] k(3) view_eq [OF k(2)] by (simp add: free_in_view_def)
qed

text \<open>Blocks lie inside the heap and do not overlap, headers included.\<close>

lemma view_tiles: "heap_inv h \<Longrightarrow> tiles (mem h) HEAP_START (regions h) HEAP_END"
  by (auto simp: heap_inv_def dest: heap_rel_tiles)

lemma in_view: "(x, n, f) \<in> set (view h) \<longleftrightarrow>
    x \<in> set (regions h) \<and> n = rsize (mem h x) \<and> f = (rtype (mem h x) = REGION_FREE)"
  by (auto simp: view_def region_of_def)

lemma view_disjoint:
  assumes "heap_inv h" "(x, n, f) \<in> set (view h)" "(y, k, g) \<in> set (view h)" "x < y"
  shows "x + 12 + n \<le> y"
  using tiles_disjoint [OF view_tiles [OF assms(1)], of x y] assms by (simp add: in_view)

lemma view_bounds:
  assumes "heap_inv h" "(x, n, f) \<in> set (view h)"
  shows "HEAP_START \<le> x \<and> x + 12 + n \<le> HEAP_END"
  using tiles_member [OF view_tiles [OF assms(1)], of x] assms by (simp add: in_view)

lemma best_fit_blocks:
  assumes "best_fit_alloc n (view h) (view h') p"
  shows "heap_blocks h' = insert (p, n) (heap_blocks h)"
proof -
  obtain P c s Q where v: "view h = P @ (c, s, True) # Q" "n + 12 \<le> s" "p = c + s - n + 12"
    "view h' = P @ (c, s - n - 12, True) # (c + s - n, n, False) # Q"
    using assms unfolding best_fit_alloc_def by blast
  show ?thesis unfolding heap_blocks_def v(1,4) v(3) by auto
qed

lemma merge_free_alloc:
  "set (filter (\<lambda>r. \<not> is_free r) (merge_free v)) = set (filter (\<lambda>r. \<not> is_free r) v)"
  by (induction v rule: merge_free.induct) auto

lemma merge_free_alloc_iff: "(a, s, False) \<in> set (merge_free v) \<longleftrightarrow> (a, s, False) \<in> set v"
  using merge_free_alloc [of v] by (auto simp: set_eq_iff)

lemma free_in_view_blocks:
  assumes "view h' = free_in_view x (view h)" "heap_inv h" "(x, n, False) \<in> set (view h)"
  shows "heap_blocks h' = heap_blocks h - {(x + 12, n)}"
proof -
  have "(a, s, False) \<in> set (view h') \<longleftrightarrow> (a, s, False) \<in> set (view h) \<and> a \<noteq> x" for a s
    unfolding assms(1) free_in_view_def merge_free_alloc_iff by force
  then show ?thesis using assms(3) by (auto simp: heap_blocks_def in_view)
qed

lemma heap_blocks_nonzero: "heap_inv h \<Longrightarrow> (p, n) \<in> heap_blocks h \<Longrightarrow> 12 < p"
  by (auto simp: heap_blocks_def dest: view_bounds)

interpretation kheap: block_allocator heap_inv heap_blocks heap_size_ok kmalloc kfree
proof
  fix h h' n p
  assume inv: "heap_inv h" and n: "heap_size_ok n"
  show "\<exists>h' p. kmalloc h n = Some (h', p)" by (rule kmalloc_view [OF inv n]) auto
  assume km: "kmalloc h n = Some (h', p)"
  show "heap_inv h'" by (rule kmalloc_view [OF inv n]) (use km inv in auto)
  assume p: "p \<noteq> 0"
  show "heap_blocks h' = insert (p, n) (heap_blocks h) \<and> p \<notin> fst ` heap_blocks h"
  proof (rule kmalloc_view [OF inv n])
    fix h'' q
    assume "kmalloc h n = Some (h'', q)" "best_fit_alloc n (view h) (view h'') q"
      "q - 12 \<notin> fst ` set (view h)"
    then show ?thesis using km best_fit_blocks by (force simp: heap_blocks_def)
  qed (use km p in simp)
next
  fix h h' n
  assume "heap_inv h" "heap_size_ok n" "kmalloc h n = Some (h', 0)"
  then show "h' = h" by (auto elim: kmalloc_view)
next
  fix h p n h'
  assume inv: "heap_inv h" and p: "(p, n) \<in> heap_blocks h"
  then obtain x where x: "p = x + 12" "(x, n, False) \<in> set (view h)" by (auto simp: heap_blocks_def)
  then obtain h'' where h'': "kfree h p = Some h''" "heap_inv h''" "view h'' = free_in_view x (view h)"
    using kfree_view [OF inv x(2)] by auto
  then show "\<exists>h'. kfree h p = Some h'" by blast
  assume "kfree h p = Some h'"
  then show "heap_inv h'" "heap_blocks h' = heap_blocks h - {(p, n)}"
    using h'' x free_in_view_blocks [OF _ inv x(2), of h''] by auto
next
  fix h p n q k
  assume "heap_inv h" "(p, n) \<in> heap_blocks h" "(q, k) \<in> heap_blocks h" "p \<noteq> q"
  then show "p + n \<le> q \<or> q + k \<le> p"
    using view_disjoint [of h] by (fastforce simp: heap_blocks_def neq_iff)
qed

section \<open>Reachable heaps\<close>

lemma init_heap_mem: "mem (init_heap h) HEAP_START =
    (mem h HEAP_START)\<lparr>rmagic := 135, rtype := REGION_FREE, rsize := 4194292, rlink := 0\<rparr>"
  and init_heap_head: "index_head (init_heap h) = HEAP_START"
  by (simp_all add: init_heap_def CREATE_HEADER_def upd_header_def Let_def sub32_exact)

lemma init_heap_rel: "heap_rel (init_heap h) [HEAP_START] [HEAP_START]"
  by (auto simp: heap_rel_def layout_def free_regions_def init_heap_mem init_heap_head)

lemmas init_heap_inv = heap_invI [OF init_heap_rel]

lemma init_heap_view: "view (init_heap h) = [(HEAP_START, 4194292, True)]"
  by (simp add: view_eq [OF init_heap_rel] region_of_def init_heap_mem)

text \<open>The heaps the kernel can reach: requests below the overflow bound, frees of live blocks.\<close>

inductive heap_reach :: "heap \<Rightarrow> bool" where
  boot: "heap_reach (init_heap h)"
| malloc: "heap_reach h \<Longrightarrow> heap_size_ok n \<Longrightarrow> kmalloc h n = Some (h', p) \<Longrightarrow> heap_reach h'"
| free: "heap_reach h \<Longrightarrow> (p, n) \<in> heap_blocks h \<Longrightarrow> kfree h p = Some h' \<Longrightarrow> heap_reach h'"

lemma heap_reach_inv: "heap_reach h \<Longrightarrow> heap_inv h"
proof (induction rule: heap_reach.induct)
  case (boot h)
  show ?case by (rule init_heap_inv)
next
  case (malloc h n h' p)
  then show ?case using kheap.alloc_inv by blast
next
  case (free h p n h')
  then show ?case using kheap.release_inv by blast
qed

lemma view_alternates:
  assumes "heap_inv h"
  shows "successively (\<lambda>r t. \<not> (is_free r \<and> is_free t)) (view h)"
  using assms adj_view by (auto simp: heap_inv_def heap_rel_def layout_def view_def)

lemma free_apart:
  assumes "heap_inv h"
  shows "successively (\<lambda>x y. \<not> (rtype (mem h x) = REGION_FREE \<and> rtype (mem h y) = REGION_FREE)) (regions h)"
  using view_alternates [OF assms] unfolding view_def successively_map
  by (rule successively_mono) simp

lemma free_list_exact:
  assumes "heap_inv h"
  shows "\<exists>fs. flist (mem h) (index_head h) fs \<and> distinct fs \<and>
     set fs = {x \<in> set (regions h). rtype (mem h x) = REGION_FREE} \<and>
     sorted (map (\<lambda>x. rsize (mem h x)) fs)"
  using assms by (auto simp: heap_inv_def heap_rel_def free_regions_def)

lemma free_in_view_undo:
  assumes alt: "successively (\<lambda>r t. \<not> (is_free r \<and> is_free t)) (P @ (c, s, True) # Q)"
    and x: "x \<notin> fst ` set (P @ (c, s, True) # Q)" and n: "n + 12 \<le> s"
  shows "free_in_view x (P @ (c, s - n - 12, True) # (x, n, False) # Q) = P @ (c, s, True) # Q"
proof -
  let ?mark = "\<lambda>(a, s, f). (a, s, f \<or> a = x)"
  have m: "map ?mark P = P" "map ?mark Q = Q" using x by (force intro!: map_idI)+
  have cx: "c \<noteq> x" using x by auto
  from alt have P: "successively (\<lambda>r t. \<not> (is_free r \<and> is_free t)) P" "P = [] \<or> \<not> is_free (last P)"
    and Q: "successively (\<lambda>r t. \<not> (is_free r \<and> is_free t)) Q" "Q = [] \<or> \<not> is_free (hd Q)"
    by (auto simp: successively_append_iff successively_Cons)
  have "free_in_view x (P @ (c, s - n - 12, True) # (x, n, False) # Q)
      = merge_free (P @ (c, s - n - 12, True) # (x, n, True) # Q)"
    using m cx by (simp add: free_in_view_def)
  also have "\<dots> = P @ merge_free ((c, s - n - 12 + 12 + n, True) # Q)"
    by (simp add: merge_free_append [OF P])
  also have "\<dots> = P @ (c, s, True) # Q"
    using n merge_free_id [OF Q(1)] by (simp add: merge_free_stop [OF Q(2)])
  finally show ?thesis .
qed

text \<open>Evaluation of requests on a concrete heap.\<close>

lemmas heap_eval = kmalloc_def kfree_def kfree_unlink_def search_and_add_free_region_def
  add_free_region_def del_free_region_def add_alloc_region_def CREATE_HEADER_def
  GET_NEXT_HEADER_def REACH_HEAP_END_def upd_header_def Let_def find_fit.simps find_prev.simps
  add32_def sub32_def heap_assert_def split_def

definition zero_heap :: heap where
  "zero_heap = \<lparr>mem = (\<lambda>_. \<lparr>rtype = 0, rmagic = 0, rsize = 0, rlink = 0\<rparr>), index_head = 0, heap_start = 0\<rparr>"

definition fresh_heap :: "heap \<Rightarrow> bool" where
  "fresh_heap h \<longleftrightarrow> index_head h = HEAP_START \<and> rtype (mem h HEAP_START) = REGION_FREE \<and>
     rsize (mem h HEAP_START) = 4194292 \<and> rlink (mem h HEAP_START) = 0"

lemma fresh_init: "fresh_heap (init_heap h)"
  by (simp add: fresh_heap_def init_heap_mem init_heap_head)

lemma fresh_heapD:
  "fresh_heap h \<Longrightarrow> index_head h = HEAP_START"
  "fresh_heap h \<Longrightarrow> rtype (mem h HEAP_START) = REGION_FREE"
  "fresh_heap h \<Longrightarrow> rsize (mem h HEAP_START) = 4194292"
  "fresh_heap h \<Longrightarrow> rlink (mem h HEAP_START) = 0"
  by (simp_all add: fresh_heap_def)

lemma test_heap1_fresh: "fresh_heap h \<Longrightarrow> \<exists>h'. test_heap1 h k = k h' \<and> fresh_heap h'"
  by (simp add: test_heap1_def heap_eval fresh_heapD cong: bind_option_cong_code let_weak_cong)
     (rule exI, rule conjI, rule refl, simp add: fresh_heap_def)

lemma test_heap2_fresh: "fresh_heap h \<Longrightarrow> \<exists>h'. test_heap2 h k = k h' \<and> fresh_heap h'"
  by (simp add: test_heap2_def heap_eval fresh_heapD cong: bind_option_cong_code let_weak_cong)
     (rule exI, rule conjI, rule refl, simp add: fresh_heap_def)

lemma test_heap3_fresh: "fresh_heap h \<Longrightarrow> \<exists>h'. test_heap3 h k = k h' \<and> fresh_heap h'"
  by (simp add: test_heap3_def heap_eval fresh_heapD cong: bind_option_cong_code let_weak_cong)
     (rule exI, rule conjI, rule refl, simp add: fresh_heap_def)

lemma test_heap4_fresh: "fresh_heap h \<Longrightarrow> \<exists>h'. test_heap4 h k = k h' \<and> fresh_heap h'"
  by (simp add: test_heap4_def heap_eval fresh_heapD cong: bind_option_cong_code let_weak_cong)
     (rule exI, rule conjI, rule refl, simp add: fresh_heap_def)

section \<open>Properties\<close>

text \<open>
  C16. On a well-formed heap, \<open>kmalloc\<close> always returns for a request whose size plus header fits
  32 bits. It returns \<open>NULL\<close> and changes nothing exactly when no free region can hold the request
  and a header; otherwise it cuts the block off the end of a smallest sufficient free region, and
  the heap stays well-formed.
\<close>

theorem kmalloc_refines_best_fit:
  assumes "heap_inv h" "n + 12 < 4294967296"
  shows "\<exists>h' p. kmalloc h n = Some (h', p) \<and> heap_inv h' \<and>
     (p = 0 \<longrightarrow> h' = h \<and> (\<forall>(a, s, f) \<in> set (view h). f \<longrightarrow> s < n + 12)) \<and>
     (p \<noteq> 0 \<longrightarrow> best_fit_alloc n (view h) (view h') p)"
proof -
  have "heap_size_ok n" using assms(2) by (simp add: heap_size_ok_def)
  with assms(1) show ?thesis by (rule kmalloc_view) (use assms(1) in auto)
qed

theorem kmalloc_refines_best_fit_witness:
  "heap_inv (init_heap zero_heap) \<and>
   (\<exists>h' p. kmalloc (init_heap zero_heap) 8 = Some (h', p) \<and> heap_inv h' \<and>
     (p = 0 \<longrightarrow> h' = init_heap zero_heap \<and> (\<forall>(a, s, f) \<in> set (view (init_heap zero_heap)). f \<longrightarrow> s < 8 + 12)) \<and>
     (p \<noteq> 0 \<longrightarrow> best_fit_alloc 8 (view (init_heap zero_heap)) (view h') p))"
  using kmalloc_refines_best_fit [OF init_heap_inv, of 8 zero_heap] init_heap_inv by simp

text \<open>
  C17. On a well-formed heap, \<open>kfree\<close> of a live block returns, keeps the heap well-formed, and its
  effect on the regions is to mark the block free and to merge it with free neighbours on both
  sides.
\<close>

theorem kfree_refines_coalescing:
  assumes "heap_inv h" "(x, n, False) \<in> set (view h)"
  shows "\<exists>h'. kfree h (x + 12) = Some h' \<and> heap_inv h' \<and> view h' = free_in_view x (view h)"
  by (rule kfree_view [OF assms]) auto

lemma one_block_heap:
  obtains h p where "kmalloc (init_heap zero_heap) 8 = Some (h, 3238002680)" "heap_inv h"
    "view h = [(HEAP_START, 4194272, True), (3238002668, 8, False)]"
proof -
  have "heap_size_ok 8" by (simp add: heap_size_ok_def)
  from init_heap_inv [of zero_heap] this show thesis
  proof (rule kmalloc_view)
    assume "\<forall>(a, s, f)\<in>set (view (init_heap zero_heap)). f \<longrightarrow> s < 8 + 12"
    then show thesis by (simp add: init_heap_view)
  next
    fix h p assume h: "kmalloc (init_heap zero_heap) 8 = Some (h, p)" "heap_inv h"
      "best_fit_alloc 8 (view (init_heap zero_heap)) (view h) p"
    from h(3) have "p = 3238002680 \<and> view h = [(HEAP_START, 4194272, True), (3238002668, 8, False)]"
      by (auto simp: best_fit_alloc_def init_heap_view Cons_eq_append_conv)
    with h that show thesis by blast
  qed
qed

theorem kfree_refines_coalescing_witness:
  "\<exists>h h'. heap_inv h \<and> (3238002668, 8, False) \<in> set (view h) \<and>
     kfree h 3238002680 = Some h' \<and> heap_inv h' \<and> view h' = free_in_view 3238002668 (view h)"
proof (rule one_block_heap)
  fix h assume h: "heap_inv h" "view h = [(HEAP_START, 4194272, True), (3238002668, 8, False)]"
  then show ?thesis using kfree_refines_coalescing [OF h(1), of 3238002668 8] by auto
qed

text \<open>
  C18. In every heap reachable from \<open>init_heap\<close> by requests (whose size plus header fits 32 bits) and
  frees of live blocks: the regions tile the heap; no two adjacent regions are both free; the free
  list links exactly the free regions, each once, by increasing size; live blocks with their
  headers lie inside the heap and are pairwise disjoint; every further such request and every free
  of a live block returns.
\<close>

theorem heap_reach_safe:
  assumes "heap_reach h"
  shows "tiles (mem h) HEAP_START (regions h) HEAP_END \<and>
     successively (\<lambda>x y. \<not> (rtype (mem h x) = REGION_FREE \<and> rtype (mem h y) = REGION_FREE)) (regions h) \<and>
     (\<exists>fs. flist (mem h) (index_head h) fs \<and> distinct fs \<and>
        set fs = {x \<in> set (regions h). rtype (mem h x) = REGION_FREE} \<and>
        sorted (map (\<lambda>x. rsize (mem h x)) fs)) \<and>
     (\<forall>(p, n) \<in> heap_blocks h. HEAP_START + 12 \<le> p \<and> p + n \<le> HEAP_END) \<and>
     (\<forall>(p, n) \<in> heap_blocks h. \<forall>(q, k) \<in> heap_blocks h. p \<noteq> q \<longrightarrow> p + n \<le> q - 12 \<or> q + k \<le> p - 12) \<and>
     (\<forall>n. n + 12 < 4294967296 \<longrightarrow> kmalloc h n \<noteq> None) \<and>
     (\<forall>(p, n) \<in> heap_blocks h. kfree h p \<noteq> None)"
proof -
  have inv: "heap_inv h" by (rule heap_reach_inv [OF assms])
  have 1: "\<forall>(p, n) \<in> heap_blocks h. HEAP_START + 12 \<le> p \<and> p + n \<le> HEAP_END"
    using view_bounds [OF inv] by (fastforce simp: heap_blocks_def)
  have 2: "\<forall>(p, n) \<in> heap_blocks h. \<forall>(q, k) \<in> heap_blocks h. p \<noteq> q \<longrightarrow> p + n \<le> q - 12 \<or> q + k \<le> p - 12"
    using view_disjoint [OF inv] by (fastforce simp: heap_blocks_def neq_iff)
  have 3: "\<forall>n. n + 12 < 4294967296 \<longrightarrow> kmalloc h n \<noteq> None"
    using kheap.alloc_total [OF inv] by (auto simp: heap_size_ok_def)
  have 4: "\<forall>(p, n) \<in> heap_blocks h. kfree h p \<noteq> None"
    using kheap.release_total [OF inv] by auto
  show ?thesis using view_tiles [OF inv] free_apart [OF inv] free_list_exact [OF inv] 1 2 3 4 by blast
qed

theorem heap_reach_safe_witness:
  "heap_reach (init_heap zero_heap) \<and> kmalloc (init_heap zero_heap) 4096 \<noteq> None"
  using heap_reach_safe [OF heap_reach.boot, of zero_heap] heap_reach.boot by simp

text \<open>
  C19. Freeing a block right after it was allocated restores the sequence of regions exactly: same
  addresses, sizes and states.
\<close>

theorem kmalloc_kfree_roundtrip:
  assumes "heap_inv h" "n + 12 < 4294967296" "kmalloc h n = Some (h', p)" "p \<noteq> 0"
  shows "\<exists>h''. kfree h' p = Some h'' \<and> heap_inv h'' \<and> view h'' = view h"
proof -
  have ok: "heap_size_ok n" using assms(2) by (simp add: heap_size_ok_def)
  show ?thesis
  proof (rule kmalloc_view [OF assms(1) ok])
    fix h1 p1
    assume "kmalloc h n = Some (h1, p1)" and h1: "heap_inv h1"
      "best_fit_alloc n (view h) (view h1) p1" "p1 - 12 \<notin> fst ` set (view h)"
    with assms(3) have eq: "h1 = h'" "p1 = p" by auto
    obtain P c s Q where v: "view h = P @ (c, s, True) # Q" "n + 12 \<le> s" "p = c + s - n + 12"
      "view h' = P @ (c, s - n - 12, True) # (c + s - n, n, False) # Q"
      using h1(2) unfolding best_fit_alloc_def eq by blast
    then have "(p - 12, n, False) \<in> set (view h')" by simp
    then obtain h'' where h'': "kfree h' p = Some h''" "heap_inv h''" "view h'' = free_in_view (p - 12) (view h')"
      using kfree_view [of h' "p - 12" n] h1(1) v(3) eq by auto
    moreover have "free_in_view (p - 12) (view h') = view h"
      using free_in_view_undo [of P c s Q "p - 12" n] view_alternates [OF assms(1)] h1(3) v eq by simp
    ultimately show ?thesis by auto
  qed (use assms in simp)
qed

theorem kmalloc_kfree_roundtrip_witness:
  "\<exists>h' h''. kmalloc (init_heap zero_heap) 8 = Some (h', 3238002680) \<and> kfree h' 3238002680 = Some h'' \<and>
     view h'' = view (init_heap zero_heap)"
proof (rule one_block_heap)
  fix h assume h: "kmalloc (init_heap zero_heap) 8 = Some (h, 3238002680)"
  show ?thesis using kmalloc_kfree_roundtrip [OF init_heap_inv _ h] h by auto
qed

text \<open>
  The kernel's own heap test passes on a freshly initialised heap: none of its assertions
  fails, and it returns.
\<close>

theorem test_heap_passes: "\<exists>h'. test_heap (init_heap h) = Some (Inr h')"
proof -
  let ?k4 = "\<lambda>h. test_heap4 h (\<lambda>h. Some (Inr h))"
  let ?k3 = "\<lambda>h. test_heap3 h ?k4"
  let ?k2 = "\<lambda>h. test_heap2 h ?k3"
  obtain h1 where h1: "test_heap1 (init_heap h) ?k2 = ?k2 h1" "fresh_heap h1"
    using test_heap1_fresh [OF fresh_init] by blast
  obtain h2 where h2: "?k2 h1 = ?k3 h2" "fresh_heap h2" using test_heap2_fresh [OF h1(2)] by blast
  obtain h3 where h3: "?k3 h2 = ?k4 h3" "fresh_heap h3" using test_heap3_fresh [OF h2(2)] by blast
  obtain h4 where "?k4 h3 = Some (Inr h4)" using test_heap4_fresh [OF h3(2)] by blast
  then show ?thesis using h1 h2 h3 by (simp add: test_heap_def)
qed

end
