(* ===== verification/Ts_Console_Props.thy ===== *)
theory Ts_Console_Props
  imports Ts_Console_Input Ts_Heap_Props
begin

text \<open>
  What the console promises. \<open>char_device\<close> is the interface of the printing code: a device that
  takes one character after another and keeps an invariant relative to the text written so far;
  its interpretation \<open>con_dev\<close> is \<open>write_console_one\<close>. \<open>con_reach\<close> is the console driven by output,
  the scroll keys and the input line in any order, from its start on a heap with enough room.
\<close>

section \<open>The device interface\<close>

locale char_device =
  fixes inv :: "'s \<Rightarrow> char list \<Rightarrow> bool"
    and put_char :: "'s \<Rightarrow> char \<Rightarrow> 's res option"
    and capacity :: nat
  assumes put_char_ok: "inv s log \<Longrightarrow> length log < capacity \<Longrightarrow>
    \<exists>s'. put_char s ch = Some (Inr s') \<and> inv s' (log @ [ch])"
begin

text \<open>The loop of \<open>printstr\<close> and \<open>print_chars\<close>.\<close>

primrec put_text :: "'s \<Rightarrow> char list \<Rightarrow> 's res option" where
  "put_text s [] = Some (Inr s)"
| "put_text s (ch # cs) = bind_ro (put_char s ch) (\<lambda>s'. put_text s' cs)"

lemma put_text_ok:
  "inv s log \<Longrightarrow> length log + length cs \<le> capacity \<Longrightarrow>
     \<exists>s'. put_text s cs = Some (Inr s') \<and> inv s' (log @ cs)"
proof (induction cs arbitrary: s log)
  case (Cons ch cs)
  obtain s1 where s1: "put_char s ch = Some (Inr s1)" "inv s1 (log @ [ch])"
    using put_char_ok [OF Cons.prems(1), of ch] Cons.prems(2) by auto
  with Cons.IH [OF s1(2)] Cons.prems(2) show ?case by auto
qed simp

lemma put_text_append:
  "put_text s (cs @ ds) = bind_ro (put_text s cs) (\<lambda>s'. put_text s' ds)"
proof (induction cs arbitrary: s)
  case (Cons ch cs)
  show ?case
  proof (cases "put_char s ch")
    case (Some r)
    then show ?thesis using Cons by (cases r) simp_all
  qed simp
qed simp

end

text \<open>
  A following console keeps following; its view is the repeated \<open>view_write\<close>. The invariant carries
  the text \<open>base\<close> that was written before and the part that the view started from.
\<close>

definition con_follow :: "console \<Rightarrow> char list \<Rightarrow> bool" where
  "con_follow c log \<longleftrightarrow> con_inv c log \<and> following c"

interpretation con_dev: char_device con_follow write_console_one 4294967294
proof (unfold_locales, goal_cases)
  case (1 s log ch)
  then show ?case using write_console_one_spec [of s log ch] by (auto simp: con_follow_def)
qed

section \<open>The newest rows\<close>

text \<open>\<open>suffix_rows s k\<close>: the text \<open>s\<close> breaks at \<open>k\<close> between two rows, and the rest is what fits.\<close>

definition suffix_rows :: "char list \<Rightarrow> nat \<Rightarrow> bool" where
  "suffix_rows s k \<longleftrightarrow> k \<le> length s \<and> lay s = lay (take k s) @ lay (drop k s) \<and>
     20 dvd length (lay (take k s)) \<and> length (lay (drop k s)) \<le> 80 \<and>
     (k = 0 \<or> 60 < length (lay (drop k s)))"

lemma dvd20_append: "20 dvd length (lay xs) \<Longrightarrow> lay (xs @ ys) = lay xs @ lay ys"
  by (elim dvdE) (rule lay_append_row)

lemma suffix_rows_write:
  assumes "suffix_rows s k"
  shows "\<exists>k'. view_write (drop k s) ch = drop k' (s @ [ch]) \<and> suffix_rows (s @ [ch]) k'"
proof -
  let ?t = "drop k s @ [ch]" and ?r = "rowlen 0 (drop k s @ [ch])"
  have k: "k \<le> length s" "20 dvd length (lay (take k s))" "length (lay (drop k s)) \<le> 80"
    "k = 0 \<or> 60 < length (lay (drop k s))" using assms by (simp_all add: suffix_rows_def)
  have t: "?t = drop k (s @ [ch])" "take k (s @ [ch]) = take k s" using k(1) by simp_all
  have lay1: "lay (s @ [ch]) = lay (take k s) @ lay ?t"
    using dvd20_append [OF k(2), of ?t] unfolding append_assoc [symmetric] append_take_drop_id .
  show ?thesis
  proof (cases "length (lay ?t) \<le> 80")
    case True
    have "k = 0 \<or> 60 < length (lay ?t)" using k(4) length_lay_snoc [of "drop k s" ch] by auto
    then have "suffix_rows (s @ [ch]) k"
      unfolding suffix_rows_def t(2) t(1) [symmetric] using True k(1,2) lay1 by auto
    moreover have "view_write (drop k s) ch = drop k (s @ [ch])"
      unfolding t(1) [symmetric] using True by (simp add: view_write_def Let_def)
    ultimately show ?thesis by blast
  next
    case False
    then have big: "20 \<le> length (lay ?t)" "80 < length (lay ?t)" by linarith+
    note row = lay_drop_row [OF big(1)]
    have sum: "length (lay ?t) = 20 + length (lay (drop ?r ?t))"
      using arg_cong [OF row(1), of length] row(2) by simp
    have kr: "k + ?r \<le> length (s @ [ch])" using rowlen_le [of 0 ?t] k(1) by simp
    have tk: "take (k + ?r) (s @ [ch]) = take k s @ take ?r ?t"
      using take_add [of k ?r "s @ [ch]"] unfolding t(2) t(1) [symmetric] .
    have dk: "drop (k + ?r) (s @ [ch]) = drop ?r ?t"
      using drop_drop [of ?r k "s @ [ch]"] unfolding t(1) [symmetric] by (simp only: add.commute)
    have head: "lay (take (k + ?r) (s @ [ch])) = lay (take k s) @ lay (take ?r ?t)"
      unfolding tk by (rule dvd20_append [OF k(2)])
    have "lay (s @ [ch]) = (lay (take k s) @ lay (take ?r ?t)) @ lay (drop ?r ?t)"
      unfolding lay1 append_assoc row(1) [symmetric] ..
    moreover have "20 dvd length (lay (take k s) @ lay (take ?r ?t))" using k(2) row(2) by simp
    moreover have "60 < length (lay (drop ?r ?t))" using sum big(2) by linarith
    ultimately have "suffix_rows (s @ [ch]) (k + ?r)"
      unfolding suffix_rows_def head dk using kr drop_first_row(1) [OF k(3) big(2)] by blast
    moreover have "view_write (drop k s) ch = drop (k + ?r) (s @ [ch])"
      using False unfolding dk by (simp add: view_write_def Let_def)
    ultimately show ?thesis by blast
  qed
qed

lemma con_put_text_view:
  "con_inv c (log @ s) \<Longrightarrow> following c \<Longrightarrow> suffix_rows s k \<Longrightarrow> seg c (log @ s) = drop k s \<Longrightarrow>
   length log + length s + length u < 4294967295 \<Longrightarrow>
   \<exists>c' k'. con_dev.put_text c u = Some (Inr c') \<and> con_inv c' (log @ s @ u) \<and> following c' \<and>
     suffix_rows (s @ u) k' \<and> seg c' (log @ s @ u) = drop k' (s @ u) \<and> same_input c c'"
proof (induction u arbitrary: c s k)
  case Nil
  then show ?case by auto
next
  case (Cons ch u)
  obtain c1 where c1: "write_console_one c ch = Some (Inr c1)" "con_inv c1 ((log @ s) @ [ch])" "following c1"
    "same_input c c1" "seg c1 ((log @ s) @ [ch]) = view_write (seg c (log @ s)) ch"
    using write_console_one_spec [OF Cons.prems(1), of ch] Cons.prems(2,5) by auto
  obtain k1 where "view_write (drop k s) ch = drop k1 (s @ [ch])" "suffix_rows (s @ [ch]) k1"
    using suffix_rows_write [OF Cons.prems(3)] by blast
  then obtain c2 k2 where "con_dev.put_text c1 u = Some (Inr c2)" "con_inv c2 (log @ (s @ [ch]) @ u)" "following c2"
    "suffix_rows ((s @ [ch]) @ u) k2" "seg c2 (log @ (s @ [ch]) @ u) = drop k2 ((s @ [ch]) @ u)" "same_input c1 c2"
    using Cons.IH [of c1 "s @ [ch]" k1] c1 Cons.prems(4,5) by auto
  then show ?case using c1(1) same_input_trans [OF c1(4)] by auto
qed

section \<open>Start of the console\<close>

text \<open>A free region of at least \<open>n\<close> bytes.\<close>

definition has_room :: "nat \<Rightarrow> heap \<Rightarrow> bool" where
  "has_room n h \<longleftrightarrow> (\<exists>a s. (a, s, True) \<in> set (view h) \<and> n \<le> s)"

lemma kmalloc_room:
  assumes inv: "heap_inv h" and n: "n + 12 < 4294967296" and room: "has_room (n + 12 + r) h"
  shows "\<exists>h' p. kmalloc h n = Some (h', p) \<and> p \<noteq> 0 \<and> heap_inv h' \<and> has_room r h' \<and>
     heap_blocks h' = insert (p, n) (heap_blocks h) \<and> p \<notin> fst ` heap_blocks h"
proof -
  obtain a s where as: "(a, s, True) \<in> set (view h)" "n + 12 + r \<le> s" using room by (auto simp: has_room_def)
  have ok: "heap_size_ok n" using n by (simp add: heap_size_ok_def)
  show ?thesis
  proof (cases rule: kmalloc_view [OF inv ok])
    case fail: 1
    then have "s < n + 12" using as(1) by fastforce
    then show ?thesis using as(2) by simp
  next
    case (2 h' p)
    note blk = kheap.alloc_block [OF inv ok 2(1,2)]
    from 2(4) obtain P c t Q where v: "view h = P @ (c, t, True) # Q"
      "view h' = P @ (c, t - n - 12, True) # (c + t - n, n, False) # Q"
      by (auto simp: best_fit_alloc_def)
    have "has_room r h'"
    proof (cases "(a, s, True) = (c, t, True)")
      case True
      then have "r \<le> t - n - 12" using as(2) by simp
      then show ?thesis using v(2) by (auto simp: has_room_def)
    next
      case False
      then have "(a, s, True) \<in> set (view h')" using as(1) v by auto
      moreover have "r \<le> s" using as(2) by simp
      ultimately show ?thesis unfolding has_room_def by blast
    qed
    then show ?thesis using 2 blk by blast
  qed
qed

definition con_boot :: "console \<Rightarrow> bool" where
  "con_boot c \<longleftrightarrow> \<not> console_init_flag c \<and> status_bar_lines c = 1 \<and> history_cnt c = 0 \<and>
     window_first_history c = 0 \<and> window_last_history c = 0 \<and> window_size c = 0 \<and> input_cnt c = 0 \<and>
     heap_inv (kernel_heap c) \<and> has_room 728 (kernel_heap c)"

lemma init_console_geom:
  assumes "con_boot c"
  shows "\<exists>c1 p1 p2 p3. init_console c = Some (Inr c1) \<and> con_geom c1 \<and> ring c1 [] \<and> input_cnt c1 = 0 \<and>
     screen c1 = vga_init (screen c) \<and> heap_inv (kernel_heap c1) \<and> distinct [p1, p2, p3] \<and>
     {(p1, 100), (p2, 80), (p3, 512)} \<subseteq> heap_blocks (kernel_heap c1) \<and>
     window_first_history c1 = 0 \<and> window_last_history c1 = 0 \<and> window_size c1 = 0 \<and> window c1 = buffer_at (ram c) p2 80"
proof -
  let ?h = "kernel_heap c"
  have B: "status_bar_lines c = 1" "history_cnt c = 0" "input_cnt c = 0" "heap_inv ?h"
    "has_room (100 + 12 + 616) ?h" "window_first_history c = 0" "window_last_history c = 0" "window_size c = 0"
    using assms by (simp_all add: con_boot_def)
  obtain h1 p1 where k1: "kmalloc ?h 100 = Some (h1, p1)" "p1 \<noteq> 0" "heap_inv h1" "has_room (80 + 12 + 524) h1"
    "heap_blocks h1 = insert (p1, 100) (heap_blocks ?h)"
    using kmalloc_room [OF B(4) _ B(5)] by auto
  obtain h2 p2 where k2: "kmalloc h1 80 = Some (h2, p2)" "p2 \<noteq> 0" "heap_inv h2" "has_room (512 + 12 + 0) h2"
    "heap_blocks h2 = insert (p2, 80) (heap_blocks h1)" "p2 \<notin> fst ` heap_blocks h1"
    using kmalloc_room [OF k1(3) _ k1(4)] by auto
  obtain h3 p3 where k3: "kmalloc h2 512 = Some (h3, p3)" "p3 \<noteq> 0" "heap_inv h3"
    "heap_blocks h3 = insert (p3, 512) (heap_blocks h2)" "p3 \<notin> fst ` heap_blocks h2"
    using kmalloc_room [OF k2(3) _ k2(4)] by auto
  have zero: "fill_range (buffer_at (ram c) p1 100) 0 100 NUL = Inr (replicate 100 NUL)"
    using fill_range_spec [of 0 100 "buffer_at (ram c) p1 100" NUL] k1(2) by (simp add: buffer_at_def)
  have win: "mul32 (sub32 (sub32 6 1) 1) 20 = 80" by (simp add: c_arith)
  let ?c1 = "c\<lparr>screen := vga_init (screen c), console_max_col := 20, console_max_row := 6, max_window_size := 80,
      kernel_heap := h3, history := replicate 100 NUL, window := buffer_at (ram c) p2 80,
      input_buf := buffer_at (ram c) p3 512, console_init_flag := True\<rparr>"
  have "init_console c = Some (Inr ?c1)"
    using k1(1) k2(1) k3(1) zero win B(1) by (simp add: init_console_def Let_def)
  moreover have "con_geom ?c1" using B k2(2) k3(2)
    by (simp add: con_geom_def vga_std_def vga_init_def buffer_at_def)
  moreover have "ring ?c1 []" using B by (simp add: ring_def)
  moreover have "distinct [p1, p2, p3]" using k1(5) k2(5,6) k3(5) by auto
  moreover have "{(p1, 100), (p2, 80), (p3, 512)} \<subseteq> heap_blocks h3" using k1(5) k2(5) k3(4) by auto
  ultimately show ?thesis using k3(3) B(3,6-8) by (intro exI [of _ ?c1] exI [of _ p1] exI [of _ p2] exI [of _ p3]) simp
qed

section \<open>The console as a state machine\<close>

text \<open>
  The console as \<open>main\<close> leaves it: \<open>init_console\<close> on a console that was not used, then \<open>vga_clear_all\<close>.
  The screen is blank and no text was written, but the window buffer holds what was in the memory that
  \<open>kmalloc\<close> returned.
\<close>

definition main_console :: "console \<Rightarrow> console \<Rightarrow> bool" where
  "main_console c0 c \<longleftrightarrow> con_boot c0 \<and>
     (\<exists>c1. init_console c0 = Some (Inr c1) \<and> c = c1\<lparr>screen := vga_clear_all (screen c1)\<rparr>)"

definition blank_window :: "console \<Rightarrow> bool" where
  "blank_window c \<longleftrightarrow> map disp (window c) = replicate 80 NUL"

text \<open>
  \<open>con_reach c log\<close>: the console \<open>c\<close> is reached after the text \<open>log\<close> has been written. It starts as \<open>main\<close>
  leaves it, if the memory of the window buffer was blank, and otherwise with the first \<open>console_clear\<close>,
  which fills that buffer. Enter is pressed on a line that is not empty.
\<close>

inductive con_reach :: "console \<Rightarrow> char list \<Rightarrow> bool" where
  start: "main_console c0 c \<Longrightarrow> blank_window c \<Longrightarrow> con_reach c []"
| start_clear: "main_console c0 c1 \<Longrightarrow> console_clear c1 = Some (Inr c) \<Longrightarrow> con_reach c []"
| out: "con_reach c log \<Longrightarrow> length log < 4294967000 \<Longrightarrow> write_console_one c ch = Some (Inr c') \<Longrightarrow>
    con_reach c' (log @ [ch])"
| clear: "con_reach c log \<Longrightarrow> console_clear c = Some (Inr c') \<Longrightarrow> con_reach c' log"
| up: "con_reach c log \<Longrightarrow> window_move_up c = Inr c' \<Longrightarrow> con_reach c' log"
| down: "con_reach c log \<Longrightarrow> window_move_down c = Inr c' \<Longrightarrow> con_reach c' log"
| key: "con_reach c log \<Longrightarrow> get_input_char c ch = Inr c' \<Longrightarrow> con_reach c' log"
| backspace: "con_reach c log \<Longrightarrow> modify_input_cnt c (- 1) = Inr c' \<Longrightarrow> con_reach c' log"
| enter: "con_reach c log \<Longrightarrow> length log < 4294967000 \<Longrightarrow> input_text c \<noteq> [] \<Longrightarrow>
    flush_input_buffer c = Some (Inr c') \<Longrightarrow> con_reach c' (log @ input_text c @ [NL])"

lemma draw_window_loop_heap:
  "draw_window_loop m c i = Inr c' \<Longrightarrow> kernel_heap c' = kernel_heap c"
proof (induction m c i rule: draw_window_loop.induct)
  case (1 m c i)
  from 1(2) show ?case
    by (subst (asm) draw_window_loop.simps)
      (auto simp: output_window_one_to_vga_def Let_def screen_put_def split: if_splits dest!: 1(1))
qed

lemma redraw_heap: "redraw c = Inr c' \<Longrightarrow> kernel_heap c' = kernel_heap c"
  by (auto simp: redraw_def update_window_buffer_def draw_window_def dest!: draw_window_loop_heap)

lemma console_clear_heap:
  "console_clear c = Some (Inr c') \<Longrightarrow> console_init_flag c \<Longrightarrow> kernel_heap c' = kernel_heap c"
  by (auto simp: console_clear_def ensure_init_def Let_def redraw_res simp del: bind_res_eq_Inr dest!: redraw_heap)

lemma console_boot:
  assumes "con_boot c"
  shows "\<exists>c' p1 p2 p3. console_clear c = Some (Inr c') \<and> con_inv c' [] \<and> following c' \<and> input_text c' = [] \<and>
     heap_inv (kernel_heap c') \<and> distinct [p1, p2, p3] \<and>
     {(p1, 100), (p2, 80), (p3, 512)} \<subseteq> heap_blocks (kernel_heap c')"
proof -
  obtain c1 p1 p2 p3 where c1: "init_console c = Some (Inr c1)" "con_geom c1" "ring c1 []" "input_cnt c1 = 0"
    and scr1: "screen c1 = vga_init (screen c)" and c1': "heap_inv (kernel_heap c1)" "distinct [p1, p2, p3]"
    "{(p1, 100), (p2, 80), (p3, 512)} \<subseteq> heap_blocks (kernel_heap c1)"
    using init_console_geom [OF assms] by blast
  note scr = scr1 con_geomD(6) [OF c1(2)]
  obtain c' where c': "console_clear c1 = Some (Inr c')" "con_inv c' []" "same_input c1 c'" "following c'"
    using console_clear_spec [OF c1(2,3)] by blast
  have same: "console_clear c = console_clear c1"
    using c1(1) scr(2) assms by (simp add: console_clear_def ensure_init_def con_boot_def)
  have "kernel_heap c' = kernel_heap c1"
    using console_clear_heap [OF c'(1) scr(2)] .
  moreover have "input_text c' = []" using c'(3) c1(4) by (simp add: same_input_def input_text_def)
  ultimately show ?thesis using c' same c1' by (intro exI [of _ c'] exI conjI) auto
qed

lemma main_console_state:
  assumes "main_console c0 c"
  shows "con_geom c" "ring c []" "input_cnt c = 0" "input_shown c" "seg c [] = []" "following c" "blank_window c \<Longrightarrow> con_inv c []"
proof -
  obtain c1 where c1: "init_console c0 = Some (Inr c1)" "con_geom c1" "ring c1 []" "input_cnt c1 = 0" "screen c1 = vga_init (screen c0)"
    "window_first_history c1 = 0" "window_last_history c1 = 0" "window_size c1 = 0"
    using init_console_geom [of c0] assms unfolding main_console_def by (elim exE conjE) blast
  then have c: "c = c1\<lparr>screen := vga_clear_all (vga_init (screen c0))\<rparr>" using assms by (auto simp: main_console_def)
  have std: "vga_std (screen c)"
    unfolding c vga_clear_all_puts by (simp, rule vga_screen.puts_ok) (simp add: vga_std_def vga_init_def)
  have nul: "vga_cell (screen c) x y = NUL" if "x < 80" "y < 25" for x y using vga_clear_all_blank that by (simp add: c)
  show g: "con_geom c" "ring c []" "input_cnt c = 0" "seg c [] = []" "following c"
    using c1 std by (simp_all add: c con_geom_def ring_def seg_def following_def)
  have rows: "in_rows c = 0" using g(3) by (simp add: rows_of_def)
  have pos: "i mod 20 < 80" for i :: nat using mod_less_divisor [of 20 i] by linarith
  show "input_shown c" unfolding input_shown_def rows using nul pos g(3) by (simp add: input_cell_def div_less_iff_less_mult)
  have "shown c" if "blank_window c"
  proof -
    have w: "disp (window c ! i) = NUL" if "i < 80" for i
      using arg_cong [OF \<open>blank_window c\<close> [unfolded blank_window_def], of "\<lambda>l. l ! i"] that con_geomD(8) [OF g(1)] by simp
    have "i < 80 \<and> i div 20 + 1 < 25" if "i < visible c" for i using that rows by (simp add: div_less_iff_less_mult)
    then show ?thesis unfolding shown_def rows using nul pos w by simp
  qed
  then show "con_inv c []" if "blank_window c"
    using that g c1 by (simp add: con_inv_def c seg_def win_cells_def blank_window_def)
qed

lemma con_reach_inv: "con_reach c log \<Longrightarrow> con_inv c log \<and> input_shown c \<and> length log < 4294967200"
proof (induction rule: con_reach.induct)
  case (start c0 c)
  then show ?case using main_console_state [of c0 c] by simp
next
  case (start_clear c0 c1 c)
  note m = main_console_state [OF start_clear.hyps(1)]
  have "con_inv c []" "same_input c1 c" using console_clear_spec [OF m(1,2)] start_clear.hyps(2) by auto
  then show ?case using same_input_shown [of c1 c] m(3,4) by (simp add: rows_of_def)
next
  case (out c log ch c')
  then obtain "con_inv c' (log @ [ch])" "same_input c c'"
    using write_console_one_spec [of c log ch] by auto
  then show ?case using out same_input_shown [of c c'] rows_of_le con_geomD(10) con_invD(1) by force
next
  case (clear c log c')
  then obtain "con_inv c' log" "same_input c c'"
    using console_clear_spec [of c log] con_invD(1,2) [of c log] by auto
  then show ?case using clear same_input_shown [of c c'] rows_of_le con_geomD(10) con_invD(1) by force
next
  case (up c log c')
  then obtain "con_inv c' log" "same_input c c'" using window_move_up_spec [of c log] by auto
  then show ?case using up same_input_shown [of c c'] rows_of_le con_geomD(10) con_invD(1) by force
next
  case (down c log c')
  then obtain "con_inv c' log" "same_input c c'" using window_move_down_spec [of c log] by auto
  then show ?case using down same_input_shown [of c c'] rows_of_le con_geomD(10) con_invD(1) by force
next
  case (key c log ch c')
  then show ?case using get_input_char_spec [of c log ch] by auto
next
  case (backspace c log c')
  then show ?case using backspace_spec [of c log] by auto
next
  case (enter c log c')
  then have "length (input_text c) \<le> 40"
    using length_input_text con_geomD(10) con_invD(1) by metis
  then show ?case using enter flush_input_buffer_spec [of c log] by auto
qed

section \<open>A concrete console\<close>

definition boot_console :: console where
  "boot_console = \<lparr>screen = \<lparr>vmem = (\<lambda>_. NUL), max_col = 0, max_row = 0\<rparr>,
     kernel_heap = init_heap zero_heap, ram = (\<lambda>_. CHR ''?''), console_max_col = 0, console_max_row = 0,
     history = [], window = [], input_buf = [], history_cnt = 0, max_window_size = 0,
     window_first_history = 0, window_last_history = 0, window_size = 0, input_cnt = 0,
     status_bar_lines = 1, console_init_flag = False\<rparr>"

lemma boot_console_boot: "con_boot boot_console"
proof -
  have "has_room 728 (init_heap zero_heap)" by (simp add: has_room_def init_heap_view)
  then show ?thesis using init_heap_inv [of zero_heap] by (simp add: con_boot_def boot_console_def)
qed

text \<open>The same console in a memory of zeroes: it is reachable as \<open>main\<close> leaves it.\<close>

lemma main_console_blank:
  assumes "main_console c0 c" "\<forall>a. ram c0 a = NUL"
  shows "blank_window c"
proof -
  obtain c1 p where c1: "init_console c0 = Some (Inr c1)" "window c1 = buffer_at (ram c0) p 80" "con_geom c1"
    using init_console_geom [of c0] assms(1) unfolding main_console_def by blast
  have "p \<noteq> 0" using c1(2) con_geomD(8) [OF c1(3)] by (cases "p = 0") (simp_all add: buffer_at_def)
  moreover have "ram c0 = (\<lambda>_. NUL)" using assms(2) by auto
  ultimately have "map disp (window c1) = replicate 80 NUL" by (simp add: c1(2) buffer_at_def map_replicate_const)
  then show ?thesis using assms(1) c1(1) by (auto simp: main_console_def blank_window_def)
qed

lemma some_main_console: "\<exists>c. main_console (boot_console\<lparr>ram := \<lambda>_. NUL\<rparr>) c \<and> con_reach c []"
proof -
  let ?c = "boot_console\<lparr>ram := \<lambda>_. NUL\<rparr>"
  have b: "con_boot ?c" using boot_console_boot by (simp add: con_boot_def)
  then obtain c where c: "main_console ?c c" using init_console_geom [OF b] by (auto simp: main_console_def)
  then have "blank_window c" by (rule main_console_blank) simp
  with c show ?thesis using con_reach.start by blast
qed

lemma some_console: "\<exists>c. con_reach c [] \<and> con_inv c [] \<and> following c \<and> input_shown c \<and> input_text c = [] \<and> seg c [] = []"
proof -
  obtain c0 c where c: "main_console c0 c" "con_reach c []" using some_main_console by blast
  then show ?thesis using con_reach_inv [OF c(2)] main_console_state(3,5,6) [OF c(1)] by (auto simp: input_text_def)
qed

lemma some_typed_console: "\<exists>c. con_inv c [] \<and> input_shown c \<and> input_text c = ''a''"
proof -
  obtain c where c: "con_inv c []" "input_shown c" "input_text c = []" using some_console by blast
  from get_input_char_spec [OF c(1,2), of "CHR ''a''"] c(3) show ?thesis by auto
qed

lemma flush_empty:
  assumes "con_inv c log" "input_cnt c = 0" "length log + 1 < 4294967296"
  shows "flush_input_buffer c = Some (Inl OutOfBounds)"
proof -
  obtain c1 where c1: "write_console_one c NL = Some (Inr c1)" "con_inv c1 (log @ [NL])" "same_input c c1"
    using write_console_one_spec [OF assms(1,3), of NL] by blast
  have "input_cnt c1 = 0" using c1(3) assms(2) by (simp add: same_input_def)
  then show ?thesis
    using c1(1) assms(2) console_clear_input_empty [OF con_invD(1) [OF c1(2)]] by (simp add: flush_input_buffer_def)
qed

text \<open>Text sent to a reachable console.\<close>

lemma con_reach_put_text:
  "con_reach c log \<Longrightarrow> length log + length s < 4294967000 \<Longrightarrow>
     \<exists>c'. con_dev.put_text c s = Some (Inr c') \<and> con_reach c' (log @ s)"
proof (induction s arbitrary: c log)
  case (Cons ch s)
  have "con_inv c log" using con_reach_inv [OF Cons.prems(1)] by simp
  then obtain c1 where c1: "write_console_one c ch = Some (Inr c1)"
    using write_console_one_spec [of c log ch] Cons.prems(2) by auto
  have "con_reach c1 (log @ [ch])" using con_reach.out [OF Cons.prems(1) _ c1] Cons.prems(2) by simp
  then show ?case using Cons.IH [of c1 "log @ [ch]"] Cons.prems(2) c1 by simp
qed simp

section \<open>Properties\<close>

text \<open>
  C25. In every state the console reaches by output, clearing, scrolling, typing, deleting and Enter in
  any order, from the console that \<open>main\<close> sets up if the memory that \<open>kmalloc\<close> handed out for the window
  buffer was blank, or else from the first \<open>console_clear\<close> after the set-up, the screen is right: the cells below the input line show the
  layout of one contiguous part of the text written so far, at most the window of 80 cells, blank
  after its end; the cells of the input line show the characters typed, at most 40, blank after them.
\<close>

theorem console_screen_correct:
  assumes "con_reach c log"
  shows "(\<forall>i < visible c. vga_cell (screen c) (i mod 20) (i div 20 + in_rows c + 1) =
            disp (win_cells (drop (window_first_history c) (take (window_last_history c) log)) ! i)) \<and>
    (\<forall>i < 20 * (in_rows c + 1). vga_cell (screen c) (i mod 20) (i div 20) =
            (if i < input_cnt c then input_buf c ! i else NUL)) \<and>
    history_cnt c = length log \<and> window_first_history c \<le> window_last_history c \<and>
    window_last_history c \<le> length log \<and> input_cnt c \<le> 40"
proof -
  have inv: "con_inv c log" "input_shown c" using con_reach_inv [OF assms] by auto
  note D = con_invD [OF inv(1)]
  have "disp (window c ! i) = disp (win_cells (seg c log) ! i)" if "i < visible c" for i
    using arg_cong [OF D(8), of "\<lambda>l. l ! i"] that con_geomD(8) [OF D(1)] length_win_cells [OF D(7)] by simp
  then show ?thesis
    using D con_geomD(10) [OF D(1)] inv(2) by (simp add: shown_def input_shown_def input_cell_def seg_def)
qed

theorem console_screen_correct_witness:
  "\<exists>c. con_reach c [] \<and> (\<forall>i < visible c. vga_cell (screen c) (i mod 20) (i div 20 + in_rows c + 1) =
            disp (win_cells (drop (window_first_history c) (take (window_last_history c) [])) ! i))"
proof -
  obtain c where c: "con_reach c []" using some_console by blast
  from console_screen_correct [OF this] c show ?thesis by blast
qed

text \<open>
  C26. Printing a text on a cleared console that follows the output always returns, and the window
  then displays the newest rows of the text's layout: the text breaks into a part that fills whole
  rows, now scrolled off, and the rest, which fits the 80 cells and, if anything scrolled off, needs
  more than three of the four rows. The screen shows that window.
\<close>

theorem console_newest_rows:
  assumes "con_inv c log" "following c" "seg c log = []" "length log + length s < 4294967295"
  shows "\<exists>c' k. con_dev.put_text c s = Some (Inr c') \<and> con_inv c' (log @ s) \<and> k \<le> length s \<and>
     lay s = lay (take k s) @ lay (drop k s) \<and> 20 dvd length (lay (take k s)) \<and>
     length (lay (drop k s)) \<le> 80 \<and> (k = 0 \<or> 60 < length (lay (drop k s))) \<and>
     map disp (window c') = map disp (win_cells (drop k s)) \<and> shown c'"
proof -
  have "suffix_rows [] 0" by (simp add: suffix_rows_def)
  with con_put_text_view [of c log "[]" 0 s] assms obtain c' k where
    "con_dev.put_text c s = Some (Inr c')" "con_inv c' (log @ s)" "suffix_rows s k" "seg c' (log @ s) = drop k s"
    by auto
  then show ?thesis using con_invD(8,9) [of c' "log @ s"] by (intro exI [of _ c'] exI [of _ k]) (auto simp: suffix_rows_def)
qed

theorem console_newest_rows_witness:
  "\<exists>c. con_inv c [] \<and> following c \<and> seg c [] = [] \<and>
     (\<exists>c' k. con_dev.put_text c ''hello'' = Some (Inr c') \<and> con_inv c' ([] @ ''hello'') \<and>
        map disp (window c') = map disp (win_cells (drop k ''hello'')))"
proof -
  obtain c where c: "con_inv c []" "following c" "seg c [] = []" using some_console by blast
  from console_newest_rows [OF c, of "''hello''"] c show ?thesis by auto
qed

text \<open>
  C29. \<open>write_console_one\<close> on a well-formed console always returns, appends the character to the text,
  leaves the console well-formed and following the output and the input line untouched. The rows on
  display change as the abstract view: append, and drop the first row if the window overflows; a
  window that showed an older part of the history jumps to the new character.
\<close>

theorem write_console_refines_view:
  assumes "con_inv c log" "length log + 1 < 4294967296"
  shows "\<exists>c'. write_console_one c ch = Some (Inr c') \<and> con_inv c' (log @ [ch]) \<and> following c' \<and>
     same_input c c' \<and>
     seg c' (log @ [ch]) = (if following c then view_write (seg c log) ch else [ch])"
  by (rule write_console_one_spec [OF assms])

theorem write_console_refines_view_witness:
  "\<exists>c c'. con_inv c [] \<and> write_console_one c (CHR ''x'') = Some (Inr c') \<and> con_inv c' ([] @ ''x'')"
proof -
  obtain c where c: "con_inv c []" using some_console by blast
  from write_console_refines_view [OF c, of "CHR ''x''"] c show ?thesis by auto
qed



text \<open>
  The input line: typing appends the character to the line unless it already holds 40
  characters, backspace removes the last character and does nothing on an empty line (the count
  would wrap around and is rejected), and both keep the console well-formed and its picture right.
\<close>

theorem input_line_edit:
  assumes "con_inv c log" "input_shown c"
  shows "(\<exists>c'. get_input_char c ch = Inr c' \<and> con_inv c' log \<and> input_shown c' \<and>
       input_text c' = (if length (input_text c) < 40 then input_text c @ [ch] else input_text c)) \<and>
    (\<exists>c'. modify_input_cnt c (- 1) = Inr c' \<and> con_inv c' log \<and> input_shown c' \<and>
       input_text c' = butlast (input_text c))"
  using get_input_char_spec [OF assms] backspace_spec [OF assms] by blast

theorem input_line_edit_witness:
  "\<exists>c c'. con_inv c [] \<and> input_shown c \<and> input_text c = ''a'' \<and>
     modify_input_cnt c (- 1) = Inr c' \<and> input_text c' = butlast ''a''"
proof -
  obtain c where c: "con_inv c []" "input_shown c" "input_text c = ''a''" using some_typed_console by blast
  from input_line_edit [OF c(1,2), of "CHR ''a''"] c show ?thesis by auto
qed

text \<open>
  C31. Enter on a line that is not empty writes the line and a newline to the output and leaves an
  empty input line; the console stays well-formed.
\<close>

theorem flush_writes_line:
  assumes "con_inv c log" "input_shown c" "input_text c \<noteq> []" "length log + 41 < 4294967296"
  shows "\<exists>c'. flush_input_buffer c = Some (Inr c') \<and> con_inv c' (log @ input_text c @ [NL]) \<and>
     input_shown c' \<and> input_text c' = []"
  by (rule flush_input_buffer_spec [OF assms])

theorem flush_writes_line_witness:
  "\<exists>c c'. con_inv c [] \<and> input_text c = ''a'' \<and> flush_input_buffer c = Some (Inr c') \<and>
     con_inv c' ([] @ ''a'' @ [NL])"
proof -
  obtain c where c: "con_inv c []" "input_shown c" "input_text c = ''a''" using some_typed_console by blast
  from flush_writes_line [OF c(1,2)] c show ?thesis by auto
qed

text \<open>
  On a heap with a free region of 728 bytes the first use of the console initialises it: the
  three buffers are distinct live blocks of the heap, which stays well-formed, and clearing leaves a
  well-formed console with no text.
\<close>

theorem console_boots:
  assumes "con_boot c"
  shows "\<exists>c' p1 p2 p3. console_clear c = Some (Inr c') \<and> con_inv c' [] \<and> heap_inv (kernel_heap c') \<and>
     distinct [p1, p2, p3] \<and> {(p1, 100), (p2, 80), (p3, 512)} \<subseteq> heap_blocks (kernel_heap c')"
  using console_boot [OF assms] by blast

theorem console_boots_witness:
  "con_boot boot_console \<and> (\<exists>c'. console_clear boot_console = Some (Inr c') \<and> con_inv c' [])"
  using console_boots [OF boot_console_boot] boot_console_boot by blast

text \<open>
  Enter on an empty line (and \<open>console_clear_all\<close>, which clears the line first) reads
  \<open>input_buf[input_cnt - 1]\<close> with \<open>input_cnt = 0\<close>: an access outside the buffer.
\<close>

theorem clear_empty_line_out_of_bounds:
  assumes "con_inv c log" "input_cnt c = 0" "length log + 1 < 4294967296"
  shows "flush_input_buffer c = Some (Inl OutOfBounds) \<and> console_clear_all c = Some (Inl OutOfBounds)"
  using flush_empty [OF assms] console_clear_input_empty [OF con_invD(1) [OF assms(1)] assms(2)]
    con_geomD(6) [OF con_invD(1) [OF assms(1)]]
  by (simp add: console_clear_all_def ensure_init_def)

theorem clear_empty_line_out_of_bounds_witness:
  "\<exists>c. con_inv c [] \<and> input_cnt c = 0 \<and> flush_input_buffer c = Some (Inl OutOfBounds)"
proof -
  obtain c where c: "con_inv c []" "input_text c = []" using some_console by blast
  then have "input_cnt c = 0" using length_input_text [OF con_invD(1) [OF c(1)]] by simp
  then show ?thesis using clear_empty_line_out_of_bounds [OF c(1)] c(1) by auto
qed

end
