(* ===== verification/Ts_Print_Props.thy ===== *)
theory Ts_Print_Props
  imports Ts_Print Ts_String_Props Ts_Console_Props
begin

text \<open>
  Correctness of formatted output. Each printing function sends a text to the console, character by
  character, as the client loop \<open>put_text\<close> of the device interface does; the lemmas give the text.
\<close>

section \<open>Strings\<close>

abbreviation put_text :: "console \<Rightarrow> char list \<Rightarrow> console res option" where
  "put_text \<equiv> con_dev.put_text"

lemma bind_ro_Some_Inr [simp]: "bind_ro r (\<lambda>x. Some (Inr x)) = r"
  by (cases r) (auto simp: bind_ro_def split: sum.split)

lemma bind_ro_assoc: "bind_ro (bind_ro r f) g = bind_ro r (\<lambda>x. bind_ro (f x) g)"
  by (cases r) (auto simp: bind_ro_def split: sum.split)

lemma put_text_char: "print_char c ch = put_text c [ch]"
  by (simp add: print_char_def)

lemma put_text_Cons: "bind_ro (print_char c ch) (\<lambda>c. put_text c s) = put_text c (ch # s)"
  by (simp add: print_char_def)

lemma put_text_seq: "bind_ro (put_text c s) (\<lambda>c. put_text c t) = put_text c (s @ t)"
  by (simp add: con_dev.put_text_append)

lemma printstr_text: "cstr s i t \<Longrightarrow> printstr c s i = put_text c t"
proof (induction t arbitrary: c i)
  case Nil
  then show ?case using cstr_head(2) by (subst printstr.simps) simp
next
  case (Cons x t)
  note h = cstr_head(1) [OF Cons.prems] cstr_Cons [OF Cons.prems]
  show ?case using h Cons.IH [OF h(2)] by (subst printstr.simps) (simp add: print_char_def)
qed

lemma printl_text: "cstr s 0 t \<Longrightarrow> printl c s = put_text c (t @ [NL])"
  by (simp add: printl_def printstr_text print_char_def con_dev.put_text_append)

section \<open>Hexadecimal\<close>

definition hex_digit :: "nat \<Rightarrow> char" where
  "hex_digit n = (if n \<le> 9 then chr_int (int n + 48) else chr_int (int n - 10 + 65))"

definition hex8 :: "nat \<Rightarrow> char list" where
  "hex8 x = concat (map (\<lambda>k. [hex_digit (byte_of x k div 16), hex_digit (byte_of x k mod 16)]) [3, 2, 1, 0])"

lemma byte_hex: "hb_to_hex b = hex_digit (b div 16)" "lb_to_hex b = hex_digit (b mod 16)"
  by (simp_all add: hb_to_hex_def lb_to_hex_def hex_digit_def)

lemma print_hex_text: "print_hex c x = put_text c (''0x'' @ hex8 x)"
proof -
  have b: "print_byte' c b = put_text c [hex_digit (b div 16), hex_digit (b mod 16)]" for c b
    by (simp add: print_byte'_def byte_hex print_char_def)
  show ?thesis
    by (simp add: print_hex_def b print_char_def hex8_def bind_ro_assoc)
qed

lemma sprint_hex_text: "8 \<le> length buf \<Longrightarrow> sprint_hex x buf = Inr (hex8 x @ drop 8 buf)"
proof -
  assume l: "8 \<le> length buf"
  obtain b0 b1 b2 b3 b4 b5 b6 b7 r where "buf = b0 # b1 # b2 # b3 # b4 # b5 # b6 # b7 # r"
    using l by (auto simp: numeral_eq_Suc Suc_le_length_iff)
  then show ?thesis by (simp add: sprint_hex_def wr_def hex8_def byte_hex)
qed

lemma schar_hex_digit:
  assumes "n < 16"
  shows "schar (hex_digit n) = (if n \<le> 9 then int n + 48 else int n + 55)"
proof (cases "n \<le> 9")
  case True
  then show ?thesis using schar_chr_int [of "int n + 48"] by (simp add: hex_digit_def)
next
  case False
  then show ?thesis using schar_chr_int [of "int n - 10 + 65"] assms by (simp add: hex_digit_def)
qed

lemma hex_digit_ne_NUL: "n < 16 \<Longrightarrow> hex_digit n \<noteq> NUL"
  using schar_hex_digit [of n] by (auto simp: schar_def uchar_def split: if_splits)

lemma hex8_length [simp]: "length (hex8 x) = 8"
  by (simp add: hex8_def)

definition nibbles :: "nat \<Rightarrow> nat list" where
  "nibbles x = concat (map (\<lambda>k. [byte_of x k div 16, byte_of x k mod 16]) [3, 2, 1, 0])"

lemma hex8_nibbles: "hex8 x = map hex_digit (nibbles x)"
  by (simp add: hex8_def nibbles_def)

lemma nibbles_bound: "n \<in> set (nibbles x) \<Longrightarrow> n < 16"
proof -
  have "byte_of x k div 16 < 16" for k by (rule less_mult_imp_div_less) (simp add: byte_of_def)
  then show "n \<in> set (nibbles x) \<Longrightarrow> n < 16" by (auto simp: nibbles_def)
qed

lemma hex8_no_NUL: "NUL \<notin> set (hex8 x)"
  using nibbles_bound hex_digit_ne_NUL by (fastforce simp: hex8_nibbles)

lemma byte_step: "int (x div 256 ^ Suc k) * 256 + int (byte_of x k) = int (x div 256 ^ k)"
proof -
  have "x div 256 ^ Suc k = x div 256 ^ k div 256" unfolding power_Suc2 div_mult2_eq ..
  then have "x div 256 ^ Suc k * 256 + byte_of x k = x div 256 ^ k" by (simp add: byte_of_def)
  then show ?thesis by (metis of_nat_add of_nat_mult of_nat_numeral)
qed

lemma nibble_pair: "(v * 16 + int (b div 16)) * 16 + int (b mod 16) = v * 256 + int b"
proof -
  have "int (b div 16) * 16 + int (b mod 16) = int b" by (metis div_mult_mod_eq of_nat_add of_nat_mult of_nat_numeral)
  then show ?thesis by (simp add: algebra_simps)
qed

lemma nibbles_value: "x < 4294967296 \<Longrightarrow> foldl (\<lambda>v n. v * 16 + int n) 0 (nibbles x) = int x"
proof -
  assume x: "x < 4294967296"
  have "byte_of x 3 = x div 256 ^ 3" using x by (simp add: byte_of_def less_mult_imp_div_less)
  then have "foldl (\<lambda>v n. v * 16 + int n) 0 (nibbles x) =
      ((int (x div 256 ^ 3) * 256 + int (byte_of x 2)) * 256 + int (byte_of x 1)) * 256 + int (byte_of x 0)"
    by (simp only: nibbles_def list.map concat.simps append_Cons append_Nil foldl.simps nibble_pair
        nibble_pair [of 0, unfolded mult_zero_left add_0_left] mult_zero_left add_0_left)
  also have "int (x div 256 ^ 3) * 256 + int (byte_of x 2) = int (x div 256 ^ 2)"
    using byte_step [of x 2] by (simp only: numeral_3_eq_3 numeral_2_eq_2)
  also have "int (x div 256 ^ 2) * 256 + int (byte_of x 1) = int (x div 256 ^ 1)"
    using byte_step [of x 1] by (simp only: numeral_2_eq_2 One_nat_def)
  also have "int (x div 256 ^ 1) * 256 + int (byte_of x 0) = int x"
    using byte_step [of x 0] by (simp only: One_nat_def power_0 div_by_Suc_0)
  finally show ?thesis .
qed

text \<open>\<open>atoi\<close> with base 16 adds one hexadecimal digit after the other.\<close>

lemma atoi_loop_hex:
  "cstr buf i (map hex_digit ns) \<Longrightarrow> \<forall>n \<in> set ns. n < 16 \<Longrightarrow>
     atoi_loop buf i 16 (v mod 4294967296) =
       Inr (nat (foldl (\<lambda>v n. v * 16 + int n) v ns mod 4294967296))"
proof (induction ns arbitrary: i v)
  case Nil
  then show ?case using cstr_head(2) [of buf i] by (subst atoi_loop.simps) simp
next
  case (Cons n ns)
  have pr: "cstr buf i (hex_digit n # map hex_digit ns)" using Cons.prems(1) by simp
  note h = cstr_head(1) [OF pr] cstr_Cons [OF pr]
  have n: "n < 16" using Cons.prems(2) by simp
  have m: "(v mod 4294967296 * int 16 mod 4294967296 + int n) mod 4294967296 = (v * 16 + int n) mod 4294967296"
    by (simp add: mod_simps)
  have "atoi_loop buf i 16 (v mod 4294967296) = atoi_loop buf (i + 1) 16 ((v * 16 + int n) mod 4294967296)"
  proof (cases "n \<le> 9")
    case True
    then have "schar (buf ! i) \<le> 57" "48 \<le> schar (buf ! i)" "schar (buf ! i) - 48 = int n"
      using h(1) schar_hex_digit [OF n] by simp_all
    then show ?thesis unfolding atoi_loop.simps [of buf i] using h by (simp only: Let_def if_True m simp_thms)
  next
    case False
    then have "\<not> schar (buf ! i) \<le> 57" "schar (buf ! i) - 65 + 10 = int n"
      using h(1) schar_hex_digit [OF n] by simp_all
    then show ?thesis unfolding atoi_loop.simps [of buf i] using h by (simp only: Let_def if_True if_False m simp_thms)
  qed
  then show ?case using Cons.IH [OF h(2)] Cons.prems(2) by simp
qed

section \<open>Numbers\<close>

text \<open>A number without its leading zeros, and its adjustment to a width.\<close>

definition trim :: "char list \<Rightarrow> char list" where
  "trim ds = (let t = dropWhile ((=) (CHR ''0'')) ds in if t = [] then ''0'' else t)"

definition adjust :: "bool \<Rightarrow> nat \<Rightarrow> char list \<Rightarrow> char list" where
  "adjust zero w ds =
     (if length ds < w then (if zero then replicate (w - length ds) (CHR ''0'') else []) @ ds
      else drop (length ds - w) ds)"

lemma skip_zeros_spec:
  "cstr buf p ds \<Longrightarrow> ds \<noteq> [] \<Longrightarrow> p + length ds + 1 < length buf \<Longrightarrow>
     \<exists>q. skip_zeros buf p = Inr q \<and> cstr buf q (trim ds)"
proof (induction ds arbitrary: p)
  case (Cons d ds)
  note h = cstr_head(1) [OF Cons.prems(1)] cstr_Cons [OF Cons.prems(1)]
  have nx: "buf ! (p + 1) = NUL \<longleftrightarrow> ds = []" "p + 1 < length buf" using cstr_end [OF h(2)] by auto
  show ?case
  proof (cases "ds \<noteq> [] \<and> d = CHR ''0''")
    case True
    then have "skip_zeros buf p = skip_zeros buf (p + 1)"
      using h nx by (subst skip_zeros.simps) simp
    moreover have "trim (d # ds) = trim ds" using True by (simp add: trim_def)
    ultimately show ?thesis using Cons.IH [OF h(2)] True Cons.prems(3) by simp
  next
    case False
    then have "skip_zeros buf p = Inr p" using h nx by (subst skip_zeros.simps) auto
    moreover have "trim (d # ds) = d # ds" using False by (auto simp: trim_def)
    ultimately show ?thesis using Cons.prems(1) by auto
  qed
qed simp

lemma print_zeros_text: "print_zeros c n = put_text c (replicate n (CHR ''0''))"
  by (induction n arbitrary: c) (simp_all add: print_char_def)

text \<open>The format string of a width: nothing, the number, or a zero and the number.\<close>

definition width_fmt :: "bool \<Rightarrow> nat \<Rightarrow> char list" where
  "width_fmt zero w = (if zero then CHR ''0'' # decimal w else if w = 0 then [] else decimal w)"

lemma decimal_ne: "decimal n \<noteq> []"
  unfolding decimal_def by (subst rdigits.simps) simp

lemma hd_decimal: "0 < n \<Longrightarrow> hd (decimal n) \<noteq> CHR ''0''"
proof (induction n rule: rdigits.induct)
  case (1 n)
  show ?case
  proof (cases "n div 10 = 0")
    case True
    then have n: "n < 10" "rdigits n = [digit n]" by (simp_all add: rdigits.simps [of n] div_eq_0_iff)
    have "schar (digit n) \<noteq> schar (CHR ''0'')" using schar_digit [OF n(1)] 1(2) by (simp add: schar_def uchar_def)
    then show ?thesis using n(2) by (auto simp: decimal_def)
  next
    case False
    then have "decimal n = decimal (n div 10) @ [digit (n mod 10)]"
      unfolding decimal_def by (subst rdigits.simps) simp
    then show ?thesis using 1(1) [OF False] False decimal_ne by simp
  qed
qed

lemma all_num_spec:
  "cstr fmt i s \<Longrightarrow> all_num fmt i = Inr (\<forall>c \<in> set s. is_num c)"
proof (induction s arbitrary: i)
  case Nil
  then show ?case using cstr_head(2) by (subst all_num.simps) simp
next
  case (Cons c s)
  note h = cstr_head(1) [OF Cons.prems] cstr_Cons [OF Cons.prems]
  show ?case using h Cons.IH [OF h(2)] by (subst all_num.simps) simp
qed

lemma is_num_digit: "k < 10 \<Longrightarrow> is_num (digit k)"
  by (simp add: is_num_def schar_digit)

lemma is_num_decimal: "c \<in> set (decimal n) \<Longrightarrow> is_num c"
  using rdigits_digits [of c n] is_num_digit by (auto simp: decimal_def)

lemma digit_0: "digit 0 = CHR ''0''"
  by (simp add: digit_def chr_int_def char_of_def bit_0)

lemma print_num_fmt_spec:
  assumes "cstr fmt 0 (width_fmt zero w)" "w < 2147483648"
  shows "print_num_fmt c fmt = Some (Inr (c, zero, if \<not> zero \<and> w = 0 then - 1 else int w))"
proof -
  consider "\<not> zero" "w = 0" | "zero" | "\<not> zero" "0 < w" by auto
  then show ?thesis
  proof cases
    case 1
    then show ?thesis using cstr_head(2) [of fmt 0] assms(1) by (simp add: print_num_fmt_def width_fmt_def rd_in)
  next
    case 2
    then have f: "cstr fmt 0 (CHR ''0'' # decimal w)" using assms(1) by (simp add: width_fmt_def)
    note h = cstr_head(1) [OF f] cstr_Cons [OF f]
    have f1: "1 < length fmt" "fmt ! 1 \<noteq> NUL" using cstr_end [OF h(2)] decimal_ne by simp_all
    have "all_num fmt 0 = Inr True" using all_num_spec [OF f] is_num_decimal is_num_digit [of 0] digit_0 by auto
    moreover have "atoi fmt 1 10 = Inr w" using atoi_decimal [of fmt 1 w] h(2) assms(2) by simp
    ultimately show ?thesis using 2 h(1) f1 assms(2) by (simp add: print_num_fmt_def rd_in to_int32_def)
  next
    case 3
    then have f: "cstr fmt 0 (decimal w)" using assms(1) by (simp add: width_fmt_def)
    then have "cstr fmt 0 (hd (decimal w) # tl (decimal w))" using decimal_ne by simp
    note h = cstr_head(1) [OF this]
    have "all_num fmt 0 = Inr True" using all_num_spec [OF f] is_num_decimal by auto
    moreover have "atoi fmt 0 10 = Inr w" using atoi_decimal [OF f] assms(2) by simp
    ultimately show ?thesis using 3 h hd_decimal [OF 3(2)] assms(2)
      by (simp add: print_num_fmt_def rd_in to_int32_def)
  qed
qed

definition num_text :: "bool \<Rightarrow> nat \<Rightarrow> char list \<Rightarrow> char list" where
  "num_text zero w ds = (if \<not> zero \<and> w = 0 then trim ds else adjust zero w (trim ds))"

text \<open>The part of \<open>_print_num\<close> after the digits are in the buffer.\<close>

definition print_num_tail :: "console \<Rightarrow> char list \<Rightarrow> bool \<Rightarrow> int \<Rightarrow> console res option" where
  "print_num_tail c buf zero_flag num_str_len =
     bind_ro (Some (skip_zeros buf 0)) (\<lambda>p.
     if num_str_len = - 1 then printstr c buf p
     else bind_ro (Some (strlen buf p)) (\<lambda>num_len.
       let len_diff = num_str_len - int num_len in
       if 0 < len_diff
       then bind_ro (if zero_flag then print_zeros c (nat len_diff) else Some (Inr c)) (\<lambda>c. printstr c buf p)
       else let q = int p + int num_len - num_str_len in
         if q < 0 then Some (Inl OutOfBounds) else printstr c buf (nat q)))"

lemma print_num_tail_text:
  assumes ds: "cstr buf 0 ds" "ds \<noteq> []" "length ds + 1 < length buf" and len: "length buf < 4294967296"
  shows "print_num_tail c buf zero (if \<not> zero \<and> w = 0 then - 1 else int w) = put_text c (num_text zero w ds)"
proof -
  let ?t = "trim ds"
  obtain p where p: "skip_zeros buf 0 = Inr p" "cstr buf p ?t" using skip_zeros_spec [OF ds(1,2)] ds(3) by auto
  have tl: "length ?t < 4294967296" using cstr_nth(3) [OF p(2)] len by linarith
  note sl = strlen_spec [OF p(2) tl] and pt = printstr_text [OF p(2)]
  show ?thesis
  proof (cases "\<not> zero \<and> w = 0")
    case True
    then show ?thesis using p(1) pt by (simp add: print_num_tail_def num_text_def)
  next
    case nw: False
    show ?thesis
    proof (cases "length ?t < w")
      case True
      then have "nat (int w - int (length ?t)) = w - length ?t" by simp
      then show ?thesis using True nw p(1) sl pt
        by (auto simp: print_num_tail_def num_text_def adjust_def print_zeros_text put_text_seq)
    next
      case False
      then have c: "cstr buf (p + (length ?t - w)) (drop (length ?t - w) ?t)" by (intro cstr_drop [OF p(2)]) simp
      have "nat (int p + int (length ?t) - int w) = p + (length ?t - w)" using False by simp
      then show ?thesis using False nw p(1) sl printstr_text [OF c]
        by (auto simp: print_num_tail_def num_text_def adjust_def Let_def)
    qed
  qed
qed

lemma print_num_unfold:
  "print_num c fmt ty num =
     bind_ro (print_num_fmt c fmt) (\<lambda>(c, zero_flag, num_str_len).
     bind_ro (if ty = CHR ''x''
       then bind_ro (print_char c (CHR ''0'')) (\<lambda>c. bind_ro (print_char c (CHR ''x'')) (\<lambda>c.
            bind_ro (Some (sprint_hex (of_int32 num) (replicate 33 NUL))) (\<lambda>buf. Some (Inr (c, buf)))))
       else bind_ro (Some (itoa num (replicate 33 NUL) 33)) (\<lambda>buf. Some (Inr (c, buf)))) (\<lambda>(c, buf).
     print_num_tail c buf zero_flag num_str_len))"
  unfolding print_num_def print_num_tail_def ..

lemma length_rdigits: "n < 10 ^ k \<Longrightarrow> 0 < k \<Longrightarrow> length (rdigits n) \<le> k"
proof (induction n arbitrary: k rule: rdigits.induct)
  case (1 n)
  show ?case
  proof (cases "n div 10 = 0")
    case True
    then have "length (rdigits n) = 1" by (subst rdigits.simps) simp
    then show ?thesis using 1(3) by simp
  next
    case False
    obtain j where k: "k = Suc j" using 1(3) by (cases k) auto
    have "n div 10 < 10 ^ j" using 1(2) k by (intro less_mult_imp_div_less) (simp add: mult.commute)
    moreover have "0 < j"
    proof (rule ccontr)
      assume "\<not> 0 < j"
      then show False using \<open>n div 10 < 10 ^ j\<close> False by simp
    qed
    ultimately have "length (rdigits (n div 10)) \<le> j" by (rule 1(1) [OF False])
    then show ?thesis using False k by (subst rdigits.simps) simp
  qed
qed

lemma print_num_decimal:
  assumes "cstr fmt 0 (width_fmt zero w)" "w < 2147483648" "n < 2147483648"
  shows "print_num c fmt (CHR ''d'') (int n) = put_text c (num_text zero w (decimal n))"
proof -
  have "n < 10 ^ 10" using assms(3) by simp
  then have l: "length (decimal n) \<le> 10" using length_rdigits [of n 10] by (simp add: decimal_def)
  let ?b = "decimal n @ replicate (33 - length (decimal n)) NUL"
  have it: "itoa (int n) (replicate 33 NUL) 33 = Inr ?b" using itoa_spec [of n 33 "replicate 33 NUL"] l by simp
  have "replicate (33 - length (decimal n)) NUL = NUL # replicate (32 - length (decimal n)) NUL"
    using l by (cases "33 - length (decimal n)") auto
  then have b: "cstr ?b 0 (decimal n)"
    using cstr_append_NUL [of "decimal n" "[]"] rdigits_no_NUL [of n] by (simp add: decimal_def)
  have "length ?b = 33" using l by simp
  then show ?thesis using print_num_fmt_spec [OF assms(1,2)] it print_num_tail_text [OF b decimal_ne] l
    unfolding print_num_unfold by simp
qed

lemma print_num_hex:
  assumes "cstr fmt 0 (width_fmt zero w)" "w < 2147483648"
  shows "print_num c fmt (CHR ''x'') a = put_text c (''0x'' @ num_text zero w (hex8 (of_int32 a)))"
proof -
  let ?b = "hex8 (of_int32 a) @ replicate 25 NUL"
  have sp: "sprint_hex (of_int32 a) (replicate 33 NUL) = Inr ?b"
    using sprint_hex_text [of "replicate 33 NUL" "of_int32 a"] by simp
  have "replicate 25 NUL = NUL # replicate 24 NUL" by (simp add: numeral_eq_Suc)
  then have b: "cstr ?b 0 (hex8 (of_int32 a))"
    using cstr_append_NUL [OF hex8_no_NUL, of "[]"] by simp
  have "hex8 (of_int32 a) \<noteq> []" by (metis hex8_length length_0_conv zero_neq_numeral)
  note tail = print_num_tail_text [OF b this]
  show ?thesis using print_num_fmt_spec [OF assms] sp tail
    unfolding print_num_unfold by (simp add: print_char_def bind_ro_assoc)
qed

section \<open>Format strings\<close>

text \<open>A format as a list of pieces, with the arguments it takes and the text it stands for.\<close>

datatype piece = Lit char | Dec bool nat nat | Hex bool nat int | Txt "char list" | Chr char

fun piece_ok :: "piece \<Rightarrow> bool" where
  "piece_ok (Lit ch) \<longleftrightarrow> ch \<noteq> NUL \<and> ch \<noteq> CHR ''%''"
| "piece_ok (Dec zero w n) \<longleftrightarrow> w < 2147483648 \<and> n < 2147483648"
| "piece_ok (Hex zero w a) \<longleftrightarrow> w < 2147483648"
| "piece_ok (Txt s) \<longleftrightarrow> NUL \<notin> set s"
| "piece_ok (Chr ch) \<longleftrightarrow> True"


fun fmt_of :: "piece \<Rightarrow> char list" where
  "fmt_of (Lit ch) = [ch]"
| "fmt_of (Dec zero w n) = CHR ''%'' # width_fmt zero w @ ''d''"
| "fmt_of (Hex zero w a) = CHR ''%'' # width_fmt zero w @ ''x''"
| "fmt_of (Txt s) = ''%s''"
| "fmt_of (Chr ch) = ''%c''"

fun args_of :: "piece \<Rightarrow> varg list" where
  "args_of (Lit ch) = []"
| "args_of (Dec zero w n) = [VInt (int n)]"
| "args_of (Hex zero w a) = [VInt a]"
| "args_of (Txt s) = [VStr (s @ [NUL])]"
| "args_of (Chr ch) = [VChar ch]"

fun text_of :: "piece \<Rightarrow> char list" where
  "text_of (Lit ch) = [ch]"
| "text_of (Dec zero w n) = num_text zero w (decimal n)"
| "text_of (Hex zero w a) = ''0x'' @ num_text zero w (hex8 (of_int32 a))"
| "text_of (Txt s) = s"
| "text_of (Chr ch) = [ch]"

lemma find_alpha_spec:
  "\<forall>c \<in> set w. c \<noteq> NUL \<and> \<not> is_alpha c \<Longrightarrow> is_alpha a \<Longrightarrow>
     find_alpha (pre @ w @ a # post) (length pre) = Inr (length pre + length w)"
proof (induction w arbitrary: pre)
  case Nil
  then show ?case by (subst find_alpha.simps) simp
next
  case (Cons c w)
  have "find_alpha ((pre @ [c]) @ w @ a # post) (length (pre @ [c])) = Inr (length (pre @ [c]) + length w)"
    using Cons.prems by (intro Cons.IH) auto
  then show ?case using Cons.prems by (subst find_alpha.simps) simp
qed

lemma width_fmt_chars: "c \<in> set (width_fmt zero w) \<Longrightarrow> c \<noteq> NUL \<and> \<not> is_alpha c"
proof -
  have num: "c \<noteq> NUL \<and> \<not> is_alpha c" if "is_num c" for c
    using that by (auto simp: is_num_def is_alpha_def schar_def uchar_def)
  have "is_num c" if "c \<in> set (width_fmt zero w)"
    using that is_num_decimal is_num_digit [of 0] digit_0 by (auto simp: width_fmt_def split: if_splits)
  then show "c \<in> set (width_fmt zero w) \<Longrightarrow> c \<noteq> NUL \<and> \<not> is_alpha c" using num by blast
qed

lemma length_width_fmt: "w < 2147483648 \<Longrightarrow> length (width_fmt zero w) \<le> 11"
proof -
  assume "w < 2147483648"
  then have "w < 10 ^ 10" by simp
  then have "length (decimal w) \<le> 10" using length_rdigits [of w 10] by (simp add: decimal_def)
  then show ?thesis by (simp add: width_fmt_def)
qed

lemma width_buffer:
  assumes "w < 2147483648"
  shows "\<exists>buf. bind_ro (Some (memcpy (pre @ width_fmt zero w @ post) (length pre) (replicate 32 NUL) 0 (length (width_fmt zero w))))
      (\<lambda>buf. bind_ro (Some (wr buf (length (width_fmt zero w)) NUL)) f) = f buf \<and> cstr buf 0 (width_fmt zero w)"
proof -
  let ?s = "width_fmt zero w"
  have l: "length ?s \<le> 11" using length_width_fmt [OF assms] .
  let ?b = "put_str (replicate 32 NUL) 0 (?s @ [NUL])"
  have m: "memcpy (pre @ ?s @ post) (length pre) (replicate 32 NUL) 0 (length ?s) = Inr (put_str (replicate 32 NUL) 0 ?s)"
    using memcpy_spec [of "length pre" "length ?s" "pre @ ?s @ post" 0 "replicate 32 NUL"] l by simp
  have wr: "wr (put_str (replicate 32 NUL) 0 ?s) (length ?s) NUL = Inr ?b"
    using l by (simp add: wr_def put_str_def upd_conv_take_nth_drop)
  have "NUL \<notin> set ?s" using width_fmt_chars by blast
  then have "cstr ?b 0 ?s" using l by (intro put_str_cstr) simp_all
  then show ?thesis using m wr by (intro exI [of _ ?b]) simp
qed

lemma is_alpha_conv: "is_alpha (CHR ''d'')" "is_alpha (CHR ''x'')" "is_alpha (CHR ''s'')" "is_alpha (CHR ''c'')"
  by (simp_all add: is_alpha_def schar_def uchar_def)

lemma print_arg_number:
  assumes w: "w < 2147483648" and conv: "conv = CHR ''d'' \<or> conv = CHR ''x''"
    and pr: "\<And>buf. cstr buf 0 (width_fmt zero w) \<Longrightarrow> print_num c buf conv a = put_text c t"
  shows "print_arg_handler c (pre @ width_fmt zero w @ conv # post) (length pre) (VInt a # args) =
     bind_ro (put_text c t) (\<lambda>c. Some (Inr (c, args, Some (length pre + length (width_fmt zero w) + 1))))"
proof -
  let ?f = "pre @ width_fmt zero w @ conv # post" and ?p = "length pre + length (width_fmt zero w)"
  have fa: "find_alpha ?f (length pre) = Inr ?p"
    using find_alpha_spec [of "width_fmt zero w" conv pre post] width_fmt_chars conv is_alpha_conv by blast
  have at: "?f ! ?p = conv" by (simp add: nth_append)
  have len: "?p - length pre = length (width_fmt zero w)" by simp
  obtain buf where "bind_ro (Some (memcpy ?f (length pre) (replicate 32 NUL) 0 (length (width_fmt zero w))))
      (\<lambda>buf. bind_ro (Some (wr buf (length (width_fmt zero w)) NUL))
        (\<lambda>buf. bind_ro (print_num c buf conv a) (\<lambda>c. Some (Inr (c, args, Some (?p + 1)))))) =
      bind_ro (print_num c buf conv a) (\<lambda>c. Some (Inr (c, args, Some (?p + 1))))"
    "cstr buf 0 (width_fmt zero w)"
    using width_buffer [OF w, of pre zero "conv # post"] by metis
  then show ?thesis using conv pr [of buf]
    unfolding print_arg_handler_def fa bind_ro_simps at len by auto
qed

lemma print_arg_simple:
  "print_arg_handler c (pre @ CHR ''s'' # post) (length pre) (VStr s # args) =
     bind_ro (printstr c s 0) (\<lambda>c. Some (Inr (c, args, Some (length pre + 1))))"
  "print_arg_handler c (pre @ CHR ''c'' # post) (length pre) (VChar ch # args) =
     bind_ro (print_char c ch) (\<lambda>c. Some (Inr (c, args, Some (length pre + 1))))"
  using find_alpha_spec [of "[]" "CHR ''s''" pre post] find_alpha_spec [of "[]" "CHR ''c''" pre post] is_alpha_conv
  by (simp_all add: print_arg_handler_def)

lemma printf_directive:
  assumes "f = pre @ ''%'' @ post"
  shows "printf_loop (Suc n) c f (length pre) as =
     bind_ro (print_arg_handler c f (length (pre @ ''%'')) as) (\<lambda>(c, args, r).
       case r of None \<Rightarrow> printl c (''printf format error!'' @ [NUL]) | Some j \<Rightarrow> printf_loop n c f j args)"
proof -
  have i: "(length pre < length f) = True" "f ! length pre = CHR ''%''" "(CHR ''%'' = NUL) = False"
    "length pre + 1 = length (pre @ ''%'')"
    using assms by simp_all
  show ?thesis by (simp only: printf_loop.simps(2) i if_True if_False simp_thms)
qed

lemma printf_piece:
  assumes "piece_ok pc" "f = pre @ fmt_of pc @ post"
  shows "printf_loop (Suc n) c f (length pre) (args_of pc @ args) =
     bind_ro (put_text c (text_of pc)) (\<lambda>c. printf_loop n c f (length (pre @ fmt_of pc)) args)"
proof (cases pc)
  case (Lit ch)
  then show ?thesis using assms by (simp add: print_char_def)
next
  case (Dec zero w k)
  have f: "f = (pre @ ''%'') @ width_fmt zero w @ CHR ''d'' # post" using assms(2) Dec by simp
  have "print_arg_handler c f (length (pre @ ''%'')) (VInt (int k) # args) =
      bind_ro (put_text c (num_text zero w (decimal k))) (\<lambda>c. Some (Inr (c, args, Some (length (pre @ ''%'') + length (width_fmt zero w) + 1))))"
    unfolding f using assms(1) Dec by (intro print_arg_number) (simp_all add: print_num_decimal)
  then show ?thesis using printf_directive [of f pre "width_fmt zero w @ CHR ''d'' # post"] f Dec
    by (simp add: bind_ro_assoc del: printf_loop.simps)
next
  case (Hex zero w a)
  have f: "f = (pre @ ''%'') @ width_fmt zero w @ CHR ''x'' # post" using assms(2) Hex by simp
  have "print_arg_handler c f (length (pre @ ''%'')) (VInt a # args) =
      bind_ro (put_text c (''0x'' @ num_text zero w (hex8 (of_int32 a)))) (\<lambda>c. Some (Inr (c, args, Some (length (pre @ ''%'') + length (width_fmt zero w) + 1))))"
    unfolding f using assms(1) Hex
    by (intro print_arg_number) (simp_all add: print_num_hex del: con_dev.put_text.simps)
  then show ?thesis using printf_directive [of f pre "width_fmt zero w @ CHR ''x'' # post"] f Hex
    by (simp add: bind_ro_assoc del: printf_loop.simps con_dev.put_text.simps)
next
  case (Txt s)
  have f: "f = (pre @ ''%'') @ CHR ''s'' # post" using assms(2) Txt by simp
  have "cstr (s @ [NUL]) 0 s" using assms(1) Txt cstr_append_NUL [of s "[]"] by simp
  then have "printstr c (s @ [NUL]) 0 = put_text c s" by (rule printstr_text)
  then show ?thesis using printf_directive [of f pre "CHR ''s'' # post"] print_arg_simple(1) [of c "pre @ ''%''" post] f Txt
    by (simp add: bind_ro_assoc del: printf_loop.simps)
next
  case (Chr ch)
  have f: "f = (pre @ ''%'') @ CHR ''c'' # post" using assms(2) Chr by simp
  show ?thesis using printf_directive [of f pre "CHR ''c'' # post"] print_arg_simple(2) [of c "pre @ ''%''" post] f Chr
    by (simp add: bind_ro_assoc print_char_def del: printf_loop.simps)
qed

lemma printf_loop_pieces:
  "\<forall>p \<in> set ps. piece_ok p \<Longrightarrow> f = pre @ concat (map fmt_of ps) @ [NUL] \<Longrightarrow> length ps < n \<Longrightarrow>
     printf_loop n c f (length pre) (concat (map args_of ps)) = put_text c (concat (map text_of ps))"
proof (induction ps arbitrary: pre n c)
  case Nil
  then obtain m where "n = Suc m" by (cases n) auto
  then show ?case using Nil by simp
next
  case (Cons p ps)
  then obtain m where m: "n = Suc m" "length ps < m" by (cases n) auto
  have ih: "printf_loop m c f (length (pre @ fmt_of p)) (concat (map args_of ps)) = put_text c (concat (map text_of ps))" for c
    using Cons.prems m(2) by (intro Cons.IH) simp_all
  have "printf_loop (Suc m) c f (length pre) (args_of p @ concat (map args_of ps)) =
      bind_ro (put_text c (text_of p)) (\<lambda>c. printf_loop m c f (length (pre @ fmt_of p)) (concat (map args_of ps)))"
    using Cons.prems by (intro printf_piece [where post = "concat (map fmt_of ps) @ [NUL]"]) simp_all
  then show ?case unfolding ih put_text_seq m(1) by simp
qed



lemma printf_plain:
  assumes "NUL \<notin> set s" "CHR ''%'' \<notin> set s"
  shows "printf c (Some (s @ [NUL])) [] = put_text c s"
proof -
  have ok: "\<forall>p \<in> set (map Lit s). piece_ok p" using assms by auto
  have a: "concat (map fmt_of (map Lit s)) = s" "concat (map args_of (map Lit s)) = []"
    "concat (map text_of (map Lit s)) = s" by (induction s) simp_all
  have "printf_loop (length s + 2) c (s @ [NUL]) (length ([] :: char list)) (concat (map args_of (map Lit s))) =
      put_text c (concat (map text_of (map Lit s)))"
    by (rule printf_loop_pieces [OF ok]) (simp_all only: a append_Nil length_map)
  then show ?thesis unfolding a by (simp add: printf_def del: printf_loop.simps)
qed

section \<open>Properties\<close>



text \<open>
  \<open>print_hex\<close> writes \<open>0x\<close> and eight hexadecimal digits, which \<open>atoi\<close> with base 16 reads back as the
  number printed.
\<close>

theorem print_hex_roundtrip:
  assumes "x < 4294967296" "cstr buf i (hex8 x)"
  shows "print_hex c x = con_dev.put_text c (''0x'' @ hex8 x) \<and> length (hex8 x) = 8 \<and> atoi buf i 16 = Inr x"
proof -
  have "atoi_loop buf i 16 (0 mod 4294967296) =
      Inr (nat (foldl (\<lambda>v n. v * 16 + int n) 0 (nibbles x) mod 4294967296))"
    using assms(2) nibbles_bound by (intro atoi_loop_hex) (auto simp: hex8_nibbles)
  then have "atoi buf i 16 = Inr x" using nibbles_value [OF assms(1)] assms(1) by (simp add: atoi_def)
  then show ?thesis using print_hex_text by simp
qed

theorem print_hex_roundtrip_witness:
  "cstr (hex8 43981 @ [NUL]) 0 (hex8 43981) \<and> atoi (hex8 43981 @ [NUL]) 0 16 = Inr 43981"
proof -
  have c: "cstr (hex8 43981 @ [NUL]) 0 (hex8 43981)" using cstr_append_NUL [OF hex8_no_NUL, of "[]"] by simp
  then show ?thesis using print_hex_roundtrip [OF _ c] by simp
qed

end
