(* ===== verification/Ts_Com_Props.thy ===== *)
theory Ts_Com_Props
  imports Ts_Com Ts_Print_Props
begin

text \<open>
  The file transfer over the serial port. \<open>recv\<close> is what the port delivers to repeated \<open>read_serial\<close>,
  \<open>store\<close> the memory after a text is stored at an address; \<open>uart\<close> is a concrete device that always
  has a byte ready.
\<close>

section \<open>Receiving\<close>

primrec recv :: "nat \<Rightarrow> io \<Rightarrow> (char list \<times> io) option" where
  "recv 0 p = Some ([], p)"
| "recv (Suc n) p = Option.bind (read_serial p) (\<lambda>(c, p). map_option (apfst ((#) c)) (recv n p))"

lemma recv_Cons:
  "recv (length (c # s)) p = Some (c # s, p') \<longleftrightarrow> (\<exists>q. read_serial p = Some (c, q) \<and> recv (length s) q = Some (s, p'))"
  by (auto simp: bind_eq_Some_conv)

lemma recv_append:
  "recv (length (s @ t)) p = Some (s @ t, p') \<Longrightarrow> \<exists>q. recv (length s) p = Some (s, q) \<and> recv (length t) q = Some (t, p')"
proof (induction s arbitrary: p)
  case (Cons c s)
  obtain q where q: "read_serial p = Some (c, q)" "recv (length (s @ t)) q = Some (s @ t, p')"
    using Cons.prems recv_Cons [of c "s @ t"] by auto
  then obtain r where "recv (length s) q = Some (s, r)" "recv (length t) r = Some (t, p')" using Cons.IH by blast
  then show ?case using q(1) recv_Cons [of c s p] by blast
qed simp

lemma read_until_loop_spec:
  assumes "recv (length (s @ [e])) p = Some (s @ [e], p')" "e \<notin> set s" "i + length s + 1 < n" "n \<le> length buf"
    "n < 4294967296"
  shows "read_until_loop p buf n e i = Some (Inr (put_str buf i (s @ [e]), i + length s + 1, p'))"
  using assms
proof (induction s arbitrary: p buf i)
  case Nil
  then show ?case
    by (subst read_until_loop.simps) (auto simp: c_arith bind_eq_Some_conv put_str_def upd_conv_take_nth_drop)
next
  case (Cons c s)
  obtain q where q: "read_serial p = Some (c, q)" "recv (length (s @ [e])) q = Some (s @ [e], p')"
    using Cons.prems(1) recv_Cons [of c "s @ [e]"] by auto
  have "i < length buf" using Cons.prems by simp
  moreover have "i \<noteq> n - 1" "c \<noteq> e" using Cons.prems by auto
  ultimately have "read_until_loop p buf n e i = read_until_loop q (buf[i := c]) n e (i + 1)"
    using Cons.prems(3-5) q(1) by (subst read_until_loop.simps) (simp add: c_arith)
  also have "\<dots> = Some (Inr (put_str (buf[i := c]) (i + 1) (s @ [e]), i + 1 + length s + 1, p'))"
    using Cons.prems q(2) by (intro Cons.IH) auto
  finally show ?case using \<open>i < length buf\<close> put_str_Cons [of i buf c "s @ [e]"] by simp
qed

lemma read_bytes_loop_spec:
  assumes "recv (length s) p = Some (s, p')" "i + length s = min k (n - 1)" "0 < n" "n \<le> length buf" "n < 4294967296"
  shows "read_bytes_loop p buf n k i = Some (Inr (put_str buf i s, i + length s, p'))"
  using assms
proof (induction s arbitrary: p buf i)
  case Nil
  then show ?case by (subst read_bytes_loop.simps) (auto simp: c_arith put_str_def min_def split: if_splits)
next
  case (Cons c s)
  obtain q where q: "read_serial p = Some (c, q)" "recv (length s) q = Some (s, p')"
    using Cons.prems(1) recv_Cons [of c s] by auto
  have i: "i < length buf" "i \<noteq> k" "i \<noteq> n - 1" using Cons.prems by auto
  then have "read_bytes_loop p buf n k i = read_bytes_loop q (buf[i := c]) n k (i + 1)"
    using Cons.prems(3-5) q(1) by (subst read_bytes_loop.simps) (simp add: c_arith)
  also have "\<dots> = Some (Inr (put_str (buf[i := c]) (i + 1) s, i + 1 + length s, p'))"
    using Cons.prems q(2) by (intro Cons.IH) auto
  finally show ?case using i put_str_Cons [of i buf c s] by simp
qed

section \<open>Memory\<close>

definition store :: "(u32 \<Rightarrow> char) \<Rightarrow> u32 \<Rightarrow> char list \<Rightarrow> u32 \<Rightarrow> char" where
  "store mm addr s = (\<lambda>a. if unat (a - addr) < length s then s ! unat (a - addr) else mm a)"

lemma copy_to_mem_append:
  "copy_to_mem buf addr (xs @ ys) mm = bind_res (copy_to_mem buf addr xs mm) (copy_to_mem buf addr ys)"
proof (induction xs arbitrary: mm)
  case (Cons x xs)
  then have "(\<lambda>c. copy_to_mem buf addr (xs @ ys) (mm(addr + of_nat x := c))) =
      (\<lambda>c. bind_res (copy_to_mem buf addr xs (mm(addr + of_nat x := c))) (copy_to_mem buf addr ys))" by (intro ext)
  then show ?case by (simp add: bind_res_assoc)
qed simp

lemma unat_diff_eq: "n < 4294967296 \<Longrightarrow> unat (a - addr :: u32) = n \<longleftrightarrow> a = addr + of_nat n"
proof
  assume "n < 4294967296" "unat (a - addr) = n"
  then have "unat (a - addr) = unat (of_nat n :: u32)" by (simp add: unat_of_nat)
  then have "a - addr = of_nat n" by (rule unsigned_word_eqI)
  then show "a = addr + of_nat n" by (simp add: algebra_simps)
qed (simp add: unat_of_nat)

lemma copy_to_mem_spec:
  "n \<le> length buf \<Longrightarrow> n < 4294967296 \<Longrightarrow> copy_to_mem buf addr [0..<n] mm = Inr (store mm addr (take n buf))"
proof (induction n)
  case 0
  then show ?case by (simp add: store_def)
next
  case (Suc n)
  have "(store mm addr (take n buf))(addr + of_nat n := buf ! n) = store mm addr (take (Suc n) buf)"
    using Suc.prems unat_diff_eq [of n _ addr] by (auto simp: store_def less_Suc_eq fun_eq_iff unat_of_nat)
  then show ?case using Suc by (simp add: copy_to_mem_append rd_in)
qed

lemma store_append:
  assumes "length s + length t \<le> 4294967296"
  shows "store (store mm addr s) (addr + of_nat (length s)) t = store mm addr (s @ t)"
proof
  fix a :: u32
  define d where "d = unat (a - addr)"
  have d: "d < 4294967296" using unsigned_less [of "a - addr"] by (simp add: d_def)
  have w: "a - (addr + of_nat (length s)) = of_nat d - of_nat (length s)"
    by (simp add: d_def algebra_simps)
  show "store (store mm addr s) (addr + of_nat (length s)) t a = store mm addr (s @ t) a"
  proof (cases "length s \<le> d")
    case True
    then have "of_nat d - of_nat (length s) = (of_nat (d - length s) :: u32)" by (simp add: of_nat_diff)
    then have "unat (a - (addr + of_nat (length s))) = d - length s" using w d by (simp add: unat_of_nat)
    then show ?thesis using True by (auto simp: store_def nth_append simp flip: d_def)
  next
    case False
    then have "of_nat d - of_nat (length s) = (of_nat (d + 4294967296 - length s) :: u32)"
      using assms by (simp add: of_nat_diff)
    then have "unat (a - (addr + of_nat (length s))) = (d + 4294967296 - length s) mod 4294967296"
      using w by (simp add: unat_of_nat)
    also have "\<dots> = d + 4294967296 - length s" using False assms by simp
    finally have "\<not> unat (a - (addr + of_nat (length s))) < length t" using assms by simp
    then show ?thesis using False by (simp add: store_def nth_append flip: d_def)
  qed
qed

section \<open>The transfer\<close>

lemma read_bytes_spec:
  assumes "recv (length s) p = Some (s, p')" "length s = min k 255" "length buf = 256"
  shows "\<exists>buf'. read_bytes p buf 256 k = Some (Inr (buf', length s, p')) \<and> length buf' = 256 \<and> take (length s) buf' = s"
proof -
  have "length s \<le> 255" using assms(2) by simp
  moreover have "read_bytes_loop p buf 256 k 0 = Some (Inr (put_str buf 0 s, length s, p'))"
    using read_bytes_loop_spec [of s p p' 0 k 256 buf] assms by simp
  ultimately show ?thesis using assms(3) by (simp add: read_bytes_def wr_in put_str_def)
qed

lemma transfer_loop_spec:
  assumes "recv (length s) p = Some (s, p')" "length s \<le> n" "length buf = 256" "e = k + length s" "e < 4294967296"
  shows "transfer_loop n addr e p mm buf k = Some (Inr (p', store mm (addr + of_nat k) s, e))"
  using assms
proof (induction n arbitrary: s p mm buf k)
  case 0
  then show ?case by (simp add: store_def)
next
  case (Suc n)
  show ?case
  proof (cases "s = []")
    case True
    then show ?thesis using Suc.prems by (simp add: store_def)
  next
    case False
    define a b where "a = take 255 s" and "b = drop 255 s"
    have s: "s = a @ b" "length a = min (length s) 255" "length a \<noteq> 0" using False by (simp_all add: a_def b_def)
    obtain q where q: "recv (length a) p = Some (a, q)" "recv (length b) q = Some (b, p')"
      using recv_append [of a b p p'] Suc.prems(1) s(1) by blast
    obtain buf' where buf': "read_bytes p buf 256 (length s) = Some (Inr (buf', length a, q))" "length buf' = 256"
      "take (length a) buf' = a"
      using read_bytes_spec [OF q(1) s(2) Suc.prems(3)] by blast
    have cp: "copy_to_mem buf' (addr + of_nat k) [0..<length a] mm = Inr (store mm (addr + of_nat k) a)"
      using copy_to_mem_spec [of "length a" buf' "addr + of_nat k" mm] buf' s(2) by simp
    have b: "length b \<le> n" using Suc.prems(2) s(1,3) by (cases a) simp_all
    have k: "k < e" "e - k = length s" "add32 k (length a) = k + length a"
      using Suc.prems(4,5) s(1,3) by (simp_all add: c_arith)
    have "transfer_loop (Suc n) addr e p mm buf k =
        transfer_loop n addr e q (store mm (addr + of_nat k) a) buf' (k + length a)"
      by (simp only: transfer_loop.simps k if_True buf'(1) bind_ro_simps prod.case cp)
    also have "\<dots> = Some (Inr (p', store (store mm (addr + of_nat k) a) (addr + of_nat (k + length a)) b, e))"
      using Suc.prems(4,5) s(1) buf'(2) by (intro Suc.IH [OF q(2) b]) simp_all
    finally show ?thesis
      using store_append [of a b mm "addr + of_nat k"] Suc.prems(4,5) s(1) by (simp add: algebra_simps)
  qed
qed

lemma read_until_spec:
  assumes "recv (length (s @ [NUL])) p = Some (s @ [NUL], p')" "NUL \<notin> set s" "length s < 254" "length buf = 256"
  shows "\<exists>buf'. read_until p buf 256 NUL = Some (Inr (buf', length s + 1, p')) \<and> length buf' = 256 \<and> cstr buf' 0 s"
proof -
  have "read_until_loop p buf 256 NUL 0 = Some (Inr (put_str buf 0 (s @ [NUL]), length s + 1, p'))"
    using read_until_loop_spec [of s NUL p p' 0 256 buf] assms by simp
  moreover have "cstr ((put_str buf 0 (s @ [NUL]))[length s + 1 := NUL]) 0 s"
    using assms(2-4) by (simp add: cstr_def put_str_def list_update_append)
  ultimately show ?thesis using assms(3,4) by (simp add: read_until_def wr_in length_put_str)
qed

lemma length_decimal: "n < 4294967296 \<Longrightarrow> length (decimal n) < 254"
  using length_rdigits [of n 10] by (simp add: decimal_def)

text \<open>The messages of a transfer of \<open>n\<close> bytes.\<close>

definition transfer_text :: "nat \<Rightarrow> char list" where
  "transfer_text n = ''start to transfer file'' @ [NL] @ ''expected 0x'' @ hex8 n @ '' bytes'' @ [NL] @
     ''recieved 0x'' @ hex8 n @ '' bytes'' @ [NL]"

lemma printed:
  assumes "con_follow c log" "length log + length s \<le> 4294967294"
  obtains c' where "put_text c s = Some (Inr c')" "con_follow c' (log @ s)"
  using con_dev.put_text_ok [OF assms] by blast

lemma printl_lit: "NUL \<notin> set t \<Longrightarrow> printl c (t @ [NUL]) = put_text c (t @ [NL])"
  using printl_text [of "t @ [NUL]" t c] cstr_append_NUL [of t "[]" "[]"] by simp

lemma printstr_lit: "NUL \<notin> set t \<Longrightarrow> printstr c (t @ [NUL]) 0 = put_text c t"
  using printstr_text [of "t @ [NUL]" 0 t c] cstr_append_NUL [of t "[]" "[]"] by simp

lemma announce_bytes:
  assumes "NUL \<notin> set w"
  shows "bind_ro (printstr c (w @ [NUL]) 0) (\<lambda>c. bind_ro (print_hex c n) (\<lambda>c.
      bind_ro (printl c ('' bytes'' @ [NUL])) f)) = bind_ro (put_text c (w @ ''0x'' @ hex8 n @ '' bytes'' @ [NL])) f"
proof -
  have "printl c ('' bytes'' @ [NUL]) = put_text c ('' bytes'' @ [NL])" for c by (rule printl_lit) simp
  then show ?thesis
    by (simp only: printstr_lit [OF assms] print_hex_text con_dev.put_text_append bind_ro_assoc)
qed

section \<open>A device\<close>

text \<open>A port that always has the next byte of a text ready.\<close>

definition data_reads :: "port_event list \<Rightarrow> nat" where
  "data_reads tr = length (filter (\<lambda>e. case e of In port _ \<Rightarrow> port = PORT | _ \<Rightarrow> False) tr)"

definition uart :: "char list \<Rightarrow> port_event list \<Rightarrow> u16 \<Rightarrow> u16" where
  "uart s tr port = (if port = PORT then (if data_reads tr < length s then of_nat (of_char (s ! data_reads tr)) else 0) else 1)"

lemma uart_read:
  assumes "dev p = uart s" "data_reads (trace p) < length s"
  shows "\<exists>q. read_serial p = Some (s ! data_reads (trace p), q) \<and> dev q = uart s \<and>
    data_reads (trace q) = data_reads (trace p) + 1"
proof -
  let ?q = "snd (inb p 0x3FD)"
  have st: "fst (inb p 0x3FD) = 1" using assms(1) by (simp add: inb_def uart_def Let_def)
  have pl: "poll 0x3FD 1 p = Some ?q"
    by (subst poll.simps) (simp add: split_beta st)
  have dr: "data_reads (trace ?q) = data_reads (trace p)" by (simp add: data_reads_def)
  have "take_bit 16 (of_char ch :: nat) = of_char ch" for ch
    by (rule take_bit_nat_eq_self) (rule less_trans [OF nat_of_char_less_256], simp)
  then have "fst (inb ?q PORT) = of_nat (of_char (s ! data_reads (trace p)))"
    using assms dr by (simp add: inb_def uart_def Let_def log_event_def unsigned_of_nat data_reads_def)
  then have "byte_chr (fst (inb ?q PORT)) = s ! data_reads (trace p)"
    using nat_of_char_less_256 [of "s ! data_reads (trace p)"] by (simp add: byte_chr_def unat_of_nat)
  then show ?thesis using pl assms(1) dr
    by (simp add: read_serial_def split_beta) (simp add: data_reads_def)
qed

lemma uart_recv:
  "dev p = uart s \<Longrightarrow> data_reads (trace p) + n \<le> length s \<Longrightarrow>
     \<exists>q. recv n p = Some (take n (drop (data_reads (trace p)) s), q)"
proof (induction n arbitrary: p)
  case (Suc n)
  let ?k = "data_reads (trace p)"
  have k: "?k < length s" using Suc.prems by simp
  obtain q where q: "read_serial p = Some (s ! ?k, q)" "dev q = uart s" "data_reads (trace q) = ?k + 1"
    using uart_read [OF Suc.prems(1) k] by blast
  obtain r where "recv n q = Some (take n (drop (?k + 1) s), r)" using Suc.IH [OF q(2)] q(3) Suc.prems(2) by auto
  moreover have "take (Suc n) (drop ?k s) = s ! ?k # take n (drop (?k + 1) s)"
    using k by (metis Cons_nth_drop_Suc Suc_eq_plus1 take_Suc_Cons)
  ultimately show ?case using q(1) by simp
qed simp

section \<open>Properties\<close>

text \<open>
  C36. \<open>serial_file_transfer\<close> receives the file that the port delivers: after the announced length in decimal
  and a NUL, exactly so many bytes are stored at the address, nothing else in memory changes, the
  length is returned, and the messages of the transfer appear on the console. Any length below \<open>2^32\<close>
  is received in pieces of at most 255 bytes.
\<close>

theorem serial_transfer_correct:
  assumes "recv (length (decimal (length s) @ [NUL] @ s)) (pio m) = Some (decimal (length s) @ [NUL] @ s, p')"
    and "length s < 4294967296" "length buffer = 256"
    and "con_follow (con m) log" "length log + 75 \<le> 4294967294"
  shows "\<exists>c'. serial_file_transfer m buffer mem_addr =
      Some (Inr (m\<lparr>con := c', pio := p', mem := store (mem m) mem_addr s\<rparr>, length s)) \<and>
    con_follow c' (log @ transfer_text (length s))"
proof -
  define d where "d = decimal (length s)"
  have d: "NUL \<notin> set d" using rdigits_no_NUL by (simp add: d_def decimal_def)
  obtain q where q: "recv (length (d @ [NUL])) (pio m) = Some (d @ [NUL], q)" "recv (length s) q = Some (s, p')"
    using recv_append [of "d @ [NUL]" s "pio m" p'] assms(1) by (auto simp: d_def)
  obtain buf' where buf': "read_until (pio m) buffer 256 NUL = Some (Inr (buf', length d + 1, q))" "length buf' = 256"
    "cstr buf' 0 d"
    using read_until_spec [OF q(1) d _ assms(3)] length_decimal [OF assms(2)] by (auto simp: d_def)
  have n: "atoi buf' 0 10 = Inr (length s)" using atoi_decimal buf'(3) assms(2) by (simp add: d_def)
  have tr: "transfer_loop (length s) mem_addr (length s) q (mem m) buf' 0 =
      Some (Inr (p', store (mem m) mem_addr s, length s))"
    using transfer_loop_spec [OF q(2) _ buf'(2), of "length s" "length s" 0] assms(2) by simp
  obtain c1 where c1: "put_text (con m) (''start to transfer file'' @ [NL]) = Some (Inr c1)"
    "con_follow c1 (log @ ''start to transfer file'' @ [NL])"
    by (rule printed [OF assms(4), of "''start to transfer file'' @ [NL]"]) (use assms(5) in simp_all)
  obtain c2 where c2: "put_text c1 (''expected '' @ ''0x'' @ hex8 (length s) @ '' bytes'' @ [NL]) = Some (Inr c2)"
    "con_follow c2 ((log @ ''start to transfer file'' @ [NL]) @ ''expected '' @ ''0x'' @ hex8 (length s) @ '' bytes'' @ [NL])"
    by (rule printed [OF c1(2), of "''expected '' @ ''0x'' @ hex8 (length s) @ '' bytes'' @ [NL]"]) (use assms(5) in simp_all)
  obtain c3 where c3: "put_text c2 (''recieved '' @ ''0x'' @ hex8 (length s) @ '' bytes'' @ [NL]) = Some (Inr c3)"
    "con_follow c3 (((log @ ''start to transfer file'' @ [NL]) @ ''expected '' @ ''0x'' @ hex8 (length s) @ '' bytes'' @ [NL]) @
       ''recieved '' @ ''0x'' @ hex8 (length s) @ '' bytes'' @ [NL])"
    by (rule printed [OF c2(2), of "''recieved '' @ ''0x'' @ hex8 (length s) @ '' bytes'' @ [NL]"]) (use assms(5) in simp_all)
  have st: "printl (con m) (''start to transfer file'' @ [NUL]) = Some (Inr c1)"
    unfolding c1(1) [symmetric] by (rule printl_lit) simp
  have "serial_file_transfer m buffer mem_addr =
      Some (Inr (m\<lparr>con := c3, pio := p', mem := store (mem m) mem_addr s\<rparr>, length s))"
    unfolding serial_file_transfer_def
    by (simp add: st announce_bytes buf'(1) n tr c2(1) c3(1)
        del: con_dev.put_text.simps append.simps append_assoc)
  moreover have "con_follow c3 (log @ transfer_text (length s))" using c3(2) by (simp add: transfer_text_def)
  ultimately show ?thesis by blast
qed

theorem serial_transfer_correct_witness:
  "\<exists>m buffer p'. recv 4 (pio m) = Some (''2'' @ [NUL] @ ''hi'', p') \<and> length buffer = 256 \<and>
     (\<exists>m'. serial_file_transfer m buffer 0x50000 = Some (Inr (m', 2)) \<and>
       mem m' 0x50000 = CHR ''h'' \<and> mem m' 0x50001 = CHR ''i'')"
proof -
  obtain c where c: "con_reach c []" "con_inv c []" "following c" using some_console by blast
  define m where "m = \<lparr>con = c, pio = \<lparr>dev = uart (''2'' @ [NUL] @ ''hi''), trace = []\<rparr>, mem = (\<lambda>_. NUL), sched = undefined\<rparr>"
  have dec: "decimal (length ''hi'') = ''2''"
    by (simp add: decimal_def rdigits.simps digit_def chr_int_def char_of_def bit_0)
  have z: "data_reads (trace (pio m)) = 0" by (simp add: m_def data_reads_def)
  obtain p' where p': "recv 4 (pio m) = Some (''2'' @ [NUL] @ ''hi'', p')"
    using uart_recv [of "pio m" "''2'' @ [NUL] @ ''hi''" 4] z by (auto simp: m_def)
  have "length (''2'' @ [NUL] @ ''hi'') = 4" by simp
  then have r: "recv (length (decimal (length ''hi'') @ [NUL] @ ''hi'')) (pio m) = Some (decimal (length ''hi'') @ [NUL] @ ''hi'', p')"
    using p' by (simp only: dec)
  have "con_follow (con m) []" using c by (simp add: con_follow_def m_def)
  then obtain c' where "serial_file_transfer m (replicate 256 NUL) 0x50000 =
      Some (Inr (m\<lparr>con := c', pio := p', mem := store (mem m) 0x50000 ''hi''\<rparr>, length ''hi''))"
    using serial_transfer_correct [OF r, of "replicate 256 NUL" "[]" "0x50000"] by auto
  then show ?thesis using p' by (intro exI [of _ m] exI [of _ "replicate 256 NUL"] exI [of _ p']) (auto simp: store_def)
qed

end
