(* ===== verification/Ts_Shell.thy ===== *)
theory Ts_Shell
  imports Ts_Com
begin

text \<open>
  The shell (\<^verbatim>\<open>kernel/shell.c\<close>): what a key does to the console, and the commands.

  A key code is the number of its constant in the enumeration of \<^verbatim>\<open>drivers/keyboard.h\<close>, for printable
  keys the code of the character. A string argument is a buffer, or a buffer and an offset where the
  code passes a pointer into it; \<^const>\<open>None\<close> is \<open>NULL\<close>. The local buffers start with arbitrary bytes, which
  are arguments.
\<close>

section \<open>Key codes\<close>

type_synonym KEY_CODE = nat

abbreviation (input) KEY_EMPTY :: KEY_CODE where "KEY_EMPTY \<equiv> 0"
abbreviation (input) KEY_SPACE :: KEY_CODE where "KEY_SPACE \<equiv> 32"
abbreviation (input) KEY_EXCLAM :: KEY_CODE where "KEY_EXCLAM \<equiv> 33"
abbreviation (input) KEY_DOUBLE_QUOTE :: KEY_CODE where "KEY_DOUBLE_QUOTE \<equiv> 34"
abbreviation (input) KEY_HASH :: KEY_CODE where "KEY_HASH \<equiv> 35"
abbreviation (input) KEY_DOLLAR :: KEY_CODE where "KEY_DOLLAR \<equiv> 36"
abbreviation (input) KEY_PERCENT :: KEY_CODE where "KEY_PERCENT \<equiv> 37"
abbreviation (input) KEY_AND :: KEY_CODE where "KEY_AND \<equiv> 38"
abbreviation (input) KEY_SINGLE_QUOTE :: KEY_CODE where "KEY_SINGLE_QUOTE \<equiv> 39"
abbreviation (input) KEY_LEFT_PAR :: KEY_CODE where "KEY_LEFT_PAR \<equiv> 40"
abbreviation (input) KEY_RIGHT_PAR :: KEY_CODE where "KEY_RIGHT_PAR \<equiv> 41"
abbreviation (input) KEY_WILDCARD :: KEY_CODE where "KEY_WILDCARD \<equiv> 42"
abbreviation (input) KEY_ADD :: KEY_CODE where "KEY_ADD \<equiv> 43"
abbreviation (input) KEY_COMMA :: KEY_CODE where "KEY_COMMA \<equiv> 44"
abbreviation (input) KEY_HYPHEN :: KEY_CODE where "KEY_HYPHEN \<equiv> 45"
abbreviation (input) KEY_DOT :: KEY_CODE where "KEY_DOT \<equiv> 46"
abbreviation (input) KEY_SLASH :: KEY_CODE where "KEY_SLASH \<equiv> 47"
abbreviation (input) KEY_ZERO :: KEY_CODE where "KEY_ZERO \<equiv> 48"
abbreviation (input) KEY_ONE :: KEY_CODE where "KEY_ONE \<equiv> 49"
abbreviation (input) KEY_TWO :: KEY_CODE where "KEY_TWO \<equiv> 50"
abbreviation (input) KEY_THREE :: KEY_CODE where "KEY_THREE \<equiv> 51"
abbreviation (input) KEY_FOUR :: KEY_CODE where "KEY_FOUR \<equiv> 52"
abbreviation (input) KEY_FIVE :: KEY_CODE where "KEY_FIVE \<equiv> 53"
abbreviation (input) KEY_SIX :: KEY_CODE where "KEY_SIX \<equiv> 54"
abbreviation (input) KEY_SEVEN :: KEY_CODE where "KEY_SEVEN \<equiv> 55"
abbreviation (input) KEY_EIGHT :: KEY_CODE where "KEY_EIGHT \<equiv> 56"
abbreviation (input) KEY_NINE :: KEY_CODE where "KEY_NINE \<equiv> 57"
abbreviation (input) KEY_COLON :: KEY_CODE where "KEY_COLON \<equiv> 58"
abbreviation (input) KEY_SEMICOLON :: KEY_CODE where "KEY_SEMICOLON \<equiv> 59"
abbreviation (input) KEY_LESS :: KEY_CODE where "KEY_LESS \<equiv> 60"
abbreviation (input) KEY_EQU :: KEY_CODE where "KEY_EQU \<equiv> 61"
abbreviation (input) KEY_LARGER :: KEY_CODE where "KEY_LARGER \<equiv> 62"
abbreviation (input) KEY_QUES :: KEY_CODE where "KEY_QUES \<equiv> 63"
abbreviation (input) KEY_AT :: KEY_CODE where "KEY_AT \<equiv> 64"
abbreviation (input) KEY_A :: KEY_CODE where "KEY_A \<equiv> 65"
abbreviation (input) KEY_B :: KEY_CODE where "KEY_B \<equiv> 66"
abbreviation (input) KEY_C :: KEY_CODE where "KEY_C \<equiv> 67"
abbreviation (input) KEY_D :: KEY_CODE where "KEY_D \<equiv> 68"
abbreviation (input) KEY_E :: KEY_CODE where "KEY_E \<equiv> 69"
abbreviation (input) KEY_F :: KEY_CODE where "KEY_F \<equiv> 70"
abbreviation (input) KEY_G :: KEY_CODE where "KEY_G \<equiv> 71"
abbreviation (input) KEY_H :: KEY_CODE where "KEY_H \<equiv> 72"
abbreviation (input) KEY_I :: KEY_CODE where "KEY_I \<equiv> 73"
abbreviation (input) KEY_J :: KEY_CODE where "KEY_J \<equiv> 74"
abbreviation (input) KEY_K :: KEY_CODE where "KEY_K \<equiv> 75"
abbreviation (input) KEY_L :: KEY_CODE where "KEY_L \<equiv> 76"
abbreviation (input) KEY_M :: KEY_CODE where "KEY_M \<equiv> 77"
abbreviation (input) KEY_N :: KEY_CODE where "KEY_N \<equiv> 78"
abbreviation (input) KEY_O :: KEY_CODE where "KEY_O \<equiv> 79"
abbreviation (input) KEY_P :: KEY_CODE where "KEY_P \<equiv> 80"
abbreviation (input) KEY_Q :: KEY_CODE where "KEY_Q \<equiv> 81"
abbreviation (input) KEY_R :: KEY_CODE where "KEY_R \<equiv> 82"
abbreviation (input) KEY_S :: KEY_CODE where "KEY_S \<equiv> 83"
abbreviation (input) KEY_T :: KEY_CODE where "KEY_T \<equiv> 84"
abbreviation (input) KEY_U :: KEY_CODE where "KEY_U \<equiv> 85"
abbreviation (input) KEY_V :: KEY_CODE where "KEY_V \<equiv> 86"
abbreviation (input) KEY_W :: KEY_CODE where "KEY_W \<equiv> 87"
abbreviation (input) KEY_X :: KEY_CODE where "KEY_X \<equiv> 88"
abbreviation (input) KEY_Y :: KEY_CODE where "KEY_Y \<equiv> 89"
abbreviation (input) KEY_Z :: KEY_CODE where "KEY_Z \<equiv> 90"
abbreviation (input) KEY_LEFT_BRACKET :: KEY_CODE where "KEY_LEFT_BRACKET \<equiv> 91"
abbreviation (input) KEY_BACK_SLASH :: KEY_CODE where "KEY_BACK_SLASH \<equiv> 92"
abbreviation (input) KEY_RIGHT_BRACKET :: KEY_CODE where "KEY_RIGHT_BRACKET \<equiv> 93"
abbreviation (input) KEY_CARET :: KEY_CODE where "KEY_CARET \<equiv> 94"
abbreviation (input) KEY_UNDERSCORE :: KEY_CODE where "KEY_UNDERSCORE \<equiv> 95"
abbreviation (input) KEY_ACUTE :: KEY_CODE where "KEY_ACUTE \<equiv> 96"
abbreviation (input) KEY_LEFT_CURL :: KEY_CODE where "KEY_LEFT_CURL \<equiv> 123"
abbreviation (input) KEY_PIPE :: KEY_CODE where "KEY_PIPE \<equiv> 124"
abbreviation (input) KEY_RIGHT_CURL :: KEY_CODE where "KEY_RIGHT_CURL \<equiv> 125"
abbreviation (input) KEY_TILDE :: KEY_CODE where "KEY_TILDE \<equiv> 126"
abbreviation (input) KEY_ESC :: KEY_CODE where "KEY_ESC \<equiv> 127"
abbreviation (input) KEY_F1 :: KEY_CODE where "KEY_F1 \<equiv> 128"
abbreviation (input) KEY_F2 :: KEY_CODE where "KEY_F2 \<equiv> 129"
abbreviation (input) KEY_F3 :: KEY_CODE where "KEY_F3 \<equiv> 130"
abbreviation (input) KEY_F4 :: KEY_CODE where "KEY_F4 \<equiv> 131"
abbreviation (input) KEY_F5 :: KEY_CODE where "KEY_F5 \<equiv> 132"
abbreviation (input) KEY_F6 :: KEY_CODE where "KEY_F6 \<equiv> 133"
abbreviation (input) KEY_F7 :: KEY_CODE where "KEY_F7 \<equiv> 134"
abbreviation (input) KEY_F8 :: KEY_CODE where "KEY_F8 \<equiv> 135"
abbreviation (input) KEY_F9 :: KEY_CODE where "KEY_F9 \<equiv> 136"
abbreviation (input) KEY_F10 :: KEY_CODE where "KEY_F10 \<equiv> 137"
abbreviation (input) KEY_F11 :: KEY_CODE where "KEY_F11 \<equiv> 138"
abbreviation (input) KEY_F12 :: KEY_CODE where "KEY_F12 \<equiv> 139"
abbreviation (input) KEY_NUMLOCK :: KEY_CODE where "KEY_NUMLOCK \<equiv> 140"
abbreviation (input) KEY_SCROLL :: KEY_CODE where "KEY_SCROLL \<equiv> 141"
abbreviation (input) KEY_INSERT :: KEY_CODE where "KEY_INSERT \<equiv> 142"
abbreviation (input) KEY_DEL :: KEY_CODE where "KEY_DEL \<equiv> 143"
abbreviation (input) KEY_BACKSPACE :: KEY_CODE where "KEY_BACKSPACE \<equiv> 144"
abbreviation (input) KEY_TAB :: KEY_CODE where "KEY_TAB \<equiv> 145"
abbreviation (input) KEY_CAPS :: KEY_CODE where "KEY_CAPS \<equiv> 146"
abbreviation (input) KEY_ENTER :: KEY_CODE where "KEY_ENTER \<equiv> 147"
abbreviation (input) KEY_SHIFT :: KEY_CODE where "KEY_SHIFT \<equiv> 148"
abbreviation (input) KEY_CTRL :: KEY_CODE where "KEY_CTRL \<equiv> 149"
abbreviation (input) KEY_ALT :: KEY_CODE where "KEY_ALT \<equiv> 150"
abbreviation (input) KEY_UP_RELEASE :: KEY_CODE where "KEY_UP_RELEASE \<equiv> 151"
abbreviation (input) KEY_LEFT_RELEASE :: KEY_CODE where "KEY_LEFT_RELEASE \<equiv> 152"
abbreviation (input) KEY_DOWN_RELEASE :: KEY_CODE where "KEY_DOWN_RELEASE \<equiv> 153"
abbreviation (input) KEY_RIGHT_RELEASE :: KEY_CODE where "KEY_RIGHT_RELEASE \<equiv> 154"
abbreviation (input) KEY_PRINTSCR :: KEY_CODE where "KEY_PRINTSCR \<equiv> 155"
abbreviation (input) KEY_PRINTSCR_RELEASE :: KEY_CODE where "KEY_PRINTSCR_RELEASE \<equiv> 156"
abbreviation (input) KEY_PAUSE :: KEY_CODE where "KEY_PAUSE \<equiv> 157"

section \<open>Keys\<close>

text \<open>\<open>__case\<close> is never assigned; its value is \<open>UPCASE\<close>.\<close>

definition case_mode :: nat where
  "case_mode = 1"

definition input_keys :: "KEY_CODE list" where
  "input_keys = [KEY_HYPHEN, KEY_EQU, KEY_LEFT_BRACKET, KEY_RIGHT_BRACKET, KEY_SEMICOLON, KEY_SINGLE_QUOTE,
     KEY_ACUTE, KEY_BACK_SLASH, KEY_COMMA, KEY_DOT, KEY_SLASH, KEY_WILDCARD, KEY_SPACE]"

definition shell_get_key_code :: "console \<Rightarrow> KEY_CODE \<Rightarrow> console res option" where
  "shell_get_key_code c keycode =
     (let ch = int keycode in
      if keycode = KEY_EMPTY then Some (Inr c)
      else if keycode = KEY_UP_RELEASE then Some (window_move_up c)
      else if keycode = KEY_DOWN_RELEASE then Some (window_move_down c)
      else if KEY_A \<le> keycode \<and> keycode \<le> KEY_Z then
        Some (get_input_char c (chr_int (if case_mode = 0 then ch - 65 + 97 else ch)))
      else if KEY_ZERO \<le> keycode \<and> keycode \<le> KEY_NINE \<or> keycode \<in> set input_keys then
        Some (get_input_char c (chr_int ch))
      else if keycode = KEY_ENTER then flush_input_buffer c
      else if keycode = KEY_BACKSPACE then Some (modify_input_cnt c (- 1))
      else if keycode = KEY_PRINTSCR then printf c (Some (''printscr detected'' @ [NL, NUL])) []
      else if keycode = KEY_PRINTSCR_RELEASE then printf c (Some (''printscr_re detected'' @ [NL, NUL])) []
      else if keycode = KEY_PAUSE then printf c (Some (''pause detected'' @ [NL, NUL])) []
      else Some (Inr c))"

section \<open>Commands\<close>

definition is_command :: "string \<Rightarrow> char list \<Rightarrow> bool res" where
  "is_command w s = bind_res (string_equal (Some (w @ [NUL])) (Some s)) (\<lambda>r. Inr (r \<noteq> 0))"

primrec dump_bytes :: "machine \<Rightarrow> u32 list \<Rightarrow> machine res option" where
  "dump_bytes m [] = Some (Inr m)"
| "dump_bytes m (a # as) =
     bind_ro (print_hex (con m) (nat (uchar (mem m a)))) (\<lambda>c.
     bind_ro (print_char c (CHR '' '')) (\<lambda>c. dump_bytes (m\<lparr>con := c\<rparr>) as))"

definition parse_serial_command ::
  "machine \<Rightarrow> (char list \<times> nat) option \<Rightarrow> char list \<Rightarrow> char list \<Rightarrow> machine res option" where
  "parse_serial_command m s buffer rx_buffer =
     (case s of None \<Rightarrow> Some (Inl NullDeref)
      | Some (s, i) \<Rightarrow>
         bind_ro (Some (strtok s i ('' '' @ [NUL]) buffer)) (\<lambda>(buffer, _).
         bind_ro (Some (is_command ''print'' buffer)) (\<lambda>pr.
         if pr then bind_ro (printl (con m) (''execute sp print'' @ [NUL])) (\<lambda>c. Some (Inr (m\<lparr>con := c\<rparr>)))
         else bind_ro (Some (is_command ''load'' buffer)) (\<lambda>ld.
         if ld then Some (Inr m)
         else bind_ro (Some (is_command ''test'' buffer)) (\<lambda>ts.
         if ts then
           bind_ro (printl (con m) (''com1 test'' @ [NUL])) (\<lambda>c.
           bind_ro (serial_file_transfer (m\<lparr>con := c\<rparr>) rx_buffer 0x50000) (\<lambda>(m, n).
           dump_bytes m (map (\<lambda>i. 0x50000 + of_nat i) [0..<min n 32])))
         else Some (Inr m))))))"

text \<open>\<open>halt\<close> executes \<open>hlt\<close>, which continues after the next interrupt.\<close>

definition parse_command :: "machine \<Rightarrow> char list \<Rightarrow> char list \<Rightarrow> char list \<Rightarrow> char list \<Rightarrow> machine res option" where
  "parse_command m s buffer sp_buffer rx_buffer =
     bind_ro (Some (is_command ''hello'' s)) (\<lambda>hello.
     if hello then bind_ro (printl (con m) (''hello from kernel'' @ [NUL])) (\<lambda>c. Some (Inr (m\<lparr>con := c\<rparr>)))
     else bind_ro (Some (is_command ''halt'' s)) (\<lambda>hlt.
     if hlt then bind_ro (printl (con m) (''halt ...'' @ [NUL])) (\<lambda>c. Some (Inr (m\<lparr>con := c\<rparr>)))
     else bind_ro (Some (is_command ''clear'' s)) (\<lambda>clr.
     if clr then bind_ro (console_clear (con m)) (\<lambda>c. Some (Inr (m\<lparr>con := c\<rparr>)))
     else bind_ro (Some (is_command ''nt'' s)) (\<lambda>nt.
     if nt then
       bind_ro (printl (con m) (''switch to next task'' @ [NUL])) (\<lambda>c.
       bind_ro (Some (update_current (\<lambda>t. t\<lparr>t_state := t_state t OR TASK_NEED_SCHED\<rparr>) (sched m))) (\<lambda>sc.
       Some (Inr (m\<lparr>con := c, sched := sc\<rparr>))))
     else
       bind_ro (Some (strtok s 0 ('' '' @ [NUL]) buffer)) (\<lambda>(buffer, p).
       bind_ro (Some (is_command ''sp'' buffer)) (\<lambda>sp.
       if sp then parse_serial_command m (map_option (Pair s) p) sp_buffer rx_buffer else Some (Inr m)))))))"

end
