(* ===== verification/Ts_Keyboard.thy ===== *)
theory Ts_Keyboard
  imports Ts_Shell
begin

text \<open>
  The keyboard driver (\<^verbatim>\<open>drivers/keyboard.c\<close>): a state machine over the scan codes of set 1. Sequences
  that start with \<open>0xE0\<close> or \<open>0xE1\<close> are collected in \<open>scancode_history\<close> until they are complete.
\<close>

record kb =
  scancode_history :: "u8 list"
  scancode_depth :: nat

definition keycode_tbl :: "KEY_CODE list" where
  "keycode_tbl = [KEY_EMPTY, KEY_EMPTY, KEY_ONE, KEY_TWO, KEY_THREE, KEY_FOUR, KEY_FIVE, KEY_SIX,
     KEY_SEVEN, KEY_EIGHT, KEY_NINE, KEY_ZERO, KEY_HYPHEN, KEY_EQU, KEY_BACKSPACE, KEY_TAB,
     KEY_Q, KEY_W, KEY_E, KEY_R, KEY_T, KEY_Y, KEY_U, KEY_I,
     KEY_O, KEY_P, KEY_LEFT_BRACKET, KEY_RIGHT_BRACKET, KEY_ENTER, KEY_CTRL, KEY_A, KEY_S,
     KEY_D, KEY_F, KEY_G, KEY_H, KEY_J, KEY_K, KEY_L, KEY_SEMICOLON,
     KEY_SINGLE_QUOTE, KEY_ACUTE, KEY_SHIFT, KEY_BACK_SLASH, KEY_Z, KEY_X, KEY_C, KEY_V,
     KEY_B, KEY_N, KEY_M, KEY_COMMA, KEY_DOT, KEY_SLASH, KEY_SHIFT, KEY_WILDCARD,
     KEY_ALT, KEY_SPACE, KEY_CAPS, KEY_F1, KEY_F2, KEY_F3, KEY_F4, KEY_F5,
     KEY_F6, KEY_F7, KEY_F8, KEY_F9, KEY_F10, KEY_NUMLOCK, KEY_SCROLL, KEY_SEVEN,
     KEY_EIGHT, KEY_NINE, KEY_HYPHEN, KEY_FOUR, KEY_FIVE, KEY_SIX, KEY_ADD, KEY_ONE,
     KEY_TWO, KEY_THREE, KEY_ZERO, KEY_DOT, KEY_F11, KEY_F12]"

datatype kb_action = Deliver KEY_CODE | Put_history

text \<open>The range of the first case includes the number of entries of the table.\<close>

definition kb_depth0 :: "u8 \<Rightarrow> kb_action res" where
  "kb_depth0 scan_code =
     (if unat scan_code \<le> length keycode_tbl then
        bind_res (rd keycode_tbl (unat scan_code)) (\<lambda>k. Inr (Deliver k))
      else if scan_code = 0xE0 \<or> scan_code = 0xE1 then Inr Put_history
      else Inr (Deliver KEY_EMPTY))"

definition kb_depth1 :: "kb \<Rightarrow> u8 \<Rightarrow> kb_action res" where
  "kb_depth1 k scan_code =
     bind_res (rd (scancode_history k) 0) (\<lambda>h0.
     Inr (if h0 = 0xE1 then Put_history
          else if scan_code = 0xC8 then Deliver KEY_UP_RELEASE
          else if scan_code = 0xD0 then Deliver KEY_DOWN_RELEASE
          else if scan_code = 0x2A \<or> scan_code = 0xB7 then Put_history
          else Deliver KEY_EMPTY))"

definition kb_depth3 :: "kb \<Rightarrow> kb_action res" where
  "kb_depth3 k =
     bind_res (rd (scancode_history k) 0) (\<lambda>h0. bind_res (rd (scancode_history k) 1) (\<lambda>h1.
     Inr (if h0 = 0xE0 \<and> h1 = 0x2A then Deliver KEY_PRINTSCR
          else if h0 = 0xE0 \<and> h1 = 0xB7 then Deliver KEY_PRINTSCR_RELEASE
          else Put_history)))"

definition kb_decode :: "kb \<Rightarrow> u8 \<Rightarrow> kb_action res" where
  "kb_decode k scan_code =
     (let d = scancode_depth k in
      if d = 0 then kb_depth0 scan_code
      else if d = 1 then kb_depth1 k scan_code
      else if d = 2 then Inr Put_history
      else if d = 3 then kb_depth3 k
      else if d = 4 then Inr Put_history
      else if d = 5 then Inr (Deliver KEY_PAUSE)
      else Inr (Deliver KEY_EMPTY))"

text \<open>What happens after the scan code is read.\<close>

definition kb_scan :: "kb \<Rightarrow> console \<Rightarrow> u8 \<Rightarrow> (kb \<times> console) res option" where
  "kb_scan k c scan_code =
     bind_ro (Some (kb_decode k scan_code)) (\<lambda>act.
     case act of
       Deliver key_code \<Rightarrow>
         bind_ro (shell_get_key_code c key_code) (\<lambda>c. Some (Inr (k\<lparr>scancode_depth := 0\<rparr>, c)))
     | Put_history \<Rightarrow>
         bind_ro (Some (wr (scancode_history k) (scancode_depth k) scan_code)) (\<lambda>h.
         Some (Inr (k\<lparr>scancode_history := h, scancode_depth := scancode_depth k + 1\<rparr>, c))))"

definition kb_handler :: "kb \<Rightarrow> machine \<Rightarrow> (kb \<times> machine) res option" where
  "kb_handler k m =
     (case poll 0x64 1 (pio m) of None \<Rightarrow> None
      | Some p \<Rightarrow> let (scan_code, p) = inb p 0x60 in
          bind_ro (kb_scan k (con m) scan_code) (\<lambda>(k, c). Some (Inr (k, m\<lparr>con := c, pio := p\<rparr>))))"

end
