(* ===== verification/Ts_Isr.thy ===== *)
theory Ts_Isr
  imports Ts_Keyboard
begin

text \<open>
  Interrupts and system calls (\<^verbatim>\<open>kernel/isr.c\<close>, \<^verbatim>\<open>kernel/sys.c\<close>, \<open>isr63\<close> of \<^verbatim>\<open>boot/kernel_entry.asm\<close>) and
  \<open>terminate_process\<close> of \<^verbatim>\<open>kernel/task.c\<close>, which all drivers meet in.

  \<open>kernel\<close> adds to the machine the state of the keyboard driver, the interrupt table with its register,
  and the table of system calls, whose function pointers are the values of \<open>sysfun\<close>. The addresses of
  the interrupt stubs are a parameter. An endless loop after a message is \<^const>\<open>None\<close>.
\<close>

section \<open>State\<close>

record IDTDesc =
  offset_1 :: u16
  selector :: u16
  zero :: u8
  type_attr :: u8
  offset_2 :: u16

datatype sysfun = Fn_printl | Fn_foo | Fn_terminate_process

record kernel =
  mach :: machine
  kbd :: kb
  idt :: "IDTDesc list"
  idt_limit :: u16
  idt_base :: u32
  syscall_table :: "sysfun option list"

abbreviation (input) IRQ_MAX :: nat where "IRQ_MAX \<equiv> 63"
abbreviation (input) SYSCALL_NUM :: nat where "SYSCALL_NUM \<equiv> 64"
abbreviation (input) SYS_EXIT :: nat where "SYS_EXIT \<equiv> 0"
abbreviation (input) SYS_PRINTL :: nat where "SYS_PRINTL \<equiv> 0x10"
abbreviation (input) SYS_FOO :: nat where "SYS_FOO \<equiv> 0x20"

section \<open>The interrupt controller\<close>

definition config_pic :: "io \<Rightarrow> io" where
  "config_pic p =
     (let p = outb p 0x20 0x11; p = outb p 0xA0 0x11;
          p = outb p 0x21 0x20; p = outb p 0xA1 0x28;
          p = outb p 0x21 0x04; p = outb p 0xA1 0x02;
          p = outb p 0x21 0x01; p = outb p 0xA1 0x01;
          p = outb p 0x21 0x00; p = outb p 0xA1 0x00
      in p)"

definition init_timer :: "io \<Rightarrow> io" where
  "init_timer p =
     (let divisor = 1193180 div 25 :: u32;
          p = outb p 0x43 0x36;
          l = ucast (divisor AND 0xFF);
          h = ucast (drop_bit 8 divisor AND 0xFF);
          p = outb p 0x40 l
      in outb p 0x40 h)"

section \<open>The interrupt table\<close>

definition init_trap_gate :: "IDTDesc list \<Rightarrow> nat \<Rightarrow> u32 \<Rightarrow> u16 \<Rightarrow> u8 \<Rightarrow> IDTDesc list res" where
  "init_trap_gate tbl irq handler_offset sel flag =
     bind_res (rd tbl irq) (\<lambda>d.
     wr tbl irq (d\<lparr>offset_1 := ucast (handler_offset AND 0xFFFF),
                   offset_2 := ucast (drop_bit 16 handler_offset AND 0xFFFF),
                   selector := sel, zero := 0, type_attr := flag\<rparr>))"

primrec init_irqs :: "(nat \<Rightarrow> u32) \<Rightarrow> nat list \<Rightarrow> IDTDesc list \<Rightarrow> IDTDesc list res" where
  "init_irqs isr [] tbl = Inr tbl"
| "init_irqs isr (n # ns) tbl = bind_res (init_trap_gate tbl n (isr n) 0x08 0x8F) (init_irqs isr ns)"

definition init_idt :: "(nat \<Rightarrow> u32) \<Rightarrow> u32 \<Rightarrow> kernel \<Rightarrow> kernel res" where
  "init_idt isr idt_addr k =
     (let m = mach k; k = k\<lparr>mach := m\<lparr>pio := config_pic (pio m)\<rparr>\<rparr> in
      bind_res (init_irqs isr [0..<64] (idt k)) (\<lambda>tbl.
      bind_res (rd tbl 63) (\<lambda>d.
      bind_res (wr tbl 63 (d\<lparr>type_attr := 0xEF\<rparr>)) (\<lambda>tbl.
      Inr (k\<lparr>idt := tbl, idt_limit := of_nat (8 * (IRQ_MAX + 1) - 1), idt_base := idt_addr\<rparr>)))))"

section \<open>Handlers\<close>

definition terminate_process :: "machine \<Rightarrow> machine res option" where
  "terminate_process m =
     bind_ro (printf (con m) (Some (''terminate process'' @ [NL, NUL])) []) (\<lambda>c.
     bind_ro (Some (exit_current (sched m))) (\<lambda>s. Some (Inr (m\<lparr>con := c, sched := s\<rparr>))))"

definition page_fault_handler :: "console \<Rightarrow> nat \<Rightarrow> nat \<Rightarrow> console res option" where
  "page_fault_handler c err_code cr2 =
     bind_ro (printl c (''error code'' @ [NUL])) (\<lambda>c.
     bind_ro (print_hex c err_code) (\<lambda>c.
     bind_ro (printl c [NUL]) (\<lambda>c.
     bind_ro (printl c (''address:'' @ [NUL])) (\<lambda>c.
     bind_ro (print_hex c cr2) (\<lambda>c.
     bind_ro (printl c [NUL]) (\<lambda>_. None))))))"

definition protection_fault :: "console \<Rightarrow> nat \<Rightarrow> nat \<Rightarrow> console res option" where
  "protection_fault c irq err_code =
     bind_ro (printstr c (''handler # '' @ [NUL]) 0) (\<lambda>c.
     bind_ro (print_hex c irq) (\<lambda>c.
     bind_ro (printl c [NUL]) (\<lambda>c.
     bind_ro (printstr c (''err # '' @ [NUL]) 0) (\<lambda>c.
     bind_ro (print_hex c err_code) (\<lambda>_. None)))))"

definition announce_irq :: "console \<Rightarrow> nat \<Rightarrow> console res option" where
  "announce_irq c irq =
     (if irq \<noteq> 32 \<and> irq \<noteq> 33 then
        bind_ro (printstr c (''handler #'' @ [NUL]) 0) (\<lambda>c.
        bind_ro (print_hex c irq) (\<lambda>c. printl c [NUL]))
      else Some (Inr c))"

definition dispatch_irq :: "kernel \<Rightarrow> nat \<Rightarrow> nat \<Rightarrow> nat \<Rightarrow> kernel res option" where
  "dispatch_irq k irq err_code cr2 =
     (let m = mach k in
      if irq = 14 then bind_ro (page_fault_handler (con m) err_code cr2) (\<lambda>c. Some (Inr (k\<lparr>mach := m\<lparr>con := c\<rparr>\<rparr>)))
      else if irq = 32 then bind_ro (Some (timer_handler (sched m))) (\<lambda>s. Some (Inr (k\<lparr>mach := m\<lparr>sched := s\<rparr>\<rparr>)))
      else if irq = 33 then bind_ro (kb_handler (kbd k) m) (\<lambda>(b, m). Some (Inr (k\<lparr>mach := m, kbd := b\<rparr>)))
      else if irq = 36 then map_option (\<lambda>p. Inr (k\<lparr>mach := m\<lparr>pio := p\<rparr>\<rparr>)) (com1_handler (pio m))
      else if irq = 63 then bind_ro (terminate_process m) (\<lambda>m. Some (Inr (k\<lparr>mach := m\<rparr>)))
      else Some (Inr k))"

definition send_eoi :: "io \<Rightarrow> nat \<Rightarrow> io" where
  "send_eoi p irq =
     (let p = (if 40 \<le> irq then outb p 0xA0 0x20 else p) in if 32 \<le> irq then outb p 0x20 0x20 else p)"

definition irq_handler_entry :: "kernel \<Rightarrow> nat \<Rightarrow> nat \<Rightarrow> nat \<Rightarrow> kernel res option" where
  "irq_handler_entry k irq err_code cr2 =
     (if irq = 13 then bind_ro (protection_fault (con (mach k)) irq err_code) (\<lambda>_. None)
      else bind_ro (announce_irq (con (mach k)) irq) (\<lambda>c.
        bind_ro (dispatch_irq (k\<lparr>mach := (mach k)\<lparr>con := c\<rparr>\<rparr>) irq err_code cr2) (\<lambda>k.
        let m = mach k; m = m\<lparr>pio := send_eoi (pio m) irq\<rparr> in
        bind_ro (Some (cond_schedule (sched m))) (\<lambda>s. Some (Inr (k\<lparr>mach := m\<lparr>sched := s\<rparr>\<rparr>))))))"

section \<open>System calls\<close>

definition foo :: "u32 \<Rightarrow> u32 \<Rightarrow> u32" where
  "foo a b = a + b"

definition register_syscall :: "kernel \<Rightarrow> int \<Rightarrow> sysfun \<Rightarrow> (kernel \<times> int) res" where
  "register_syscall k nr func =
     (if nr < 0 then Inl OutOfBounds
      else bind_res (wr (syscall_table k) (nat nr) (Some func)) (\<lambda>t. Inr (k\<lparr>syscall_table := t\<rparr>, 0)))"

definition init_syscall :: "kernel \<Rightarrow> kernel res" where
  "init_syscall k =
     bind_res (wr (syscall_table k) SYS_PRINTL (Some Fn_printl)) (\<lambda>t.
     bind_res (wr t SYS_FOO (Some Fn_foo)) (\<lambda>t. Inr (k\<lparr>syscall_table := t\<rparr>)))"

text \<open>
  \<open>isr63\<close>: the function of the table at index \<open>eax\<close> is called with \<open>ebx\<close> and \<open>ecx\<close> on the stack and
  returns in \<open>eax\<close>. \<open>text_at\<close> gives the string at an address of the caller.
\<close>

definition isr63 :: "kernel \<Rightarrow> (u32 \<Rightarrow> char list) \<Rightarrow> u32 \<Rightarrow> u32 \<Rightarrow> u32 \<Rightarrow> (kernel \<times> u32 option) res option" where
  "isr63 k text_at eax ebx ecx =
     bind_ro (Some (rd (syscall_table k) (unat eax))) (\<lambda>f.
     case f of None \<Rightarrow> Some (Inl NullDeref)
     | Some Fn_printl \<Rightarrow> bind_ro (printl (con (mach k)) (text_at ebx)) (\<lambda>c.
         Some (Inr (k\<lparr>mach := (mach k)\<lparr>con := c\<rparr>\<rparr>, None)))
     | Some Fn_foo \<Rightarrow> Some (Inr (k, Some (foo ebx ecx)))
     | Some Fn_terminate_process \<Rightarrow> bind_ro (terminate_process (mach k)) (\<lambda>m. Some (Inr (k\<lparr>mach := m\<rparr>, Some 0))))"

end
