(* ===== verification/Ts_Common.thy ===== *)
theory Ts_Common
  imports Ts_Prelude
begin

text \<open>
  Helpers of \<^verbatim>\<open>kernel/common.c\<close>: \<open>min\<close>, \<open>max\<close> and the two bit scans. A bit scan walks the
  mask \<open>pat\<close>, an \<open>int\<close>, over the eight bits of a byte and returns the position, or -1.
\<close>

unbundle bit_operations_syntax

section \<open>Operations\<close>

definition c_max :: "int \<Rightarrow> int \<Rightarrow> int" where
  "c_max a b = (if a > b then a else b)"

definition c_min :: "int \<Rightarrow> int \<Rightarrow> int" where
  "c_min a b = (if a < b then a else b)"

function first_set_bit_loop :: "u8 \<Rightarrow> nat \<Rightarrow> u32 \<Rightarrow> int" where
  "first_set_bit_loop byte i pat =
     (if i < 8 then
        if pat AND ucast byte \<noteq> 0 then int i
        else first_set_bit_loop byte (i + 1) (push_bit 1 pat)
      else - 1)"
  by auto
termination by (relation "measure (\<lambda>(_, i, _). 8 - i)") auto

definition first_set_bit :: "u8 \<Rightarrow> int" where
  "first_set_bit byte = first_set_bit_loop byte 0 1"

function first_clr_bit_loop :: "u8 \<Rightarrow> nat \<Rightarrow> u32 \<Rightarrow> int" where
  "first_clr_bit_loop byte i pat =
     (if i < 8 then
        if pat AND ucast byte = 0 then int i
        else first_clr_bit_loop byte (i + 1) (push_bit 1 pat)
      else - 1)"
  by auto
termination by (relation "measure (\<lambda>(_, i, _). 8 - i)") auto

definition first_clr_bit :: "u8 \<Rightarrow> int" where
  "first_clr_bit byte = first_clr_bit_loop byte 0 1"

declare first_set_bit_loop.simps [simp del] first_clr_bit_loop.simps [simp del]

section \<open>Bits of a byte\<close>

lemma c_max_max [c_arith]: "c_max a b = max a b"
  by (simp add: c_max_def max_def)

lemma c_min_min [c_arith]: "c_min a b = min a b"
  by (simp add: c_min_def min_def)

lemma mask_bit_test:
  assumes "i < 8"
  shows "push_bit i (1 :: u32) AND ucast (byte :: u8) = 0 \<longleftrightarrow> \<not> bit byte i"
proof
  assume z: "push_bit i (1 :: u32) AND ucast byte = 0"
  have "bit (push_bit i (1 :: u32) AND ucast byte) i = bit byte i"
    using assms by (simp add: bit_simps)
  then show "\<not> bit byte i" using z by simp
next
  assume n: "\<not> bit byte i"
  show "push_bit i (1 :: u32) AND ucast byte = 0"
    by (rule bit_word_eqI) (use n in \<open>auto simp: bit_simps\<close>)
qed

lemma byte_all_ones: "(byte :: u8) = 255 \<longleftrightarrow> (\<forall>k<8. bit byte k)"
proof
  assume "byte = 255"
  then have "byte = - 1" by simp
  then show "\<forall>k<8. bit byte k" by (simp add: bit_simps)
next
  assume b: "\<forall>k<8. bit byte k"
  have "byte = - 1" by (rule bit_word_eqI) (use b in \<open>simp add: bit_simps\<close>)
  then show "byte = 255" by simp
qed

lemma push_bit_Suc_1: "push_bit 1 (push_bit i (1 :: u32)) = push_bit (i + 1) 1"
  by (simp add: push_bit_push_bit add.commute)

lemma first_clr_bit_loop_step:
  "i < 8 \<Longrightarrow> first_clr_bit_loop byte i (push_bit i 1) =
     (if bit byte i then first_clr_bit_loop byte (i + 1) (push_bit (i + 1) 1) else int i)"
  by (subst first_clr_bit_loop.simps) (simp only: mask_bit_test push_bit_Suc_1 if_True not_not if_not_P split: if_split, simp)

lemma first_set_bit_loop_step:
  "i < 8 \<Longrightarrow> first_set_bit_loop byte i (push_bit i 1) =
     (if bit byte i then int i else first_set_bit_loop byte (i + 1) (push_bit (i + 1) 1))"
  by (subst first_set_bit_loop.simps) (simp only: mask_bit_test push_bit_Suc_1 if_True not_not)

lemma first_clr_bit_loop_spec:
  assumes "i \<le> 8" "\<forall>k<i. bit byte k"
  shows "(\<exists>k. first_clr_bit_loop byte i (push_bit i 1) = int k \<and> k < 8 \<and> \<not> bit byte k \<and> (\<forall>j<k. bit byte j))
       \<or> first_clr_bit_loop byte i (push_bit i 1) = - 1 \<and> (\<forall>j<8. bit byte j)"
  using assms
proof (induction "8 - i" arbitrary: i)
  case 0
  then show ?case by (simp add: first_clr_bit_loop.simps)
next
  case (Suc n)
  then have i: "i < 8" by simp
  show ?case
  proof (cases "bit byte i")
    case True
    have "\<forall>k<i + 1. bit byte k" using Suc.prems(2) True by (simp add: less_Suc_eq)
    moreover have "n = 8 - (i + 1)" "i + 1 \<le> 8" using Suc.hyps(2) by simp_all
    ultimately show ?thesis
      unfolding first_clr_bit_loop_step [OF i] if_P [OF True] using Suc.hyps(1) by blast
  next
    case False
    then show ?thesis unfolding first_clr_bit_loop_step [OF i] if_not_P [OF False]
      using i Suc.prems(2) by blast
  qed
qed

lemma first_clr_bit_cases:
  obtains k where "first_clr_bit byte = int k" "k < 8" "\<not> bit byte k" "\<forall>j<k. bit byte j"
  | "first_clr_bit byte = - 1" "byte = 255"
  unfolding byte_all_ones using first_clr_bit_loop_spec [of 0 byte] by (auto simp: first_clr_bit_def)

text \<open>The scan for a set bit is the scan for a clear bit of the complement.\<close>

lemma first_set_bit_loop_compl:
  "i \<le> 8 \<Longrightarrow> first_set_bit_loop byte i (push_bit i 1) = first_clr_bit_loop (NOT byte) i (push_bit i 1)"
proof (induction "8 - i" arbitrary: i)
  case 0
  then show ?case by (simp add: first_clr_bit_loop.simps first_set_bit_loop.simps)
next
  case (Suc n)
  then have i: "i < 8" by simp
  then have "bit (NOT byte) i = (\<not> bit byte i)" by (simp add: bit_simps)
  moreover have "first_set_bit_loop byte (i + 1) (push_bit (i + 1) 1) =
      first_clr_bit_loop (NOT byte) (i + 1) (push_bit (i + 1) 1)"
    using Suc.hyps(2) i by (intro Suc.hyps(1)) simp_all
  ultimately show ?case unfolding first_clr_bit_loop_step [OF i] first_set_bit_loop_step [OF i] by simp
qed

lemma first_set_bit_compl: "first_set_bit byte = first_clr_bit (NOT byte)"
  using first_set_bit_loop_compl [of 0 byte] by (simp add: first_set_bit_def first_clr_bit_def)

end
