(* ===== verification/Ts_Frame.thy ===== *)
theory Ts_Frame
  imports Ts_Common
begin

text \<open>
  The physical frame allocator (\<^verbatim>\<open>kernel/frame.c\<close>).

  A bitmap of \<open>MAX_FRAME_NUM\<close> bytes holds one bit per 4096-byte frame, 1 for a busy frame. The
  model keeps the bytes as a function of the index and checks every index against the size of
  the array. Addresses are 32-bit numbers (\<open>add32\<close>). The search ends because the bitmap index
  grows at every step and running out of the array is an error. The warning printed for
  \<open>min_addr = 0\<close> is left out.
\<close>

section \<open>Operations\<close>

type_synonym bitmap = "nat \<Rightarrow> u8"

abbreviation (input) FRAME_SIZE :: nat where "FRAME_SIZE \<equiv> 4096"
abbreviation (input) MAX_FRAME_NUM :: nat where "MAX_FRAME_NUM \<equiv> 32768"  \<comment> \<open>\<open>MAX_MEM_SIZE / FRAME_SIZE\<close>\<close>
abbreviation (input) MB :: nat where "MB \<equiv> 1048576"

definition FRAME_NB :: "nat \<Rightarrow> nat" where
  "FRAME_NB addr = addr div FRAME_SIZE"

definition FRAME_BSET :: "bitmap \<Rightarrow> nat \<Rightarrow> bitmap res" where
  "FRAME_BSET bm addr = (let i = FRAME_NB addr div 8 in
     if i < MAX_FRAME_NUM then Inr (bm(i := bm i OR push_bit (FRAME_NB addr mod 8) 1))
     else Inl OutOfBounds)"

definition FRAME_BCLR :: "bitmap \<Rightarrow> nat \<Rightarrow> bitmap res" where
  "FRAME_BCLR bm addr = (let i = FRAME_NB addr div 8 in
     if i < MAX_FRAME_NUM then Inr (bm(i := bm i AND NOT (push_bit (FRAME_NB addr mod 8) 1)))
     else Inl OutOfBounds)"

definition FRAME_BGET :: "bitmap \<Rightarrow> nat \<Rightarrow> nat res" where
  "FRAME_BGET bm addr = (let i = FRAME_NB addr div 8 in
     if i < MAX_FRAME_NUM
     then Inr (if bm i AND push_bit (FRAME_NB addr mod 8) 1 \<noteq> 0 then 1 else 0)
     else Inl OutOfBounds)"

definition frame_status :: "bitmap \<Rightarrow> nat \<Rightarrow> nat res" where
  "frame_status bm addr = FRAME_BGET bm addr"

definition clear_frame :: "bitmap \<Rightarrow> nat \<Rightarrow> bitmap res" where
  "clear_frame bm addr = FRAME_BCLR bm addr"

function get_idle_frame_loop :: "bitmap \<Rightarrow> nat \<Rightarrow> nat \<Rightarrow> nat \<Rightarrow> nat res" where
  "get_idle_frame_loop bm max_addr frame_idx frame_addr =
     (if frame_addr < max_addr then
        if frame_idx div 8 < MAX_FRAME_NUM then
          if bm (frame_idx div 8) \<noteq> 255 then
            let bit_offset = first_clr_bit (bm (frame_idx div 8));
                found = add32 frame_addr (nat ((bit_offset * int FRAME_SIZE) mod 4294967296))
            in if max_addr < add32 found FRAME_SIZE then Inr 0 else Inr found
          else get_idle_frame_loop bm max_addr (add32 frame_idx 8) (add32 frame_addr (8 * FRAME_SIZE))
        else Inl OutOfBounds
      else Inl (AssertFail ''no empty frame ...''))"
  by auto
termination by (relation "measure (\<lambda>(_, _, frame_idx, _). 8 * MAX_FRAME_NUM - frame_idx)")
    (auto simp: c_arith)

declare get_idle_frame_loop.simps [simp del]

definition get_idle_frame_addr :: "bitmap \<Rightarrow> nat \<Rightarrow> nat \<Rightarrow> nat res" where
  "get_idle_frame_addr bm min_addr max_addr =
     (let min_addr = (if min_addr mod FRAME_SIZE \<noteq> 0
            then add32 (sub32 min_addr (min_addr mod FRAME_SIZE)) FRAME_SIZE else min_addr);
          frame_idx = FRAME_NB min_addr;
          frame_addr = mul32 frame_idx FRAME_SIZE
      in get_idle_frame_loop bm max_addr frame_idx frame_addr)"

definition alloc_frame :: "bitmap \<Rightarrow> nat \<Rightarrow> nat \<Rightarrow> (bitmap \<times> nat) res" where
  "alloc_frame bm min_addr max_addr =
     bind_res (get_idle_frame_addr bm min_addr max_addr) (\<lambda>base.
     if base = 0 then Inr (bm, 0)
     else bind_res (FRAME_BSET bm base) (\<lambda>bm'. Inr (bm', base)))"

text \<open>
  The self test \<open>test_frame\<close> only prints a numbered message for a check that fails; the model
  returns the numbers printed.
\<close>

definition frame_check :: "bool \<Rightarrow> nat \<Rightarrow> nat list \<Rightarrow> nat list" where
  "frame_check ok n errs = (if ok then errs else errs @ [n])"

definition test_frame_tail :: "bitmap \<Rightarrow> nat list \<Rightarrow> (bitmap \<times> nat list) res" where
  "test_frame_tail bm e =
     bind_res (clear_frame bm (8 * MB + FRAME_SIZE)) (\<lambda>bm.
     bind_res (frame_status bm (8 * MB + FRAME_SIZE)) (\<lambda>status2.
     let e = frame_check (status2 = 0) 6 e in
     bind_res (alloc_frame bm (8 * MB) (16 * MB)) (\<lambda>(bm, addr).
     let e = frame_check (addr = 8 * MB + FRAME_SIZE) 7 e in
     bind_res (clear_frame bm (8 * MB)) (\<lambda>bm.
     bind_res (alloc_frame bm (8 * MB) (16 * MB)) (\<lambda>(bm, addr).
     let e = frame_check (addr = 8 * MB) 8 e in
     bind_res (clear_frame bm (8 * MB)) (\<lambda>bm.
     bind_res (clear_frame bm (8 * MB + FRAME_SIZE)) (\<lambda>bm.
     bind_res (alloc_frame bm (8 * MB) (16 * MB)) (\<lambda>(bm, addr).
     let e = frame_check (addr = 8 * MB) 9 e in
     bind_res (alloc_frame bm (8 * MB) (16 * MB)) (\<lambda>(bm, addr).
     Inr (bm, frame_check (addr = 8 * MB + FRAME_SIZE) 10 e))))))))))"

definition test_frame :: "bitmap \<Rightarrow> (bitmap \<times> nat list) res" where
  "test_frame bm =
     bind_res (alloc_frame bm (8 * MB) (16 * MB)) (\<lambda>(bm, addr).
     let e = frame_check (addr = 8 * MB) 1 [] in
     bind_res (alloc_frame bm (8 * MB) (16 * MB)) (\<lambda>(bm, addr).
     let e = frame_check (addr = 8 * MB + FRAME_SIZE) 2 e in
     bind_res (alloc_frame bm (8 * MB) (16 * MB)) (\<lambda>(bm, addr).
     let e = frame_check (addr = 8 * MB + 2 * FRAME_SIZE) 3 e in
     bind_res (alloc_frame bm (7 * MB) (8 * MB)) (\<lambda>(bm, addr).
     let e = frame_check (addr = 7 * MB) 4 e in
     bind_res (frame_status bm (8 * MB)) (\<lambda>status1.
     bind_res (frame_status bm (8 * MB + FRAME_SIZE)) (\<lambda>status2.
     bind_res (frame_status bm (8 * MB + 2 * FRAME_SIZE)) (\<lambda>status3.
     bind_res (frame_status bm (7 * MB)) (\<lambda>status4.
     let e = frame_check (status1 AND status2 AND status3 AND status4 = 1) 5 e
     in test_frame_tail bm e))))))))"

section \<open>Busy frames\<close>

definition busy :: "bitmap \<Rightarrow> nat set" where
  "busy bm = {n. bit (bm (n div 8)) (n mod 8)}"

lemma mem_busy: "n \<in> busy bm \<longleftrightarrow> bit (bm (n div 8)) (n mod 8)"
  by (simp add: busy_def)

lemma mod_8_eq: "n div 8 = m div 8 \<Longrightarrow> n mod 8 = m mod 8 \<Longrightarrow> n = (m :: nat)"
  by (metis div_mult_mod_eq)

lemma busy_set: "busy (bm(n div 8 := bm (n div 8) OR 2 ^ (n mod 8))) = insert n (busy bm)"
  by (auto simp: mem_busy bit_simps split: if_splits dest: mod_8_eq)

lemma busy_clr: "busy (bm(n div 8 := bm (n div 8) AND NOT (2 ^ (n mod 8)))) = busy bm - {n}"
  by (auto simp: mem_busy bit_simps split: if_splits dest: mod_8_eq)

lemma frame_index_ok: "a < 1073741824 \<Longrightarrow> a div 4096 div 8 < (32768 :: nat)"
  by (intro less_mult_imp_div_less) simp

lemma FRAME_BSET_busy:
  "a < 1073741824 \<Longrightarrow> \<exists>bm'. FRAME_BSET bm a = Inr bm' \<and> busy bm' = insert (a div 4096) (busy bm)"
  by (simp add: FRAME_BSET_def FRAME_NB_def Let_def busy_set frame_index_ok)

lemma clear_frame_busy:
  "a < 1073741824 \<Longrightarrow> \<exists>bm'. clear_frame bm a = Inr bm' \<and> busy bm' = busy bm - {a div 4096}"
  by (simp add: clear_frame_def FRAME_BCLR_def FRAME_NB_def Let_def busy_clr frame_index_ok)

lemma byte_bit_test:
  assumes "k < 8"
  shows "(b :: u8) AND push_bit k 1 \<noteq> 0 \<longleftrightarrow> bit b k"
proof -
  have "b AND push_bit k 1 = 0 \<longleftrightarrow> \<not> bit b k"
  proof
    assume "b AND push_bit k 1 = 0"
    moreover have "bit (b AND push_bit k 1) k = bit b k" using assms by (simp add: bit_simps)
    ultimately show "\<not> bit b k" by simp
  next
    assume n: "\<not> bit b k"
    show "b AND push_bit k 1 = 0" by (rule bit_word_eqI) (use n in \<open>auto simp: bit_simps\<close>)
  qed
  then show ?thesis by simp
qed

lemma frame_status_busy:
  "a < 1073741824 \<Longrightarrow> frame_status bm a = Inr (if a div 4096 \<in> busy bm then 1 else 0)"
  by (simp only: frame_status_def FRAME_BGET_def FRAME_NB_def Let_def byte_bit_test mem_busy
      mod_less_divisor zero_less_numeral) (simp add: frame_index_ok)

section \<open>The search\<close>

text \<open>The least idle frame at or after \<open>idx\<close>, as far as the group of eight frames that holds it.\<close>

definition first_idle :: "bitmap \<Rightarrow> nat \<Rightarrow> nat \<Rightarrow> bool" where
  "first_idle bm idx n \<longleftrightarrow> idx \<le> n \<and> n \<notin> busy bm \<and> (\<forall>m. idx \<le> m \<and> m < n \<longrightarrow> m \<in> busy bm)"

lemma group_of_8:
  assumes "idx mod 8 = 0" "idx \<le> m" "m < idx + (8 :: nat)"
  shows "m div 8 = idx div 8" "m mod 8 = m - idx"
proof -
  obtain q where q: "idx = 8 * q" using assms(1) by auto
  obtain j where j: "m = idx + j" "j < 8" using assms(2,3) by (auto simp: le_iff_add)
  show "m div 8 = idx div 8" "m mod 8 = m - idx" using q j by simp_all
qed

lemma group_busy:
  assumes "bm (idx div 8) = 255" "idx mod 8 = 0" "idx \<le> m" "m < idx + 8"
  shows "m \<in> busy bm"
proof -
  have "bit (bm (idx div 8)) (m mod 8)" using assms(1) unfolding byte_all_ones by simp
  then show ?thesis using group_of_8(1) [OF assms(2-4)] by (simp add: mem_busy)
qed

lemma group_first:
  assumes "first_clr_bit (bm (idx div 8)) = int k" "k < 8" "\<not> bit (bm (idx div 8)) k"
    "\<forall>j<k. bit (bm (idx div 8)) j" "idx mod 8 = 0"
  shows "first_idle bm idx (idx + k)"
proof -
  have *: "m \<in> busy bm \<longleftrightarrow> bit (bm (idx div 8)) (m - idx)" if "idx \<le> m" "m < idx + 8" for m
    using group_of_8 [OF assms(5) that] by (simp add: mem_busy)
  show ?thesis unfolding first_idle_def
    using assms(2,3,4) by (auto simp: *)
qed

lemma get_idle_frame_loop_found:
  assumes "4096 * frame_idx < max_addr" "frame_idx < 262144" "bm (frame_idx div 8) \<noteq> 255"
    "first_clr_bit (bm (frame_idx div 8)) = int k" "k < 8"
  shows "get_idle_frame_loop bm max_addr frame_idx (4096 * frame_idx) =
     Inr (if 4096 * (frame_idx + k) + 4096 \<le> max_addr then 4096 * (frame_idx + k) else 0)"
proof -
  have ix: "frame_idx div 8 < 32768" using assms(2) by (intro less_mult_imp_div_less) simp
  have k: "nat (int k * int 4096 mod 4294967296) = 4096 * k" using assms(5) by simp
  have f: "add32 (4096 * frame_idx) (4096 * k) = 4096 * (frame_idx + k)"
    and e: "add32 (4096 * (frame_idx + k)) 4096 = 4096 * (frame_idx + k) + 4096"
    using assms(2,5) by (subst add32_exact; simp)+
  show ?thesis
    by (subst get_idle_frame_loop.simps) (use assms(1,3) ix in \<open>simp only: assms(4) Let_def k f e if_True
        not_False_eq_True if_not_P not_less split: if_split\<close>, simp)
qed

lemma get_idle_frame_loop_spec:
  assumes "max_addr \<le> 1073741824" "frame_idx mod 8 = 0" "frame_idx \<le> 262144"
  shows "(\<exists>n. first_idle bm frame_idx n \<and>
           get_idle_frame_loop bm max_addr frame_idx (4096 * frame_idx) =
             Inr (if 4096 * n + 4096 \<le> max_addr then 4096 * n else 0)) \<or>
         (\<forall>n. frame_idx \<le> n \<and> 4096 * n < max_addr \<longrightarrow> n \<in> busy bm) \<and>
           get_idle_frame_loop bm max_addr frame_idx (4096 * frame_idx) =
             Inl (AssertFail ''no empty frame ...'')"
  using assms(2,3)
proof (induction "262144 - frame_idx" arbitrary: frame_idx rule: less_induct)
  case less
  show ?case
  proof (cases "4096 * frame_idx < max_addr")
    case False
    then show ?thesis by (auto simp: get_idle_frame_loop.simps)
  next
    case True
    then have lt: "frame_idx < 262144" using assms(1) by simp
    then have ix: "frame_idx div 8 < 32768" by (intro less_mult_imp_div_less) simp
    show ?thesis
    proof (cases "bm (frame_idx div 8) = 255")
      case full: True
      obtain q where "frame_idx = 8 * q" using less.prems(1) by auto
      then have lt8: "frame_idx + 8 \<le> 262144" using lt by simp
      have step: "get_idle_frame_loop bm max_addr frame_idx (4096 * frame_idx) =
          get_idle_frame_loop bm max_addr (frame_idx + 8) (4096 * (frame_idx + 8))"
        using True ix full lt8 by (subst get_idle_frame_loop.simps) (simp add: c_arith algebra_simps)
      have ext: "first_idle bm frame_idx n" if "first_idle bm (frame_idx + 8) n" for n
        using that group_busy [of bm frame_idx, OF full less.prems(1)] unfolding first_idle_def
        by (metis add_leD1 not_less)
      have bz: "\<forall>n. frame_idx \<le> n \<and> 4096 * n < max_addr \<longrightarrow> n \<in> busy bm"
        if "\<forall>n. frame_idx + 8 \<le> n \<and> 4096 * n < max_addr \<longrightarrow> n \<in> busy bm"
        using that group_busy [of bm frame_idx, OF full less.prems(1)] by (meson not_less)
      have "(frame_idx + 8) mod 8 = 0" "262144 - (frame_idx + 8) < 262144 - frame_idx"
        using less.prems(1) lt by simp_all
      from less.hyps [OF this(2,1) lt8] consider n where "first_idle bm (frame_idx + 8) n"
          "get_idle_frame_loop bm max_addr (frame_idx + 8) (4096 * (frame_idx + 8)) =
             Inr (if 4096 * n + 4096 \<le> max_addr then 4096 * n else 0)"
        | "\<forall>n. frame_idx + 8 \<le> n \<and> 4096 * n < max_addr \<longrightarrow> n \<in> busy bm"
          "get_idle_frame_loop bm max_addr (frame_idx + 8) (4096 * (frame_idx + 8)) =
             Inl (AssertFail ''no empty frame ...'')"
        by (elim disjE exE conjE)
      then show ?thesis
      proof cases
        case 1
        from ext [OF 1(1)] 1(2) show ?thesis unfolding step by blast
      next
        case 2
        from bz [OF 2(1)] 2(2) show ?thesis unfolding step by blast
      qed
    next
      case False
      then obtain k where k: "first_clr_bit (bm (frame_idx div 8)) = int k" "k < 8"
        "\<not> bit (bm (frame_idx div 8)) k" "\<forall>j<k. bit (bm (frame_idx div 8)) j"
        by (cases rule: first_clr_bit_cases [of "bm (frame_idx div 8)"]) auto
      from get_idle_frame_loop_found [of frame_idx max_addr bm, OF True lt False k(1,2)]
        group_first [of bm frame_idx, OF k less.prems(1)]
      show ?thesis by blast
    qed
  qed
qed

section \<open>Allocation\<close>

definition idle_frames :: "bitmap \<Rightarrow> nat \<Rightarrow> nat \<Rightarrow> nat set" where
  "idle_frames bm lo hi = {n. lo \<le> 4096 * n \<and> 4096 * n + 4096 \<le> hi \<and> n \<notin> busy bm}"

definition frame_range :: "nat \<Rightarrow> nat \<Rightarrow> bool" where
  "frame_range lo hi \<longleftrightarrow> 0 < lo \<and> lo mod 32768 = 0 \<and> lo \<le> 1073741824 \<and> hi \<le> 1073741824"

lemma get_idle_frame_addr_aligned:
  assumes "frame_range lo hi"
  shows "get_idle_frame_addr bm lo hi = get_idle_frame_loop bm hi (lo div 4096) (4096 * (lo div 4096))"
    and "lo div 4096 mod 8 = 0" and "lo div 4096 \<le> 262144" and "4096 * (lo div 4096) = lo"
proof -
  obtain q where q: "lo = 32768 * q" using assms by (auto simp: frame_range_def)
  moreover have "32768 * q div 4096 = 8 * q" "32768 * q mod 4096 = 0" by simp_all
  moreover have "q \<le> 32768" using assms q by (simp add: frame_range_def)
  ultimately show "get_idle_frame_addr bm lo hi = get_idle_frame_loop bm hi (lo div 4096) (4096 * (lo div 4096))"
    "lo div 4096 mod 8 = 0" "lo div 4096 \<le> 262144" "4096 * (lo div 4096) = lo"
    by (simp_all add: get_idle_frame_addr_def FRAME_NB_def c_arith)
qed

lemma first_idle_Min:
  assumes "first_idle bm (lo div 4096) n" "4096 * (lo div 4096) = lo" "4096 * n + 4096 \<le> hi"
  shows "n \<in> idle_frames bm lo hi" "Min (idle_frames bm lo hi) = n"
proof -
  have fin: "finite (idle_frames bm lo hi)"
    by (rule finite_subset [of _ "{..hi}"]) (auto simp: idle_frames_def)
  have le: "n \<le> m" if "m \<in> idle_frames bm lo hi" for m
  proof (rule ccontr)
    assume "\<not> n \<le> m"
    moreover have "lo div 4096 \<le> m" using that assms(2) by (auto simp: idle_frames_def)
    ultimately show False using that assms(1) by (auto simp: first_idle_def idle_frames_def)
  qed
  have "lo \<le> 4096 * n" using assms(1,2) by (auto simp: first_idle_def)
  then show mem: "n \<in> idle_frames bm lo hi" using assms by (simp add: idle_frames_def first_idle_def)
  show "Min (idle_frames bm lo hi) = n" using fin le mem by (intro Min_eqI) auto
qed

lemma first_idle_none:
  assumes "first_idle bm (lo div 4096) n" "4096 * (lo div 4096) = lo" "\<not> 4096 * n + 4096 \<le> hi"
  shows "idle_frames bm lo hi = {}"
proof (rule ccontr)
  assume "idle_frames bm lo hi \<noteq> {}"
  then obtain m where m: "lo \<le> 4096 * m" "4096 * m + 4096 \<le> hi" "m \<notin> busy bm"
    by (auto simp: idle_frames_def)
  then have "m < n" "lo div 4096 \<le> m" using assms(2,3) by auto
  then show False using m(3) assms(1) by (simp add: first_idle_def)
qed

lemma alloc_frame_cases:
  assumes "frame_range lo hi"
  obtains (found) bm' where "idle_frames bm lo hi \<noteq> {}"
      "alloc_frame bm lo hi = Inr (bm', 4096 * Min (idle_frames bm lo hi))"
      "busy bm' = insert (Min (idle_frames bm lo hi)) (busy bm)"
  | (none) "idle_frames bm lo hi = {}" "alloc_frame bm lo hi = Inr (bm, 0)"
  | (full) "idle_frames bm lo hi = {}"
      "alloc_frame bm lo hi = Inl (AssertFail ''no empty frame ...'')"
proof -
  note al = get_idle_frame_addr_aligned [OF assms]
  have hi: "hi \<le> 1073741824" using assms by (simp add: frame_range_def)
  from get_idle_frame_loop_spec [OF hi al(2,3), of bm]
  consider n where "first_idle bm (lo div 4096) n" "get_idle_frame_addr bm lo hi =
             Inr (if 4096 * n + 4096 \<le> hi then 4096 * n else 0)"
    | "\<forall>n. lo div 4096 \<le> n \<and> 4096 * n < hi \<longrightarrow> n \<in> busy bm"
      "get_idle_frame_addr bm lo hi = Inl (AssertFail ''no empty frame ...'')"
    unfolding al(1) [symmetric] by blast
  then show ?thesis
  proof cases
    case 1
    show ?thesis
    proof (cases "4096 * n + 4096 \<le> hi")
      case True
      obtain bm' where bm': "FRAME_BSET bm (4096 * n) = Inr bm'" "busy bm' = insert n (busy bm)"
        using FRAME_BSET_busy [of "4096 * n" bm] True hi by auto
      have "0 < n" using first_idle_Min(1) [OF 1(1) al(4) True] assms
        by (auto simp: idle_frames_def frame_range_def intro: gr0I)
      then have "alloc_frame bm lo hi = Inr (bm', 4096 * n)"
        using 1(2) True bm'(1) by (simp add: alloc_frame_def)
      then show ?thesis using found bm'(2) first_idle_Min [OF 1(1) al(4) True] by auto
    next
      case False
      then show ?thesis using none first_idle_none [OF 1(1) al(4)] 1(2) by (simp add: alloc_frame_def)
    qed
  next
    case 2
    have "lo div 4096 \<le> n" if "lo \<le> 4096 * n" for n using that al(4) by linarith
    then have "idle_frames bm lo hi = {}" using 2(1) by (fastforce simp: idle_frames_def)
    then show ?thesis using full 2(2) by (simp add: alloc_frame_def)
  qed
qed

lemma idle_Min:
  assumes "frame_range lo hi" "idle_frames bm lo hi \<noteq> {}"
  shows "lo \<le> 4096 * Min (idle_frames bm lo hi)" "4096 * Min (idle_frames bm lo hi) + 4096 \<le> hi"
    "Min (idle_frames bm lo hi) \<notin> busy bm" "0 < Min (idle_frames bm lo hi)"
proof -
  have "finite (idle_frames bm lo hi)"
    by (rule finite_subset [of _ "{..hi}"]) (auto simp: idle_frames_def)
  from Min_in [OF this assms(2)] assms(1)
  show "lo \<le> 4096 * Min (idle_frames bm lo hi)" "4096 * Min (idle_frames bm lo hi) + 4096 \<le> hi"
    "Min (idle_frames bm lo hi) \<notin> busy bm" "0 < Min (idle_frames bm lo hi)"
    by (auto simp: idle_frames_def frame_range_def intro: gr0I)
qed

section \<open>The interface\<close>

text \<open>
  What the paging code relies on: an allocator that hands out idle frames inside the range asked
  for and records them, and a release that makes one frame idle again.
\<close>

locale frame_allocator =
  fixes in_use :: "'s \<Rightarrow> nat set"
    and alloc :: "'s \<Rightarrow> nat \<Rightarrow> nat \<Rightarrow> ('s \<times> nat) res"
    and release :: "'s \<Rightarrow> nat \<Rightarrow> 's res"
    and range_ok :: "nat \<Rightarrow> nat \<Rightarrow> bool"
  assumes alloc_some: "range_ok lo hi \<Longrightarrow> alloc s lo hi = Inr (s', a) \<Longrightarrow> a \<noteq> 0 \<Longrightarrow>
      a mod 4096 = 0 \<and> lo \<le> a \<and> a + 4096 \<le> hi \<and> a div 4096 \<notin> in_use s \<and>
      in_use s' = insert (a div 4096) (in_use s)"
    and alloc_null: "range_ok lo hi \<Longrightarrow> alloc s lo hi = Inr (s', 0) \<Longrightarrow> in_use s' = in_use s"
    and alloc_total: "range_ok lo hi \<Longrightarrow> lo \<le> 4096 * n \<Longrightarrow> 4096 * n + 4096 \<le> hi \<Longrightarrow> n \<notin> in_use s \<Longrightarrow>
      \<exists>s' a. alloc s lo hi = Inr (s', a) \<and> a \<noteq> 0"
    and release_frame: "range_ok lo hi \<Longrightarrow> lo \<le> a \<Longrightarrow> a + 4096 \<le> hi \<Longrightarrow>
      \<exists>s'. release s a = Inr s' \<and> in_use s' = in_use s - {a div 4096}"
begin

text \<open>A client that asks for \<open>n\<close> frames, as the region mapper does, one at a time.\<close>

fun alloc_seq :: "nat \<Rightarrow> nat \<Rightarrow> nat \<Rightarrow> 's \<Rightarrow> ('s \<times> nat list) res" where
  "alloc_seq 0 lo hi s = Inr (s, [])"
| "alloc_seq (Suc n) lo hi s = bind_res (alloc s lo hi) (\<lambda>(s', a).
     if a = 0 then Inr (s', [])
     else bind_res (alloc_seq n lo hi s') (\<lambda>(s'', as). Inr (s'', a # as)))"

lemma alloc_seq_fresh:
  assumes "range_ok lo hi" "alloc_seq n lo hi s = Inr (s', as)"
  shows "distinct as \<and> in_use s' = (\<lambda>a. a div 4096) ` set as \<union> in_use s \<and>
    (\<forall>a \<in> set as. lo \<le> a \<and> a + 4096 \<le> hi \<and> a mod 4096 = 0 \<and> a div 4096 \<notin> in_use s)"
  using assms(2)
proof (induction n arbitrary: s s' as)
  case 0
  then show ?case by simp
next
  case (Suc n)
  from Suc.prems obtain s1 a where al: "alloc s lo hi = Inr (s1, a)"
    and rest: "(if a = 0 then Inr (s1, [])
     else bind_res (alloc_seq n lo hi s1) (\<lambda>(s'', as). Inr (s'', a # as))) = Inr (s', as)"
    by auto
  show ?case
  proof (cases "a = 0")
    case True
    then show ?thesis using rest al alloc_null [OF assms(1)] by auto
  next
    case False
    from rest False obtain bs where bs: "alloc_seq n lo hi s1 = Inr (s', bs)" "as = a # bs"
      by auto
    note new = alloc_some [OF assms(1) al False]
    note ih = Suc.IH [OF bs(1)]
    have "a \<notin> set bs" using new ih by auto
    then show ?thesis using new ih bs(2) by auto
  qed
qed

lemma alloc_release:
  assumes "range_ok lo hi" "alloc s lo hi = Inr (s', a)" "a \<noteq> 0"
  shows "\<exists>s''. release s' a = Inr s'' \<and> in_use s'' = in_use s"
  using release_frame [OF assms(1), of a s'] alloc_some [OF assms] by auto

end

interpretation kframe: frame_allocator busy alloc_frame clear_frame frame_range
proof (unfold_locales, goal_cases)
  case (1 lo hi s s' a)
  from 1(1) show ?case
  proof (cases rule: alloc_frame_cases [of _ _ s])
    case (found bm')
    have "s' = bm'" "a = 4096 * Min (idle_frames s lo hi)" using 1(2) found(2) by simp_all
    then show ?thesis using idle_Min [OF 1(1) found(1)] found(3) by simp
  qed (use 1 in simp_all)
next
  case (2 lo hi s s')
  from 2(1) show ?case
  proof (cases rule: alloc_frame_cases [of _ _ s])
    case found
    then show ?thesis using idle_Min(4) [OF 2(1) found(1)] 2(2) by simp
  qed (use 2 in simp_all)
next
  case (3 lo hi n s)
  then have ne: "idle_frames s lo hi \<noteq> {}" by (auto simp: idle_frames_def)
  from 3(1) show ?case
  proof (cases rule: alloc_frame_cases [of _ _ s])
    case found
    then show ?thesis using idle_Min(4) [OF 3(1) found(1)] by simp
  qed (use ne in simp_all)
next
  case (4 lo hi a s)
  then show ?case by (intro clear_frame_busy) (simp add: frame_range_def)
qed

text \<open>The first group of the range holds the frame: one step of the search.\<close>

lemma alloc_frame_step:
  assumes "frame_range lo hi" "lo < hi" "bm (lo div 32768) \<noteq> 255"
    "first_clr_bit (bm (lo div 32768)) = int k" "k < 8" "lo + 4096 * k + 4096 \<le> hi"
  shows "alloc_frame bm lo hi =
     Inr (bm(lo div 32768 := bm (lo div 32768) OR 2 ^ k), lo + 4096 * k)"
proof -
  have d: "lo div 4096 div 8 = lo div 32768" by (simp add: div_mult2_eq [symmetric])
  obtain q where q: "lo = 32768 * q" using assms(1) by (auto simp: frame_range_def)
  have fn: "(lo + 4096 * k) div 4096 = 8 * q + k" using q by simp
  have lt: "lo div 4096 < 262144" using assms(1,2) q by (simp add: frame_range_def)
  note al = get_idle_frame_addr_aligned [OF assms(1)]
  have "get_idle_frame_addr bm lo hi = Inr (lo + 4096 * k)"
    using get_idle_frame_loop_found [of "lo div 4096" hi bm k] al assms lt d
    by (simp add: distrib_left)
  moreover have "lo \<noteq> 0" using assms(1) by (simp add: frame_range_def)
  moreover have "8 * q div 8 = q" "(8 * q + k) div 8 = q" "(8 * q + k) mod 8 = k" "lo div 32768 = q"
    using q assms(5) by simp_all
  moreover have "q < 32768" using q assms(1,2) by (simp add: frame_range_def)
  ultimately show ?thesis by (simp add: alloc_frame_def FRAME_BSET_def FRAME_NB_def fn Let_def)
qed

lemma alloc_frame_8MB:
  "bm 256 = 0 \<Longrightarrow> alloc_frame bm 8388608 16777216 = Inr (bm(256 := 1), 8388608)"
  "bm 256 = 1 \<Longrightarrow> alloc_frame bm 8388608 16777216 = Inr (bm(256 := 3), 8392704)"
  "bm 256 = 3 \<Longrightarrow> alloc_frame bm 8388608 16777216 = Inr (bm(256 := 7), 8396800)"
  "bm 256 = 4 \<Longrightarrow> alloc_frame bm 8388608 16777216 = Inr (bm(256 := 5), 8388608)"
  "bm 256 = 5 \<Longrightarrow> alloc_frame bm 8388608 16777216 = Inr (bm(256 := 7), 8392704)"
  "bm 256 = 6 \<Longrightarrow> alloc_frame bm 8388608 16777216 = Inr (bm(256 := 7), 8388608)"
proof -
  have r: "frame_range 8388608 16777216" by (simp add: frame_range_def)
  note st = alloc_frame_step [OF r, of bm]
  have c: "first_clr_bit 0 = 0" "first_clr_bit 1 = 1" "first_clr_bit 3 = 2" "first_clr_bit 4 = 0"
    "first_clr_bit 5 = 1" "first_clr_bit 6 = 0"
    by (simp_all add: first_clr_bit_def first_clr_bit_loop.simps)
  show "bm 256 = 0 \<Longrightarrow> alloc_frame bm 8388608 16777216 = Inr (bm(256 := 1), 8388608)"
    using st [of 0] c by simp
  show "bm 256 = 1 \<Longrightarrow> alloc_frame bm 8388608 16777216 = Inr (bm(256 := 3), 8392704)"
    using st [of 1] c by simp
  show "bm 256 = 3 \<Longrightarrow> alloc_frame bm 8388608 16777216 = Inr (bm(256 := 7), 8396800)"
    using st [of 2] c by simp
  show "bm 256 = 4 \<Longrightarrow> alloc_frame bm 8388608 16777216 = Inr (bm(256 := 5), 8388608)"
    using st [of 0] c by simp
  show "bm 256 = 5 \<Longrightarrow> alloc_frame bm 8388608 16777216 = Inr (bm(256 := 7), 8392704)"
    using st [of 1] c by simp
  show "bm 256 = 6 \<Longrightarrow> alloc_frame bm 8388608 16777216 = Inr (bm(256 := 7), 8388608)"
    using st [of 0] c by simp
qed

lemma alloc_frame_7MB:
  "bm 224 = 0 \<Longrightarrow> alloc_frame bm 7340032 8388608 = Inr (bm(224 := 1), 7340032)"
  using alloc_frame_step [of 7340032 8388608 bm 0]
  by (simp add: frame_range_def first_clr_bit_def first_clr_bit_loop.simps)

section \<open>Properties\<close>

text \<open>
  C20. For a range that starts at a multiple of eight frames (as all callers of the kernel ask for),
  \<open>alloc_frame\<close> returns the least frame of the range that is idle and lies wholly inside it and marks
  exactly that frame busy; without such a frame it returns 0 and changes nothing, or stops in the
  assertion at its end.
\<close>

theorem alloc_frame_least_idle:
  assumes "frame_range lo hi"
  shows "(idle_frames bm lo hi \<noteq> {} \<longrightarrow>
      (\<exists>bm'. alloc_frame bm lo hi = Inr (bm', 4096 * Min (idle_frames bm lo hi)) \<and>
         busy bm' = insert (Min (idle_frames bm lo hi)) (busy bm))) \<and>
    (idle_frames bm lo hi = {} \<longrightarrow>
      alloc_frame bm lo hi = Inr (bm, 0) \<or>
      alloc_frame bm lo hi = Inl (AssertFail ''no empty frame ...''))"
  using assms by (cases rule: alloc_frame_cases [of _ _ bm]) auto

theorem alloc_frame_least_idle_witness:
  "frame_range 8388608 16777216 \<and> 2048 \<in> idle_frames (\<lambda>_. 0) 8388608 16777216 \<and>
   (\<exists>bm'. alloc_frame (\<lambda>_. 0) 8388608 16777216 =
       Inr (bm', 4096 * Min (idle_frames (\<lambda>_. 0) 8388608 16777216)))"
proof -
  have r: "frame_range 8388608 16777216" by (simp add: frame_range_def)
  have i: "2048 \<in> idle_frames (\<lambda>_. 0) 8388608 16777216" by (simp add: idle_frames_def mem_busy)
  then show ?thesis using r alloc_frame_least_idle [OF r, of "\<lambda>_. 0"] by blast
qed

text \<open>
  C21. Releasing a frame right after allocating it gives back the set of busy frames, and the next
  request for the same range gets the same frame again.
\<close>

theorem alloc_clear_frame_roundtrip:
  assumes "frame_range lo hi" "alloc_frame bm lo hi = Inr (bm1, a)" "a \<noteq> 0"
  shows "\<exists>bm2 bm3. clear_frame bm1 a = Inr bm2 \<and> busy bm2 = busy bm \<and>
     alloc_frame bm2 lo hi = Inr (bm3, a) \<and> busy bm3 = busy bm1"
proof -
  obtain bm2 where bm2: "clear_frame bm1 a = Inr bm2" "busy bm2 = busy bm"
    using kframe.alloc_release [OF assms] by blast
  then have eq: "idle_frames bm2 lo hi = idle_frames bm lo hi" by (simp add: idle_frames_def)
  from assms(1) have "alloc_frame bm lo hi = Inr (bm1, a) \<Longrightarrow>
      a = 4096 * Min (idle_frames bm lo hi) \<and> idle_frames bm lo hi \<noteq> {} \<and>
      busy bm1 = insert (Min (idle_frames bm lo hi)) (busy bm)"
    by (cases rule: alloc_frame_cases [of _ _ bm]) (use assms(3) in auto)
  with assms(2) eq have a: "a = 4096 * Min (idle_frames bm2 lo hi)" "idle_frames bm2 lo hi \<noteq> {}"
    "busy bm1 = insert (Min (idle_frames bm2 lo hi)) (busy bm2)" using bm2(2) by simp_all
  from assms(1) show ?thesis
    by (cases rule: alloc_frame_cases [of _ _ bm2]) (use a bm2 in auto)
qed

theorem alloc_clear_frame_roundtrip_witness:
  "\<exists>bm1 a bm2 bm3. a \<noteq> 0 \<and> alloc_frame (\<lambda>_. 0) 8388608 16777216 = Inr (bm1, a) \<and>
     clear_frame bm1 a = Inr bm2 \<and> busy bm2 = busy (\<lambda>_. 0) \<and>
     alloc_frame bm2 8388608 16777216 = Inr (bm3, a) \<and> busy bm3 = busy bm1"
proof -
  have r: "frame_range 8388608 16777216" by (simp add: frame_range_def)
  have "2048 \<notin> busy (\<lambda>_. 0)" by (simp add: mem_busy)
  then obtain bm1 a where al: "alloc_frame (\<lambda>_. 0) 8388608 16777216 = Inr (bm1, a)" "a \<noteq> 0"
    using kframe.alloc_total [OF r, of 2048 "\<lambda>_. 0"] by auto
  from alloc_clear_frame_roundtrip [OF r this] al show ?thesis by blast
qed

text \<open>
  A range that starts at any frame \<open>n\<close>, whose group of eight has an idle frame, the first one at position
  \<open>k\<close>: the search takes \<open>k\<close> as an offset from the start of the range and not from the group, so that
  \<open>alloc_frame\<close> returns frame \<open>n + k\<close>, busy or not. Unless \<open>n\<close> is a multiple of eight this may be a frame in
  use; the callers in the kernel pass multiples of eight.
\<close>

lemma alloc_frame_offset:
  assumes n: "0 < n" "n + 8 \<le> 262144" and k: "k < 8" "8 * (n div 8) + k \<notin> busy bm" "\<forall>j<k. 8 * (n div 8) + j \<in> busy bm"
    and hi: "4096 * (n + k) + 4096 \<le> hi"
  shows "\<exists>bm'. alloc_frame bm (4096 * n) hi = Inr (bm', 4096 * (n + k)) \<and> busy bm' = insert (n + k) (busy bm)"
proof -
  let ?b = "bm (n div 8)"
  have bits: "bit ?b j \<longleftrightarrow> 8 * (n div 8) + j \<in> busy bm" if "j < 8" for j using that by (simp add: mem_busy)
  have ne: "?b \<noteq> 255" using bits k unfolding byte_all_ones by auto
  have c: "first_clr_bit ?b = int k"
  proof (cases rule: first_clr_bit_cases [of ?b])
    case (1 i)
    then have "i = k" using bits k by (metis linorder_neqE_nat)
    with 1 show ?thesis by simp
  qed (use ne in simp)
  have "get_idle_frame_addr bm (4096 * n) hi = get_idle_frame_loop bm hi n (4096 * n)"
    using n by (simp add: get_idle_frame_addr_def FRAME_NB_def c_arith mult.commute)
  also have "\<dots> = Inr (4096 * (n + k))"
    using get_idle_frame_loop_found [of n hi bm k, OF _ _ ne c k(1)] n hi by simp
  finally have g: "get_idle_frame_addr bm (4096 * n) hi = Inr (4096 * (n + k))" .
  have "4096 * (n + k) < 1073741824" using n k(1) by simp
  from FRAME_BSET_busy [OF this, of bm] g n show ?thesis by (auto simp: alloc_frame_def)
qed

text \<open>
  The kernel's own frame test, run on an empty bitmap, reports no error.
\<close>

theorem test_frame_passes: "\<exists>bm. test_frame (\<lambda>_. 0) = Inr (bm, [])"
  by (simp add: test_frame_def test_frame_tail_def alloc_frame_8MB alloc_frame_7MB frame_check_def
      clear_frame_def frame_status_def FRAME_BCLR_def FRAME_BGET_def FRAME_NB_def)

end
