(* ===== verification/Ts_Mem.thy ===== *)
theory Ts_Mem
  imports Ts_Frame
begin

text \<open>
  Paging (\<^verbatim>\<open>kernel/mem.c\<close>, \<^verbatim>\<open>kernel/mem.h\<close>).

  \<open>paging\<close> holds the physical memory by word address, the page directory register, the paging bit and
  the frame bitmap. A pointer of the code is an address; a load or store goes through \<open>translate\<close>, the two
  levels of page tables of the processor, once paging is on, and a page that is not mapped is a
  \<^const>\<open>PageFault\<close>. Entries are 32-bit words. The early build (\<open>EARLY_INIT\<close>) runs with paging off; where
  the two builds differ both versions are given. There is no TLB in the model: every access walks the
  tables in memory, so that \<open>invlpg\<close> in \<open>delete_temp_va\<close> has no counterpart and its necessity is not
  shown. Of the flags of an entry only the present bit counts: \<open>translate\<close> ignores the bits for writing and
  for user access, so that protection faults are not modelled.
\<close>

section \<open>State and translation\<close>

record paging =
  pmem :: "nat \<Rightarrow> u32"
  cr3 :: nat
  paging_on :: bool
  frames :: bitmap

abbreviation (input) PG_DIR0_ADDR :: nat where "PG_DIR0_ADDR \<equiv> 0x100000"
abbreviation (input) KERNEL_V_START :: nat where "KERNEL_V_START \<equiv> 0xC0000000"
abbreviation (input) USER_P_START :: nat where "USER_P_START \<equiv> 0x1000000"
abbreviation (input) MAX_MEM_SIZE :: nat where "MAX_MEM_SIZE \<equiv> 0x8000000"
abbreviation (input) PAGE_P :: u32 where "PAGE_P \<equiv> 1"
abbreviation (input) PAGE_FLG_KERNEL :: u32 where "PAGE_FLG_KERNEL \<equiv> 0xB"
abbreviation (input) PAGE_FLG_USR :: u32 where "PAGE_FLG_USR \<equiv> 0xF"

definition PAGE_DIR_INDEX :: "nat \<Rightarrow> nat" where
  "PAGE_DIR_INDEX addr = addr div 0x400000"

definition PAGE_TABLE_INDEX :: "nat \<Rightarrow> nat" where
  "PAGE_TABLE_INDEX addr = addr div 0x1000 mod 0x400"

definition PAGE_OFFSET :: "nat \<Rightarrow> nat" where
  "PAGE_OFFSET addr = addr mod 0x1000"

definition PAGE_ENTRY_SET :: "u32 \<Rightarrow> bool" where
  "PAGE_ENTRY_SET e \<longleftrightarrow> e AND PAGE_P \<noteq> 0"

definition IX_TO_VA :: "nat \<Rightarrow> nat \<Rightarrow> nat" where
  "IX_TO_VA di ti = di * 0x400000 + ti * 0x1000"

definition PAGE_TABLE_PTR :: "nat \<Rightarrow> nat" where
  "PAGE_TABLE_PTR n = 0xFFC00000 + n * 0x1000"

definition DIR0_PT_PHY :: "nat \<Rightarrow> nat" where
  "DIR0_PT_PHY dir_idx = PG_DIR0_ADDR + 0x1000 + 0x1000 * dir_idx"

text \<open>The frame address in an entry, \<open>e & 0xFFFFF000\<close>.\<close>

definition ent_addr :: "u32 \<Rightarrow> nat" where
  "ent_addr e = unat (e AND 0xFFFFF000)"

text \<open>The processor.\<close>

definition translate :: "paging \<Rightarrow> nat \<Rightarrow> nat res" where
  "translate st va =
     (if \<not> paging_on st then Inr va
      else let pde = pmem st (cr3 st + 4 * PAGE_DIR_INDEX va) in
        if \<not> PAGE_ENTRY_SET pde then Inl PageFault
        else let pte = pmem st (ent_addr pde + 4 * PAGE_TABLE_INDEX va) in
          if \<not> PAGE_ENTRY_SET pte then Inl PageFault else Inr (ent_addr pte + PAGE_OFFSET va))"

definition ld :: "paging \<Rightarrow> nat \<Rightarrow> u32 res" where
  "ld st a = bind_res (translate st a) (\<lambda>p. Inr (pmem st p))"

definition sto :: "paging \<Rightarrow> nat \<Rightarrow> u32 \<Rightarrow> paging res" where
  "sto st a v = bind_res (translate st a) (\<lambda>p. Inr (st\<lparr>pmem := (pmem st)(p := v)\<rparr>))"

section \<open>Entries\<close>

text \<open>\<open>memzero\<close>, for whole words.\<close>

primrec memzero_loop :: "nat \<Rightarrow> nat list \<Rightarrow> paging \<Rightarrow> paging res" where
  "memzero_loop p [] st = Inr st"
| "memzero_loop p (i # is) st = bind_res (sto st (p + 4 * i) 0) (memzero_loop p is)"

definition memzero :: "paging \<Rightarrow> nat \<Rightarrow> nat \<Rightarrow> paging res" where
  "memzero st p sz = memzero_loop p [0..<sz div 4] st"

definition pg_dir_no_entry :: "paging \<Rightarrow> nat \<Rightarrow> nat \<Rightarrow> bool res" where
  "pg_dir_no_entry st dir va =
     bind_res (ld st (dir + 4 * PAGE_DIR_INDEX va)) (\<lambda>e. Inr (\<not> PAGE_ENTRY_SET e))"

definition pt_phy_from_dir :: "paging \<Rightarrow> nat \<Rightarrow> nat \<Rightarrow> nat res" where
  "pt_phy_from_dir st dir dir_index =
     bind_res (ld st (dir + 4 * dir_index)) (\<lambda>e.
     if PAGE_ENTRY_SET e then Inr (ent_addr e) else Inl (AssertFail ''error pt_phy_from_dir''))"

definition pg_dir_add :: "paging \<Rightarrow> nat \<Rightarrow> nat \<Rightarrow> nat \<Rightarrow> nat \<Rightarrow> u32 \<Rightarrow> (paging \<times> nat) res" where
  "pg_dir_add st dir rev_tb di pt_phy flag =
     bind_res (ld st (dir + 4 * di)) (\<lambda>ent.
     if PAGE_ENTRY_SET ent then Inr (st, 0)
     else
       bind_res (sto st (dir + 4 * di) ((of_nat pt_phy AND 0xFFFFF000) OR flag)) (\<lambda>st.
       bind_res (sto st (rev_tb + 4 * di) ((of_nat pt_phy AND 0xFFFFF000) OR PAGE_P)) (\<lambda>st.
       Inr (st, 1))))"

section \<open>Temporary mappings\<close>

text \<open>Table 1022 maps frames for a while; its entries are seen through the reverse table.\<close>

primrec lookup_temp_loop :: "paging \<Rightarrow> nat \<Rightarrow> nat list \<Rightarrow> nat res" where
  "lookup_temp_loop st pa [] = Inr 0"
| "lookup_temp_loop st pa (i # is) =
     bind_res (ld st (PAGE_TABLE_PTR 1022 + 4 * i)) (\<lambda>e.
     if PAGE_ENTRY_SET e \<and> ent_addr e = pa then Inr (IX_TO_VA 1022 i) else lookup_temp_loop st pa is)"

definition lookup_temp_va :: "paging \<Rightarrow> nat \<Rightarrow> nat res" where
  "lookup_temp_va st pa = lookup_temp_loop st pa [0..<1024]"

primrec create_temp_loop :: "paging \<Rightarrow> nat \<Rightarrow> nat list \<Rightarrow> (paging \<times> nat) res" where
  "create_temp_loop st pa [] = Inr (st, 0)"
| "create_temp_loop st pa (i # is) =
     bind_res (ld st (PAGE_TABLE_PTR 1022 + 4 * i)) (\<lambda>e.
     if \<not> PAGE_ENTRY_SET e
     then bind_res (sto st (PAGE_TABLE_PTR 1022 + 4 * i) (of_nat pa OR PAGE_FLG_KERNEL)) (\<lambda>st.
       Inr (st, IX_TO_VA 1022 i))
     else create_temp_loop st pa is)"

definition create_temp_va :: "paging \<Rightarrow> nat \<Rightarrow> (paging \<times> nat) res" where
  "create_temp_va st pa = create_temp_loop st pa [0..<1024]"

definition delete_temp_va :: "paging \<Rightarrow> nat \<Rightarrow> paging res" where
  "delete_temp_va st va = sto st (PAGE_TABLE_PTR 1022 + 4 * PAGE_TABLE_INDEX va) 0"

definition get_temp_va :: "paging \<Rightarrow> nat \<Rightarrow> (paging \<times> nat) res" where
  "get_temp_va st pa =
     bind_res (lookup_temp_va st pa) (\<lambda>p. if p \<noteq> 0 then Inr (st, p) else create_temp_va st pa)"

definition lookup_pt_temp_va :: "paging \<Rightarrow> nat \<Rightarrow> nat \<Rightarrow> nat res" where
  "lookup_pt_temp_va st dir di =
     bind_res (pt_phy_from_dir st dir di) (\<lambda>phy.
     if phy = 0 then Inl (AssertFail ''lookup_pt_temp_va'') else lookup_temp_va st phy)"

definition get_pt_va :: "paging \<Rightarrow> nat \<Rightarrow> nat \<Rightarrow> (paging \<times> nat) res" where
  "get_pt_va st dir di =
     bind_res (pt_phy_from_dir st dir di) (\<lambda>phy.
     if phy = 0 then Inl (AssertFail ''get_exist_pt_va'') else get_temp_va st phy)"

section \<open>Page tables\<close>

definition alloc_frame_st :: "paging \<Rightarrow> nat \<Rightarrow> nat \<Rightarrow> (paging \<times> nat) res" where
  "alloc_frame_st st lo hi = bind_res (alloc_frame (frames st) lo hi) (\<lambda>(bm, a). Inr (st\<lparr>frames := bm\<rparr>, a))"

definition create_page_table :: "paging \<Rightarrow> nat \<Rightarrow> nat \<Rightarrow> nat \<Rightarrow> u32 \<Rightarrow> (paging \<times> nat) res" where
  "create_page_table st dir rev_tb va flag =
     bind_res (pg_dir_no_entry st dir va) (\<lambda>none.
     if \<not> none then Inr (st, 0)
     else
       let dir_index = PAGE_DIR_INDEX va in
       bind_res (alloc_frame_st st USER_P_START MAX_MEM_SIZE) (\<lambda>(st, pt_phy).
       bind_res (create_temp_va st pt_phy) (\<lambda>(st, pt_base).
       if pt_phy = 0 \<or> pt_base = 0 then Inr (st, 0)
       else
         bind_res (memzero st pt_base 4096) (\<lambda>st.
         bind_res (sto st (dir + 4 * dir_index) (of_nat pt_phy OR flag)) (\<lambda>st.
         bind_res (if rev_tb \<noteq> 0 then sto st (rev_tb + 4 * dir_index) (of_nat pt_phy OR PAGE_P) else Inr st) (\<lambda>st.
         Inr (st, pt_base)))))))"

definition get_page_table :: "paging \<Rightarrow> nat \<Rightarrow> nat \<Rightarrow> nat \<Rightarrow> u32 \<Rightarrow> (paging \<times> nat) res" where
  "get_page_table st dir rev_tb va flag =
     bind_res (create_page_table st dir rev_tb va flag) (\<lambda>(st, pt).
     if pt \<noteq> 0 then Inr (st, pt)
     else
       bind_res (pt_phy_from_dir st dir (PAGE_DIR_INDEX va)) (\<lambda>pt_phy.
       bind_res (lookup_temp_va st pt_phy) (\<lambda>pt.
       if pt \<noteq> 0 then Inr (st, pt)
       else bind_res (create_temp_va st pt_phy) (\<lambda>(st, pt).
         if pt = 0 then Inl (AssertFail ''get pg table'') else Inr (st, pt)))))"

definition get_phy_address :: "paging \<Rightarrow> nat \<Rightarrow> nat res" where
  "get_phy_address st va =
     (let pt = 0xFFC00000 + PAGE_DIR_INDEX va * 0x1000 in
      bind_res (ld st (pt + 4 * PAGE_TABLE_INDEX va)) (\<lambda>e. Inr (ent_addr e + PAGE_OFFSET va)))"

definition get_phy_from_dir :: "paging \<Rightarrow> nat \<Rightarrow> nat \<Rightarrow> (paging \<times> nat) res" where
  "get_phy_from_dir st dir va =
     bind_res (ld st (dir + 4 * PAGE_DIR_INDEX va)) (\<lambda>e.
     if \<not> PAGE_ENTRY_SET e then Inl (AssertFail '' get_phy_from_dir page dir not set'')
     else
       bind_res (get_temp_va st (ent_addr e)) (\<lambda>(st, tb).
       bind_res (ld st (tb + 4 * PAGE_TABLE_INDEX va)) (\<lambda>pte.
       bind_res (delete_temp_va st tb) (\<lambda>st. Inr (st, ent_addr pte)))))"

definition pt_phy_from_revmap :: "paging \<Rightarrow> nat \<Rightarrow> nat \<Rightarrow> nat res" where
  "pt_phy_from_revmap st dir nb =
     bind_res (ld st (dir + 4 * nb)) (\<lambda>e.
     if \<not> PAGE_ENTRY_SET e then Inl (AssertFail ''error pt_phy_from_revma'')
     else bind_res (ld st (0xFFFFF000 + 4 * nb)) (\<lambda>r. Inr (ent_addr r)))"

definition alloc_page :: "paging \<Rightarrow> nat \<Rightarrow> nat \<Rightarrow> (paging \<times> nat \<times> nat) res" where
  "alloc_page st start_phy end_phy =
     bind_res (alloc_frame_st st start_phy end_phy) (\<lambda>(st, phy).
     bind_res (create_temp_va st phy) (\<lambda>(st, ptr).
     bind_res (memzero st ptr 4096) (\<lambda>st.
     if phy \<noteq> 0 \<and> ptr \<noteq> 0 then Inr (st, ptr, phy) else Inl (AssertFail ''allocate page''))))"

section \<open>Regions\<close>

text \<open>
  The body of the loop of \<open>request_region_vmap\<close> for one page: the new state with \<open>new_pt\<close>, \<open>pt_now\<close> and
  \<open>dir_flg\<close>.
\<close>

definition region_page ::
  "paging \<Rightarrow> nat \<Rightarrow> nat \<Rightarrow> u32 \<Rightarrow> nat \<Rightarrow> nat \<Rightarrow> u32 \<Rightarrow> (paging \<times> nat \<times> nat \<times> u32) res" where
  "region_page st dir rev_tb flag va pt_now dir_flg =
     (let dir_flg = (if va < KERNEL_V_START then PAGE_FLG_USR else dir_flg) in
      bind_res (create_page_table st dir rev_tb va dir_flg) (\<lambda>(st, new_pt).
      bind_res
        (if new_pt \<noteq> 0
         then bind_res (if pt_now \<noteq> 0 then delete_temp_va st pt_now else Inr st) (\<lambda>st. Inr (st, new_pt))
         else if pt_now = 0 then get_pt_va st dir (PAGE_DIR_INDEX va) else Inr (st, pt_now)) (\<lambda>(st, pt_now).
      bind_res (ld st (pt_now + 4 * PAGE_TABLE_INDEX va)) (\<lambda>e.
      if PAGE_ENTRY_SET e then Inr (st, new_pt, pt_now, dir_flg)
      else
        bind_res (alloc_page st USER_P_START MAX_MEM_SIZE) (\<lambda>(st, page, frame_phy).
        bind_res (sto st (pt_now + 4 * PAGE_TABLE_INDEX va) (of_nat frame_phy OR flag)) (\<lambda>st.
        bind_res (delete_temp_va st page) (\<lambda>st. Inr (st, new_pt, pt_now, dir_flg))))))))"

text \<open>
  The loop \<open>for (va = va_start; va <= va_end; va += FRAME_SIZE)\<close>. For \<open>va_end = 0xFFFFF000\<close> the counter wraps
  around and the loop does not end.
\<close>

partial_function (option) region_loop ::
  "paging \<Rightarrow> nat \<Rightarrow> nat \<Rightarrow> u32 \<Rightarrow> nat \<Rightarrow> nat \<Rightarrow> nat \<Rightarrow> nat \<Rightarrow> u32 \<Rightarrow> (paging \<times> nat) res option" where
  "region_loop st dir rev_tb flag va_end va new_pt pt_now dir_flg =
     (if va \<le> va_end
      then bind_ro (Some (region_page st dir rev_tb flag va pt_now dir_flg)) (\<lambda>(st, new_pt, pt_now, dir_flg).
        region_loop st dir rev_tb flag va_end (add32 va 4096) new_pt pt_now dir_flg)
      else Some (Inr (st, new_pt)))"

definition request_region_vmap :: "paging \<Rightarrow> nat \<Rightarrow> nat \<Rightarrow> nat \<Rightarrow> u32 \<Rightarrow> (paging \<times> nat) res option" where
  "request_region_vmap st dir va_start sz flag =
     (let va_end = add32 va_start sz div 4096 * 4096; va_start = va_start div 4096 * 4096 in
      bind_ro (Some (lookup_pt_temp_va st dir 1023)) (\<lambda>rev_tb.
      bind_ro (Some (if rev_tb = 0 then bind_res (get_pt_va st dir 1023) (\<lambda>(st, r). Inr (st, r, True))
                     else Inr (st, rev_tb, False))) (\<lambda>(st, rev_tb, new_rev_va_flg).
      bind_ro (region_loop st dir rev_tb flag va_end va_start 0 0 PAGE_FLG_KERNEL) (\<lambda>(st, new_pt).
      bind_ro (Some (if new_pt \<noteq> 0 then delete_temp_va st new_pt else Inr st)) (\<lambda>st.
      bind_ro (Some (if new_rev_va_flg then delete_temp_va st rev_tb else Inr st)) (\<lambda>st.
      Some (Inr (st, 1))))))))"

section \<open>Early set-up\<close>

definition create_page_table_early :: "paging \<Rightarrow> nat \<Rightarrow> nat \<Rightarrow> nat \<Rightarrow> u32 \<Rightarrow> (paging \<times> nat) res" where
  "create_page_table_early st dir rev_tb va flag =
     bind_res (pg_dir_no_entry st dir va) (\<lambda>none.
     if \<not> none then Inr (st, 0)
     else
       let dir_index = PAGE_DIR_INDEX va; pt_phy = DIR0_PT_PHY dir_index; pt_base = pt_phy in
       bind_res (memzero st pt_base 4096) (\<lambda>st.
       bind_res (sto st (dir + 4 * dir_index) (of_nat pt_phy OR flag)) (\<lambda>st.
       bind_res (if rev_tb \<noteq> 0 then sto st (rev_tb + 4 * dir_index) (of_nat pt_phy OR PAGE_P) else Inr st) (\<lambda>st.
       Inr (st, pt_base)))))"

definition init_pg_dir0 :: "paging \<Rightarrow> paging res" where
  "init_pg_dir0 st =
     (let rev_tb_phy = DIR0_PT_PHY 1023; sys_tb_phy = DIR0_PT_PHY 1022 in
      bind_res (memzero st PG_DIR0_ADDR 4096) (\<lambda>st.
      bind_res (memzero st rev_tb_phy 4096) (\<lambda>st.
      bind_res (memzero st sys_tb_phy 4096) (\<lambda>st.
      bind_res (pg_dir_add st PG_DIR0_ADDR rev_tb_phy 1023 rev_tb_phy PAGE_FLG_KERNEL) (\<lambda>(st, _).
      bind_res (pg_dir_add st PG_DIR0_ADDR rev_tb_phy 1022 sys_tb_phy PAGE_FLG_KERNEL) (\<lambda>(st, _).
      sto st (sys_tb_phy + 4 * 1023) (of_nat PG_DIR0_ADDR OR PAGE_FLG_KERNEL)))))))"

definition set_pg_dir0_vmap :: "paging \<Rightarrow> nat \<Rightarrow> nat \<Rightarrow> u32 \<Rightarrow> paging res" where
  "set_pg_dir0_vmap st va pa flag =
     bind_res (pt_phy_from_dir st PG_DIR0_ADDR 1023) (\<lambda>rev_tb.
     bind_res (create_page_table_early st PG_DIR0_ADDR rev_tb va PAGE_FLG_KERNEL) (\<lambda>(st, pt).
     bind_res (if pt = 0 then pt_phy_from_dir st PG_DIR0_ADDR (PAGE_DIR_INDEX va) else Inr pt) (\<lambda>pt.
     sto st (pt + 4 * PAGE_TABLE_INDEX pa) (of_nat pa OR PAGE_P))))"

function vmap_loop :: "nat \<Rightarrow> nat \<Rightarrow> nat \<Rightarrow> paging \<Rightarrow> paging res" where
  "vmap_loop base limit physical_address st =
     (if physical_address < limit
      then bind_res (set_pg_dir0_vmap st (physical_address + base) physical_address PAGE_FLG_KERNEL)
        (vmap_loop base limit (physical_address + 4096))
      else Inr st)"
  by auto
termination by (relation "measure (\<lambda>(_, limit, physical_address, _). limit - physical_address)") auto

declare vmap_loop.simps [simp del]

text \<open>
  The page tables of \<open>init_pg_dir0_vmap\<close>. The calls at its end that set up the early console, \<open>vga_init\<close>,
  \<open>vga_clear_all\<close> and \<open>init_console\<close>, and its two messages are left out; they do not touch the tables.
\<close>

definition init_pg_dir0_vmap :: "paging \<Rightarrow> paging res" where
  "init_pg_dir0_vmap st =
     bind_res (init_pg_dir0 st) (\<lambda>st.
     bind_res (vmap_loop 0 0x100000 0 st) (\<lambda>st.
     vmap_loop KERNEL_V_START USER_P_START 0 st))"

definition enable_paging :: "paging \<Rightarrow> nat \<Rightarrow> paging" where
  "enable_paging st dir_addr = st\<lparr>cr3 := dir_addr, paging_on := True\<rparr>"

definition init_page_settings :: "paging \<Rightarrow> paging res" where
  "init_page_settings st = bind_res (init_pg_dir0_vmap st) (\<lambda>st. Inr (enable_paging st PG_DIR0_ADDR))"

end
