(* ===== verification/Ts_Load.thy ===== *)
theory Ts_Load
  imports Ts_Mem Ts_Task
begin

text \<open>
  Loading tasks (\<^verbatim>\<open>kernel/task.c\<close>): the address space of a new task is built from an image in memory, through
  temporary mappings of page directories, page tables and frames.

  The state is that of paging together with the scheduler; addresses are numbers below \<open>2 ^ 32\<close>. Images are
  copied byte by byte; memory is kept by words, so a byte is a part of the word at the address rounded down. The
  control block of a task and its trap frame are words in the page of its kernel stack. \<open>ret_syscall\<close> is the address of
  \<open>__ret_syscall\<close>.
\<close>

section \<open>Bytes and words\<close>

definition ldb :: "paging \<Rightarrow> nat \<Rightarrow> u8 res" where
  "ldb st a = bind_res (translate st a) (\<lambda>p. Inr (ucast (drop_bit (8 * (p mod 4)) (pmem st (p - p mod 4)))))"

definition set_byte :: "u32 \<Rightarrow> nat \<Rightarrow> u8 \<Rightarrow> u32" where
  "set_byte w k b = (w AND NOT (push_bit (8 * k) 0xFF)) OR push_bit (8 * k) (ucast b)"

definition stb :: "paging \<Rightarrow> nat \<Rightarrow> u8 \<Rightarrow> paging res" where
  "stb st a b = bind_res (translate st a) (\<lambda>p.
     Inr (st\<lparr>pmem := (pmem st)(p - p mod 4 := set_byte (pmem st (p - p mod 4)) (p mod 4) b)\<rparr>))"

text \<open>A word at any address, little endian.\<close>

definition ldw :: "paging \<Rightarrow> nat \<Rightarrow> u32 res" where
  "ldw st a =
     bind_res (ldb st a) (\<lambda>b0. bind_res (ldb st (add32 a 1)) (\<lambda>b1.
     bind_res (ldb st (add32 a 2)) (\<lambda>b2. bind_res (ldb st (add32 a 3)) (\<lambda>b3.
     Inr (ucast b0 OR push_bit 8 (ucast b1) OR push_bit 16 (ucast b2) OR push_bit 24 (ucast b3))))))"

primrec copy_bytes :: "nat \<Rightarrow> nat \<Rightarrow> nat list \<Rightarrow> paging \<Rightarrow> paging res" where
  "copy_bytes src dst [] st = Inr st"
| "copy_bytes src dst (i # is) st =
     bind_res (ldb st (add32 src i)) (\<lambda>b. bind_res (stb st (add32 dst i) b) (copy_bytes src dst is))"

section \<open>Images\<close>

record TsExHeader =
  magic :: nat
  lma_text :: nat
  vma_text :: nat
  text_size :: nat
  lma_data :: nat
  vma_data :: nat
  data_size :: nat

text \<open>The header at an address; the code reads a field each time it uses it.\<close>

definition ld_header :: "paging \<Rightarrow> nat \<Rightarrow> TsExHeader res" where
  "ld_header st a =
     bind_res (ldw st a) (\<lambda>m. bind_res (ldw st (add32 a 4)) (\<lambda>lt. bind_res (ldw st (add32 a 8)) (\<lambda>vt.
     bind_res (ldw st (add32 a 12)) (\<lambda>ts. bind_res (ldw st (add32 a 16)) (\<lambda>ld. bind_res (ldw st (add32 a 20)) (\<lambda>vd.
     bind_res (ldw st (add32 a 24)) (\<lambda>ds.
     Inr \<lparr>magic = unat m, lma_text = unat lt, vma_text = unat vt, text_size = unat ts, lma_data = unat ld, vma_data = unat vd,
       data_size = unat ds\<rparr>)))))))"

definition next_task_pos :: "paging \<Rightarrow> nat \<Rightarrow> nat res" where
  "next_task_pos st header_addr =
     bind_res (ld_header st header_addr) (\<lambda>h. Inr (add32 (add32 header_addr (lma_data h)) (data_size h)))"

text \<open>
  One of the two loops that copy a section: \<open>img_base\<close> is where the section starts in the image and \<open>sz\<close> its size in the
  header.
\<close>

partial_function (option) copy_section ::
  "nat \<Rightarrow> nat \<Rightarrow> nat \<Rightarrow> (TsExHeader \<Rightarrow> nat) \<Rightarrow> paging \<Rightarrow> nat \<Rightarrow> nat \<Rightarrow> paging res option" where
  "copy_section dir base img_base sz st vma_img vma =
     bind_ro (Some (ld_header st base)) (\<lambda>h.
     if vma_img < add32 img_base (sz h) then
       bind_ro (Some (get_phy_from_dir st dir vma)) (\<lambda>(st, page_phy).
       bind_ro (Some (create_temp_va st page_phy)) (\<lambda>(st, page).
       bind_ro (Some (copy_bytes vma_img page [0..<4096] st)) (\<lambda>st.
       bind_ro (Some (delete_temp_va st page)) (\<lambda>st.
       copy_section dir base img_base sz st (add32 vma_img 4096) (add32 vma 4096)))))
     else Some (Inr st))"

abbreviation (input) USTACK_FRAME :: nat where "USTACK_FRAME \<equiv> 0xBFFFF000"
abbreviation (input) KSTACK_VA :: nat where "KSTACK_VA \<equiv> 0xFF7FF000"

text \<open>\<open>create_task_address_space\<close>, given the address of the control block.\<close>

definition create_task_address_space :: "paging \<Rightarrow> nat \<Rightarrow> nat \<Rightarrow> paging res option" where
  "create_task_address_space st task base =
     bind_ro (Some (ld_header st base)) (\<lambda>h.
     if magic h \<noteq> 0xABCD1234 then Some (Inl (AssertFail ''load_task_from_ram''))
     else if vma_data h mod 4096 \<noteq> 0 then Some (Inl (AssertFail ''load_task_from_ram''))
     else
       bind_ro (Some (ld st (task + 4))) (\<lambda>phy_dir.
       bind_ro (Some (get_temp_va st (unat phy_dir))) (\<lambda>(st, dir).
       bind_ro (Some (ld_header st base)) (\<lambda>h.
       let img_text_base = add32 base (lma_text h); img_data_base = add32 base (lma_data h) in
       bind_ro (request_region_vmap st dir (vma_text h) (text_size h) PAGE_FLG_USR) (\<lambda>(st, _).
       bind_ro (Some (ld_header st base)) (\<lambda>h.
       bind_ro (copy_section dir base img_text_base text_size st img_text_base (vma_text h div 4096 * 4096)) (\<lambda>st.
       bind_ro (Some (ld_header st base)) (\<lambda>h.
       bind_ro (request_region_vmap st dir (vma_data h) (data_size h) PAGE_FLG_USR) (\<lambda>(st, _).
       bind_ro (Some (ld_header st base)) (\<lambda>h.
       bind_ro (copy_section dir base img_data_base data_size st img_data_base (vma_data h)) (\<lambda>st.
       bind_ro (request_region_vmap st dir USTACK_FRAME 4096 PAGE_FLG_USR) (\<lambda>(st, _).
       Some (delete_temp_va st dir)))))))))))))"

section \<open>Control blocks\<close>

definition ld_task :: "paging \<Rightarrow> nat \<Rightarrow> Task res" where
  "ld_task st a =
     bind_res (ld st a) (\<lambda>sp. bind_res (ld st (a + 4)) (\<lambda>dir. bind_res (ld st (a + 8)) (\<lambda>sp0. bind_res (ld st (a + 12)) (\<lambda>pt.
     bind_res (ld st (a + 16)) (\<lambda>t. bind_res (ld st (a + 20)) (\<lambda>sta. bind_res (ld st (a + 24)) (\<lambda>tl.
     Inr \<lparr>t_esp = sp, t_phy_dir = dir, t_esp0 = sp0, t_ptid = pt, t_tid = t, t_state = sta, t_ttl = tl\<rparr>)))))))"

text \<open>Stores words one after the other.\<close>

primrec sto_all :: "(nat \<times> u32) list \<Rightarrow> paging \<Rightarrow> paging res" where
  "sto_all [] st = Inr st"
| "sto_all (av # avs) st = bind_res (sto st (fst av) (snd av)) (sto_all avs)"

text \<open>The number of the current task; before there is one, \<open>current\<close> is \<open>NULL\<close> and the load goes to address 16.\<close>

definition current_tid :: "paging \<Rightarrow> ksched \<Rightarrow> u32 res" where
  "current_tid st s = (case current s of None \<Rightarrow> ld st 16 | Some i \<Rightarrow> bind_res (rd (task_arr s) i) (\<lambda>t. Inr (t_tid t)))"

text \<open>\<open>KSTACK_TO_TASK\<close>\<close>

definition KSTACK_TO_TASK :: "nat \<Rightarrow> nat" where
  "KSTACK_TO_TASK stack = stack + 4096 - 28"

definition alloc_kstack_and_task :: "paging \<Rightarrow> ksched \<Rightarrow> nat \<Rightarrow> (paging \<times> ksched \<times> nat) res option" where
  "alloc_kstack_and_task st s new_cr3 =
     bind_ro (Some (create_temp_va st new_cr3)) (\<lambda>(st, new_pg_dir).
     bind_ro (request_region_vmap st new_pg_dir KSTACK_VA 4096 PAGE_FLG_KERNEL) (\<lambda>(st, _).
     bind_ro (Some (get_phy_from_dir st new_pg_dir KSTACK_VA)) (\<lambda>(st, stack_phy).
     bind_ro (Some (create_temp_va st stack_phy)) (\<lambda>(st, stack).
     let task = KSTACK_TO_TASK stack in
     bind_ro (Some (sto_all [(task + 4, of_nat new_cr3), (task + 8, of_nat (KSTACK_VA + 4096 - 28 - 4))] st)) (\<lambda>st.
     bind_ro (Some (current_tid st s)) (\<lambda>ptid.
     bind_ro (Some (sto_all [(task + 12, ptid), (task + 20, TASK_PRESENT), (task + 24, 10)] st)) (\<lambda>st.
     bind_ro (Some (get_next_tid s)) (\<lambda>tid.
     bind_ro (Some (sto st (task + 16) (of_nat tid))) (\<lambda>st.
     bind_ro (Some (ld_task st task)) (\<lambda>t.
     bind_ro (Some (wr (task_arr s) (unat (t_tid t)) t)) (\<lambda>arr.
     bind_ro (Some (delete_temp_va st new_pg_dir)) (\<lambda>st.
     Some (Inr (st, s\<lparr>task_arr := arr\<rparr>, stack))))))))))))))"

section \<open>Loading\<close>

text \<open>The kernel part of a directory is that of the parent, up to entry 1021.\<close>

primrec link_kernel :: "nat \<Rightarrow> nat \<Rightarrow> nat list \<Rightarrow> paging \<Rightarrow> paging res" where
  "link_kernel parent_dir new_pg_dir [] st = Inr st"
| "link_kernel parent_dir new_pg_dir (i # is) st =
     bind_res (ld st (parent_dir + 4 * i)) (\<lambda>e. bind_res (sto st (new_pg_dir + 4 * i) e) (link_kernel parent_dir new_pg_dir is))"

text \<open>
  The trap frame below the control block: the words of the two packed structures, in the order of their fields.
\<close>

definition ContextRegister :: "string list" where
  "ContextRegister = [''eflags'', ''edi'', ''esi'', ''ebp'', ''esp'', ''ebx'', ''edx'', ''ecx'', ''eax'', ''eip'']"

definition TrapFrame :: "string list" where
  "TrapFrame = map (\<lambda>r. ''context_reg.'' @ r) ContextRegister @
     [''ds'', ''es'', ''fs'', ''gs'', ''iret_eip'', ''cs'', ''eflags'', ''iret_esp'', ''ss'']"

definition SIZEOF_TF :: nat where
  "SIZEOF_TF = 4 * length TrapFrame"

primrec index_of :: "'a list \<Rightarrow> 'a \<Rightarrow> nat" where
  "index_of [] x = 0"
| "index_of (y # ys) x = (if x = y then 0 else Suc (index_of ys x))"

definition tf_field :: "nat \<Rightarrow> string \<Rightarrow> nat" where
  "tf_field tf f = tf + 4 * index_of TrapFrame f"

definition fill_trap_frame :: "nat \<Rightarrow> u32 \<Rightarrow> paging \<Rightarrow> paging res" where
  "fill_trap_frame tf ret_syscall st =
     bind_res (memzero st tf SIZEOF_TF) (sto_all
       [(tf_field tf ''cs'', 0x1B), (tf_field tf ''context_reg.eip'', ret_syscall),
        (tf_field tf ''ss'', 0x23), (tf_field tf ''fs'', 0x23), (tf_field tf ''gs'', 0x23), (tf_field tf ''es'', 0x23), (tf_field tf ''ds'', 0x23),
        (tf_field tf ''iret_eip'', 0), (tf_field tf ''iret_esp'', of_nat (USTACK_FRAME + 4096 - 4)), (tf_field tf ''eflags'', 512)])"

definition load_task :: "u32 \<Rightarrow> paging \<Rightarrow> ksched \<Rightarrow> nat \<Rightarrow> nat \<Rightarrow> (paging \<times> ksched \<times> nat) res option" where
  "load_task ret_syscall st s parent_dir task_hd_addr =
     bind_ro (Some (alloc_page st USER_P_START MAX_MEM_SIZE)) (\<lambda>(st, new_pg_dir, new_pg_dir_phy).
     bind_ro (Some (alloc_page st USER_P_START MAX_MEM_SIZE)) (\<lambda>(st, rev_tb, rev_tb_phy).
     bind_ro (Some (alloc_page st USER_P_START MAX_MEM_SIZE)) (\<lambda>(st, sys_pg, sys_pg_phy).
     bind_ro (Some (pg_dir_add st new_pg_dir rev_tb 1023 rev_tb_phy PAGE_FLG_KERNEL)) (\<lambda>(st, _).
     bind_ro (Some (sto st (sys_pg + 4 * 1023) (of_nat new_pg_dir_phy OR PAGE_FLG_KERNEL))) (\<lambda>st.
     bind_ro (Some (pg_dir_add st new_pg_dir rev_tb 1022 sys_pg_phy PAGE_FLG_KERNEL)) (\<lambda>(st, _).
     bind_ro (Some (link_kernel parent_dir new_pg_dir [PAGE_DIR_INDEX KERNEL_V_START..<1022] st)) (\<lambda>st.
     bind_ro (alloc_kstack_and_task st s new_pg_dir_phy) (\<lambda>(st, s, kernel_stack).
     let task = KSTACK_TO_TASK kernel_stack in
     bind_ro (Some (ld st (task + 16))) (\<lambda>new_tid.
     bind_ro (create_task_address_space st task task_hd_addr) (\<lambda>st.
     bind_ro (Some (sto st task (of_nat (KSTACK_VA + 4096 - 28 - SIZEOF_TF)))) (\<lambda>st.
     bind_ro (Some (fill_trap_frame (task - SIZEOF_TF) ret_syscall st)) (\<lambda>st.
     bind_ro (Some (ld_task st task)) (\<lambda>t.
     bind_ro (Some (wr (task_arr s) (unat new_tid) t)) (\<lambda>arr.
     bind_ro (Some (delete_temp_va st new_pg_dir)) (\<lambda>st.
     bind_ro (Some (delete_temp_va st rev_tb)) (\<lambda>st.
     bind_ro (Some (delete_temp_va st sys_pg)) (\<lambda>st.
     bind_ro (Some (delete_temp_va st kernel_stack)) (\<lambda>st.
     Some (Inr (st, s\<lparr>task_arr := arr\<rparr>, unat new_tid))))))))))))))))))))"

text \<open>\<open>__context_switch\<close> loads the page directory register of the processor as well.\<close>

definition switch_to :: "paging \<Rightarrow> ksched \<Rightarrow> nat \<Rightarrow> (paging \<times> ksched) res" where
  "switch_to st s new = bind_res (context_switch' s new) (\<lambda>s. Inr (st\<lparr>cr3 := unat (reg_cr3 s)\<rparr>, s))"

abbreviation (input) pg_dir0 :: nat where "pg_dir0 \<equiv> 0xC0100000"

definition spawn_ram :: "u32 \<Rightarrow> paging \<Rightarrow> ksched \<Rightarrow> nat \<Rightarrow> (paging \<times> ksched) res option" where
  "spawn_ram ret_syscall st s base =
     bind_ro (load_task ret_syscall st s pg_dir0 base) (\<lambda>(st, s, task). Some (switch_to st s task))"

end
