(* ===== verification/Ts_Ata.thy ===== *)
theory Ts_Ata
  imports Ts_Com
begin

text \<open>
  The disk driver (\<^verbatim>\<open>drivers/ata.c\<close>, \<^verbatim>\<open>drivers/ata.h\<close>): programmed input and output on the primary master
  of an ATA controller.

  The port functions pass on the ports \<open>io\<close>, the functions that print pass on the \<open>machine\<close>; waiting
  for a drive that stays busy is \<^const>\<open>None\<close>, \<open>panic\<close> is an error. The bytes of a buffer are a list,
  and an access beyond its end is \<^const>\<open>OutOfBounds\<close>. The code passes a pointer to the device
  structure around but uses only the primary master; the pointer is left out.
\<close>

section \<open>Data\<close>

abbreviation (input) ATA_PR_MST_IO_BASE :: u16 where "ATA_PR_MST_IO_BASE \<equiv> 0x1F0"
abbreviation (input) ATA_PR_MST_CTRL_BASE :: u16 where "ATA_PR_MST_CTRL_BASE \<equiv> 0x3F6"
abbreviation (input) ATA_DATA :: u16 where "ATA_DATA \<equiv> 0"
abbreviation (input) ATA_SECCOUNT :: u16 where "ATA_SECCOUNT \<equiv> 2"
abbreviation (input) ATA_LBA0 :: u16 where "ATA_LBA0 \<equiv> 3"
abbreviation (input) ATA_LBA1 :: u16 where "ATA_LBA1 \<equiv> 4"
abbreviation (input) ATA_LBA2 :: u16 where "ATA_LBA2 \<equiv> 5"
abbreviation (input) ATA_HDDEVSEL :: u16 where "ATA_HDDEVSEL \<equiv> 6"
abbreviation (input) ATA_COMMAND :: u16 where "ATA_COMMAND \<equiv> 7"
abbreviation (input) ATA_STATUS :: u16 where "ATA_STATUS \<equiv> 7"
abbreviation (input) ATA_ALT_STATUS :: u16 where "ATA_ALT_STATUS \<equiv> 0"
abbreviation (input) ATA_DEV_CTRL :: u16 where "ATA_DEV_CTRL \<equiv> 0"
abbreviation (input) ATA_SEL_MASTER :: u8 where "ATA_SEL_MASTER \<equiv> 0xA0"
abbreviation (input) ATA_STATUS_BSY :: u8 where "ATA_STATUS_BSY \<equiv> 0x80"
abbreviation (input) ATA_STATUS_DRDY :: u8 where "ATA_STATUS_DRDY \<equiv> 0x40"
abbreviation (input) ATA_STATUS_ERR :: u8 where "ATA_STATUS_ERR \<equiv> 1"
abbreviation (input) ATA_STATUS_DF :: u8 where "ATA_STATUS_DF \<equiv> 0x20"
abbreviation (input) ATA_STATUS_DRQ :: u8 where "ATA_STATUS_DRQ \<equiv> 8"
abbreviation (input) ATA_CMD_READ_SECTORS :: u8 where "ATA_CMD_READ_SECTORS \<equiv> 0x20"
abbreviation (input) ATA_CMD_WRITE_SECTORS :: u8 where "ATA_CMD_WRITE_SECTORS \<equiv> 0x30"

record IDE_Device =
  is_ata :: nat
  channel :: nat
  drive :: nat
  dtype :: nat
  signature :: nat
  dma_support :: nat
  lba_support :: nat
  lba48_support :: nat
  cylinders :: nat
  heads :: nat
  sectors :: nat
  major :: nat
  lba_num :: nat

record Disk_IO_Command =
  lba_start :: nat
  sec_num :: nat
  io_buf :: "char list"
  buf_size :: nat

section \<open>Identification\<close>

text \<open>Element \<open>k\<close> of the buffer as an array of 16-bit words, which are little endian.\<close>

definition le16 :: "char list \<Rightarrow> nat \<Rightarrow> nat" where
  "le16 b i = of_char (b ! i) + 256 * of_char (b ! (i + 1))"

definition rd16 :: "char list \<Rightarrow> nat \<Rightarrow> nat res" where
  "rd16 b i = (if i + 1 < length b then Inr (le16 b i) else Inl OutOfBounds)"

text \<open>
  The number of sectors is computed as \<open>w << 16 + v\<close>, which shifts by the sum. The processor takes a
  shift count modulo 32.
\<close>

definition parse_identify_command :: "machine \<Rightarrow> IDE_Device \<Rightarrow> char list \<Rightarrow> (machine \<times> IDE_Device) res option" where
  "parse_identify_command m d b =
     bind_ro (Some (rd16 b 0)) (\<lambda>info.
     if info div 32768 mod 2 = 0 then
       let d = d\<lparr>is_ata := 1\<rparr> in
       bind_ro (Some (rd16 b (2 * 80))) (\<lambda>mj.
       let d = d\<lparr>major := mj\<rparr> in
       if major d = 0 \<or> major d = 65535 then Some (Inl (Panic ''don't support ata major number''))
       else if of_nat (major d) AND (0x70 :: u32) \<noteq> 0x70 then
         bind_ro (print_hex (con m) (major d)) (\<lambda>c.
         bind_ro (printl c [NUL]) (\<lambda>c. Some (Inl (Panic ''support ata protocol error''))))
       else
         bind_ro (Some (rd16 b (2 * 49))) (\<lambda>cap.
         let d = d\<lparr>dma_support := cap div 256 mod 2, lba_support := cap div 512 mod 2\<rparr> in
         if lba_support d = 0 then Some (Inl (Panic ''ata device don't support lba''))
         else
           bind_ro (Some (rd16 b (2 * 1))) (\<lambda>cyl. bind_ro (Some (rd16 b (2 * 3))) (\<lambda>hd.
           bind_ro (Some (rd16 b (2 * 6))) (\<lambda>sec. bind_ro (Some (rd16 b (2 * 83))) (\<lambda>cmds.
           bind_ro (Some (rd16 b (2 * 61))) (\<lambda>hi. bind_ro (Some (rd16 b (2 * 60))) (\<lambda>lo.
           Some (Inr (m, d\<lparr>cylinders := cyl, heads := hd, sectors := sec, lba48_support := cmds div 1024 mod 2,
             lba_num := unat (push_bit ((16 + lo) mod 32) (of_nat hi :: u32))\<rparr>))))))))))
     else Some (Inl (Panic ''ata identity: not ata'')))"

definition print_field :: "console \<Rightarrow> string \<Rightarrow> nat \<Rightarrow> console res option" where
  "print_field c s v =
     bind_ro (printstr c (s @ [NUL]) 0) (\<lambda>c. bind_ro (print_hex c v) (\<lambda>c. printl c [NUL]))"

definition summary_ide_device :: "console \<Rightarrow> IDE_Device \<Rightarrow> console res option" where
  "summary_ide_device c d =
     bind_ro (print_field c ''Is ATA: '' (is_ata d)) (\<lambda>c.
     bind_ro (print_field c ''HEAD: '' (heads d)) (\<lambda>c.
     bind_ro (print_field c ''Cylinder: '' (cylinders d)) (\<lambda>c.
     bind_ro (print_field c ''Sector: '' (sectors d)) (\<lambda>c.
     bind_ro (print_field c ''LBA Support: '' (lba_support d)) (\<lambda>c.
     bind_ro (print_field c ''LBA 48: '' (lba48_support d)) (\<lambda>c.
     print_field c ''#LBA '' (lba_num d)))))))"

section \<open>Waiting\<close>

text \<open>A read of a port whose value is not used.\<close>

definition read_ignore :: "u16 \<Rightarrow> io \<Rightarrow> io" where
  "read_ignore port p = snd (inb p port)"

definition ata_wait :: "io \<Rightarrow> io" where
  "ata_wait p = (read_ignore (ATA_PR_MST_CTRL_BASE + ATA_ALT_STATUS) ^^ 4) p"

text \<open>The loop \<open>do state = inb(...); while (state & ATA_STATUS_BSY);\<close>.\<close>

partial_function (option) wait_not_bsy :: "io \<Rightarrow> io option" where
  "wait_not_bsy p =
     (let (state, p) = inb p (ATA_PR_MST_IO_BASE + ATA_STATUS)
      in if state AND ATA_STATUS_BSY \<noteq> 0 then wait_not_bsy p else Some p)"

definition ata_poll_bsy :: "io \<Rightarrow> (u8 \<times> io) res option" where
  "ata_poll_bsy p = Option.bind (wait_not_bsy p) (\<lambda>p.
     let (state, p) = inb p (ATA_PR_MST_CTRL_BASE + ATA_ALT_STATUS)
     in if state AND ATA_STATUS_ERR \<noteq> 0 \<or> state AND ATA_STATUS_DF \<noteq> 0
        then Some (Inl (Panic ''ata pollling err'')) else Some (Inr (state, p)))"

definition ata_poll_drdy :: "io \<Rightarrow> io option" where
  "ata_poll_drdy p = poll (ATA_PR_MST_IO_BASE + ATA_STATUS) ATA_STATUS_DRDY p"

text \<open>The operands of the test are promoted to \<open>int\<close> before the complement.\<close>

definition ata_poll_bsy_drq :: "io \<Rightarrow> u32 \<Rightarrow> (u8 \<times> io) res option" where
  "ata_poll_bsy_drq p set_drq = bind_ro (ata_poll_bsy p) (\<lambda>(state, p).
     if (push_bit 3 set_drq AND ucast state) OR (NOT (ucast state) AND NOT (push_bit 3 set_drq)) \<noteq> 0
     then Some (Inr (state, p)) else Some (Inl (Panic ''ata polling drq error'')))"

section \<open>Buffers\<close>

text \<open>\<open>ata_read_buffer\<close> and \<open>ata_write_buffer\<close> transfer \<open>cnt\<close> bytes from offset \<open>off\<close> of the buffer.\<close>

function ata_read_buffer_loop :: "io \<Rightarrow> char list \<Rightarrow> nat \<Rightarrow> nat \<Rightarrow> nat \<Rightarrow> (io \<times> char list) res option" where
  "ata_read_buffer_loop p b off cnt i =
     (if i < cnt then
        bind_ro (ata_poll_bsy_drq p 1) (\<lambda>(_, p).
        let (data, p) = inw p (ATA_PR_MST_IO_BASE + ATA_DATA) in
        bind_ro (Some (wr b (off + i) (byte_chr (ucast (data AND 0xFF))))) (\<lambda>b.
        bind_ro (Some (wr b (off + i + 1) (byte_chr (ucast (drop_bit 8 data AND 0xFF))))) (\<lambda>b.
        ata_read_buffer_loop p b off cnt (i + 2))))
      else Some (Inr (p, b)))"
  by auto
termination by (relation "measure (\<lambda>(_, _, _, cnt, i). cnt - i)") auto

definition ata_read_buffer :: "io \<Rightarrow> char list \<Rightarrow> nat \<Rightarrow> nat \<Rightarrow> (io \<times> char list) res option" where
  "ata_read_buffer p b off cnt = ata_read_buffer_loop p b off cnt 0"

function ata_write_buffer_loop :: "io \<Rightarrow> char list \<Rightarrow> nat \<Rightarrow> nat \<Rightarrow> nat \<Rightarrow> io res option" where
  "ata_write_buffer_loop p b off cnt i =
     (if i < cnt then
        bind_ro (ata_poll_bsy_drq p 1) (\<lambda>(_, p).
        bind_ro (Some (rd b (off + i))) (\<lambda>lo. bind_ro (Some (rd b (off + i + 1))) (\<lambda>hi.
        ata_write_buffer_loop
          (outw p (ATA_PR_MST_IO_BASE + ATA_DATA) (ucast (chr_byte lo) + push_bit 8 (ucast (chr_byte hi))))
          b off cnt (i + 2))))
      else Some (Inr p))"
  by auto
termination by (relation "measure (\<lambda>(_, _, _, cnt, i). cnt - i)") auto

definition ata_write_buffer :: "io \<Rightarrow> char list \<Rightarrow> nat \<Rightarrow> nat \<Rightarrow> io res option" where
  "ata_write_buffer p b off cnt = ata_write_buffer_loop p b off cnt 0"

declare ata_read_buffer_loop.simps [simp del] ata_write_buffer_loop.simps [simp del]

section \<open>Commands\<close>

definition ata_soft_reset :: "machine \<Rightarrow> machine res option" where
  "ata_soft_reset m =
     bind_ro (ata_poll_bsy (pio m)) (\<lambda>(_, p).
     let p = outb p (ATA_PR_MST_IO_BASE + ATA_HDDEVSEL) ATA_SEL_MASTER in
     bind_ro (ata_poll_bsy p) (\<lambda>(_, p).
     let p = outb p ATA_PR_MST_CTRL_BASE 4;
         p = read_ignore (ATA_PR_MST_CTRL_BASE + ATA_ALT_STATUS) p;
         p = outb p ATA_PR_MST_CTRL_BASE 0;
         p = (read_ignore (ATA_PR_MST_CTRL_BASE + ATA_ALT_STATUS) ^^ 21) p in
     Option.bind (wait_not_bsy p) (\<lambda>p.
     let (cl, p) = inb p (ATA_PR_MST_IO_BASE + ATA_LBA0);
         (cm, p) = inb p (ATA_PR_MST_IO_BASE + ATA_LBA1);
         (ch, p) = inb p (ATA_PR_MST_IO_BASE + ATA_LBA2) in
     bind_ro (ata_poll_bsy_drq p 0) (\<lambda>(_, p).
     bind_ro (printl (con m) (''ATA signatures'' @ [NUL])) (\<lambda>c.
     bind_ro (print_hex c (unat cl)) (\<lambda>c. bind_ro (printl c [NUL]) (\<lambda>c.
     bind_ro (print_hex c (unat cm)) (\<lambda>c. bind_ro (printl c [NUL]) (\<lambda>c.
     bind_ro (print_hex c (unat ch)) (\<lambda>c. bind_ro (printl c [NUL]) (\<lambda>c.
     Some (Inr (m\<lparr>con := c, pio := p\<rparr>)))))))))))))"

text \<open>The global \<open>buffer\<close> of 1024 bytes and the global \<open>ide_device\<close> are arguments.\<close>

definition ata_detect :: "machine \<Rightarrow> IDE_Device \<Rightarrow> char list \<Rightarrow> (machine \<times> IDE_Device \<times> char list) res option" where
  "ata_detect m ide_device buffer =
     (let p = outb (pio m) (ATA_PR_MST_IO_BASE + ATA_HDDEVSEL) ATA_SEL_MASTER in
     bind_ro (ata_poll_bsy_drq p 0) (\<lambda>(_, p).
     Option.bind (ata_poll_drdy p) (\<lambda>p.
     let p = outb p (ATA_PR_MST_IO_BASE + ATA_SECCOUNT) 0;
         p = outb p (ATA_PR_MST_IO_BASE + ATA_LBA0) 0;
         p = outb p (ATA_PR_MST_IO_BASE + ATA_LBA1) 0;
         p = outb p (ATA_PR_MST_IO_BASE + ATA_LBA2) 0;
         p = outb p (ATA_PR_MST_IO_BASE + ATA_COMMAND) 0xEC;
         p = ata_wait p;
         (status, p) = inb p (ATA_PR_MST_IO_BASE + ATA_STATUS) in
     if status = 0 then Some (Inl (Panic ''ata device not found'')) else
     let p = read_ignore (ATA_PR_MST_IO_BASE + ATA_LBA0) p;
         p = read_ignore (ATA_PR_MST_IO_BASE + ATA_LBA1) p;
         p = read_ignore (ATA_PR_MST_IO_BASE + ATA_LBA2) p in
     bind_ro (ata_poll_bsy_drq p 0) (\<lambda>(_, p).
     bind_ro (ata_read_buffer p buffer 0 256) (\<lambda>(p, buffer).
     bind_ro (parse_identify_command (m\<lparr>pio := p\<rparr>) ide_device buffer) (\<lambda>(m, ide_device).
     bind_ro (summary_ide_device (con m) ide_device) (\<lambda>c.
     Some (Inr (m\<lparr>con := c, pio := ata_wait (pio m)\<rparr>, ide_device, buffer)))))))))"

text \<open>The registers that \<open>ata_read_sector\<close> and \<open>ata_write_sector\<close> fill before the command.\<close>

definition select_sector :: "io \<Rightarrow> nat \<Rightarrow> nat \<Rightarrow> u8 \<Rightarrow> io res option" where
  "select_sector p lba n command =
     (let p = outb p (ATA_PR_MST_IO_BASE + ATA_HDDEVSEL) (0xE0 OR of_nat (lba div 16777216 mod 16)) in
     bind_ro (ata_poll_bsy_drq p 0) (\<lambda>(_, p).
     Option.bind (ata_poll_drdy p) (\<lambda>p.
     let p = outb p (ATA_PR_MST_CTRL_BASE + ATA_DEV_CTRL) 2;
         p = outb p (ATA_PR_MST_IO_BASE + ATA_SECCOUNT) (of_nat n);
         p = outb p (ATA_PR_MST_IO_BASE + ATA_LBA0) (of_nat (lba mod 256));
         p = outb p (ATA_PR_MST_IO_BASE + ATA_LBA1) (of_nat (lba div 256 mod 256));
         p = outb p (ATA_PR_MST_IO_BASE + ATA_LBA2) (of_nat (lba div 65536 mod 256));
         p = outb p (ATA_PR_MST_IO_BASE + ATA_COMMAND) command in
     Some (Inr (ata_wait p)))))"

fun read_sectors_loop :: "io \<Rightarrow> char list \<Rightarrow> nat list \<Rightarrow> (io \<times> char list) res option" where
  "read_sectors_loop p b [] = Some (Inr (p, b))"
| "read_sectors_loop p b (i # is) =
     bind_ro (if i > 0 then bind_ro (ata_poll_bsy_drq p 1) (\<lambda>(_, p). Some (Inr p)) else Some (Inr p)) (\<lambda>p.
     bind_ro (ata_read_buffer p b (512 * i) 512) (\<lambda>(p, b). read_sectors_loop p b is))"

definition ata_read_sector :: "machine \<Rightarrow> Disk_IO_Command \<Rightarrow> (machine \<times> char list \<times> nat) res option" where
  "ata_read_sector m command =
     (let n = (if buf_size command div 512 < sec_num command then buf_size command div 512 else sec_num command) in
     if n = 0 then
       bind_ro (printl (con m) (''ata: read_sector ->F 0 sectors'' @ [NUL])) (\<lambda>c.
       Some (Inr (m\<lparr>con := c\<rparr>, io_buf command, 0)))
     else
       bind_ro (select_sector (pio m) (lba_start command) n ATA_CMD_READ_SECTORS) (\<lambda>p.
       bind_ro (read_sectors_loop p (io_buf command) [0..<n]) (\<lambda>(p, b).
       Some (Inr (m\<lparr>pio := p\<rparr>, b, n)))))"

fun write_sectors_loop :: "io \<Rightarrow> char list \<Rightarrow> nat list \<Rightarrow> io res option" where
  "write_sectors_loop p b [] = Some (Inr p)"
| "write_sectors_loop p b (i # is) =
     bind_ro (if i > 0 then
         bind_ro (ata_poll_bsy_drq (read_ignore (ATA_PR_MST_CTRL_BASE + ATA_ALT_STATUS) p) 1) (\<lambda>(_, p). Some (Inr p))
       else Some (Inr p)) (\<lambda>p.
     bind_ro (ata_write_buffer p b (mul32 512 i) 512) (\<lambda>p. write_sectors_loop p b is))"

definition ata_write_sector :: "machine \<Rightarrow> Disk_IO_Command \<Rightarrow> (machine \<times> nat) res option" where
  "ata_write_sector m command =
     bind_ro (select_sector (pio m) (lba_start command) (sec_num command) ATA_CMD_WRITE_SECTORS) (\<lambda>p.
     bind_ro (write_sectors_loop p (io_buf command) [0..<sec_num command]) (\<lambda>p.
     let p = read_ignore (ATA_PR_MST_CTRL_BASE + ATA_ALT_STATUS) p in
     bind_ro (ata_poll_bsy_drq p 0) (\<lambda>(_, p).
     Option.bind (ata_poll_drdy p) (\<lambda>p.
     let p = ata_wait (outb p (ATA_PR_MST_IO_BASE + ATA_COMMAND) 0xE7) in
     bind_ro (ata_poll_bsy_drq p 0) (\<lambda>(_, p).
     Some (Inr (m\<lparr>pio := p\<rparr>, sec_num command)))))))"

end
