(* ===== verification/Ts_Fat.thy ===== *)
theory Ts_Fat
  imports Ts_Ata Ts_Common
begin

text \<open>
  The FAT16 file system (\<^verbatim>\<open>fs/fat16.c\<close>, \<^verbatim>\<open>fs/fat16.h\<close>): data structures, names and paths, the volume, the
  file allocation table, clusters and directory entries.

  Numbers are natural numbers; the code's conversions to 16 and 32 bits are written out. A sector or
  cluster is the list of its bytes, and the packed structures are decoded from and encoded into
  it. A local array starts with whatever the stack holds, given by \<open>stk\<close>. A loop over the disk that does
  not end is \<^const>\<open>None\<close>; an access outside a buffer and a division by zero are errors. The volume is
  not changed once it is set up, so that a file holds it by value.
\<close>

section \<open>Numbers\<close>

definition to_u32 :: "int \<Rightarrow> nat" where
  "to_u32 i = nat (i mod 4294967296)"

definition udiv :: "nat \<Rightarrow> nat \<Rightarrow> nat res" where
  "udiv a b = (if b = 0 then Inl DivideError else Inr (a div b))"

definition umod :: "nat \<Rightarrow> nat \<Rightarrow> nat res" where
  "umod a b = (if b = 0 then Inl DivideError else Inr (a mod b))"

text \<open>Division of an \<open>int\<close>, given by its bits, and the function \<open>min\<close>, which takes \<open>int\<close> arguments.\<close>

definition idiv :: "nat \<Rightarrow> nat \<Rightarrow> nat res" where
  "idiv a b = (if b = 0 then Inl DivideError else Inr (to_u32 (c_div (to_int32 a) (int b))))"

definition imin :: "nat \<Rightarrow> nat \<Rightarrow> nat" where
  "imin a b = to_u32 (c_min (to_int32 a) (to_int32 b))"

section \<open>Structures\<close>

definition le32 :: "char list \<Rightarrow> nat \<Rightarrow> nat" where
  "le32 b i = le16 b i + 65536 * le16 b (i + 2)"

definition bytes16 :: "nat \<Rightarrow> char list" where
  "bytes16 n = [char_of (n mod 256), char_of (n div 256 mod 256)]"

definition bytes32 :: "nat \<Rightarrow> char list" where
  "bytes32 n = bytes16 (n mod 65536) @ bytes16 (n div 65536)"

record FatSuperBlock =
  jmp_instrction :: "char list"
  oem_name :: "char list"
  bytes_per_sector :: nat
  sectors_per_cluster :: nat
  reserve_sectors :: nat
  fat_num :: nat
  root_ents_num :: nat
  small_sectors_num :: nat
  media_desc :: nat
  sectors_fat :: nat
  sectors_per_track :: nat
  head_num :: nat
  hidden_sectors :: nat
  large_sectors_num :: nat

definition superblock_at :: "char list \<Rightarrow> FatSuperBlock" where
  "superblock_at b =
     \<lparr>jmp_instrction = take 3 b, oem_name = take 8 (drop 3 b), bytes_per_sector = le16 b 11,
      sectors_per_cluster = of_char (b ! 13), reserve_sectors = le16 b 14, fat_num = of_char (b ! 16),
      root_ents_num = le16 b 17, small_sectors_num = le16 b 19, media_desc = of_char (b ! 21), sectors_fat = le16 b 22,
      sectors_per_track = le16 b 24, head_num = le16 b 26, hidden_sectors = le32 b 28, large_sectors_num = le32 b 32\<rparr>"

record FatDirEntry =
  filename :: "char list"
  ext :: "char list"
  attr :: nat
  reserved :: char
  create_mill :: nat
  create_time :: nat
  create_date :: nat
  last_access :: nat
  reserve_32 :: nat
  last_wtime :: nat
  last_wdate :: nat
  start_cluster :: nat
  file_size :: nat

definition dirent_at :: "char list \<Rightarrow> nat \<Rightarrow> FatDirEntry" where
  "dirent_at blk p = (let b = drop p blk in
     \<lparr>filename = take 8 b, ext = take 3 (drop 8 b), attr = of_char (b ! 11), reserved = b ! 12, create_mill = of_char (b ! 13),
      create_time = le16 b 14, create_date = le16 b 16, last_access = le16 b 18, reserve_32 = le16 b 20,
      last_wtime = le16 b 22, last_wdate = le16 b 24, start_cluster = le16 b 26, file_size = le32 b 28\<rparr>)"

definition dirent_bytes :: "FatDirEntry \<Rightarrow> char list" where
  "dirent_bytes e = filename e @ ext e @ [char_of (attr e), reserved e, char_of (create_mill e)] @ bytes16 (create_time e) @
     bytes16 (create_date e) @ bytes16 (last_access e) @ bytes16 (reserve_32 e) @ bytes16 (last_wtime e) @
     bytes16 (last_wdate e) @ bytes16 (start_cluster e) @ bytes32 (file_size e)"

definition rd_dirent :: "char list \<Rightarrow> nat \<Rightarrow> FatDirEntry res" where
  "rd_dirent blk p = (if p + 32 \<le> length blk then Inr (dirent_at blk p) else Inl OutOfBounds)"

text \<open>Stores bytes, for example of a structure, at an offset of a block.\<close>

definition put_bytes :: "char list \<Rightarrow> nat \<Rightarrow> char list \<Rightarrow> char list res" where
  "put_bytes blk p bs = (if p + length bs \<le> length blk then Inr (take p blk @ bs @ drop (p + length bs) blk) else Inl OutOfBounds)"

record Fat16Volume =
  sb :: FatSuperBlock
  root :: FatDirEntry
  root_sectors :: nat
  volume_start :: nat
  fat_start :: nat
  root_dir_start :: nat
  data_start :: nat
  cluster_bytes :: nat

text \<open>
  A file; \<open>file_ptr\<close>, \<open>path_ptr\<close> and \<open>dirent_ptr\<close> are the heap blocks of the structure, its path and its directory
  entry, zero for \<open>NULL\<close>.
\<close>

record Fat16File =
  file_ptr :: nat
  path_ptr :: nat
  path :: "char list"
  volume :: Fat16Volume
  dirent_ptr :: nat
  dirent :: FatDirEntry
  dirent_sector :: nat
  dirent_cluster :: nat
  current_cluster :: nat
  byte_offset :: nat
  flag :: u32

abbreviation (input) FAT_CLUS_ROOT :: nat where "FAT_CLUS_ROOT \<equiv> 0"
abbreviation (input) ENT_ATTR_DIR :: u32 where "ENT_ATTR_DIR \<equiv> 0x10"
abbreviation (input) FAT16_CTL_DIR :: u32 where "FAT16_CTL_DIR \<equiv> 1"
abbreviation (input) FAT16_CTL_WRITE :: u32 where "FAT16_CTL_WRITE \<equiv> 2"
abbreviation (input) FAT16_CTL_APPEND :: u32 where "FAT16_CTL_APPEND \<equiv> 4"
abbreviation (input) FAT16_CTL_CREATE :: u32 where "FAT16_CTL_CREATE \<equiv> 8"
abbreviation (input) FAT16_CTL_IS_ROOT :: u32 where "FAT16_CTL_IS_ROOT \<equiv> 0x80000000"
abbreviation (input) FAT_FILE_EOF :: int where "FAT_FILE_EOF \<equiv> - 1"

definition FAT_CLUS_NORMAL :: "nat \<Rightarrow> bool" where
  "FAT_CLUS_NORMAL c \<longleftrightarrow> 3 \<le> c \<and> c \<le> 0xFFEF"

definition FAT_CLUS_FREE :: "nat \<Rightarrow> bool" where
  "FAT_CLUS_FREE c \<longleftrightarrow> c = 0"

definition FAT_CLUS_EOF :: "nat \<Rightarrow> bool" where
  "FAT_CLUS_EOF c \<longleftrightarrow> 0xFFF8 \<le> c \<and> c \<le> 0xFFFF"

definition local_buf :: "(nat \<Rightarrow> char) \<Rightarrow> nat \<Rightarrow> char list" where
  "local_buf stk n = map stk [0..<n]"

section \<open>Heap blocks\<close>

definition fs_alloc :: "machine \<Rightarrow> nat \<Rightarrow> (machine \<times> nat) res option" where
  "fs_alloc m n = map_option (\<lambda>(h, a). Inr (m\<lparr>con := (con m)\<lparr>kernel_heap := h\<rparr>\<rparr>, a)) (kmalloc (kernel_heap (con m)) n)"

definition fs_free :: "machine \<Rightarrow> nat \<Rightarrow> machine res option" where
  "fs_free m a = map_option (\<lambda>h. Inr (m\<lparr>con := (con m)\<lparr>kernel_heap := h\<rparr>\<rparr>)) (kfree (kernel_heap (con m)) a)"

definition new_fat16_file ::
  "machine \<Rightarrow> char list option \<Rightarrow> Fat16Volume \<Rightarrow> (nat \<times> FatDirEntry) option \<Rightarrow> u32 \<Rightarrow> (machine \<times> Fat16File) res option" where
  "new_fat16_file m pth vol ent flg =
     bind_ro (fs_alloc m 28) (\<lambda>(m, f).
     bind_ro (case ent of
         None \<Rightarrow> bind_ro (fs_alloc m 32) (\<lambda>(m, d). Some (Inr (m, d, dirent_at (map (ram (con m)) [d..<d + 32]) 0, 0xFF)))
       | Some (d, e) \<Rightarrow> Some (Inr (m, d, e, start_cluster e))) (\<lambda>(m, d, e, cur).
     if f = 0 then Some (Inl NullDeref) else
     bind_ro (case pth of
         None \<Rightarrow> Some (Inr (m, 0, []))
       | Some s \<Rightarrow>
           bind_ro (Some (strlen s 0)) (\<lambda>n. bind_ro (fs_alloc m (add32 n 1)) (\<lambda>(m, q).
           bind_ro (Some (strcpy (Some (s, 0)) (if q = 0 then None else Some (buffer_at (ram (con m)) q (n + 1), 0)))) (\<lambda>r.
           Some (Inr (m, q, case r of None \<Rightarrow> [] | Some b \<Rightarrow> b)))))) (\<lambda>(m, q, s).
     Some (Inr (m, \<lparr>file_ptr = f, path_ptr = q, path = s, volume = vol, dirent_ptr = d, dirent = e, dirent_sector = 0xFF,
       dirent_cluster = 0xFF, current_cluster = cur, byte_offset = 0, flag = flg\<rparr>)))))"

definition fat_close :: "machine \<Rightarrow> Fat16File \<Rightarrow> machine res option" where
  "fat_close m f =
     bind_ro (if path_ptr f \<noteq> 0 then fs_free m (path_ptr f) else Some (Inr m)) (\<lambda>m.
     bind_ro (fs_free m (dirent_ptr f)) (\<lambda>m. fs_free m (file_ptr f)))"

section \<open>Names and paths\<close>

text \<open>The loops \<open>while (path <= p && P(*p)) --p;\<close> of \<open>get_filename\<close>.\<close>

function skip_back :: "(char \<Rightarrow> bool) \<Rightarrow> char list \<Rightarrow> int \<Rightarrow> int" where
  "skip_back P s p = (if 0 \<le> p \<and> P (s ! nat p) then skip_back P s (p - 1) else p)"
  by auto
termination by (relation "measure (\<lambda>(_, _, p). nat (p + 1))") auto

declare skip_back.simps [simp del]

definition get_filename :: "char list option \<Rightarrow> char list \<Rightarrow> (nat option \<times> char list) res" where
  "get_filename pth b =
     (case pth of None \<Rightarrow> Inr (None, b)
      | Some s \<Rightarrow>
          bind_res (strlen s 0) (\<lambda>l.
          let p = skip_back (\<lambda>c. c = CHR ''/'') s (int l - 1) in
          if p < 0 then Inr (None, b)
          else let q = p; p = skip_back (\<lambda>c. c \<noteq> CHR ''/'') s p + 1 in
            bind_res (memcpy s (nat p) b 0 (nat (q - p + 1))) (\<lambda>b.
            bind_res (wr b (nat (q - p + 1)) NUL) (\<lambda>b. Inr (Some (nat p), b)))))"

text \<open>The last slash that is followed by another character.\<close>

function basedir_loop :: "char list \<Rightarrow> nat \<Rightarrow> nat option \<Rightarrow> nat option res" where
  "basedir_loop s i d =
     (if i < length s then
        if s ! i = NUL then Inr d
        else bind_res (rd s (i + 1)) (\<lambda>c. basedir_loop s (i + 1) (if s ! i = CHR ''/'' \<and> c \<noteq> NUL then Some i else d))
      else Inl OutOfBounds)"
  by auto
termination by (relation "measure (\<lambda>(s, i, _). length s - i)") auto

declare basedir_loop.simps [simp del]

text \<open>
  \<open>get_basedir\<close> of the path \<open>s\<close> at the address \<open>pa\<close>; the result is the position of the slash in the path, or \<^const>\<open>None\<close> for
  \<open>NULL\<close>. The test \<open>!(s-d)\<close> compares with the end of the path, which no slash is at, and is never true. Without a slash
  \<open>d\<close> is \<open>NULL\<close>: the number \<open>d-path+1\<close> of bytes to copy is then \<open>1 - pa\<close> in 32 bits, and the same number, as a signed one, is the
  index of the final store.
\<close>

definition get_basedir :: "nat \<Rightarrow> char list \<Rightarrow> char list \<Rightarrow> (nat option \<times> char list) res" where
  "get_basedir pa s b =
     bind_res (basedir_loop s 0 None) (\<lambda>r.
     let n = (case r of Some d \<Rightarrow> int d + 1 | None \<Rightarrow> to_int32 (nat ((1 - int pa) mod 4294967296))) in
     bind_res (memcpy s 0 b 0 (of_int32 n)) (\<lambda>b.
     if n < 0 then Inl OutOfBounds else bind_res (wr b (nat n) NUL) (\<lambda>b. Inr (r, b))))"

text \<open>\<open>memcpy\<close> of nine bytes reads beyond the end of a shorter name; the bytes after the name are part of the argument.\<close>

definition fat16_pad :: "char list \<Rightarrow> char list \<Rightarrow> char list res" where
  "fat16_pad b s = bind_res (memcpy s 0 b 0 9) (\<lambda>b. bind_res (str_pad b (CHR '' '') 8) (\<lambda>b. wr b 8 (CHR '' '')))"

fun upper_loop :: "char list \<Rightarrow> nat list \<Rightarrow> char list res" where
  "upper_loop b [] = Inr b"
| "upper_loop b (i # is) = bind_res (rd b i) (\<lambda>c. bind_res (wr b i (upper_case c)) (\<lambda>b. upper_loop b is))"

definition fat16_filename_fmt :: "char list \<Rightarrow> char list \<Rightarrow> char list res" where
  "fat16_filename_fmt b s = bind_res (fat16_pad b s) (\<lambda>b. upper_loop b [0..<9])"

definition is_directory :: "FatDirEntry \<Rightarrow> bool" where
  "is_directory e \<longleftrightarrow> of_nat (attr e) AND ENT_ATTR_DIR \<noteq> 0"

definition fat_filename_match :: "FatDirEntry \<Rightarrow> char list \<Rightarrow> bool res" where
  "fat_filename_match e name = bind_res (str_equal_range (filename e) name 0 7) (\<lambda>r. Inr (r \<noteq> 0))"

function search_name_in_block :: "char list \<Rightarrow> nat \<Rightarrow> char list \<Rightarrow> nat \<Rightarrow> nat option res" where
  "search_name_in_block blk bsize name p =
     (if p < bsize then
        bind_res (rd_dirent blk p) (\<lambda>e.
        bind_res (if FAT_CLUS_FREE (start_cluster e) then Inr False else fat_filename_match e name) (\<lambda>hit.
        if hit then Inr (Some p) else search_name_in_block blk bsize name (p + 32)))
      else Inr None)"
  by auto
termination by (relation "measure (\<lambda>(_, bsize, _, p). bsize - p)") auto

declare search_name_in_block.simps [simp del]

section \<open>The volume\<close>

definition fat16_get_superblock :: "machine \<Rightarrow> (nat \<Rightarrow> char) \<Rightarrow> FatSuperBlock \<Rightarrow> (machine \<times> FatSuperBlock \<times> int) res option" where
  "fat16_get_superblock m stk s =
     bind_ro (ata_read_sector m \<lparr>lba_start = 0, sec_num = 1, io_buf = local_buf stk 512, buf_size = 512\<rparr>) (\<lambda>(m, b, n).
     if n < 1 then
       bind_ro (printl (con m) (''fat 16 read superblock 512 bytes failed'' @ [NUL])) (\<lambda>c. Some (Inr (m\<lparr>con := c\<rparr>, s, - 1)))
     else Some (Inr (m, superblock_at b, 1)))"

definition zero_dirent :: FatDirEntry where
  "zero_dirent = dirent_at (replicate 32 NUL) 0"

definition fat_get_volume :: "machine \<Rightarrow> (nat \<Rightarrow> char) \<Rightarrow> Fat16Volume option \<Rightarrow> (machine \<times> Fat16Volume option \<times> int) res option" where
  "fat_get_volume m stk v =
     (case v of None \<Rightarrow> bind_ro (printl (con m) (''null volume device'' @ [NUL])) (\<lambda>c. Some (Inr (m\<lparr>con := c\<rparr>, None, - 1)))
      | Some vol \<Rightarrow>
          bind_ro (fat16_get_superblock m stk (sb vol)) (\<lambda>(m, s, _).
          let vstart = hidden_sectors s mod 65536;
              fstart = (vstart + reserve_sectors s) mod 65536;
              rstart = (fstart + sectors_fat s * fat_num s) mod 65536
          in bind_ro (Some (udiv (root_ents_num s * 32) (bytes_per_sector s))) (\<lambda>k.
             bind_ro (Some (udiv (root_ents_num s * 32 + bytes_per_sector s - 1) (bytes_per_sector s))) (\<lambda>rs.
             Some (Inr (m, Some (vol\<lparr>sb := s, volume_start := vstart, fat_start := fstart, root_dir_start := rstart,
               data_start := (rstart + k) mod 65536, cluster_bytes := sectors_per_cluster s * bytes_per_sector s,
               root_sectors := rs, root := zero_dirent\<rparr>), 1))))))"

definition fat16_display_super_block :: "console \<Rightarrow> FatSuperBlock \<Rightarrow> console res option" where
  "fat16_display_super_block c s =
     bind_ro (print_field c ''bytes_per_sector: '' (bytes_per_sector s)) (\<lambda>c.
     bind_ro (print_field c ''sectors_per_cluster: '' (sectors_per_cluster s)) (\<lambda>c.
     bind_ro (print_field c ''reserve_sectors: '' (reserve_sectors s)) (\<lambda>c.
     bind_ro (print_field c ''fat_num: '' (fat_num s)) (\<lambda>c.
     bind_ro (print_field c ''root_ents_num: '' (root_ents_num s)) (\<lambda>c.
     bind_ro (print_field c ''small_sectors_num: '' (small_sectors_num s)) (\<lambda>c.
     bind_ro (print_field c ''sectors_fat: '' (sectors_fat s)) (\<lambda>c.
     bind_ro (print_field c ''sectors_per_track: '' (sectors_per_track s)) (\<lambda>c.
     bind_ro (print_field c ''head_num: '' (head_num s)) (\<lambda>c.
     bind_ro (print_field c ''hidden_sectors: '' (hidden_sectors s)) (\<lambda>c.
     print_field c ''large_sectors_num: '' (large_sectors_num s)))))))))))"

primrec dump_fat_loop :: "console \<Rightarrow> char list \<Rightarrow> nat list \<Rightarrow> console res option" where
  "dump_fat_loop c b [] = Some (Inr c)"
| "dump_fat_loop c b (i # is) =
     bind_ro (Some (rd16 b (2 * i))) (\<lambda>v. bind_ro (print_hex c v) (\<lambda>c.
     bind_ro (printstr c ('' '' @ [NUL]) 0) (\<lambda>c. dump_fat_loop c b is)))"

definition dump_fat :: "machine \<Rightarrow> Fat16Volume \<Rightarrow> machine res option" where
  "dump_fat m vol =
     bind_ro (printl (con m) (''dump fats:'' @ [NUL])) (\<lambda>c.
     bind_ro (ata_read_sector (m\<lparr>con := c\<rparr>) \<lparr>lba_start = fat_start vol, sec_num = 4, io_buf = replicate 4096 NUL, buf_size = 4096\<rparr>)
       (\<lambda>(m, b, _). bind_ro (dump_fat_loop (con m) b [0..<16]) (\<lambda>c. Some (Inr (m\<lparr>con := c\<rparr>)))))"

section \<open>Clusters and the allocation table\<close>

text \<open>The first sector of a cluster.\<close>

definition cluster_lba :: "Fat16Volume \<Rightarrow> int \<Rightarrow> nat" where
  "cluster_lba vol c = to_u32 (int (data_start vol) + (c - 2) * int (sectors_per_cluster (sb vol)))"

primrec write_cluster_loop :: "nat \<Rightarrow> machine \<Rightarrow> Disk_IO_Command \<Rightarrow> machine res option" where
  "write_cluster_loop 0 m cmd = Some (Inr m)"
| "write_cluster_loop (Suc n) m cmd =
     bind_ro (ata_write_sector m cmd) (\<lambda>(m, k). write_cluster_loop n m (cmd\<lparr>lba_start := add32 (lba_start cmd) k\<rparr>))"

definition fat_write_cluster :: "machine \<Rightarrow> Fat16Volume \<Rightarrow> char list \<Rightarrow> int \<Rightarrow> nat \<Rightarrow> machine res option" where
  "fat_write_cluster m vol b cluster_start sec_n =
     write_cluster_loop sec_n m \<lparr>lba_start = cluster_lba vol cluster_start, sec_num = sectors_per_cluster (sb vol),
       io_buf = b, buf_size = cluster_bytes vol\<rparr>"

definition fat_read_cluster :: "machine \<Rightarrow> Fat16Volume \<Rightarrow> nat \<Rightarrow> char list \<Rightarrow> (machine \<times> char list \<times> nat) res option" where
  "fat_read_cluster m vol cluster b =
     ata_read_sector m \<lparr>lba_start = cluster_lba vol (int (cluster mod 65536)), sec_num = sectors_per_cluster (sb vol),
       io_buf = b, buf_size = cluster_bytes vol\<rparr>"

definition read_fat :: "machine \<Rightarrow> Fat16Volume \<Rightarrow> nat \<Rightarrow> char list \<Rightarrow> (machine \<times> char list \<times> nat) res option" where
  "read_fat m vol cluster b =
     bind_ro (Some (udiv (cluster * 2) (bytes_per_sector (sb vol)))) (\<lambda>k.
     let fat_sector = (fat_start vol + k) mod 65536 in
     bind_ro (ata_read_sector m \<lparr>lba_start = fat_sector, sec_num = 1, io_buf = b, buf_size = bytes_per_sector (sb vol)\<rparr>)
       (\<lambda>(m, b, _). Some (Inr (m, b, fat_sector))))"

definition write_fat :: "machine \<Rightarrow> (nat \<Rightarrow> char) \<Rightarrow> Fat16Volume \<Rightarrow> nat \<Rightarrow> nat \<Rightarrow> (machine \<times> nat) res option" where
  "write_fat m stk vol cluster val =
     (let cluster = cluster mod 65536 in
     bind_ro (read_fat m vol cluster (local_buf stk (bytes_per_sector (sb vol)))) (\<lambda>(m, b, fat_sector).
     bind_ro (Some (umod cluster (bytes_per_sector (sb vol) div 2))) (\<lambda>i.
     bind_ro (Some (put_bytes b (2 * i) (bytes16 val))) (\<lambda>b.
     bind_ro (ata_write_sector m \<lparr>lba_start = fat_sector, sec_num = 1, io_buf = b, buf_size = bytes_per_sector (sb vol)\<rparr>)
       (\<lambda>(m, _). Some (Inr (m, fat_sector)))))))"

definition fat_get_next_cluster :: "machine \<Rightarrow> (nat \<Rightarrow> char) \<Rightarrow> Fat16Volume \<Rightarrow> nat \<Rightarrow> (machine \<times> nat) res option" where
  "fat_get_next_cluster m stk vol cluster =
     (let cluster = cluster mod 65536 in
     bind_ro (read_fat m vol cluster (local_buf stk (bytes_per_sector (sb vol)))) (\<lambda>(m, b, _).
     bind_ro (Some (umod cluster (bytes_per_sector (sb vol) div 2))) (\<lambda>i.
     bind_ro (Some (rd16 b (2 * i))) (\<lambda>v. Some (Inr (m, v))))))"

text \<open>The entries of one block of the table.\<close>

function free_in_block :: "char list \<Rightarrow> nat \<Rightarrow> nat \<Rightarrow> nat \<Rightarrow> (nat option \<times> nat) res" where
  "free_in_block b n p fat_cnt =
     (if p < n then
        bind_res (rd16 b p) (\<lambda>v.
        if 2 < fat_cnt \<and> FAT_CLUS_FREE v then Inr (Some fat_cnt, fat_cnt)
        else free_in_block b n (p + 2) ((fat_cnt + 1) mod 65536))
      else Inr (None, fat_cnt))"
  by auto
termination by (relation "measure (\<lambda>(_, n, p, _). n - p)") auto

declare free_in_block.simps [simp del]

partial_function (option) free_cluster_loop ::
  "Fat16Volume \<Rightarrow> machine \<Rightarrow> char list \<Rightarrow> nat \<Rightarrow> nat \<Rightarrow> (machine \<times> nat) res option" where
  "free_cluster_loop vol m b lba fat_cnt =
     (if sub32 lba (fat_start vol) < sectors_fat (sb vol) then
        bind_ro (ata_read_sector m \<lparr>lba_start = lba, sec_num = sectors_per_cluster (sb vol), io_buf = b, buf_size = cluster_bytes vol\<rparr>)
          (\<lambda>(m, b, rd_sec).
        bind_ro (Some (free_in_block b (cluster_bytes vol) 0 fat_cnt)) (\<lambda>(r, fat_cnt).
        case r of Some c \<Rightarrow> Some (Inr (m, c)) | None \<Rightarrow> free_cluster_loop vol m b (add32 lba rd_sec) fat_cnt))
      else Some (Inl (Panic ''fat16: run out of clusters'')))"

definition fat_get_free_cluster :: "machine \<Rightarrow> (nat \<Rightarrow> char) \<Rightarrow> Fat16Volume \<Rightarrow> (machine \<times> nat) res option" where
  "fat_get_free_cluster m stk vol = free_cluster_loop vol m (local_buf stk (cluster_bytes vol)) (fat_start vol) 0"

partial_function (option) fat_free_clusters_until_end ::
  "(nat \<Rightarrow> char) \<Rightarrow> Fat16Volume \<Rightarrow> machine \<Rightarrow> nat \<Rightarrow> machine res option" where
  "fat_free_clusters_until_end stk vol m cluster =
     (if FAT_CLUS_NORMAL cluster then
        bind_ro (fat_get_next_cluster m stk vol cluster) (\<lambda>(m, nxt).
        bind_ro (write_fat m stk vol cluster 0) (\<lambda>(m, _). fat_free_clusters_until_end stk vol m nxt))
      else Some (Inr m))"

end
