(* ===== verification/Ts_Fat_File.thy ===== *)
theory Ts_Fat_File
  imports Ts_Fat
begin

text \<open>
  The FAT16 file system (\<^verbatim>\<open>fs/fat16.c\<close>): searching directories, opening, reading, writing, creating and
  deleting files.

  A function that changes a \<open>Fat16File\<close> returns the new one; \<^const>\<open>None\<close> in place of a file is \<open>NULL\<close>. A buffer that
  the caller passes is an argument and its new contents are part of the result. The \<open>goto\<close> of
  \<open>_fat_create_file\<close> is the call of \<open>create_dirent\<close> from both places.
\<close>

section \<open>Searching\<close>

partial_function (option) search_root_loop ::
  "Fat16Volume \<Rightarrow> char list \<Rightarrow> machine \<Rightarrow> char list \<Rightarrow> nat \<Rightarrow> (machine \<times> char list \<times> nat \<times> nat option) res option" where
  "search_root_loop vol name m b lba =
     (if sub32 lba (root_dir_start vol) < root_sectors vol then
        bind_ro (ata_read_sector m \<lparr>lba_start = lba, sec_num = sectors_per_cluster (sb vol), io_buf = b, buf_size = cluster_bytes vol\<rparr>)
          (\<lambda>(m, b, n).
        bind_ro (Some (search_name_in_block b (mul32 n (bytes_per_sector (sb vol))) name 0)) (\<lambda>r.
        case r of Some p \<Rightarrow> Some (Inr (m, b, lba, Some p)) | None \<Rightarrow> search_root_loop vol name m b (add32 lba n)))
      else Some (Inr (m, b, lba, None)))"

definition fat_search_root :: "machine \<Rightarrow> (nat \<Rightarrow> char) \<Rightarrow> Fat16File \<Rightarrow> char list \<Rightarrow> (machine \<times> Fat16File \<times> int) res option" where
  "fat_search_root m stk f name =
     (let vol = volume f in
     bind_ro (search_root_loop vol name m (local_buf stk (cluster_bytes vol)) (root_dir_start vol)) (\<lambda>(m, b, lba, r).
     case r of None \<Rightarrow> Some (Inr (m, f, - 1))
     | Some p \<Rightarrow>
         bind_ro (Some (rd_dirent b p)) (\<lambda>e.
         bind_ro (Some (udiv p (bytes_per_sector (sb vol)))) (\<lambda>k.
         Some (Inr (m, f\<lparr>dirent := e, current_cluster := start_cluster e, dirent_cluster := FAT_CLUS_ROOT,
           dirent_sector := add32 lba k\<rparr>, 1))))))"

partial_function (option) search_dir_loop ::
  "(nat \<Rightarrow> char) \<Rightarrow> char list \<Rightarrow> Fat16File \<Rightarrow> machine \<Rightarrow> char list \<Rightarrow> nat \<Rightarrow> (machine \<times> Fat16File option) res option" where
  "search_dir_loop stk name f m b cluster =
     (let vol = volume f in
      if FAT_CLUS_NORMAL cluster then
        bind_ro (fat_read_cluster m vol cluster b) (\<lambda>(m, b, n).
        if n = 0 then Some (Inl (Panic ''fat16: fat_read_dirent,read 0 bytes '')) else
        bind_ro (Some (search_name_in_block b (cluster_bytes vol) name 0)) (\<lambda>r.
        case r of
          Some p \<Rightarrow> bind_ro (Some (rd_dirent b p)) (\<lambda>e.
            Some (Inr (m, Some (f\<lparr>dirent := e, dirent_cluster := cluster, current_cluster := start_cluster e\<rparr>))))
        | None \<Rightarrow> bind_ro (fat_get_next_cluster m stk vol cluster) (\<lambda>(m, c). search_dir_loop stk name f m b c)))
      else Some (Inr (m, None)))"

text \<open>\<open>_fat_search_file\<close>: the name is already in the form of a directory entry.\<close>

definition fat_search_file_fmt ::
  "machine \<Rightarrow> (nat \<Rightarrow> char) \<Rightarrow> Fat16File \<Rightarrow> char list \<Rightarrow> nat \<Rightarrow> (machine \<times> Fat16File option) res option" where
  "fat_search_file_fmt m stk f fmt_name start =
     (if start = FAT_CLUS_ROOT then
        bind_ro (fat_search_root m stk f fmt_name) (\<lambda>(m, f, r). Some (Inr (m, if 0 < r then Some f else None)))
      else search_dir_loop stk fmt_name f m (local_buf stk (cluster_bytes (volume f))) start)"

definition fat_search_file ::
  "machine \<Rightarrow> (nat \<Rightarrow> char) \<Rightarrow> Fat16File \<Rightarrow> char list \<Rightarrow> nat \<Rightarrow> (machine \<times> Fat16File option) res option" where
  "fat_search_file m stk f name start =
     bind_ro (Some (fat16_filename_fmt (replicate 16 NUL) name)) (\<lambda>fmt_name. fat_search_file_fmt m stk f fmt_name start)"

partial_function (option) find_loop ::
  "(nat \<Rightarrow> char) \<Rightarrow> char list \<Rightarrow> machine \<Rightarrow> Fat16File \<Rightarrow> char list \<Rightarrow> nat \<Rightarrow> (machine \<times> Fat16File option) res option" where
  "find_loop stk pth m f seg i =
     bind_ro (Some (strtok pth i (''/'' @ [NUL]) seg)) (\<lambda>(seg, nxt).
     bind_ro (Some (rd seg 0)) (\<lambda>c.
     if c = NUL then Some (Inr (m, Some f)) else
     bind_ro (fat_search_file m stk f seg (start_cluster (dirent f))) (\<lambda>(m, r).
     case r of None \<Rightarrow> Some (Inr (m, None))
     | Some f \<Rightarrow> (case nxt of None \<Rightarrow> Some (Inr (m, Some f)) | Some j \<Rightarrow> find_loop stk pth m f seg j))))"

definition fat16_find :: "machine \<Rightarrow> (nat \<Rightarrow> char) \<Rightarrow> Fat16File \<Rightarrow> char list \<Rightarrow> (machine \<times> Fat16File option) res option" where
  "fat16_find m stk f pth =
     bind_ro (Some (string_equal (Some (''/'' @ [NUL])) (Some pth))) (\<lambda>r.
     if dirent_ptr f = 0 then Some (Inl NullDeref)
     else if r \<noteq> 0 then
       Some (Inr (m, Some (f\<lparr>dirent := root (volume f), current_cluster := FAT_CLUS_ROOT, dirent_cluster := 0xFF,
         dirent_sector := 0xFF, flag := flag f OR FAT16_CTL_IS_ROOT\<rparr>)))
     else find_loop stk pth m (f\<lparr>dirent := root (volume f)\<rparr>) (replicate 16 NUL) 0)"

section \<open>Reading\<close>

definition fat_read_file_one_cluster :: "machine \<Rightarrow> (nat \<Rightarrow> char) \<Rightarrow> Fat16File \<Rightarrow> char list \<Rightarrow> (machine \<times> Fat16File \<times> char list \<times> int) res option" where
  "fat_read_file_one_cluster m stk f b =
     (if FAT_CLUS_EOF (current_cluster f) then Some (Inr (m, f, b, FAT_FILE_EOF)) else
     bind_ro (fat_read_cluster m (volume f) (current_cluster f) b) (\<lambda>(m, b, n).
     if n = 0 then Some (Inl (Panic ''fat16: fat_read_dirent,read 0 bytes '')) else
     bind_ro (fat_get_next_cluster m stk (volume f) (current_cluster f)) (\<lambda>(m, c).
     Some (Inr (m, f\<lparr>byte_offset := add32 (byte_offset f) (n * bytes_per_sector (sb (volume f))), current_cluster := c\<rparr>, b,
       int (n * bytes_per_sector (sb (volume f))))))))"

text \<open>
  Reading and writing the root directory, which has no cluster chain. The loop carries the machine, the local
  block, the caller's buffer, the offset and the number of bytes transferred.
\<close>

definition rw_root_step ::
  "Fat16File \<Rightarrow> nat \<Rightarrow> machine \<Rightarrow> char list \<Rightarrow> char list \<Rightarrow> nat \<Rightarrow> nat \<Rightarrow> (machine \<times> char list \<times> char list \<times> nat \<times> nat) res option" where
  "rw_root_step f end_off m blk ub off cnt =
     (let vol = volume f; bps = bytes_per_sector (sb vol) in
     bind_ro (Some (idiv off bps)) (\<lambda>k.
     let n = imin (sectors_per_cluster (sb vol)) (sub32 (root_sectors vol) k);
         cmd = \<lparr>lba_start = add32 (root_dir_start vol) k, sec_num = n, io_buf = blk, buf_size = cluster_bytes vol\<rparr>;
         nxt = imin (add32 off (mul32 n bps)) end_off;
         at = sub32 off (mul32 k bps)
     in bind_ro (ata_read_sector m cmd) (\<lambda>(m, blk, _).
        if flag f AND FAT16_CTL_WRITE \<noteq> 0 then
          bind_ro (Some (memcpy ub (sub32 off (byte_offset f)) blk at (sub32 nxt off))) (\<lambda>blk.
          bind_ro (ata_write_sector m (cmd\<lparr>io_buf := blk\<rparr>)) (\<lambda>(m, _).
          Some (Inr (m, blk, ub, nxt, add32 cnt (sub32 nxt off)))))
        else
          bind_ro (Some (memcpy blk at ub cnt (sub32 nxt off))) (\<lambda>ub.
          Some (Inr (m, blk, ub, nxt, add32 cnt (sub32 nxt off)))))))"

partial_function (option) rw_root_loop ::
  "Fat16File \<Rightarrow> nat \<Rightarrow> machine \<Rightarrow> char list \<Rightarrow> char list \<Rightarrow> nat \<Rightarrow> nat \<Rightarrow> (machine \<times> char list \<times> nat) res option" where
  "rw_root_loop f end_off m blk ub off cnt =
     (if off < end_off then
        bind_ro (Some (idiv off (bytes_per_sector (sb (volume f))))) (\<lambda>k.
        if root_sectors (volume f) \<le> k then Some (Inr (m, ub, cnt))
        else bind_ro (rw_root_step f end_off m blk ub off cnt) (\<lambda>(m, blk, ub, off, cnt).
          rw_root_loop f end_off m blk ub off cnt))
      else Some (Inr (m, ub, cnt)))"

definition fat_rw_root ::
  "machine \<Rightarrow> (nat \<Rightarrow> char) \<Rightarrow> Fat16File \<Rightarrow> char list \<Rightarrow> nat \<Rightarrow> (machine \<times> Fat16File \<times> char list \<times> int) res option" where
  "fat_rw_root m stk f ub buf_sz =
     (if start_cluster (dirent f) \<noteq> FAT_CLUS_ROOT then Some (Inr (m, f, ub, - 2)) else
     let vol = volume f in
     bind_ro (Some (idiv (byte_offset f) (bytes_per_sector (sb vol)))) (\<lambda>k.
     if root_sectors vol \<le> k then Some (Inr (m, f, ub, FAT_FILE_EOF)) else
     bind_ro (rw_root_loop f (add32 (byte_offset f) buf_sz) m (local_buf stk (cluster_bytes vol)) ub (byte_offset f) 0) (\<lambda>(m, ub, cnt).
     Some (Inr (m, f\<lparr>byte_offset := add32 (byte_offset f) cnt\<rparr>, ub, to_int32 cnt)))))"

definition read_file_step ::
  "Fat16Volume \<Rightarrow> (nat \<Rightarrow> char) \<Rightarrow> nat \<Rightarrow> machine \<Rightarrow> char list \<Rightarrow> char list \<Rightarrow> nat \<Rightarrow> nat \<Rightarrow> nat \<Rightarrow>
     (machine \<times> char list \<times> char list \<times> nat \<times> nat \<times> nat) res option" where
  "read_file_step vol stk end_off m blk ub cluster off cnt =
     (let cb = cluster_bytes vol in
     bind_ro (fat_read_cluster m vol cluster blk) (\<lambda>(m, blk, _).
     bind_ro (Some (udiv (add32 off cb) cb)) (\<lambda>k.
     let nxt = imin end_off (mul32 k cb) in
     bind_ro (Some (memcpy blk (off mod cb) ub cnt (sub32 nxt off))) (\<lambda>ub.
     bind_ro (if nxt div cb \<noteq> off div cb then fat_get_next_cluster m stk vol cluster else Some (Inr (m, cluster))) (\<lambda>(m, c).
     Some (Inr (m, blk, ub, c, nxt, add32 cnt (sub32 nxt off))))))))"

partial_function (option) read_file_loop ::
  "Fat16Volume \<Rightarrow> (nat \<Rightarrow> char) \<Rightarrow> nat \<Rightarrow> machine \<Rightarrow> char list \<Rightarrow> char list \<Rightarrow> nat \<Rightarrow> nat \<Rightarrow> nat \<Rightarrow>
     (machine \<times> char list \<times> nat \<times> nat \<times> nat) res option" where
  "read_file_loop vol stk end_off m blk ub cluster off cnt =
     (if off < end_off \<and> \<not> FAT_CLUS_EOF cluster then
        bind_ro (read_file_step vol stk end_off m blk ub cluster off cnt) (\<lambda>(m, blk, ub, cluster, off, cnt).
        read_file_loop vol stk end_off m blk ub cluster off cnt)
      else Some (Inr (m, ub, cluster, off, cnt)))"

definition fat_read_file ::
  "machine \<Rightarrow> (nat \<Rightarrow> char) \<Rightarrow> Fat16File option \<Rightarrow> char list \<Rightarrow> nat \<Rightarrow> (machine \<times> Fat16File \<times> char list \<times> int) res option" where
  "fat_read_file m stk file ub buf_sz =
     (case file of None \<Rightarrow> Some (Inl (Panic ''open NULL file''))
      | Some f \<Rightarrow>
          if start_cluster (dirent f) = FAT_CLUS_ROOT then fat_rw_root m stk f ub buf_sz
          else if \<not> is_directory (dirent f) \<and> file_size (dirent f) \<le> byte_offset f then Some (Inr (m, f, ub, FAT_FILE_EOF))
          else if FAT_CLUS_EOF (current_cluster f) then Some (Inr (m, f, ub, FAT_FILE_EOF))
          else
            bind_ro (read_file_loop (volume f) stk (add32 (byte_offset f) buf_sz) m (local_buf stk (cluster_bytes (volume f))) ub
              (current_cluster f) (byte_offset f) 0) (\<lambda>(m, ub, cluster, off, cnt).
            let cnt = (if \<not> is_directory (dirent f) \<and> file_size (dirent f) \<le> off
                       then sub32 cnt (sub32 off (file_size (dirent f))) else cnt) in
            Some (Inr (m, f\<lparr>current_cluster := cluster, byte_offset := add32 (byte_offset f) cnt\<rparr>, ub, to_int32 cnt))))"

section \<open>Writing\<close>

definition fat_update_file_dirent :: "machine \<Rightarrow> (nat \<Rightarrow> char) \<Rightarrow> Fat16File \<Rightarrow> FatDirEntry option \<Rightarrow> machine res option" where
  "fat_update_file_dirent m stk f new_dirent =
     (let vol = volume f; blk = local_buf stk (cluster_bytes vol);
          cmd = \<lparr>lba_start = dirent_sector f, sec_num = 1, io_buf = blk, buf_size = cluster_bytes vol\<rparr>
      in bind_ro (if dirent_cluster f = FAT_CLUS_ROOT then ata_read_sector m cmd
                  else fat_read_cluster m vol (dirent_cluster f) blk) (\<lambda>(m, blk, _).
         bind_ro (Some (search_name_in_block blk (cluster_bytes vol) (filename (dirent f)) 0)) (\<lambda>r.
         case r of None \<Rightarrow> Some (Inl (Panic ''fat16 : write but no dirent find''))
         | Some p \<Rightarrow>
             bind_ro (Some (put_bytes blk p (dirent_bytes (case new_dirent of Some e \<Rightarrow> e | None \<Rightarrow> dirent f)))) (\<lambda>blk.
             if dirent_cluster f = FAT_CLUS_ROOT
             then bind_ro (ata_write_sector m (cmd\<lparr>io_buf := blk\<rparr>)) (\<lambda>(m, _). Some (Inr m))
             else fat_write_cluster m vol blk (int (dirent_cluster f)) 1))))"

definition write_file_step ::
  "Fat16Volume \<Rightarrow> (nat \<Rightarrow> char) \<Rightarrow> char list \<Rightarrow> nat \<Rightarrow> machine \<Rightarrow> char list \<Rightarrow> nat \<Rightarrow> nat \<Rightarrow> nat \<Rightarrow>
     (machine \<times> char list \<times> nat \<times> nat \<times> nat) res option" where
  "write_file_step vol stk ub buf_sz m blk cluster off cnt =
     (let cb = cluster_bytes vol in
     bind_ro (fat_read_cluster m vol cluster blk) (\<lambda>(m, blk, _).
     bind_ro (Some (umod off cb)) (\<lambda>at.
     let n = imin (sub32 cb at) (sub32 buf_sz cnt) in
     bind_ro (Some (memcpy ub cnt blk at n)) (\<lambda>blk.
     bind_ro (fat_write_cluster m vol blk (int cluster) 1) (\<lambda>m.
     let off = add32 off n; cnt = add32 cnt n in
     if off mod cb = 0 then
       bind_ro (fat_get_next_cluster m stk vol cluster) (\<lambda>(m, t).
       if FAT_CLUS_EOF t then
         bind_ro (fat_get_free_cluster m stk vol) (\<lambda>(m, t).
         bind_ro (write_fat m stk vol cluster t) (\<lambda>(m, _).
         bind_ro (write_fat m stk vol t 0xFFFF) (\<lambda>(m, _).
         bind_ro (Some (memset blk NUL (int cb))) (\<lambda>blk. Some (Inr (m, blk, t, off, cnt))))))
       else Some (Inr (m, blk, t, off, cnt)))
     else Some (Inr (m, blk, cluster, off, cnt)))))))"

partial_function (option) write_file_loop ::
  "Fat16Volume \<Rightarrow> (nat \<Rightarrow> char) \<Rightarrow> char list \<Rightarrow> nat \<Rightarrow> machine \<Rightarrow> char list \<Rightarrow> nat \<Rightarrow> nat \<Rightarrow> nat \<Rightarrow> (machine \<times> nat \<times> nat) res option" where
  "write_file_loop vol stk ub buf_sz m blk cluster off cnt =
     (if cnt < buf_sz then
        bind_ro (write_file_step vol stk ub buf_sz m blk cluster off cnt) (\<lambda>(m, blk, cluster, off, cnt).
        write_file_loop vol stk ub buf_sz m blk cluster off cnt)
      else Some (Inr (m, cluster, off)))"

definition fat_write_file ::
  "machine \<Rightarrow> (nat \<Rightarrow> char) \<Rightarrow> Fat16File option \<Rightarrow> char list \<Rightarrow> nat \<Rightarrow> (machine \<times> Fat16File \<times> int) res option" where
  "fat_write_file m stk file ub buf_sz =
     (case file of None \<Rightarrow> Some (Inl (Panic ''fat16 : open NULL file''))
      | Some f \<Rightarrow>
          if is_directory (dirent f) then
            bind_ro (printl (con m) (''fat16 :error, write on directory'' @ [NUL])) (\<lambda>c. Some (Inr (m\<lparr>con := c\<rparr>, f, - 2)))
          else if flag f AND FAT16_CTL_WRITE = 0 then
            bind_ro (printl (con m) (''fat16 : write on read mode file'' @ [NUL])) (\<lambda>c. Some (Inr (m\<lparr>con := c\<rparr>, f, - 2)))
          else if FAT_CLUS_EOF (current_cluster f) then Some (Inr (m, f, FAT_FILE_EOF))
          else
            bind_ro (write_file_loop (volume f) stk ub buf_sz m (local_buf stk (cluster_bytes (volume f)))
              (current_cluster f) (byte_offset f) 0) (\<lambda>(m, cluster, off).
            let f = f\<lparr>byte_offset := off, dirent := (dirent f)\<lparr>file_size := off\<rparr>, current_cluster := cluster mod 65536\<rparr> in
            bind_ro (fat_update_file_dirent m stk f None) (\<lambda>m. Some (Inr (m, f, to_int32 buf_sz)))))"

section \<open>Creating\<close>

text \<open>Fills in the entry for a name: zero bytes, the formatted name, the attribute and the first cluster.\<close>

definition fill_dirent :: "char list \<Rightarrow> nat \<Rightarrow> char list \<Rightarrow> bool \<Rightarrow> bool \<Rightarrow> nat \<Rightarrow> char list res" where
  "fill_dirent b p name dir txt cluster =
     bind_res (put_bytes b p (replicate 32 NUL)) (\<lambda>b.
     bind_res (fat16_filename_fmt (drop p b) name) (\<lambda>e.
     bind_res (if dir then put_bytes e 11 [CHR 0x10] else Inr e) (\<lambda>e.
     bind_res (if txt then put_bytes e 8 ''txt'' else Inr e) (\<lambda>e.
     bind_res (put_bytes e 26 (bytes16 cluster)) (\<lambda>e. Inr (take p b @ e))))))"

definition create_dirent ::
  "machine \<Rightarrow> (nat \<Rightarrow> char) \<Rightarrow> char list \<Rightarrow> Fat16File \<Rightarrow> char list \<Rightarrow> u32 \<Rightarrow> nat \<Rightarrow> char list \<Rightarrow> nat \<Rightarrow> (machine \<times> int) res option" where
  "create_dirent m stk rodata parent name flg parent_cluster b p =
     (let vol = volume parent; bps = bytes_per_sector (sb vol); cb = cluster_bytes vol; dir = (flg AND FAT16_CTL_DIR \<noteq> 0) in
     bind_ro (fat_get_free_cluster m stk vol) (\<lambda>(m, new_cluster).
     bind_ro (Some (fill_dirent b p name dir (\<not> dir) new_cluster)) (\<lambda>b.
     bind_ro (if start_cluster (dirent parent) = FAT_CLUS_ROOT then
         bind_ro (Some (udiv p bps)) (\<lambda>t. bind_ro (Some (udiv (byte_offset parent) bps)) (\<lambda>k.
         bind_ro (ata_write_sector m \<lparr>lba_start = add32 (sub32 (add32 (root_dir_start vol) k) (sectors_per_cluster (sb vol))) t,
           sec_num = 1, io_buf = drop (t * bps) b, buf_size = bps\<rparr>) (\<lambda>(m, _). Some (Inr m))))
       else fat_write_cluster m vol b (int parent_cluster) 1) (\<lambda>m.
     bind_ro (write_fat m stk vol new_cluster 0xFFFF) (\<lambda>(m, _).
     bind_ro (Some (memset b NUL (int cb))) (\<lambda>b.
     bind_ro (Some (if dir then
         bind_res (fill_dirent b 0 (''.'' @ [NUL] @ rodata) True False new_cluster) (\<lambda>b.
         fill_dirent b 32 (''..'' @ [NUL] @ rodata) True False parent_cluster)
       else Inr b)) (\<lambda>b.
     bind_ro (fat_write_cluster m vol b (int new_cluster) 1) (\<lambda>m. Some (Inr (m, 1))))))))))"

text \<open>The first entry of a block that is free and is not the entry of the parent directory.\<close>

function free_dirent :: "char list \<Rightarrow> nat \<Rightarrow> nat \<Rightarrow> nat option res" where
  "free_dirent b n p =
     (if p < n then
        bind_res (rd_dirent b p) (\<lambda>e.
        bind_res (if FAT_CLUS_FREE (start_cluster e) then fat_filename_match e (''..      '' @ [NUL]) else Inr True) (\<lambda>used.
        if used then free_dirent b n (p + 32) else Inr (Some p)))
      else Inr None)"
  by auto
termination by (relation "measure (\<lambda>(_, n, p). n - p)") auto

declare free_dirent.simps [simp del]

partial_function (option) create_loop ::
  "(nat \<Rightarrow> char) \<Rightarrow> char list \<Rightarrow> char list \<Rightarrow> u32 \<Rightarrow> machine \<Rightarrow> Fat16File \<Rightarrow> nat \<Rightarrow> char list \<Rightarrow> (machine \<times> int) res option" where
  "create_loop stk rodata name flg m parent parent_cluster b =
     (let vol = volume parent in
     bind_ro (fat_read_file m stk (Some parent) b (cluster_bytes vol)) (\<lambda>(m, parent', b, _).
     if FAT_CLUS_EOF (current_cluster parent') then
       bind_ro (fat_get_free_cluster m stk vol) (\<lambda>(m, t).
       bind_ro (write_fat m stk vol (current_cluster parent) t) (\<lambda>(m, _).
       bind_ro (write_fat m stk vol t 0xFFFF) (\<lambda>(m, _).
       bind_ro (Some (memset b NUL (int (cluster_bytes vol)))) (\<lambda>b.
       create_dirent m stk rodata parent' name flg t b 0))))
     else
       bind_ro (Some (free_dirent b (cluster_bytes vol) 0)) (\<lambda>r.
       case r of Some p \<Rightarrow> create_dirent m stk rodata parent' name flg parent_cluster b p
       | None \<Rightarrow> create_loop stk rodata name flg m parent' (current_cluster parent') b)))"

text \<open>\<open>_fat_create_file\<close>; \<open>rodata\<close> are the bytes that follow a string constant in memory.\<close>

definition fat_create_file_in ::
  "machine \<Rightarrow> (nat \<Rightarrow> char) \<Rightarrow> char list \<Rightarrow> Fat16File \<Rightarrow> char list \<Rightarrow> u32 \<Rightarrow> (machine \<times> int) res option" where
  "fat_create_file_in m stk rodata parent name flg =
     bind_ro (Some (memset (local_buf stk (cluster_bytes (volume parent))) NUL (int (cluster_bytes (volume parent))))) (\<lambda>b.
     create_loop stk rodata name flg m parent (start_cluster (dirent parent)) b)"

section \<open>Opening\<close>

text \<open>The last cluster of a chain.\<close>

partial_function (option) last_cluster_loop ::
  "(nat \<Rightarrow> char) \<Rightarrow> Fat16Volume \<Rightarrow> machine \<Rightarrow> nat \<Rightarrow> (machine \<times> nat) res option" where
  "last_cluster_loop stk vol m cluster =
     bind_ro (fat_get_next_cluster m stk vol cluster) (\<lambda>(m, t).
     if FAT_CLUS_NORMAL t then last_cluster_loop stk vol m t else Some (Inr (m, cluster)))"

text \<open>\<open>fat_open\<close> without the flag \<open>FAT16_CTL_CREATE\<close>, and in general; \<open>adr\<close> gives the address of a path.\<close>

definition fat_open_file ::
  "machine \<Rightarrow> (nat \<Rightarrow> char) \<Rightarrow> Fat16Volume \<Rightarrow> char list \<Rightarrow> u32 \<Rightarrow> (machine \<times> Fat16File option) res option" where
  "fat_open_file m stk vol pth flg =
     bind_ro (new_fat16_file m (Some pth) vol None flg) (\<lambda>(m, f).
     bind_ro (fat16_find m stk f pth) (\<lambda>(m, r).
     case r of None \<Rightarrow> Some (Inr (m, None))
     | Some f \<Rightarrow>
         if flg AND FAT16_CTL_APPEND \<noteq> 0 then
           let f = f\<lparr>flag := flag f OR FAT16_CTL_WRITE\<rparr> in
           bind_ro (last_cluster_loop stk vol m (start_cluster (dirent f))) (\<lambda>(m, c).
           Some (Inr (m, Some (f\<lparr>current_cluster := c, byte_offset := file_size (dirent f)\<rparr>))))
         else Some (Inr (m, Some f))))"

definition fat_open ::
  "machine \<Rightarrow> (nat \<Rightarrow> char) \<Rightarrow> char list \<Rightarrow> (char list \<Rightarrow> nat) \<Rightarrow> Fat16Volume \<Rightarrow> char list \<Rightarrow> u32 \<Rightarrow> (machine \<times> Fat16File option) res option" where
  "fat_open m stk rodata adr vol pth flg =
     (if flg AND FAT16_CTL_CREATE \<noteq> 0 then
        bind_ro (fat_open_file m stk vol pth (flg AND NOT FAT16_CTL_CREATE)) (\<lambda>(m, r).
        case r of Some f \<Rightarrow> Some (Inr (m, Some (f\<lparr>flag := flg\<rparr>)))
        | None \<Rightarrow>
            bind_ro (Some (get_basedir (adr pth) pth (replicate 128 NUL))) (\<lambda>(d, base_dir).
            bind_ro (Some (if d = None then Inr (None, []) else get_filename (Some pth) (replicate 128 NUL))) (\<lambda>(q, name).
            if q = None then
              bind_ro (printl (con m) (''fat create file, path parsing error'' @ [NUL])) (\<lambda>c. Some (Inr (m\<lparr>con := c\<rparr>, None)))
            else
              bind_ro (fat_open_file m stk vol base_dir 0) (\<lambda>(m, r).
              case r of None \<Rightarrow> Some (Inr (m, None))
              | Some parent \<Rightarrow>
                  bind_ro (fat_create_file_in m stk rodata parent name flg) (\<lambda>(m, k).
                  if k \<noteq> 0 then
                    bind_ro (fat_open_file m stk vol pth (flg AND NOT FAT16_CTL_CREATE)) (\<lambda>(m, r).
                    case r of None \<Rightarrow> Some (Inl NullDeref)
                    | Some f \<Rightarrow> Some (Inr (m, Some (f\<lparr>flag := flag f OR FAT16_CTL_CREATE\<rparr>))))
                  else Some (Inl (Panic ''create file failed'')))))))
      else fat_open_file m stk vol pth flg)"

section \<open>Deleting\<close>

text \<open>
  \<open>_fat_free_childs_under_dir\<close> is one recursive function with a loop over the clusters of the directory
  and a loop over the entries of a cluster; \<open>free_mode\<close> says where in it the computation is. \<open>sub\<close> is the
  file structure that the entries of subdirectories are copied to.
\<close>

datatype free_mode = FreeDir nat | FreeClusters nat nat | FreeEntries nat nat "char list" nat

definition skip_entry :: "FatDirEntry \<Rightarrow> bool res" where
  "skip_entry e =
     (if \<not> FAT_CLUS_NORMAL (start_cluster e) then Inr True
      else bind_res (fat_filename_match e (''.        '' @ [NUL])) (\<lambda>a.
        if a then Inr True else fat_filename_match e (''..       '' @ [NUL])))"

lemma free_mode_mono [partial_function_mono]:
  assumes "\<And>a. mono_option (\<lambda>f. A a f)" "\<And>a b. mono_option (\<lambda>f. B a b f)" "\<And>a b c d. mono_option (\<lambda>f. C a b c d f)"
  shows "mono_option (\<lambda>f. case mode of FreeDir a \<Rightarrow> A a f | FreeClusters a b \<Rightarrow> B a b f | FreeEntries a b c d \<Rightarrow> C a b c d f)"
  by (cases mode) (simp_all add: assms)

partial_function (option) free_childs_loop :: "(nat \<Rightarrow> char) \<Rightarrow> Fat16Volume \<Rightarrow> machine \<Rightarrow> free_mode \<Rightarrow> (machine \<times> nat) res option" where
  "free_childs_loop stk vol m mode =
     (case mode of
        FreeDir cluster \<Rightarrow>
          bind_ro (new_fat16_file m (Some [NUL]) vol None 0) (\<lambda>(m, sub).
          bind_ro (free_childs_loop stk vol m (FreeClusters (dirent_ptr sub) cluster)) (\<lambda>(m, _).
          bind_ro (fat_close m sub) (\<lambda>m. Some (Inr (m, 1)))))
      | FreeClusters sub cluster \<Rightarrow>
          if FAT_CLUS_NORMAL cluster then
            bind_ro (fat_read_cluster m vol cluster (local_buf stk (cluster_bytes vol))) (\<lambda>(m, blk, _).
            bind_ro (free_childs_loop stk vol m (FreeEntries sub cluster blk 0)) (\<lambda>(m, _).
            bind_ro (fat_get_next_cluster m stk vol cluster) (\<lambda>(m, t).
            bind_ro (write_fat m stk vol cluster 0) (\<lambda>(m, _).
            free_childs_loop stk vol m (FreeClusters sub t)))))
          else Some (Inr (m, 1))
      | FreeEntries sub cluster blk p \<Rightarrow>
          if p < cluster_bytes vol then
            bind_ro (Some (rd_dirent blk p)) (\<lambda>e.
            bind_ro (Some (skip_entry e)) (\<lambda>skip.
            bind_ro (if skip then Some (Inr (m, 1))
                else if \<not> is_directory e then
                  bind_ro (fat_free_clusters_until_end stk vol m (start_cluster e)) (\<lambda>m. Some (Inr (m, 1)))
                else if sub = 0 then Some (Inl NullDeref)
                else free_childs_loop stk vol m (FreeDir (start_cluster e))) (\<lambda>(m, _).
            free_childs_loop stk vol m (FreeEntries sub cluster blk (p + 32)))))
          else Some (Inr (m, 1)))"

definition fat_free_childs_under_dir :: "machine \<Rightarrow> (nat \<Rightarrow> char) \<Rightarrow> Fat16File \<Rightarrow> (machine \<times> nat) res option" where
  "fat_free_childs_under_dir m stk f = free_childs_loop stk (volume f) m (FreeDir (start_cluster (dirent f)))"

definition fat_delete_file :: "machine \<Rightarrow> (nat \<Rightarrow> char) \<Rightarrow> char list \<Rightarrow> (char list \<Rightarrow> nat) \<Rightarrow> Fat16Volume \<Rightarrow> char list \<Rightarrow> (machine \<times> int) res option" where
  "fat_delete_file m stk rodata adr vol pth =
     bind_ro (fat_open m stk rodata adr vol pth 0) (\<lambda>(m, r).
     case r of None \<Rightarrow> Some (Inr (m, - 1))
     | Some f \<Rightarrow>
         if current_cluster f = FAT_CLUS_ROOT then
           bind_ro (printl (con m) (''error : can't delete root directory'' @ [NUL])) (\<lambda>c. Some (Inr (m\<lparr>con := c\<rparr>, - 1)))
         else
           bind_ro (if is_directory (dirent f) then bind_ro (fat_free_childs_under_dir m stk f) (\<lambda>(m, _). Some (Inr m))
                    else fat_free_clusters_until_end stk vol m (start_cluster (dirent f))) (\<lambda>m.
           bind_ro (fat_update_file_dirent m stk f (Some ((dirent f)\<lparr>filename := CHR 0xE5 # tl (filename (dirent f)),
             file_size := 0, start_cluster := 0\<rparr>))) (\<lambda>m.
           bind_ro (fat_close m f) (\<lambda>m. Some (Inr (m, 1))))))"

end
