(* ===== verification/Ts_Main.thy ===== *)
theory Ts_Main
  imports Ts_Isr Ts_Load Ts_Fat_File
begin

text \<open>
  The start of the kernel and the exercises for the drivers (\<^verbatim>\<open>kernel/main.c\<close>, \<open>init_task0\<close> of \<^verbatim>\<open>kernel/task.c\<close>).

  \<open>main\<close> and \<open>init_task0\<close> work on the kernel together with paging. The addresses that the linker gives are
  parameters: the interrupt stubs, the interrupt table, the task state segment, \<open>__ret_syscall\<close>, and the place of the first task
  image. The model of \<open>init_task0\<close> ends with the switch to the first task; the loop behind it only prints.

  The exercises for the disk and the file system print on the console what they read. A local buffer that is not
  initialised holds arbitrary bytes, \<open>stk\<close>; \<open>rodata\<close> is what follows a string constant in memory and
  \<open>adr\<close> gives the address of a string.
\<close>

section \<open>Output\<close>

definition say :: "char list \<Rightarrow> machine \<Rightarrow> machine res option" where
  "say s m = bind_ro (printstr (con m) s 0) (\<lambda>c. Some (Inr (m\<lparr>con := c\<rparr>)))"

definition sayl :: "char list \<Rightarrow> machine \<Rightarrow> machine res option" where
  "sayl s m = bind_ro (printl (con m) s) (\<lambda>c. Some (Inr (m\<lparr>con := c\<rparr>)))"

definition sayf :: "char list \<Rightarrow> varg list \<Rightarrow> machine \<Rightarrow> machine res option" where
  "sayf fmt args m = bind_ro (printf (con m) (Some fmt) args) (\<lambda>c. Some (Inr (m\<lparr>con := c\<rparr>)))"

definition cstr :: "char list \<Rightarrow> char list" where
  "cstr s = s @ [NUL]"

text \<open>One call after the other.\<close>

primrec in_turn :: "('a \<Rightarrow> machine \<Rightarrow> machine res option) \<Rightarrow> 'a list \<Rightarrow> machine \<Rightarrow> machine res option" where
  "in_turn f [] m = Some (Inr m)"
| "in_turn f (x # xs) m = bind_ro (f x m) (in_turn f xs)"

section \<open>The disk\<close>

definition test_ata_driver :: "machine \<Rightarrow> machine res option" where
  "test_ata_driver m =
     bind_ro (ata_read_sector m \<lparr>lba_start = 1, sec_num = 1, io_buf = replicate 1025 NUL, buf_size = 512\<rparr>) (\<lambda>(m, b, _).
     bind_ro (in_turn (\<lambda>i m.
       bind_ro (Some (rd b i)) (\<lambda>ch.
       bind_ro (print_byte (con m) (of_char ch)) (\<lambda>c. sayl (cstr '''') (m\<lparr>con := c\<rparr>)))) [0..<3] m) (\<lambda>m.
     sayl (cstr ''after read'') m))"

section \<open>Reading and finding files\<close>

partial_function (option) read_print_loop :: "(nat \<Rightarrow> char) \<Rightarrow> machine \<Rightarrow> Fat16File \<Rightarrow> char list \<Rightarrow> (machine \<times> Fat16File) res option" where
  "read_print_loop stk m f buf =
     bind_ro (fat_read_file m stk (Some f) buf 251) (\<lambda>(m, f, buf, len).
     if len \<noteq> - 1
     then bind_ro (print_chars (con m) buf len) (\<lambda>c. read_print_loop stk (m\<lparr>con := c\<rparr>) f buf)
     else Some (Inr (m, f)))"

definition test_fat16_read1 :: "(nat \<Rightarrow> char) \<Rightarrow> char list \<Rightarrow> (char list \<Rightarrow> nat) \<Rightarrow> Fat16Volume \<Rightarrow> char list \<Rightarrow> machine \<Rightarrow> machine res option" where
  "test_fat16_read1 stk rodata adr vol pth m =
     bind_ro (fat_open m stk rodata adr vol pth 0) (\<lambda>(m, r).
     case r of
       None \<Rightarrow> bind_ro (say (cstr ''can't open '') m) (sayl pth)
     | Some f \<Rightarrow>
         bind_ro (say (cstr ''read '') m) (\<lambda>m.
         bind_ro (sayl pth m) (\<lambda>m.
         bind_ro (read_print_loop stk m f (local_buf stk 251)) (\<lambda>(m, f).
         bind_ro (sayl (cstr '''') m) (\<lambda>m. fat_close m f)))))"

definition test_fat16_find1 :: "(nat \<Rightarrow> char) \<Rightarrow> Fat16Volume \<Rightarrow> char list \<Rightarrow> machine \<Rightarrow> machine res option" where
  "test_fat16_find1 stk vol pth m =
     bind_ro (new_fat16_file m (Some pth) vol None 0) (\<lambda>(m, f).
     bind_ro (fat16_find m stk f pth) (\<lambda>(m, r).
     case r of
       None \<Rightarrow> Some (Inl (AssertFail ''test fat16 find:  NULL file''))
     | Some f \<Rightarrow>
         bind_ro (say (cstr ''test_fat_16: '') m) (\<lambda>m.
         bind_ro (sayl pth m) (\<lambda>m.
         bind_ro (say (cstr ''result is -> '') m) (\<lambda>m.
         bind_ro (sayl (dirent_bytes (dirent f)) m) (\<lambda>m. fs_free m (file_ptr f)))))))"

definition test_fat16_find :: "(nat \<Rightarrow> char) \<Rightarrow> char list \<Rightarrow> (char list \<Rightarrow> nat) \<Rightarrow> Fat16Volume \<Rightarrow> machine \<Rightarrow> machine res option" where
  "test_fat16_find stk rodata adr vol m =
     bind_ro (in_turn (\<lambda>p. test_fat16_find1 stk vol (cstr p)) [''/1234'', ''/usr/'', ''/main'', ''/usr/abcd'', ''/usr/''] m) (\<lambda>m.
     bind_ro (fat_open m stk rodata adr vol (cstr ''/usr/8787'') 0) (\<lambda>(m, r).
     if r = None then Some (Inr m) else Some (Inl (AssertFail ''not such file: /usr/8787''))))"

definition test_fat16_read :: "(nat \<Rightarrow> char) \<Rightarrow> char list \<Rightarrow> (char list \<Rightarrow> nat) \<Rightarrow> Fat16Volume \<Rightarrow> machine \<Rightarrow> machine res option" where
  "test_fat16_read stk rodata adr vol =
     in_turn (\<lambda>p. test_fat16_read1 stk rodata adr vol (cstr p)) [''/1234'', ''/usr/abcd'', ''/main'', ''/usr/tmp/'']"

text \<open>\<open>fat16_dirlist\<close> is a stub that returns 1, so that nothing is listed and the failure is never reported.\<close>

definition fat16_dirlist :: "Fat16File option \<Rightarrow> int" where
  "fat16_dirlist f = 1"

definition test_fat16_ls1 :: "(nat \<Rightarrow> char) \<Rightarrow> char list \<Rightarrow> (char list \<Rightarrow> nat) \<Rightarrow> Fat16Volume \<Rightarrow> char list \<Rightarrow> machine \<Rightarrow> machine res option" where
  "test_fat16_ls1 stk rodata adr vol pth m =
     bind_ro (fat_open m stk rodata adr vol pth 0) (\<lambda>(m, f).
     bind_ro (sayl (cstr ''list directory : '') m) (\<lambda>m.
     bind_ro (sayl pth m) (\<lambda>m.
     if fat16_dirlist f < 0 then sayl (cstr ''ls failed'') m else Some (Inr m))))"

definition test_fat16_ls :: "(nat \<Rightarrow> char) \<Rightarrow> char list \<Rightarrow> (char list \<Rightarrow> nat) \<Rightarrow> Fat16Volume \<Rightarrow> machine \<Rightarrow> machine res option" where
  "test_fat16_ls stk rodata adr vol =
     in_turn (\<lambda>p. test_fat16_ls1 stk rodata adr vol (cstr p)) [''/'', ''/usr'', ''/usr/'', ''/usr/gpio3'', ''/usr/gpio4'']"

section \<open>Creating, writing and deleting files\<close>

definition test_fat_create1 :: "(nat \<Rightarrow> char) \<Rightarrow> char list \<Rightarrow> (char list \<Rightarrow> nat) \<Rightarrow> Fat16Volume \<Rightarrow> char list \<Rightarrow> u32 \<Rightarrow> machine \<Rightarrow> machine res option" where
  "test_fat_create1 stk rodata adr vol pth flg m =
     bind_ro (say (cstr ''test fat create: '') m) (\<lambda>m.
     bind_ro (sayl pth m) (\<lambda>m.
     bind_ro (fat_open m stk rodata adr vol pth (FAT16_CTL_CREATE OR flg)) (\<lambda>(m, r).
     if r \<noteq> None then Some (Inr m) else Some (Inl (AssertFail ''test_fat_create : open failed'')))))"

definition test_fat_create :: "(nat \<Rightarrow> char) \<Rightarrow> char list \<Rightarrow> (char list \<Rightarrow> nat) \<Rightarrow> Fat16Volume \<Rightarrow> machine \<Rightarrow> machine res option" where
  "test_fat_create stk rodata adr vol m =
     bind_ro (in_turn (\<lambda>(p, flg). test_fat_create1 stk rodata adr vol (cstr p) flg)
       [(''/file1'', 0), (''/var'', FAT16_CTL_DIR), (''/usr/log1'', 0), (''/usr/desktop'', FAT16_CTL_DIR), (''/usr/desktop/config'', 0),
        (''/var/tmp'', FAT16_CTL_DIR), (''/var/tmp2'', FAT16_CTL_DIR)] m) (sayl (cstr ''test fat create done''))"

definition test_fat_write1 :: "(nat \<Rightarrow> char) \<Rightarrow> char list \<Rightarrow> (char list \<Rightarrow> nat) \<Rightarrow> Fat16Volume \<Rightarrow> char list \<Rightarrow> char list \<Rightarrow> machine \<Rightarrow> machine res option" where
  "test_fat_write1 stk rodata adr vol pth content m =
     bind_ro (say (cstr ''test fat write: '') m) (\<lambda>m.
     bind_ro (sayl pth m) (\<lambda>m.
     bind_ro (fat_open m stk rodata adr vol pth FAT16_CTL_WRITE) (\<lambda>(m, r).
     if r = None then Some (Inl (AssertFail ''test_fat_write : open failed'')) else
     bind_ro (Some (strlen content 0)) (\<lambda>n.
     bind_ro (fat_write_file m stk r content n) (\<lambda>(m, _, _). Some (Inr m))))))"

text \<open>The loop of the copy; it writes the whole buffer, however many bytes were read.\<close>

partial_function (option) copy_loop ::
  "(nat \<Rightarrow> char) \<Rightarrow> machine \<Rightarrow> Fat16File \<Rightarrow> Fat16File \<Rightarrow> char list \<Rightarrow> machine res option" where
  "copy_loop stk m src dst buf =
     bind_ro (fat_read_file m stk (Some src) buf 123) (\<lambda>(m, src, buf, len).
     if len \<noteq> FAT_FILE_EOF
     then bind_ro (fat_write_file m stk (Some dst) buf 123) (\<lambda>(m, dst, _). copy_loop stk m src dst buf)
     else Some (Inr m))"

definition test_fat_write2 ::
  "(nat \<Rightarrow> char) \<Rightarrow> char list \<Rightarrow> (char list \<Rightarrow> nat) \<Rightarrow> Fat16Volume \<Rightarrow> char list \<Rightarrow> char list \<Rightarrow> u32 \<Rightarrow> machine \<Rightarrow> machine res option" where
  "test_fat_write2 stk rodata adr vol src_path dest_path dest_flag m =
     bind_ro (sayl (cstr ''fat write test2 (copy): '') m) (\<lambda>m.
     bind_ro (say (cstr ''from: '') m) (\<lambda>m. bind_ro (say src_path m) (\<lambda>m.
     bind_ro (say (cstr '' to:  '') m) (\<lambda>m. bind_ro (sayl dest_path m) (\<lambda>m.
     bind_ro (fat_open m stk rodata adr vol src_path 0) (\<lambda>(m, src_file).
     bind_ro (fat_open m stk rodata adr vol dest_path (FAT16_CTL_WRITE OR FAT16_CTL_CREATE OR dest_flag)) (\<lambda>(m, dest_file).
     case (src_file, dest_file) of
       (Some src, Some dst) \<Rightarrow> bind_ro (copy_loop stk m src dst (replicate 123 NUL)) (sayl (cstr ''end of write test 2''))
     | _ \<Rightarrow> Some (Inl (AssertFail ''test_fat_write2 : open failed'')))))))))"

definition test_fat_write :: "(nat \<Rightarrow> char) \<Rightarrow> char list \<Rightarrow> (char list \<Rightarrow> nat) \<Rightarrow> Fat16Volume \<Rightarrow> machine \<Rightarrow> machine res option" where
  "test_fat_write stk rodata adr vol m =
     bind_ro (in_turn (\<lambda>(p, s). test_fat_write1 stk rodata adr vol (cstr p) (cstr s))
       [(''/file1'', ''i am file1.txt haha''), (''/1234'', ''1234 2234 3234 4234 '' @ [NL]), (''/usr/abcd'', ''abcdefh hijklmn'' @ [NL]),
        (''/usr/log1'', ''lllllllllllllllllllllllllllllllllllloggggggggggggggggggggggg'' @ [NL]),
        (''/usr/desktop/config'', ''aaa=bbb'' @ [NL] @ ''ggg=ccc'' @ [NL] @ ''user=12345'' @ [NL])] m)
     (in_turn (\<lambda>(p, q, flg). test_fat_write2 stk rodata adr vol (cstr p) (cstr q) flg)
       [(''/file1'', ''/file2'', 0), (''/1234'', ''/file2'', FAT16_CTL_APPEND), (''/main'', ''/usr/desktop/main2'', 0)])"

definition test_fat_delete1 :: "(nat \<Rightarrow> char) \<Rightarrow> char list \<Rightarrow> (char list \<Rightarrow> nat) \<Rightarrow> Fat16Volume \<Rightarrow> char list \<Rightarrow> machine \<Rightarrow> machine res option" where
  "test_fat_delete1 stk rodata adr vol pth m =
     bind_ro (say (cstr ''delete: '') m) (\<lambda>m.
     bind_ro (sayl pth m) (\<lambda>m.
     bind_ro (fat_delete_file m stk rodata adr vol pth) (\<lambda>(m, k).
     if k < 0 then Some (Inl (AssertFail ''test_fat_delete : delete failed'')) else
     bind_ro (fat_open m stk rodata adr vol pth 0) (\<lambda>(m, r).
     if r = None then Some (Inr m) else Some (Inl (AssertFail ''test_fat_delete : delete failed2''))))))"

definition test_fat_delete :: "(nat \<Rightarrow> char) \<Rightarrow> char list \<Rightarrow> (char list \<Rightarrow> nat) \<Rightarrow> Fat16Volume \<Rightarrow> machine \<Rightarrow> machine res option" where
  "test_fat_delete stk rodata adr vol m =
     bind_ro (test_fat_delete1 stk rodata adr vol (cstr ''/usr/'') m) (\<lambda>m.
     bind_ro (fat_delete_file m stk rodata adr vol (cstr ''/gg'')) (\<lambda>(m, k).
     if k = - 1 then Some (Inr m) else Some (Inl (AssertFail ''test_fat_delete : delete NULL file''))))"

section \<open>Many files\<close>

text \<open>
  The path of file \<open>i\<close> of a folder. The code keeps the two buffers from one round to the next; \<open>itoa\<close> clears four of the five bytes of
  its buffer, which starts with zeroes.
\<close>

definition numbered :: "char list \<Rightarrow> int \<Rightarrow> char list \<Rightarrow> char list \<Rightarrow> (char list \<times> char list) res" where
  "numbered folder i s path_n =
     bind_res (itoa i s 4) (\<lambda>s.
     bind_res (strcat (Some folder) (Some s) (Some path_n)) (\<lambda>r.
     case r of None \<Rightarrow> Inl NullDeref | Some path_n \<Rightarrow> Inr (s, path_n)))"

primrec stress_create_loop ::
  "(nat \<Rightarrow> char) \<Rightarrow> char list \<Rightarrow> (char list \<Rightarrow> nat) \<Rightarrow> Fat16Volume \<Rightarrow> nat list \<Rightarrow> char list \<Rightarrow> char list \<Rightarrow> machine \<Rightarrow> machine res option" where
  "stress_create_loop stk rodata adr vol [] s path_n m = Some (Inr m)"
| "stress_create_loop stk rodata adr vol (i # is) s path_n m =
     bind_ro (Some (numbered (cstr ''/test1/'') (int i) s path_n)) (\<lambda>(s, path_n).
     bind_ro (fat_open m stk rodata adr vol path_n FAT16_CTL_CREATE) (\<lambda>(m, r).
     if r = None then Some (Inl (AssertFail ''fat stress open 2 failed'')) else stress_create_loop stk rodata adr vol is s path_n m))"

definition test_fat_stress_create :: "(nat \<Rightarrow> char) \<Rightarrow> char list \<Rightarrow> (char list \<Rightarrow> nat) \<Rightarrow> Fat16Volume \<Rightarrow> machine \<Rightarrow> machine res option" where
  "test_fat_stress_create stk rodata adr vol m =
     bind_ro (say (cstr ''stress test create: '') m) (\<lambda>m.
     bind_ro (sayl (cstr ''/test1/'') m) (\<lambda>m.
     bind_ro (fat_open m stk rodata adr vol (cstr ''/test1/'') (FAT16_CTL_CREATE OR FAT16_CTL_DIR)) (\<lambda>(m, r).
     if r = None then Some (Inl (AssertFail ''fat stress test create : create topest level directory failed'')) else
     bind_ro (sayl (cstr '''') m) (stress_create_loop stk rodata adr vol [0..<128] (replicate 5 NUL) (replicate 128 NUL)))))"

primrec stress_delete_loop ::
  "(nat \<Rightarrow> char) \<Rightarrow> char list \<Rightarrow> (char list \<Rightarrow> nat) \<Rightarrow> Fat16Volume \<Rightarrow> nat list \<Rightarrow> char list \<Rightarrow> char list \<Rightarrow> machine \<Rightarrow> machine res option" where
  "stress_delete_loop stk rodata adr vol [] s path_n m = Some (Inr m)"
| "stress_delete_loop stk rodata adr vol (i # is) s path_n m =
     bind_ro (Some (numbered (cstr ''/trash/'') (int i) s path_n)) (\<lambda>(s, path_n).
     bind_ro (fat_delete_file m stk rodata adr vol path_n) (\<lambda>(m, _). stress_delete_loop stk rodata adr vol is s path_n m))"

primrec write_again :: "(nat \<Rightarrow> char) \<Rightarrow> char list \<Rightarrow> nat \<Rightarrow> Fat16File \<Rightarrow> machine \<Rightarrow> (machine \<times> Fat16File) res option" where
  "write_again stk pattern 0 f m = Some (Inr (m, f))"
| "write_again stk pattern (Suc n) f m =
     bind_ro (Some (strlen pattern 0)) (\<lambda>l.
     bind_ro (fat_write_file m stk (Some f) pattern l) (\<lambda>(m, f, _). write_again stk pattern n f m))"

partial_function (option) read_line_loop :: "(nat \<Rightarrow> char) \<Rightarrow> machine \<Rightarrow> Fat16File \<Rightarrow> char list \<Rightarrow> machine res option" where
  "read_line_loop stk m f buf =
     bind_ro (fat_read_file m stk (Some f) buf 123) (\<lambda>(m, f, buf, len).
     if len \<noteq> - 1 then bind_ro (sayl buf m) (\<lambda>m. read_line_loop stk m f buf) else Some (Inr m))"

definition test_fat_stress_delete :: "(nat \<Rightarrow> char) \<Rightarrow> char list \<Rightarrow> (char list \<Rightarrow> nat) \<Rightarrow> Fat16Volume \<Rightarrow> machine \<Rightarrow> machine res option" where
  "test_fat_stress_delete stk rodata adr vol m =
     bind_ro (say (cstr ''stress test delete: '') m) (\<lambda>m.
     bind_ro (sayl (cstr ''/trash/'') m) (\<lambda>m.
     bind_ro (sayl (cstr '''') m) (\<lambda>m.
     bind_ro (stress_delete_loop stk rodata adr vol [0..<128] (replicate 5 NUL) (replicate 128 NUL) m) (\<lambda>m.
     bind_ro (sayl (cstr ''create and write to file /trash/aaa'') m) (\<lambda>m.
     bind_ro (fat_open m stk rodata adr vol (cstr ''/trash/aaa'') (FAT16_CTL_CREATE OR FAT16_CTL_APPEND)) (\<lambda>(m, r).
     case r of None \<Rightarrow> Some (Inl (AssertFail ''fat test delete 2 failed''))
     | Some f \<Rightarrow>
         bind_ro (write_again stk (cstr (''1234567890'' @ [NL])) 1024 f m) (\<lambda>(m, _).
         bind_ro (fat_open m stk rodata adr vol (cstr ''/trash/aaa'') 0) (\<lambda>(m, r).
         case r of None \<Rightarrow> Some (Inl (AssertFail ''fat test delete 3 failed''))
         | Some f \<Rightarrow>
             bind_ro (sayl (cstr ''read file /trash/aaa'') m) (\<lambda>m. read_line_loop stk m f (replicate 124 NUL))))))))))"

text \<open>\<open>test_fat16\<close>; \<open>vol\<close> is the local structure before \<open>fat_get_volume\<close> fills it in.\<close>

definition test_fat16 :: "(nat \<Rightarrow> char) \<Rightarrow> char list \<Rightarrow> (char list \<Rightarrow> nat) \<Rightarrow> Fat16Volume \<Rightarrow> machine \<Rightarrow> machine res option" where
  "test_fat16 stk rodata adr vol m =
     bind_ro (fat_get_volume m stk (Some vol)) (\<lambda>(m, v, _).
     let vol = (case v of None \<Rightarrow> vol | Some v \<Rightarrow> v) in
     bind_ro (test_fat16_find stk rodata adr vol m) (\<lambda>m.
     bind_ro (test_fat16_read stk rodata adr vol m) (test_fat_stress_delete stk rodata adr vol)))"

section \<open>Formatted output\<close>

definition test_printf1 :: "machine \<Rightarrow> machine res option" where
  "test_printf1 = in_turn (\<lambda>s. say (cstr s)) [''1234'', ''5678'' @ [NL]]"

definition test_printf2 :: "machine \<Rightarrow> machine res option" where
  "test_printf2 m =
     bind_ro (sayf (cstr ''%s'') [VStr (cstr (''12345678'' @ [NL]))] m) (\<lambda>m.
     bind_ro (sayf (cstr (''%s %d %c%c'' @ [NL])) [VStr (cstr ''1234''), VInt 5, VChar (CHR ''g''), VChar (CHR ''d'')] m) (\<lambda>m.
     bind_ro (in_turn (\<lambda>s. say (cstr s)) [''9012 22334'' @ [NL], ''3456'' @ [NL], ''7890'' @ [NL], [NL]] m) (\<lambda>m.
     bind_ro (sayf (cstr (''%05x %x %02x %3x %5x %08x'' @ [NL])) (map VInt [0x5, 0x5, 0x123, 0x1234, 0x12342234, 0x12345]) m) (\<lambda>m.
     bind_ro (sayf (cstr (''%x %0x %0x %0x'' @ [NL])) (map VInt [0, 0x123, 0, 3]) m) (\<lambda>m.
     bind_ro (sayf (cstr (''%05d %d %02d %3d %5d %08d'' @ [NL])) (map VInt [5, 5, 123, 1234, 12342234, 12345]) m) (\<lambda>m.
     bind_ro (sayf (cstr (''%d %0d %0d %0d'' @ [NL])) (map VInt [0, 123, 0, 3]) m) (\<lambda>m.
     say (cstr (''7890'' @ [NL])) m)))))))"

section \<open>The first task\<close>

primrec clear_states :: "nat list \<Rightarrow> Task list \<Rightarrow> Task list res" where
  "clear_states [] arr = Inr arr"
| "clear_states (i # is) arr = bind_res (rd arr i) (\<lambda>t. bind_res (wr arr i (t\<lparr>t_state := 0\<rparr>)) (clear_states is))"

definition PHY_TO_KVM :: "nat \<Rightarrow> nat" where
  "PHY_TO_KVM addr = add32 addr KERNEL_V_START"

definition with_sched :: "kernel \<Rightarrow> ksched \<Rightarrow> kernel" where
  "with_sched k s = k\<lparr>mach := (mach k)\<lparr>sched := s\<rparr>\<rparr>"

definition init_task0 :: "u32 \<Rightarrow> u32 \<Rightarrow> nat \<Rightarrow> kernel \<Rightarrow> paging \<Rightarrow> (kernel \<times> paging) res option" where
  "init_task0 tss_addr ret_syscall karg_phy k st =
     (let s = sched (mach k) in
     bind_ro (Some (clear_states [0..<MAX_TASK_NUM] (task_arr s))) (\<lambda>arr.
     bind_ro (alloc_kstack_and_task st (s\<lparr>task_arr := arr\<rparr>) PG_DIR0_ADDR) (\<lambda>(st, s, kstack).
     bind_ro (Some (ld st (KSTACK_TO_TASK kstack + 16))) (\<lambda>tid.
     let s = setup_tss tss_addr (s\<lparr>current := Some (unat tid)\<rparr>) in
     bind_ro (Some (register_syscall k (int SYS_EXIT) Fn_terminate_process)) (\<lambda>(k, _).
     bind_ro (spawn_ram ret_syscall st s (PHY_TO_KVM karg_phy)) (\<lambda>(st, s). Some (Inr (with_sched k s, st))))))))"

section \<open>The kernel\<close>

definition init_devices :: "kernel \<Rightarrow> kernel res option" where
  "init_devices k =
     (let m = mach k; m = m\<lparr>pio := init_timer (pio m)\<rparr> in
     bind_ro (init_serial m) (\<lambda>(m, _). Some (Inr (k\<lparr>mach := m\<rparr>))))"

text \<open>
  \<open>main\<close> up to \<open>init_task0\<close>: the heap, the console and the screen, then the interrupts, the devices and the system calls.
  \<open>re_init_pg_dir0\<close> has no body.
\<close>

definition main_setup :: "(nat \<Rightarrow> u32) \<Rightarrow> u32 \<Rightarrow> kernel \<Rightarrow> kernel res option" where
  "main_setup isr idt_addr k =
     (let m = mach k; c = con m; c = c\<lparr>kernel_heap := init_heap (kernel_heap c)\<rparr> in
     bind_ro (init_console c) (\<lambda>c.
     let c = c\<lparr>screen := vga_clear_all (screen c)\<rparr> in
     bind_ro (Some (init_idt isr idt_addr (k\<lparr>mach := m\<lparr>con := c\<rparr>\<rparr>))) (\<lambda>k.
     bind_ro (init_devices k) (\<lambda>k. Some (init_syscall k)))))"

definition main :: "(nat \<Rightarrow> u32) \<Rightarrow> u32 \<Rightarrow> u32 \<Rightarrow> u32 \<Rightarrow> nat \<Rightarrow> kernel \<Rightarrow> paging \<Rightarrow> (kernel \<times> paging) res option" where
  "main isr idt_addr tss_addr ret_syscall karg_phy k st =
     bind_ro (main_setup isr idt_addr k) (\<lambda>k. init_task0 tss_addr ret_syscall karg_phy k st)"

end
