(* ===== verification/Ts_Mem_Props.thy ===== *)
theory Ts_Mem_Props
  imports Ts_Mem
begin

text \<open>
  Paging: the map that the early set-up builds, and the temporary mappings of frames. The tables of the
  boot directory lie one after the other; \<open>slot t i\<close> is the address of entry \<open>i\<close> of the directory (\<open>t = 0\<close>)
  or of table \<open>t - 1\<close>.
\<close>

section \<open>Entries\<close>

lemma entry_set_bit: "PAGE_ENTRY_SET e \<longleftrightarrow> bit e 0"
  by (simp add: PAGE_ENTRY_SET_def and_one_eq odd_iff_mod_2_eq_one bit_0)

lemma frame_mask: "(0xFFFFF000 :: u32) = NOT (mask 12)"
  by (simp add: mask_eq_exp_minus_1)

lemma page_bits:
  assumes "a mod 4096 = (0 :: nat)" "bit a n"
  shows "12 \<le> n"
proof (rule ccontr)
  assume "\<not> 12 \<le> n"
  then have "bit (take_bit 12 a) n" using assms(2) by (simp add: bit_take_bit_iff)
  moreover have "take_bit 12 a = 0" using assms(1) by (simp add: take_bit_eq_mod)
  ultimately show False by simp
qed

lemma page_and_mask:
  assumes "a mod 4096 = 0"
  shows "of_nat a AND 0xFFFFF000 = (of_nat a :: u32)"
  unfolding frame_mask
  by (intro bit_eqI) (auto simp: bit_simps not_less intro: page_bits [OF assms])

text \<open>An entry for frame \<open>a\<close> with flags below the frame bits.\<close>

lemma ent_addr_entry:
  assumes "a mod 4096 = 0" "a < 4294967296" "take_bit 12 flag = flag"
  shows "ent_addr (of_nat a OR flag) = a"
proof -
  have f: "\<not> bit flag n" if "12 \<le> n" for n
  proof -
    have "bit (take_bit 12 flag) n = bit flag n" by (simp only: assms(3))
    then show ?thesis using that by (simp add: bit_take_bit_iff)
  qed
  have "(of_nat a OR flag) AND 0xFFFFF000 = (of_nat a :: u32)"
    unfolding frame_mask using f
    by (intro bit_eqI) (auto simp: bit_simps not_less intro: page_bits [OF assms(1)])
  then show ?thesis using assms(2) by (simp add: ent_addr_def unat_of_nat)
qed

lemma flag_bits [simp]:
  "take_bit 12 (1 :: u32) = 1" "take_bit 12 (0xB :: u32) = 0xB" "take_bit 12 (0xF :: u32) = 0xF"
  by (simp_all add: take_bit_eq_mod)

lemma entry_set [simp]:
  "PAGE_ENTRY_SET (e OR 1)" "PAGE_ENTRY_SET (e OR 0xB)" "PAGE_ENTRY_SET (e OR 0xF)" "\<not> PAGE_ENTRY_SET 0"
  by (simp_all add: entry_set_bit bit_or_iff)

section \<open>Accesses without paging\<close>

lemma off_simps:
  assumes "\<not> paging_on st"
  shows "ld st a = Inr (pmem st a)" "sto st a v = Inr (st\<lparr>pmem := (pmem st)(a := v)\<rparr>)"
  using assms by (simp_all add: ld_def sto_def translate_def)

lemma memzero_loop_off:
  "\<not> paging_on st \<Longrightarrow> memzero_loop p is st = Inr (st\<lparr>pmem := (\<lambda>a. if a \<in> (\<lambda>i. p + 4 * i) ` set is then 0 else pmem st a)\<rparr>)"
proof (induction "is" arbitrary: st)
  case (Cons i "is")
  let ?st = "st\<lparr>pmem := (pmem st)(p + 4 * i := 0)\<rparr>"
  have "memzero_loop p (i # is) st = memzero_loop p is ?st" using Cons.prems by (simp add: off_simps)
  also have "\<dots> = Inr (?st\<lparr>pmem := (\<lambda>a. if a \<in> (\<lambda>i. p + 4 * i) ` set is then 0 else pmem ?st a)\<rparr>)"
    using Cons.prems by (intro Cons.IH) simp
  also have "?st\<lparr>pmem := (\<lambda>a. if a \<in> (\<lambda>i. p + 4 * i) ` set is then 0 else pmem ?st a)\<rparr> =
      st\<lparr>pmem := (\<lambda>a. if a \<in> (\<lambda>i. p + 4 * i) ` set (i # is) then 0 else pmem st a)\<rparr>"
    by (auto simp: fun_eq_iff intro!: paging.equality)
  finally show ?case .
qed simp

definition slot :: "nat \<Rightarrow> nat \<Rightarrow> nat" where
  "slot t i = 0x100000 + 4096 * t + 4 * i"

definition tbl :: "paging \<Rightarrow> nat \<Rightarrow> nat \<Rightarrow> u32" where
  "tbl st t i = pmem st (slot t i)"

lemma index_eq: "i < 1024 \<Longrightarrow> j < 1024 \<Longrightarrow> t * 1024 + i = u * 1024 + j \<longleftrightarrow> t = u \<and> i = (j :: nat)"
proof
  assume ij: "i < 1024" "j < 1024" and e: "t * 1024 + i = u * 1024 + j"
  have "(t * 1024 + i) div 1024 = t" "(u * 1024 + j) div 1024 = u" using ij by simp_all
  then show "t = u \<and> i = j" using e by (metis add_left_cancel)
qed simp

lemma slot_eq: "i < 1024 \<Longrightarrow> j < 1024 \<Longrightarrow> slot t i = slot u j \<longleftrightarrow> t = u \<and> i = j"
proof -
  have "slot t i = slot u j \<longleftrightarrow> t * 1024 + i = u * 1024 + j" by (auto simp: slot_def)
  then show "i < 1024 \<Longrightarrow> j < 1024 \<Longrightarrow> slot t i = slot u j \<longleftrightarrow> t = u \<and> i = j" by (simp only: index_eq)
qed

lemma slot_dir: "PG_DIR0_ADDR + 4 * i = slot 0 i" "DIR0_PT_PHY t + 4 * i = slot (t + 1) i"
  "PG_DIR0_ADDR = slot 0 0" "DIR0_PT_PHY t = slot (t + 1) 0"
  by (simp_all add: slot_def DIR0_PT_PHY_def)

lemma sto_tbl:
  assumes "\<not> paging_on st" "i < 1024"
  obtains st' where "sto st (slot t i) v = Inr st'" "\<not> paging_on st'"
    "\<And>u j. j < 1024 \<Longrightarrow> tbl st' u j = (if u = t \<and> j = i then v else tbl st u j)"
proof
  show "sto st (slot t i) v = Inr (st\<lparr>pmem := (pmem st)(slot t i := v)\<rparr>)" using assms by (simp add: off_simps)
qed (use assms slot_eq in \<open>auto simp: tbl_def\<close>)

lemma ld_tbl: "\<not> paging_on st \<Longrightarrow> ld st (slot t i) = Inr (tbl st t i)"
  by (simp add: off_simps tbl_def)

lemma memzero_tbl:
  assumes "\<not> paging_on st"
  obtains st' where "memzero st (slot t 0) 4096 = Inr st'" "\<not> paging_on st'"
    "\<And>u j. j < 1024 \<Longrightarrow> tbl st' u j = (if u = t then 0 else tbl st u j)"
proof
  let ?S = "(\<lambda>i. slot t 0 + 4 * i) ` set [0..<1024]"
  show "memzero st (slot t 0) 4096 = Inr (st\<lparr>pmem := (\<lambda>a. if a \<in> ?S then 0 else pmem st a)\<rparr>)"
    using memzero_loop_off [OF assms, of "slot t 0" "[0..<1024]"] by (simp add: memzero_def del: upt.simps)
  fix u j :: nat
  assume j: "j < 1024"
  have "slot t 0 + 4 * i = slot t i" for i by (simp add: slot_def)
  then have "slot u j \<in> ?S \<longleftrightarrow> u = t" using slot_eq [OF j] j by (auto simp del: upt.simps)
  then show "tbl (st\<lparr>pmem := (\<lambda>a. if a \<in> ?S then 0 else pmem st a)\<rparr>) u j = (if u = t then 0 else tbl st u j)"
    by (simp add: tbl_def del: upt.simps)
qed (use assms in simp)

section \<open>The boot directory\<close>

text \<open>
  The state of the boot directory: \<open>D\<close> are the directory entries in use besides the two for system
  mappings, and \<open>M\<close> gives the frame number of each virtual page number that is mapped.
\<close>

definition boot_inv :: "paging \<Rightarrow> nat set \<Rightarrow> (nat \<Rightarrow> nat option) \<Rightarrow> bool" where
  "boot_inv st D M \<longleftrightarrow> \<not> paging_on st \<and> D \<subseteq> {..<1022} \<and>
     (\<forall>di<1024. tbl st 0 di = (if di \<in> D \<union> {1022, 1023} then of_nat (DIR0_PT_PHY di) OR 0xB else 0)) \<and>
     (\<forall>di<1024. tbl st 1024 di = (if di \<in> D \<union> {1022, 1023} then of_nat (DIR0_PT_PHY di) OR 1 else 0)) \<and>
     (\<forall>i<1024. tbl st 1023 i = (if i = 1023 then of_nat 0x100000 OR 0xB else 0)) \<and>
     (\<forall>di\<in>D. \<forall>ti<1024. tbl st (di + 1) ti = (case M (di * 1024 + ti) of None \<Rightarrow> 0 | Some p \<Rightarrow> of_nat (4096 * p) OR 1)) \<and>
     (\<forall>n p. M n = Some p \<longrightarrow> n div 1024 \<in> D)"

lemma DIR0_PT_PHY_page: "DIR0_PT_PHY di mod 4096 = 0" "di < 1024 \<Longrightarrow> DIR0_PT_PHY di < 4294967296"
  by (simp_all add: DIR0_PT_PHY_def)

lemma ent_addr_table: "di < 1024 \<Longrightarrow> take_bit 12 f = f \<Longrightarrow> ent_addr (of_nat (DIR0_PT_PHY di) OR f) = DIR0_PT_PHY di"
  by (intro ent_addr_entry DIR0_PT_PHY_page)

lemma pt_phy_from_dir_boot:
  assumes "boot_inv st D M" "di \<in> D \<union> {1022, 1023}"
  shows "pt_phy_from_dir st 0x100000 di = Inr (DIR0_PT_PHY di)"
proof -
  have di: "di < 1024" using assms by (auto simp: boot_inv_def)
  have "ld st (0x100000 + 4 * di) = Inr (of_nat (DIR0_PT_PHY di) OR 0xB)"
    unfolding slot_dir(1) using assms di ld_tbl [of st 0 di] by (simp add: boot_inv_def)
  then show ?thesis using di by (simp add: pt_phy_from_dir_def ent_addr_table)
qed

text \<open>\<open>init_pg_dir0\<close> on any memory.\<close>

lemma pg_dir_add_boot:
  assumes off: "\<not> paging_on st" and t: "tbl st 0 di = 0" "di < 1024"
  obtains st' where "pg_dir_add st 0x100000 (DIR0_PT_PHY 1023) di (DIR0_PT_PHY di) 0xB = Inr (st', 1)" "\<not> paging_on st'"
    "\<And>u j. j < 1024 \<Longrightarrow> tbl st' u j = (if u = 0 \<and> j = di then of_nat (DIR0_PT_PHY di) OR 0xB
       else if u = 1024 \<and> j = di then of_nat (DIR0_PT_PHY di) OR 1 else tbl st u j)"
proof -
  obtain s1 where s1: "sto st (slot 0 di) (of_nat (DIR0_PT_PHY di) OR 0xB) = Inr s1" "\<not> paging_on s1"
    "\<And>u j. j < 1024 \<Longrightarrow> tbl s1 u j = (if u = 0 \<and> j = di then of_nat (DIR0_PT_PHY di) OR 0xB else tbl st u j)"
    using sto_tbl [OF off t(2), of 0] by metis
  obtain s2 where s2: "sto s1 (slot 1024 di) (of_nat (DIR0_PT_PHY di) OR 1) = Inr s2" "\<not> paging_on s2"
    "\<And>u j. j < 1024 \<Longrightarrow> tbl s2 u j = (if u = 1024 \<and> j = di then of_nat (DIR0_PT_PHY di) OR 1 else tbl s1 u j)"
    using sto_tbl [OF s1(2) t(2), of 1024] by metis
  have m: "(of_nat (DIR0_PT_PHY di) :: u32) AND 0xFFFFF000 = of_nat (DIR0_PT_PHY di)"
    by (rule page_and_mask [OF DIR0_PT_PHY_page(1)])
  have a: "0x100000 + 4 * di = slot 0 di" "DIR0_PT_PHY 1023 + 4 * di = slot 1024 di"
    by (simp_all add: slot_def DIR0_PT_PHY_def)
  have "pg_dir_add st 0x100000 (DIR0_PT_PHY 1023) di (DIR0_PT_PHY di) 0xB = Inr (s2, 1)"
    unfolding pg_dir_add_def a m using ld_tbl [OF off, of 0 di] t(1) s1(1) s2(1) by simp
  then show ?thesis using that [of s2] s1(3) s2(2,3) by simp
qed

lemma init_pg_dir0_boot:
  assumes "\<not> paging_on st"
  obtains st' where "init_pg_dir0 st = Inr st'" "boot_inv st' {} (\<lambda>_. None)"
proof -
  obtain s1 where s1: "memzero st (slot 0 0) 4096 = Inr s1" "\<not> paging_on s1"
    "\<And>u j. j < 1024 \<Longrightarrow> tbl s1 u j = (if u = 0 then 0 else tbl st u j)" using memzero_tbl [OF assms] by metis
  obtain s2 where s2: "memzero s1 (slot 1024 0) 4096 = Inr s2" "\<not> paging_on s2"
    "\<And>u j. j < 1024 \<Longrightarrow> tbl s2 u j = (if u = 1024 then 0 else tbl s1 u j)" using memzero_tbl [OF s1(2)] by metis
  obtain s3 where s3: "memzero s2 (slot 1023 0) 4096 = Inr s3" "\<not> paging_on s3"
    "\<And>u j. j < 1024 \<Longrightarrow> tbl s3 u j = (if u = 1023 then 0 else tbl s2 u j)" using memzero_tbl [OF s2(2)] by metis
  have lt: "(1023 :: nat) < 1024" "(1022 :: nat) < 1024" by simp_all
  have z3: "tbl s3 0 1023 = 0" using s1(3) s2(3) s3(3) by simp
  obtain s4 where s4: "pg_dir_add s3 0x100000 (DIR0_PT_PHY 1023) 1023 (DIR0_PT_PHY 1023) 0xB = Inr (s4, 1)" "\<not> paging_on s4"
    "\<And>u j. j < 1024 \<Longrightarrow> tbl s4 u j = (if u = 0 \<and> j = 1023 then of_nat (DIR0_PT_PHY 1023) OR 0xB
       else if u = 1024 \<and> j = 1023 then of_nat (DIR0_PT_PHY 1023) OR 1 else tbl s3 u j)"
    using pg_dir_add_boot [OF s3(2) z3 lt(1)] by blast
  have z4: "tbl s4 0 1022 = 0" using s1(3) s2(3) s3(3) s4(3) by simp
  obtain s5 where s5: "pg_dir_add s4 0x100000 (DIR0_PT_PHY 1023) 1022 (DIR0_PT_PHY 1022) 0xB = Inr (s5, 1)" "\<not> paging_on s5"
    "\<And>u j. j < 1024 \<Longrightarrow> tbl s5 u j = (if u = 0 \<and> j = 1022 then of_nat (DIR0_PT_PHY 1022) OR 0xB
       else if u = 1024 \<and> j = 1022 then of_nat (DIR0_PT_PHY 1022) OR 1 else tbl s4 u j)"
    using pg_dir_add_boot [OF s4(2) z4 lt(2)] by blast
  obtain s6 where s6: "sto s5 (slot 1023 1023) (of_nat 0x100000 OR 0xB) = Inr s6" "\<not> paging_on s6"
    "\<And>u j. j < 1024 \<Longrightarrow> tbl s6 u j = (if u = 1023 \<and> j = 1023 then of_nat 0x100000 OR 0xB else tbl s5 u j)"
    using sto_tbl [OF s5(2) lt(1), of 1023] by blast
  have a: "DIR0_PT_PHY 1022 + 4 * 1023 = slot 1023 1023" by (simp add: slot_def DIR0_PT_PHY_def)
  have z: "slot 0 0 = 0x100000" "slot 1024 0 = DIR0_PT_PHY 1023" "slot 1023 0 = DIR0_PT_PHY 1022"
    by (simp_all add: slot_def DIR0_PT_PHY_def)
  have "init_pg_dir0 st = Inr s6"
    unfolding init_pg_dir0_def Let_def a
    using s1(1) s2(1) s3(1) s4(1) s5(1) s6(1) unfolding z by simp
  moreover have "boot_inv s6 {} (\<lambda>_. None)"
    using s6(2) by (simp add: boot_inv_def s6(3) s5(3) s4(3) s3(3) s2(3) s1(3))
  ultimately show ?thesis by (rule that)
qed

text \<open>One page: the table is created if it is missing, then the entry is set.\<close>

lemma create_table_boot:
  assumes inv: "boot_inv st D M" and di: "PAGE_DIR_INDEX va = di" "di < 1022" "di \<notin> D"
  obtains st' where "create_page_table_early st 0x100000 (DIR0_PT_PHY 1023) va 0xB = Inr (st', DIR0_PT_PHY di)"
    "boot_inv st' (insert di D) M"
proof -
  have off: "\<not> paging_on st" and lt: "di < 1024" using inv di(2) by (simp_all add: boot_inv_def)
  have e: "tbl st 0 di = 0" using inv di(2,3) by (simp add: boot_inv_def)
  obtain s1 where s1: "memzero st (slot (di + 1) 0) 4096 = Inr s1" "\<not> paging_on s1"
    "\<And>u j. j < 1024 \<Longrightarrow> tbl s1 u j = (if u = di + 1 then 0 else tbl st u j)" using memzero_tbl [OF off] by metis
  obtain s2 where s2: "sto s1 (slot 0 di) (of_nat (DIR0_PT_PHY di) OR 0xB) = Inr s2" "\<not> paging_on s2"
    "\<And>u j. j < 1024 \<Longrightarrow> tbl s2 u j = (if u = 0 \<and> j = di then of_nat (DIR0_PT_PHY di) OR 0xB else tbl s1 u j)"
    using sto_tbl [OF s1(2) lt, of 0] by metis
  obtain s3 where s3: "sto s2 (slot 1024 di) (of_nat (DIR0_PT_PHY di) OR 1) = Inr s3" "\<not> paging_on s3"
    "\<And>u j. j < 1024 \<Longrightarrow> tbl s3 u j = (if u = 1024 \<and> j = di then of_nat (DIR0_PT_PHY di) OR 1 else tbl s2 u j)"
    using sto_tbl [OF s2(2) lt, of 1024] by metis
  have a: "0x100000 + 4 * di = slot 0 di" "DIR0_PT_PHY 1023 + 4 * di = slot 1024 di" "slot (di + 1) 0 = DIR0_PT_PHY di"
    "DIR0_PT_PHY 1023 \<noteq> 0"
    by (simp_all add: slot_def DIR0_PT_PHY_def)
  have "create_page_table_early st 0x100000 (DIR0_PT_PHY 1023) va 0xB = Inr (s3, DIR0_PT_PHY di)"
    unfolding create_page_table_early_def pg_dir_no_entry_def di(1) a Let_def
    using ld_tbl [OF off, of 0 di] e s1(1) s2(1) s3(1) a(3,4) by simp
  moreover have "boot_inv s3 (insert di D) M"
  proof -
    have M: "M (di * 1024 + ti) = None" if "ti < 1024" for ti
    proof (cases "M (di * 1024 + ti)")
      case (Some p)
      then have "(di * 1024 + ti) div 1024 \<in> D" using inv by (auto simp: boot_inv_def)
      moreover have "(di * 1024 + ti) div 1024 = di" using that by simp
      ultimately show ?thesis using di(3) by simp
    qed
    have t: "tbl s3 u j = (if u = 1024 \<and> j = di then of_nat (DIR0_PT_PHY di) OR 1
        else if u = 0 \<and> j = di then of_nat (DIR0_PT_PHY di) OR 0xB else if u = di + 1 then 0 else tbl st u j)"
      if "j < 1024" for u j using that by (simp add: s3(3) s2(3) s1(3))
    have "tbl s3 (d + 1) ti = (case M (d * 1024 + ti) of None \<Rightarrow> 0 | Some p \<Rightarrow> of_nat (4096 * p) OR 1)"
      if "d \<in> insert di D" "ti < 1024" for d ti
      using that M [of ti] inv di(2) t [OF that(2), of "d + 1"] by (cases "d = di") (auto simp: boot_inv_def)
    moreover have "\<forall>d<1024. tbl s3 0 d = (if d \<in> insert di D \<union> {1022, 1023} then of_nat (DIR0_PT_PHY d) OR 0xB else 0)"
      using inv di(2) by (simp add: t boot_inv_def)
    moreover have "\<forall>d<1024. tbl s3 1024 d = (if d \<in> insert di D \<union> {1022, 1023} then of_nat (DIR0_PT_PHY d) OR 1 else 0)"
      using inv di(2) by (simp add: t boot_inv_def)
    moreover have "\<forall>i<1024. tbl s3 1023 i = (if i = 1023 then of_nat 0x100000 OR 0xB else 0)"
      using inv di(2) by (simp add: t boot_inv_def)
    ultimately show ?thesis using s3(2) inv di(2) by (simp add: boot_inv_def)
  qed
  ultimately show ?thesis by (rule that)
qed

lemma set_entry_boot:
  assumes inv: "boot_inv st D M" and di: "di \<in> D" "ti < 1024"
  obtains st' where "sto st (DIR0_PT_PHY di + 4 * ti) (of_nat (4096 * p) OR 1) = Inr st'"
    "boot_inv st' D (M(di * 1024 + ti \<mapsto> p))"
proof -
  have off: "\<not> paging_on st" and lt: "di < 1022" using inv di(1) by (auto simp: boot_inv_def)
  obtain s1 where s1: "sto st (slot (di + 1) ti) (of_nat (4096 * p) OR 1) = Inr s1" "\<not> paging_on s1"
    "\<And>u j. j < 1024 \<Longrightarrow> tbl s1 u j = (if u = di + 1 \<and> j = ti then of_nat (4096 * p) OR 1 else tbl st u j)"
    using sto_tbl [OF off di(2), of "di + 1"] by metis
  have inj: "d * 1024 + i = di * 1024 + ti \<longleftrightarrow> d = di \<and> i = ti" if "i < 1024" for d i
    by (rule index_eq [OF that di(2)])
  have "tbl s1 (d + 1) i = (case (M(di * 1024 + ti \<mapsto> p)) (d * 1024 + i) of None \<Rightarrow> 0 | Some p \<Rightarrow> of_nat (4096 * p) OR 1)"
    if "d \<in> D" "i < 1024" for d i
    using that inv s1(3) [OF that(2), of "d + 1"] inj [OF that(2), of d] by (auto simp: boot_inv_def)
  moreover have "(di * 1024 + ti) div 1024 = di" using di(2) by simp
  ultimately have "boot_inv s1 D (M(di * 1024 + ti \<mapsto> p))"
    using inv lt di s1(2) by (simp add: boot_inv_def s1(3))
  then show ?thesis using that s1(1) by (simp only: slot_dir(2))
qed

lemma set_vmap_boot:
  assumes inv: "boot_inv st D M" and va: "va div 4096 = n" "n div 1024 < 1022"
    and pa: "pa = 4096 * p" "n mod 1024 = p mod 1024"
  obtains st' where "set_pg_dir0_vmap st va pa f = Inr st'" "boot_inv st' (insert (n div 1024) D) (M(n \<mapsto> p))"
proof -
  let ?di = "n div 1024" and ?ti = "n mod 1024"
  have di: "PAGE_DIR_INDEX va = ?di" by (simp add: PAGE_DIR_INDEX_def flip: va(1) div_mult2_eq)
  have ti: "PAGE_TABLE_INDEX pa = ?ti" using pa by (simp add: PAGE_TABLE_INDEX_def)
  have rev_tb: "pt_phy_from_dir st 0x100000 1023 = Inr (DIR0_PT_PHY 1023)" using pt_phy_from_dir_boot [OF inv] by simp
  obtain s1 pt where s1: "create_page_table_early st 0x100000 (DIR0_PT_PHY 1023) va 0xB = Inr (s1, pt)"
    "boot_inv s1 (insert ?di D) M" "(if pt = 0 then pt_phy_from_dir s1 0x100000 ?di else Inr pt) = Inr (DIR0_PT_PHY ?di)"
  proof (cases "?di \<in> D")
    case True
    have "tbl st 0 ?di = of_nat (DIR0_PT_PHY ?di) OR 0xB" using inv va(2) True by (simp add: boot_inv_def)
    then have "ld st (0x100000 + 4 * ?di) = Inr (of_nat (DIR0_PT_PHY ?di) OR 0xB)"
      unfolding slot_dir(1) using inv ld_tbl [of st 0 ?di] by (simp add: boot_inv_def)
    then have "create_page_table_early st 0x100000 (DIR0_PT_PHY 1023) va 0xB = Inr (st, 0)"
      by (simp add: create_page_table_early_def pg_dir_no_entry_def di)
    then show ?thesis using that [of st 0] inv True pt_phy_from_dir_boot [OF inv, of ?di] by (simp add: insert_absorb)
  next
    case False
    obtain s1 where "create_page_table_early st 0x100000 (DIR0_PT_PHY 1023) va 0xB = Inr (s1, DIR0_PT_PHY ?di)"
      "boot_inv s1 (insert ?di D) M"
      using create_table_boot [OF inv di va(2) False] by metis
    then show ?thesis using that [of s1 "DIR0_PT_PHY ?di"] by (simp add: DIR0_PT_PHY_def)
  qed
  have "?di \<in> insert ?di D" "?ti < 1024" by simp_all
  then obtain s2 where s2: "sto s1 (DIR0_PT_PHY ?di + 4 * ?ti) (of_nat (4096 * p) OR 1) = Inr s2"
    "boot_inv s2 (insert ?di D) (M(?di * 1024 + ?ti \<mapsto> p))"
    using set_entry_boot [OF s1(2)] by metis
  have "set_pg_dir0_vmap st va pa f = Inr s2"
    unfolding set_pg_dir0_vmap_def di ti unfolding pa(1) using rev_tb s1(1,3) s2(1) by simp
  then show ?thesis using that s2(2) by (simp add: div_mult_mod_eq)
qed

text \<open>A run of pages from frame \<open>k\<close> up to frame \<open>l\<close>, at a base that is a multiple of 4 MB.\<close>

lemma vmap_loop_boot:
  assumes "boot_inv st D M" "\<And>j. j < l \<Longrightarrow> (1024 * b + j) div 1024 < 1022"
  shows "\<exists>st'. vmap_loop (4096 * (1024 * b)) (4096 * l) (4096 * k) st = Inr st' \<and>
    boot_inv st' (D \<union> (\<lambda>j. (1024 * b + j) div 1024) ` {k..<l})
      (\<lambda>n. if 1024 * b + k \<le> n \<and> n < 1024 * b + l then Some (n - 1024 * b) else M n)"
  using assms(1)
proof (induction "l - k" arbitrary: k st D M)
  case 0
  have "(\<lambda>n. if 1024 * b + k \<le> n \<and> n < 1024 * b + l then Some (n - 1024 * b) else M n) = M" using 0 by (auto simp: fun_eq_iff)
  then show ?case using 0 by (subst vmap_loop.simps) simp
next
  case (Suc x)
  then have k: "k < l" by simp
  let ?n = "1024 * b + k"
  have n: "?n div 1024 < 1022" by (rule assms(2) [OF k])
  have va: "(4096 * k + 4096 * (1024 * b)) div 4096 = ?n" by simp
  obtain s1 where s1: "set_pg_dir0_vmap st (4096 * k + 4096 * (1024 * b)) (4096 * k) 0xB = Inr s1"
    "boot_inv s1 (insert (?n div 1024) D) (M(?n \<mapsto> k))"
    using set_vmap_boot [OF Suc.prems va n, of "4096 * k" k "0xB"] by auto
  have x: "x = l - (k + 1)" using Suc.hyps(2) by simp
  obtain st' where st': "vmap_loop (4096 * (1024 * b)) (4096 * l) (4096 * (k + 1)) s1 = Inr st'"
    "boot_inv st' (insert (?n div 1024) D \<union> (\<lambda>j. (1024 * b + j) div 1024) ` {k + 1..<l})
      (\<lambda>n. if 1024 * b + (k + 1) \<le> n \<and> n < 1024 * b + l then Some (n - 1024 * b) else (M(?n \<mapsto> k)) n)"
    using Suc.hyps(1) [OF x s1(2)] by blast
  have "vmap_loop (4096 * (1024 * b)) (4096 * l) (4096 * k) st = Inr st'"
    using s1(1) st'(1) k by (subst vmap_loop.simps) (simp add: algebra_simps)
  moreover have "insert (?n div 1024) D \<union> (\<lambda>j. (1024 * b + j) div 1024) ` {k + 1..<l} =
      D \<union> (\<lambda>j. (1024 * b + j) div 1024) ` {k..<l}"
    using k by (auto simp: image_iff) (metis Suc_leI atLeastLessThan_iff le_neq_implies_less)
  moreover have "(\<lambda>n. if 1024 * b + (k + 1) \<le> n \<and> n < 1024 * b + l then Some (n - 1024 * b) else (M(?n \<mapsto> k)) n) =
      (\<lambda>n. if 1024 * b + k \<le> n \<and> n < 1024 * b + l then Some (n - 1024 * b) else M n)"
    using k by (auto simp: fun_eq_iff)
  ultimately show ?case using st'(2) by auto
qed

section \<open>The boot map\<close>

definition boot_map :: "nat \<Rightarrow> nat option" where
  "boot_map n = (if n < 256 then Some n else if 0xC0000 \<le> n \<and> n < 0xC1000 then Some (n - 0xC0000) else None)"

definition boot_dirs :: "nat set" where
  "boot_dirs = {0} \<union> {768..771}"

lemma div_range: "(\<lambda>j. (1024 * b + j) div 1024) ` {0..<1024 * m} = {b..<b + m :: nat}"
proof -
  have e: "(1024 * b + j) div 1024 = b + j div 1024" for j by simp
  have "(\<lambda>j. b + j div 1024) ` {0..<1024 * m} = {b..<b + m}"
  proof (intro equalityI subsetI)
    fix x assume "x \<in> {b..<b + m}"
    then have "x = b + (1024 * (x - b)) div 1024" "1024 * (x - b) \<in> {0..<1024 * m}" by auto
    then show "x \<in> (\<lambda>j. b + j div 1024) ` {0..<1024 * m}" by blast
  qed (auto simp: less_mult_imp_div_less mult.commute)
  then show ?thesis by (simp only: e)
qed

lemma init_vmap_boot:
  assumes "\<not> paging_on st"
  obtains st' where "init_pg_dir0_vmap st = Inr st'" "boot_inv st' boot_dirs boot_map"
proof -
  obtain s0 where s0: "init_pg_dir0 st = Inr s0" "boot_inv s0 {} (\<lambda>_. None)" using init_pg_dir0_boot [OF assms] by metis
  have h0: "\<And>j. j < 256 \<Longrightarrow> (1024 * 0 + j) div 1024 < (1022 :: nat)" by simp
  obtain s1 where s1: "vmap_loop (4096 * (1024 * 0)) (4096 * 256) (4096 * 0) s0 = Inr s1"
    "boot_inv s1 ({} \<union> (\<lambda>j. (1024 * 0 + j) div 1024) ` {0..<256})
      (\<lambda>n. if 1024 * 0 + 0 \<le> n \<and> n < 1024 * 0 + 256 then Some (n - 1024 * 0) else None)"
    using vmap_loop_boot [OF s0(2) h0] by blast
  have h1: "\<And>j. j < 4096 \<Longrightarrow> (1024 * 768 + j) div 1024 < (1022 :: nat)" by (simp add: less_mult_imp_div_less)
  obtain s2 where s2: "vmap_loop (4096 * (1024 * 768)) (4096 * 4096) (4096 * 0) s1 = Inr s2"
    "boot_inv s2 (({} \<union> (\<lambda>j. (1024 * 0 + j) div 1024) ` {0..<256}) \<union> (\<lambda>j. (1024 * 768 + j) div 1024) ` {0..<4096})
      (\<lambda>n. if 1024 * 768 + 0 \<le> n \<and> n < 1024 * 768 + 4096 then Some (n - 1024 * 768)
           else if 1024 * 0 + 0 \<le> n \<and> n < 1024 * 0 + 256 then Some (n - 1024 * 0) else None)"
    using vmap_loop_boot [OF s1(2) h1] by blast
  have "init_pg_dir0_vmap st = Inr s2"
    using s0(1) s1(1) s2(1) by (simp add: init_pg_dir0_vmap_def)
  moreover have "({} \<union> (\<lambda>j. (1024 * 0 + j) div 1024) ` {0..<256}) \<union> (\<lambda>j. (1024 * 768 + j) div 1024) ` {0..<4096} = boot_dirs"
  proof -
    have "(\<lambda>j. (1024 * 0 + j) div 1024) ` {0..<256 :: nat} = (\<lambda>_. 0) ` {0..<256 :: nat}" by (rule image_cong) simp_all
    also have "\<dots> = {0}" by (simp only: image_constant_conv) simp
    finally have "(\<lambda>j. (1024 * 0 + j) div 1024) ` {0..<256 :: nat} = {0}" .
    moreover have "(\<lambda>j. (1024 * 768 + j) div 1024) ` {0..<4096 :: nat} = {768..<772}" using div_range [of 768 4] by simp
    ultimately show ?thesis by (auto simp: boot_dirs_def)
  qed
  moreover have "(\<lambda>n. if 1024 * 768 + 0 \<le> n \<and> n < 1024 * 768 + 4096 then Some (n - 1024 * 768)
      else if 1024 * 0 + 0 \<le> n \<and> n < 1024 * 0 + 256 then Some (n - 1024 * 0) else None) = boot_map"
    by (auto simp: fun_eq_iff boot_map_def)
  ultimately show ?thesis using that s2(2) by simp
qed

text \<open>Translation through the boot directory.\<close>

lemma translate_boot:
  assumes inv: "boot_inv st D M" and va: "va < 4294967296" and M: "\<And>n p. M n = Some p \<Longrightarrow> p < 1048576"
    and di: "PAGE_DIR_INDEX va < 1022"
  shows "translate (enable_paging st 0x100000) va =
    (case M (va div 4096) of None \<Rightarrow> Inl PageFault | Some p \<Rightarrow> Inr (4096 * p + va mod 4096))"
proof -
  let ?di = "PAGE_DIR_INDEX va" and ?ti = "PAGE_TABLE_INDEX va"
  have n: "va div 4096 = ?di * 1024 + ?ti" "?ti < 1024" "va div 4096 div 1024 = ?di"
  proof -
    have d: "?di = va div 4096 div 1024" by (simp add: PAGE_DIR_INDEX_def flip: div_mult2_eq)
    then show "va div 4096 = ?di * 1024 + ?ti" by (simp only: PAGE_TABLE_INDEX_def div_mult_mod_eq)
    show "?ti < 1024" "va div 4096 div 1024 = ?di" using d by (simp_all add: PAGE_TABLE_INDEX_def)
  qed
  have pde: "pmem st (0x100000 + 4 * ?di) = tbl st 0 ?di" by (simp add: tbl_def slot_def)
  show ?thesis
  proof (cases "?di \<in> D")
    case True
    have "tbl st 0 ?di = of_nat (DIR0_PT_PHY ?di) OR 0xB" using inv di True by (simp add: boot_inv_def)
    moreover have "pmem st (DIR0_PT_PHY ?di + 4 * ?ti) = (case M (va div 4096) of None \<Rightarrow> 0 | Some p \<Rightarrow> of_nat (4096 * p) OR 1)"
      unfolding slot_dir(2) n(1) using inv True n(2) by (simp add: boot_inv_def flip: tbl_def)
    moreover have "ent_addr (of_nat (4096 * p) OR 1) = 4096 * p" if "M (va div 4096) = Some p" for p
      using M [OF that] by (intro ent_addr_entry) simp_all
    ultimately show ?thesis
      using pde di by (auto simp: translate_def enable_paging_def Let_def ent_addr_table PAGE_OFFSET_def split: option.splits)
  next
    case False
    have "tbl st 0 ?di = 0" using inv di False by (simp add: boot_inv_def)
    moreover have "M (va div 4096) = None"
      using inv False n(3) by (cases "M (va div 4096)") (auto simp: boot_inv_def)
    ultimately show ?thesis using pde by (simp add: translate_def enable_paging_def Let_def)
  qed
qed

lemma table_ptr_index:
  assumes "n < 1024" "i < 1024"
  shows "PAGE_DIR_INDEX (PAGE_TABLE_PTR n + 4 * i) = 1023" "PAGE_TABLE_INDEX (PAGE_TABLE_PTR n + 4 * i) = n"
    "PAGE_OFFSET (PAGE_TABLE_PTR n + 4 * i) = 4 * i"
proof -
  have w: "PAGE_TABLE_PTR n + 4 * i = (1023 * 1024 + n) * 4096 + 4 * i" by (simp add: PAGE_TABLE_PTR_def)
  have i: "4 * i < 4096" using assms(2) by simp
  have p: "((1023 * 1024 + n) * 4096 + 4 * i) div 4096 = 1023 * 1024 + n" using i by simp
  have "((1023 * 1024 + n) * 4096 + 4 * i) div 0x400000 = ((1023 * 1024 + n) * 4096 + 4 * i) div 4096 div 1024"
    by (simp flip: div_mult2_eq)
  also have "\<dots> = 1023" unfolding p using assms(1) by simp
  finally show "PAGE_DIR_INDEX (PAGE_TABLE_PTR n + 4 * i) = 1023" by (simp only: w PAGE_DIR_INDEX_def)
  show "PAGE_TABLE_INDEX (PAGE_TABLE_PTR n + 4 * i) = n"
    unfolding PAGE_TABLE_INDEX_def w p using assms(1) by (simp only: mod_mult_self3 mod_less)
  show "PAGE_OFFSET (PAGE_TABLE_PTR n + 4 * i) = 4 * i"
    unfolding PAGE_OFFSET_def w using i by (simp only: mod_mult_self3 mod_less)
qed

lemma ix_to_va_index:
  assumes "di < 1024" "ti < 1024" "off < 4096"
  shows "PAGE_DIR_INDEX (IX_TO_VA di ti + off) = di" "PAGE_TABLE_INDEX (IX_TO_VA di ti + off) = ti"
    "PAGE_OFFSET (IX_TO_VA di ti + off) = off"
proof -
  have w: "IX_TO_VA di ti + off = (di * 1024 + ti) * 4096 + off" by (simp add: IX_TO_VA_def)
  have p: "((di * 1024 + ti) * 4096 + off) div 4096 = di * 1024 + ti" using assms(3) by simp
  have "((di * 1024 + ti) * 4096 + off) div 0x400000 = ((di * 1024 + ti) * 4096 + off) div 4096 div 1024"
    by (simp flip: div_mult2_eq)
  also have "\<dots> = di" unfolding p using assms(2) by simp
  finally show "PAGE_DIR_INDEX (IX_TO_VA di ti + off) = di" by (simp only: w PAGE_DIR_INDEX_def)
  show "PAGE_TABLE_INDEX (IX_TO_VA di ti + off) = ti"
    unfolding PAGE_TABLE_INDEX_def w p using assms(2) by (simp only: mod_mult_self3 mod_less)
  show "PAGE_OFFSET (IX_TO_VA di ti + off) = off"
    unfolding PAGE_OFFSET_def w using assms(3) by (simp only: mod_mult_self3 mod_less)
qed

lemma boot_dir_entry:
  assumes "boot_inv st D M" "di < 1024"
  shows "pmem st (0x100000 + 4 * di) = (if di \<in> D \<union> {1022, 1023} then of_nat (DIR0_PT_PHY di) OR 0xB else 0)"
  using assms unfolding slot_dir(1) by (simp add: boot_inv_def flip: tbl_def)

lemma boot_rev_entry:
  assumes "boot_inv st D M" "n < 1024"
  shows "pmem st (DIR0_PT_PHY 1023 + 4 * n) = (if n \<in> D \<union> {1022, 1023} then of_nat (DIR0_PT_PHY n) OR 1 else 0)"
  using assms unfolding slot_dir(2) by (simp add: boot_inv_def flip: tbl_def)

lemma window_boot:
  assumes inv: "boot_inv st D M" and n: "n < 1024" "i < 1024"
  shows "translate (enable_paging st 0x100000) (PAGE_TABLE_PTR n + 4 * i) =
    (if n \<in> D \<union> {1022, 1023} then Inr (DIR0_PT_PHY n + 4 * i) else Inl PageFault)"
  using n boot_dir_entry [OF inv, of 1023] boot_rev_entry [OF inv n(1)]
  by (simp add: translate_def enable_paging_def Let_def table_ptr_index ent_addr_table)

section \<open>Temporary mappings\<close>

text \<open>
  The page directory in use has table \<open>sys\<close> at index 1022 and the reverse table \<open>rev_tb\<close> at index 1023, and no
  other entry leads to \<open>sys\<close>.
\<close>

definition sys_window :: "paging \<Rightarrow> nat \<Rightarrow> nat \<Rightarrow> bool" where
  "sys_window st sys rev_tb \<longleftrightarrow> paging_on st \<and> cr3 st mod 4096 = 0 \<and> sys mod 4096 = 0 \<and> rev_tb mod 4096 = 0 \<and>
     cr3 st \<noteq> sys \<and> rev_tb \<noteq> sys \<and>
     PAGE_ENTRY_SET (pmem st (cr3 st + 4 * 1022)) \<and> ent_addr (pmem st (cr3 st + 4 * 1022)) = sys \<and>
     PAGE_ENTRY_SET (pmem st (cr3 st + 4 * 1023)) \<and> ent_addr (pmem st (cr3 st + 4 * 1023)) = rev_tb \<and>
     PAGE_ENTRY_SET (pmem st (rev_tb + 4 * 1022)) \<and> ent_addr (pmem st (rev_tb + 4 * 1022)) = sys \<and>
     (\<forall>di<1024. di \<noteq> 1022 \<longrightarrow> PAGE_ENTRY_SET (pmem st (cr3 st + 4 * di)) \<longrightarrow> ent_addr (pmem st (cr3 st + 4 * di)) \<noteq> sys)"

lemma page_word_eq:
  assumes "a mod 4096 = 0" "b mod 4096 = 0" "i < 1024" "j < 1024"
  shows "a + 4 * i = b + 4 * j \<longleftrightarrow> a = b \<and> i = (j :: nat)"
proof -
  obtain t u where "a = 4096 * t" "b = 4096 * u" using assms(1,2) by (metis mod_0_imp_dvd dvdE)
  then have "a + 4 * i = b + 4 * j \<longleftrightarrow> t * 1024 + i = u * 1024 + j" "a = b \<longleftrightarrow> t = u" by auto
  then show ?thesis using index_eq [OF assms(3,4)] by simp
qed

lemma window_addr:
  assumes "sys_window st sys rev_tb" "i < 1024"
  shows "translate st (PAGE_TABLE_PTR 1022 + 4 * i) = Inr (sys + 4 * i)"
  using assms by (simp add: translate_def Let_def table_ptr_index sys_window_def)

lemma ent_addr_page: "ent_addr e mod 4096 = 0"
proof -
  have "take_bit 12 (e AND 0xFFFFF000) = 0" unfolding frame_mask by (rule bit_eqI) (auto simp: bit_simps)
  then have "take_bit 12 (unat (e AND 0xFFFFF000)) = 0" by (metis unsigned_take_bit_eq unsigned_0)
  then show ?thesis by (simp add: ent_addr_def take_bit_eq_mod)
qed

text \<open>A write to the table of temporary mappings changes the translation of one page only.\<close>

lemma window_write:
  fixes v :: u32
  assumes w: "sys_window st sys rev_tb" and i: "i < 1024"
  defines "st' \<equiv> st\<lparr>pmem := (pmem st)(sys + 4 * i := v)\<rparr>"
  shows "sys_window st' sys rev_tb" "sto st (PAGE_TABLE_PTR 1022 + 4 * i) v = Inr st'"
    "va < 4294967296 \<Longrightarrow> translate st' va =
      (if PAGE_DIR_INDEX va = 1022 \<and> PAGE_TABLE_INDEX va = i
       then if PAGE_ENTRY_SET v then Inr (ent_addr v + PAGE_OFFSET va) else Inl PageFault else translate st va)"
proof -
  have pg: "cr3 st mod 4096 = 0" "sys mod 4096 = 0" "rev_tb mod 4096 = 0" "cr3 st \<noteq> sys" "rev_tb \<noteq> sys" "paging_on st"
    using w by (simp_all add: sys_window_def)
  have pde: "pmem st' (cr3 st + 4 * di) = pmem st (cr3 st + 4 * di)" if "di < 1024" for di
    using page_word_eq [OF pg(1,2) that i] pg(4) by (simp add: st'_def)
  have rev_tb: "pmem st' (rev_tb + 4 * 1022) = pmem st (rev_tb + 4 * 1022)"
    using page_word_eq [OF pg(3,2) _ i, of 1022] pg(5) by (simp add: st'_def)
  have c: "cr3 st' = cr3 st" "paging_on st'" using pg(6) by (simp_all add: st'_def)
  have others: "\<forall>di<1024. di \<noteq> 1022 \<longrightarrow> PAGE_ENTRY_SET (pmem st' (cr3 st + 4 * di)) \<longrightarrow> ent_addr (pmem st' (cr3 st + 4 * di)) \<noteq> sys"
  proof (intro allI impI)
    fix di assume "di < 1024" "di \<noteq> 1022" "PAGE_ENTRY_SET (pmem st' (cr3 st + 4 * di))"
    then show "ent_addr (pmem st' (cr3 st + 4 * di)) \<noteq> sys" unfolding pde [OF \<open>di < 1024\<close>] using w by (simp add: sys_window_def)
  qed
  have two: "pmem st' (cr3 st + 4 * 1022) = pmem st (cr3 st + 4 * 1022)" "pmem st' (cr3 st + 4 * 1023) = pmem st (cr3 st + 4 * 1023)"
    by (rule pde, simp)+
  show "sys_window st' sys rev_tb"
    using w others c(2) unfolding sys_window_def c(1) two rev_tb by - (elim conjE, intro conjI; assumption)
  show "sto st (PAGE_TABLE_PTR 1022 + 4 * i) v = Inr st'" using window_addr [OF w i] by (simp add: sto_def st'_def)
  assume va: "va < 4294967296"
  let ?di = "PAGE_DIR_INDEX va" and ?ti = "PAGE_TABLE_INDEX va"
  have di: "?di < 1024" using va by (simp add: PAGE_DIR_INDEX_def less_mult_imp_div_less)
  have ti: "?ti < 1024" by (simp add: PAGE_TABLE_INDEX_def)
  let ?t = "ent_addr (pmem st (cr3 st + 4 * ?di))"
  have t: "?t = sys \<longleftrightarrow> ?di = 1022" if "PAGE_ENTRY_SET (pmem st (cr3 st + 4 * ?di))"
  proof (cases "?di = 1022")
    case True
    have "ent_addr (pmem st (cr3 st + 4 * 1022)) = sys" using w by (simp add: sys_window_def)
    then show ?thesis unfolding True by simp
  next
    case False
    then show ?thesis using w that di by (simp add: sys_window_def)
  qed
  have pte: "pmem st' (?t + 4 * ?ti) = (if ?di = 1022 \<and> ?ti = i then v else pmem st (?t + 4 * ?ti))"
    if "PAGE_ENTRY_SET (pmem st (cr3 st + 4 * ?di))"
    using page_word_eq [OF ent_addr_page pg(2) ti i] t [OF that] by (auto simp: st'_def)
  show "translate st' va = (if ?di = 1022 \<and> ?ti = i
       then if PAGE_ENTRY_SET v then Inr (ent_addr v + PAGE_OFFSET va) else Inl PageFault else translate st va)"
  proof (cases "PAGE_ENTRY_SET (pmem st (cr3 st + 4 * ?di))")
    case True
    then show ?thesis unfolding translate_def c(1) Let_def pde [OF di] pte [OF True] using c(2) pg(6) by auto
  next
    case False
    have "PAGE_ENTRY_SET (pmem st (cr3 st + 4 * 1022))" using w by (simp add: sys_window_def)
    then have "?di \<noteq> 1022" using False by metis
    then show ?thesis using False unfolding translate_def c(1) Let_def pde [OF di] using c(2) pg(6) by simp
  qed
qed

lemma create_temp_loop_find:
  assumes "sys_window st sys rev_tb" "\<forall>i \<in> set is. i < 1024"
  shows "create_temp_loop st pa is =
    (case find (\<lambda>i. \<not> PAGE_ENTRY_SET (pmem st (sys + 4 * i))) is of None \<Rightarrow> Inr (st, 0)
     | Some i \<Rightarrow> Inr (st\<lparr>pmem := (pmem st)(sys + 4 * i := of_nat pa OR 0xB)\<rparr>, IX_TO_VA 1022 i))"
  using assms(2)
proof (induction "is")
  case (Cons i "is")
  have i: "i < 1024" using Cons.prems by simp
  have l: "ld st (PAGE_TABLE_PTR 1022 + 4 * i) = Inr (pmem st (sys + 4 * i))"
    using window_addr [OF assms(1) i] by (simp add: ld_def)
  show ?case using Cons l window_write(2) [OF assms(1) i] by simp
qed simp

lemma lookup_temp_loop_find:
  assumes "sys_window st sys rev_tb" "\<forall>i \<in> set is. i < 1024"
  shows "lookup_temp_loop st pa is =
    (case find (\<lambda>i. PAGE_ENTRY_SET (pmem st (sys + 4 * i)) \<and> ent_addr (pmem st (sys + 4 * i)) = pa) is of
       None \<Rightarrow> Inr 0 | Some i \<Rightarrow> Inr (IX_TO_VA 1022 i))"
  using assms(2)
proof (induction "is")
  case (Cons i "is")
  have "ld st (PAGE_TABLE_PTR 1022 + 4 * i) = Inr (pmem st (sys + 4 * i))"
    using window_addr [OF assms(1), of i] Cons.prems by (simp add: ld_def)
  then show ?case using Cons by simp
qed simp

lemma find_least:
  assumes "i < n" "P i" "\<And>j. j < i \<Longrightarrow> \<not> P j"
  shows "find P [0..<n] = Some i"
  unfolding find_Some_iff using assms by (intro exI [of _ i]) auto

lemma window_slot:
  assumes w: "sys_window st sys rev_tb" and i: "i < 1024" "PAGE_ENTRY_SET (pmem st (sys + 4 * i))" and "off < 4096"
  shows "translate st (IX_TO_VA 1022 i + off) = Inr (ent_addr (pmem st (sys + 4 * i)) + off)"
  using assms by (simp add: translate_def Let_def ix_to_va_index sys_window_def)

lemma window_lookup:
  assumes w: "sys_window st sys rev_tb" and i: "i < 1024" "PAGE_ENTRY_SET (pmem st (sys + 4 * i))"
    "ent_addr (pmem st (sys + 4 * i)) = pa"
  shows "\<exists>v. lookup_temp_va st pa = Inr v \<and> v \<noteq> 0 \<and> translate st v = Inr pa"
proof -
  let ?P = "\<lambda>i. PAGE_ENTRY_SET (pmem st (sys + 4 * i)) \<and> ent_addr (pmem st (sys + 4 * i)) = pa"
  have "find ?P [0..<1024] \<noteq> None" unfolding find_None_iff using i by (auto simp del: upt.simps)
  then obtain j where j: "find ?P [0..<1024] = Some j" by blast
  then have jp: "j < 1024" "?P j" unfolding find_Some_iff by (auto simp del: upt.simps)
  have "lookup_temp_va st pa = Inr (IX_TO_VA 1022 j)"
    using lookup_temp_loop_find [OF w, of "[0..<1024]" pa] j by (auto simp: lookup_temp_va_def simp del: upt.simps)
  moreover have "IX_TO_VA 1022 j \<noteq> 0" by (simp add: IX_TO_VA_def)
  moreover have "translate st (IX_TO_VA 1022 j) = Inr pa" using window_slot [OF w jp(1), of 0] jp(2) by simp
  ultimately show ?thesis by blast
qed

lemma boot_window:
  assumes inv: "boot_inv st D M"
  shows "sys_window (enable_paging st 0x100000) (DIR0_PT_PHY 1022) (DIR0_PT_PHY 1023)"
proof -
  have ne: "DIR0_PT_PHY di \<noteq> DIR0_PT_PHY 1022" if "di \<noteq> 1022" for di using that by (simp add: DIR0_PT_PHY_def)
  have b: "(0x100000 :: nat) mod 4096 = 0" "0x100000 \<noteq> DIR0_PT_PHY 1022" "DIR0_PT_PHY 1023 \<noteq> DIR0_PT_PHY 1022"
    by (simp_all add: DIR0_PT_PHY_def)
  show ?thesis
    using b ne boot_dir_entry [OF inv] boot_dir_entry [OF inv, of 1022] boot_dir_entry [OF inv, of 1023]
      boot_rev_entry [OF inv, of 1022]
    by (simp add: sys_window_def enable_paging_def ent_addr_table DIR0_PT_PHY_page)
qed

lemma boot_sys_empty:
  assumes inv: "boot_inv st D M"
  shows "pmem (enable_paging st 0x100000) (DIR0_PT_PHY 1022 + 4 * 0) = 0"
  using inv unfolding slot_dir(2) by (simp add: boot_inv_def enable_paging_def flip: tbl_def)

section \<open>Properties\<close>

text \<open>
  C23. The map of the early set-up. Whatever memory holds before, \<open>init_page_settings\<close> returns, and then the
  first megabyte is mapped onto itself, the 16 MB from \<open>KERNEL_V_START\<close> on onto physical memory, every other
  address below the system mappings faults, and the window at \<open>0xFFC00000\<close> shows exactly the page tables that
  exist.
\<close>

theorem boot_mapping:
  assumes "\<not> paging_on st"
  shows "\<exists>st'. init_page_settings st = Inr st' \<and>
     (\<forall>va < 0xFF800000. translate st' va =
        (if va < 0x100000 then Inr va else if 0xC0000000 \<le> va \<and> va < 0xC1000000 then Inr (va - 0xC0000000)
         else Inl PageFault)) \<and>
     (\<forall>n<1024. \<forall>i<1024. translate st' (PAGE_TABLE_PTR n + 4 * i) =
        (if n = 0 \<or> n \<in> {768..771} \<or> n \<in> {1022, 1023} then Inr (DIR0_PT_PHY n + 4 * i) else Inl PageFault))"
proof -
  obtain s where s: "init_pg_dir0_vmap st = Inr s" "boot_inv s boot_dirs boot_map" using init_vmap_boot [OF assms] by metis
  let ?st = "enable_paging s 0x100000"
  have "translate ?st va = (if va < 0x100000 then Inr va
      else if 0xC0000000 \<le> va \<and> va < 0xC1000000 then Inr (va - 0xC0000000) else Inl PageFault)"
    if va: "va < 0xFF800000" for va
  proof -
    have di: "PAGE_DIR_INDEX va < 1022" using va by (simp add: PAGE_DIR_INDEX_def less_mult_imp_div_less)
    have M: "p < 1048576" if "boot_map n = Some p" for n p using that by (auto simp: boot_map_def split: if_splits)
    have t: "translate ?st va = (case boot_map (va div 4096) of None \<Rightarrow> Inl PageFault | Some p \<Rightarrow> Inr (4096 * p + va mod 4096))"
      using translate_boot [OF s(2) _ M di] va by simp
    have low: "va div 4096 < 256 \<longleftrightarrow> va < 0x100000" by (simp add: div_less_iff_less_mult)
    have high: "0xC0000 \<le> va div 4096 \<longleftrightarrow> 0xC0000000 \<le> va" "va div 4096 < 0xC1000 \<longleftrightarrow> va < 0xC1000000"
      by (simp_all add: div_less_iff_less_mult less_eq_div_iff_mult_less_eq)
    have "4096 * (va div 4096 - 0xC0000) + va mod 4096 = va - 0xC0000000" if "0xC0000000 \<le> va"
    proof -
      have "0xC0000 \<le> va div 4096" using that high(1) by simp
      moreover have "4096 * (va div 4096) + va mod 4096 = va" by (rule mult_div_mod_eq)
      ultimately show ?thesis by (simp only: diff_mult_distrib2)
    qed
    then show ?thesis unfolding t boot_map_def low high by simp
  qed
  moreover have "translate ?st (PAGE_TABLE_PTR n + 4 * i) =
      (if n = 0 \<or> n \<in> {768..771} \<or> n \<in> {1022, 1023} then Inr (DIR0_PT_PHY n + 4 * i) else Inl PageFault)"
    if "n < 1024" "i < 1024" for n i
    using window_boot [OF s(2) that] by (auto simp: boot_dirs_def)
  moreover have "init_page_settings st = Inr ?st" using s(1) by (simp add: init_page_settings_def)
  ultimately show ?thesis by blast
qed

definition raw_memory :: paging where
  "raw_memory = \<lparr>pmem = (\<lambda>a. of_nat a), cr3 = 0, paging_on = False, frames = (\<lambda>_. 0)\<rparr>"

theorem boot_mapping_witness:
  "\<exists>st'. init_page_settings raw_memory = Inr st' \<and> translate st' 0xC0009000 = Inr 0x9000 \<and> translate st' 0x400000 = Inl PageFault"
proof -
  have off: "\<not> paging_on raw_memory" by (simp add: raw_memory_def)
  obtain st' where st': "init_page_settings raw_memory = Inr st'" and t: "\<forall>va < 0xFF800000. translate st' va =
      (if va < 0x100000 then Inr va else if 0xC0000000 \<le> va \<and> va < 0xC1000000 then Inr (va - 0xC0000000) else Inl PageFault)"
    using boot_mapping [OF off] by blast
  show ?thesis using st' t [rule_format, of "0xC0009000"] t [rule_format, of "0x400000"] by auto
qed

text \<open>
  C24. Temporary mappings: \<open>create_temp_va\<close> takes the first free slot and maps the frame there, leaves every
  other translation as it was, \<open>lookup_temp_va\<close> then finds the frame, and \<open>delete_temp_va\<close> restores the state.
\<close>

theorem temp_va_roundtrip:
  assumes "sys_window st sys rev_tb" "pa mod 4096 = 0" "pa < 4294967296" "i < 1024" "pmem st (sys + 4 * i) = 0"
    and "\<forall>j<i. PAGE_ENTRY_SET (pmem st (sys + 4 * j))"
  shows "\<exists>st' va. create_temp_va st pa = Inr (st', va) \<and> va = IX_TO_VA 1022 i \<and>
     (\<forall>off<4096. translate st' (va + off) = Inr (pa + off)) \<and>
     (\<forall>w<4294967296. w div 4096 \<noteq> va div 4096 \<longrightarrow> translate st' w = translate st w) \<and>
     (\<exists>v. lookup_temp_va st' pa = Inr v \<and> v \<noteq> 0 \<and> translate st' v = Inr pa) \<and>
     delete_temp_va st' va = Inr st"
proof -
  let ?e = "of_nat pa OR 0xB :: u32" and ?va = "IX_TO_VA 1022 i"
  let ?st' = "st\<lparr>pmem := (pmem st)(sys + 4 * i := ?e)\<rparr>"
  note w' = window_write(1) [OF assms(1,4), of ?e]
  have e: "pmem ?st' (sys + 4 * i) = ?e" "ent_addr ?e = pa" using ent_addr_entry [OF assms(2,3)] by simp_all
  have set: "PAGE_ENTRY_SET (pmem ?st' (sys + 4 * i))" using e(1) by simp
  have "find (\<lambda>i. \<not> PAGE_ENTRY_SET (pmem st (sys + 4 * i))) [0..<1024] = Some i"
    using assms(4-6) by (intro find_least) simp_all
  then have "create_temp_va st pa = Inr (?st', ?va)"
    using create_temp_loop_find [OF assms(1), of "[0..<1024]" pa] by (auto simp: create_temp_va_def simp del: upt.simps)
  moreover have "\<forall>off<4096. translate ?st' (?va + off) = Inr (pa + off)"
    using window_slot [OF w' assms(4) set] e by simp
  moreover have "\<forall>w<4294967296. w div 4096 \<noteq> ?va div 4096 \<longrightarrow> translate ?st' w = translate st w"
  proof (intro allI impI)
    fix w :: nat assume w: "w < 4294967296" "w div 4096 \<noteq> ?va div 4096"
    have "?va div 4096 = 1022 * 1024 + i" by (simp add: IX_TO_VA_def)
    moreover have "w div 4096 = PAGE_DIR_INDEX w * 1024 + PAGE_TABLE_INDEX w"
    proof -
      have "PAGE_DIR_INDEX w = w div 4096 div 1024" by (simp add: PAGE_DIR_INDEX_def flip: div_mult2_eq)
      then show ?thesis by (simp only: PAGE_TABLE_INDEX_def div_mult_mod_eq)
    qed
    ultimately have "\<not> (PAGE_DIR_INDEX w = 1022 \<and> PAGE_TABLE_INDEX w = i)" using w(2) by auto
    then show "translate ?st' w = translate st w" unfolding window_write(3) [OF assms(1,4) w(1), of ?e] by (rule if_not_P)
  qed
  moreover have "\<exists>v. lookup_temp_va ?st' pa = Inr v \<and> v \<noteq> 0 \<and> translate ?st' v = Inr pa"
    by (rule window_lookup [OF w' assms(4) set]) (use e in simp)
  moreover have "delete_temp_va ?st' ?va = Inr st"
  proof -
    have "PAGE_TABLE_INDEX ?va = i" using ix_to_va_index(2) [of 1022 i 0] assms(4) by simp
    moreover have "(pmem st)(sys + 4 * i := 0) = pmem st" using assms(5) by auto
    ultimately show ?thesis using window_write(2) [OF w' assms(4), of 0] by (simp add: delete_temp_va_def)
  qed
  ultimately show ?thesis by (intro exI [of _ ?st'] exI [of _ ?va]) blast
qed

theorem temp_va_roundtrip_witness:
  "\<exists>st st' va. init_page_settings raw_memory = Inr st \<and> create_temp_va st 0x2000000 = Inr (st', va) \<and>
     translate st' va = Inr 0x2000000 \<and> delete_temp_va st' va = Inr st"
proof -
  have off: "\<not> paging_on raw_memory" by (simp add: raw_memory_def)
  obtain s where s: "init_pg_dir0_vmap raw_memory = Inr s" "boot_inv s boot_dirs boot_map" using init_vmap_boot [OF off] by metis
  let ?st = "enable_paging s 0x100000"
  obtain st' va where "create_temp_va ?st 0x2000000 = Inr (st', va)" "\<forall>off<4096. translate st' (va + off) = Inr (0x2000000 + off)"
    "delete_temp_va st' va = Inr ?st"
    using temp_va_roundtrip [OF boot_window [OF s(2)], of "0x2000000" 0] boot_sys_empty [OF s(2)] by auto
  moreover have "init_page_settings raw_memory = Inr ?st" using s(1) by (simp add: init_page_settings_def)
  ultimately show ?thesis by (metis add.right_neutral zero_less_numeral)
qed

end
