(* ===== verification/Ts_Task_Props.thy ===== *)
theory Ts_Task_Props
  imports Ts_Task
begin

text \<open>
  What the scheduler promises. \<open>live\<close> are the slots in use, \<open>next_live\<close> is the slot that follows
  cyclically, \<open>ctx\<close> is the context of a task wherever it is held: in the registers for the current
  task, in the task array for the others. \<open>sched_inv\<close> is the invariant between interrupts and
  \<open>sched_reach\<close> the scheduler driven by the timer, by requests to switch, by new tasks and by exits.
\<close>

section \<open>Vocabulary\<close>

definition live :: "ksched \<Rightarrow> nat \<Rightarrow> bool" where
  "live s i \<longleftrightarrow> i < 32 \<and> t_state (task_arr s ! i) \<noteq> 0"

definition next_live :: "ksched \<Rightarrow> nat \<Rightarrow> nat option" where
  "next_live s i = find (live s) (map (\<lambda>k. (i + k) mod 32) [1..<33])"

definition ctx :: "ksched \<Rightarrow> nat \<Rightarrow> u32 \<times> u32" where
  "ctx s k = (if current s = Some k then (reg_esp s, reg_cr3 s)
              else (t_esp (task_arr s ! k) + 36, t_phy_dir (task_arr s ! k)))"

definition clock :: "ksched \<Rightarrow> u32 \<times> u32" where
  "clock s = (secs s, freq_counter s)"

definition task_ok :: "Task \<Rightarrow> nat \<Rightarrow> bool" where
  "task_ok t i \<longleftrightarrow> t_tid t = of_nat i \<and> t_state t = 1 \<and> 1 \<le> unat (t_ttl t) \<and> unat (t_ttl t) \<le> 10"

text \<open>Task \<open>i\<close> runs and the others are in order; \<open>sched_inv\<close> adds that it is in order itself.\<close>

definition sched_pre :: "ksched \<Rightarrow> nat \<Rightarrow> bool" where
  "sched_pre s i \<longleftrightarrow> length (task_arr s) = 32 \<and> i < 32 \<and> current s = Some i \<and>
     t_tid (task_arr s ! i) = of_nat i \<and> freq_counter s < 25 \<and> (\<forall>k. live s k \<longrightarrow> k \<noteq> i \<longrightarrow> task_ok (task_arr s ! k) k)"

definition sched_inv :: "ksched \<Rightarrow> bool" where
  "sched_inv s \<longleftrightarrow> length (task_arr s) = 32 \<and> (\<forall>k. live s k \<longrightarrow> task_ok (task_arr s ! k) k) \<and>
     freq_counter s < 25 \<and> (\<exists>i. current s = Some i \<and> live s i)"

lemma sched_invE:
  assumes "sched_inv s"
  obtains i where "current s = Some i" "live s i" "task_ok (task_arr s ! i) i" "sched_pre s i"
  using assms by (auto simp: sched_inv_def sched_pre_def live_def task_ok_def)

lemma sched_inv_pre: "sched_inv s \<longleftrightarrow> (\<exists>i. sched_pre s i \<and> live s i \<and> task_ok (task_arr s ! i) i)"
  by (auto simp: sched_inv_def sched_pre_def live_def task_ok_def)

section \<open>The choice of the next task\<close>

lemma unat_add_mod_32: "unat (tid + of_nat i :: u32) mod 32 = (unat tid + i) mod 32"
proof -
  have "unat (tid + of_nat i :: u32) mod 32 = (unat tid + i mod 4294967296) mod 4294967296 mod 32"
    by (simp add: unat_word_ariths unat_of_nat)
  also have "\<dots> = (unat tid + i) mod 4294967296 mod 32" by (simp only: mod_add_right_eq)
  also have "\<dots> = (unat tid + i) mod 32" by (rule mod_mod_cancel) simp
  finally show ?thesis .
qed

lemma next_task_loop_find:
  assumes "length (task_arr s) = 32"
  shows "next_task_loop (task_arr s) tid ks = Inr (find (live s) (map (\<lambda>k. (unat tid + k) mod 32) ks))"
  using assms by (induction ks) (simp_all add: unat_add_mod_32 rd_in live_def)

lemma unat_of_nat_small: "i < 32 \<Longrightarrow> unat (of_nat i :: u32) = i"
  by (simp add: unat_of_nat)

lemma next_task_current:
  assumes "sched_pre s i"
  shows "next_task_loop (task_arr s) (t_tid (task_arr s ! i)) [1..<33] = Inr (next_live s i)"
  using assms by (simp add: next_task_loop_find sched_pre_def unat_of_nat_small next_live_def del: upt.simps)

lemma next_live_Some:
  assumes "next_live s i = Some j"
  obtains k where "1 \<le> k" "k \<le> 32" "j = (i + k) mod 32" "live s j"
    "\<And>m. 1 \<le> m \<Longrightarrow> m < k \<Longrightarrow> \<not> live s ((i + m) mod 32)"
proof -
  obtain n where n: "n < 32" "live s j" "j = (i + (n + 1)) mod 32"
    "\<And>m. m < n \<Longrightarrow> \<not> live s ((i + (m + 1)) mod 32)"
    using assms unfolding next_live_def find_Some_iff by (auto simp del: upt.simps simp: nth_append)
  show ?thesis
  proof (rule that [of "n + 1"])
    fix m assume "1 \<le> m" "m < n + 1"
    then show "\<not> live s ((i + m) mod 32)" using n(4) [of "m - 1"] by simp
  qed (use n in simp_all)
qed

lemma next_live_None: "next_live s i = None \<longleftrightarrow> (\<forall>k\<in>{1..32}. \<not> live s ((i + k) mod 32))"
  unfolding next_live_def find_None_iff by (auto simp del: upt.simps)

lemma cyclic_reach: "i < 32 \<Longrightarrow> j < 32 \<Longrightarrow> \<exists>k\<in>{1..32::nat}. (i + k) mod 32 = j"
  by (rule bexI [of _ "if i < j then j - i else 32 + j - i"]) (auto split: if_splits simp: mod_if)

lemma next_live_exists:
  assumes "i < 32" "live s j"
  obtains j' where "next_live s i = Some j'" "live s j'"
proof (cases "next_live s i")
  case None
  moreover have "j < 32" using assms(2) by (simp add: live_def)
  ultimately show ?thesis using assms cyclic_reach [of i j] by (auto simp: next_live_None)
next
  case (Some j')
  then show ?thesis using that by (blast elim: next_live_Some)
qed

lemma next_live_cong: "(\<And>k. live s k = live s' k) \<Longrightarrow> next_live s i = next_live s' i"
proof -
  assume "\<And>k. live s k = live s' k"
  then have "live s = live s'" by blast
  then show ?thesis by (simp add: next_live_def)
qed

section \<open>Switching\<close>

text \<open>The fields of a task that a switch leaves alone.\<close>

definition attrs :: "Task \<Rightarrow> u32 \<times> u32 \<times> u32 \<times> u32 \<times> u32" where
  "attrs t = (t_esp0 t, t_ptid t, t_tid t, t_state t, t_ttl t)"

text \<open>Nothing but the current task changes: every context survives.\<close>

definition contexts_kept :: "ksched \<Rightarrow> ksched \<Rightarrow> bool" where
  "contexts_kept s s' \<longleftrightarrow> length (task_arr s') = length (task_arr s) \<and> (\<forall>k<32. ctx s' k = ctx s k) \<and>
     TSS_SEGMENT s' = TSS_SEGMENT s"

lemma contexts_kept_refl: "contexts_kept s s"
  by (simp add: contexts_kept_def)

lemma contexts_kept_trans: "contexts_kept s s1 \<Longrightarrow> contexts_kept s1 s2 \<Longrightarrow> contexts_kept s s2"
  by (simp add: contexts_kept_def)

definition tss_for :: "ksched \<Rightarrow> nat \<Rightarrow> bool" where
  "tss_for s j \<longleftrightarrow> esp0 (tss_entry s) = t_esp0 (task_arr s ! j) \<and> ss0 (tss_entry s) = 0x10"

lemma context_switch_spec:
  assumes "length (task_arr s) = 32" "i < 32" "current s = Some i" "j < 32"
  obtains s' where "context_switch s (Some j) = Inr s'" "current s' = Some j" "contexts_kept s s'" "clock s' = clock s"
    "\<forall>k<32. attrs (task_arr s' ! k) = attrs (task_arr s ! k)" "j \<noteq> i \<longrightarrow> tss_for s' j"
    "j = i \<longrightarrow> s' = s"
proof (cases "j = i")
  case True
  then show ?thesis using that [of s] assms by (simp add: context_switch_def contexts_kept_refl)
next
  case False
  let ?s' = "s\<lparr>task_arr := (task_arr s)[i := (task_arr s ! i)\<lparr>t_phy_dir := reg_cr3 s, t_esp := reg_esp s - 36\<rparr>],
    current := Some j, tss_entry := (tss_entry s)\<lparr>esp0 := t_esp0 (task_arr s ! j), ss0 := 0x10\<rparr>,
    reg_esp := t_esp (task_arr s ! j) + 36, reg_cr3 := t_phy_dir (task_arr s ! j)\<rparr>"
  have "context_switch s (Some j) = Inr ?s'"
    using False assms by (simp add: context_switch_def context_switch'_def update_current_def rd_in)
  then show ?thesis
    using that [of ?s'] False assms
    by (auto simp: contexts_kept_def ctx_def attrs_def tss_for_def clock_def nth_list_update)
qed

lemma update_current_spec:
  assumes "length (task_arr s) = 32" "i < 32" "current s = Some i"
  shows "update_current f s = Inr (s\<lparr>task_arr := (task_arr s)[i := f (task_arr s ! i)]\<rparr>)"
  using assms by (simp add: update_current_def rd_in)

lemma current_task_spec:
  assumes "length (task_arr s) = 32" "i < 32" "current s = Some i"
  shows "current_task s = Inr (task_arr s ! i)"
  using assms by (simp add: current_task_def rd_in)

section \<open>schedule\<close>

text \<open>A task that runs on gets its slice back; one that has exited does not run again.\<close>

definition reslice :: "Task \<Rightarrow> Task" where
  "reslice t = (if t_state t = 0 then t else t\<lparr>t_state := t_state t AND NOT 2, t_ttl := 10\<rparr>)"

text \<open>The effect of \<open>schedule\<close> when task \<open>i\<close> gives way to task \<open>j\<close>.\<close>

definition scheduled :: "ksched \<Rightarrow> nat \<Rightarrow> nat \<Rightarrow> ksched \<Rightarrow> bool" where
  "scheduled s i j s' \<longleftrightarrow> current s' = Some j \<and> contexts_kept s s' \<and> clock s' = clock s \<and>
     (\<forall>k<32. attrs (task_arr s' ! k) = attrs ((if k = i then reslice else id) (task_arr s ! k))) \<and>
     (if j = i then tss_entry s' = tss_entry s else tss_for s' j)"

lemma schedule_spec:
  assumes pre: "sched_pre s i" and next_live: "next_live s i = Some j"
  shows "\<exists>s'. schedule s = Inr s' \<and> scheduled s i j s'"
proof -
  let ?t = "task_arr s ! i" and ?s1 = "s\<lparr>task_arr := (task_arr s)[i := reslice (task_arr s ! i)]\<rparr>"
  have i: "length (task_arr s) = 32" "i < 32" "current s = Some i" and j: "j < 32"
    using pre next_live by (auto simp: sched_pre_def live_def elim: next_live_Some)
  have "schedule s = context_switch ?s1 (Some j)"
    using next_task_current [OF pre] next_live
    by (simp add: schedule_def current_task_spec [OF i] update_current_spec [OF i] reslice_def)
  moreover obtain s' where "context_switch ?s1 (Some j) = Inr s'" "current s' = Some j" "contexts_kept ?s1 s'" "clock s' = clock ?s1"
    "\<forall>k<32. attrs (task_arr s' ! k) = attrs (task_arr ?s1 ! k)" "j \<noteq> i \<longrightarrow> tss_for s' j" "j = i \<longrightarrow> s' = ?s1"
    using context_switch_spec [of ?s1 i j] i j by auto
  moreover have "contexts_kept s ?s1"
    using i by (auto simp: contexts_kept_def ctx_def nth_list_update reslice_def)
  ultimately show ?thesis using i by (intro exI [of _ s']) (auto simp: scheduled_def clock_def contexts_kept_trans)
qed

lemma scheduled_live:
  assumes "scheduled s i j s'" "t_state (task_arr s ! i) \<in> {0, 1, 3}"
  shows "live s' k = live s k"
  using assms by (cases "k = i") (auto simp: scheduled_def live_def attrs_def reslice_def)

lemma task_ok_attrs: "attrs t = attrs t' \<Longrightarrow> task_ok t i = task_ok t' i"
  by (simp add: task_ok_def attrs_def)

lemma task_ok_reslice:
  "t_tid t = of_nat i \<Longrightarrow> t_state t \<in> {1, 3} \<Longrightarrow> task_ok (reslice t) i"
  by (auto simp: task_ok_def reslice_def)

lemma scheduled_inv:
  assumes pre: "sched_pre s i" and state: "t_state (task_arr s ! i) \<in> {0, 1, 3}"
    and sch: "scheduled s i j s'" and j: "live s j"
  shows "sched_inv s'"
proof -
  note lv = scheduled_live [OF sch state]
  have "task_ok (task_arr s' ! k) k" if "live s' k" for k
  proof (cases "k = i")
    case True
    have "k < 32" using that by (simp add: live_def)
    moreover have "task_ok (reslice (task_arr s ! i)) i"
      using pre state that lv [of k] True by (intro task_ok_reslice) (auto simp: sched_pre_def live_def)
    ultimately show ?thesis using True sch task_ok_attrs [of "task_arr s' ! i"] by (simp add: scheduled_def)
  next
    case False
    have "k < 32" using that by (simp add: live_def)
    moreover have "task_ok (task_arr s ! k) k" using that lv [of k] pre False by (simp add: sched_pre_def)
    ultimately show ?thesis using False sch task_ok_attrs [of "task_arr s' ! k"] by (simp add: scheduled_def)
  qed
  then show ?thesis using sch pre j lv [of j] by (simp add: sched_inv_def scheduled_def contexts_kept_def sched_pre_def clock_def)
qed

lemma schedule_inv:
  assumes "sched_pre s i" "t_state (task_arr s ! i) \<in> {0, 1, 3}" "next_live s i = Some j"
  obtains s' where "schedule s = Inr s'" "scheduled s i j s'" "sched_inv s'"
proof -
  obtain s' where "schedule s = Inr s'" "scheduled s i j s'" using schedule_spec [OF assms(1,3)] by blast
  moreover have "live s j" using assms(3) by (blast elim: next_live_Some)
  ultimately show ?thesis using that scheduled_inv [OF assms(1,2)] by blast
qed

section \<open>The timer interrupt\<close>

text \<open>What interrupt 32 does to the tasks: \<open>timer_handler\<close>, then \<open>cond_schedule\<close>.\<close>

definition timer_irq :: "ksched \<Rightarrow> ksched res" where
  "timer_irq s = bind_res (timer_handler s) cond_schedule"

text \<open>25 ticks are a second; \<open>secs\<close> wraps around with the word.\<close>

definition clock_tick :: "u32 \<times> u32 \<Rightarrow> u32 \<times> u32" where
  "clock_tick = (\<lambda>(sec, cnt). if cnt + 1 \<ge> 25 then (sec + 1, 0) else (sec, cnt + 1))"

definition tick_task :: "Task \<Rightarrow> Task" where
  "tick_task t = (if t_ttl t - 1 = 0 then t\<lparr>t_ttl := t_ttl t - 1, t_state := t_state t OR 2\<rparr>
     else t\<lparr>t_ttl := t_ttl t - 1\<rparr>)"

lemma tick_task_simps [simp]:
  "t_tid (tick_task t) = t_tid t" "t_esp (tick_task t) = t_esp t" "t_phy_dir (tick_task t) = t_phy_dir t"
  "t_ttl (tick_task t) = t_ttl t - 1"
  by (simp_all add: tick_task_def)

lemma timer_handler_eq:
  assumes "sched_pre s i"
  shows "timer_handler s = Inr (s\<lparr>secs := fst (clock_tick (clock s)),
    freq_counter := snd (clock_tick (clock s)), task_arr := (task_arr s)[i := tick_task (task_arr s ! i)]\<rparr>)"
proof -
  define t where "t = (task_arr s ! i)\<lparr>t_ttl := t_ttl (task_arr s ! i) - 1\<rparr>"
  let ?s1 = "s\<lparr>secs := fst (clock_tick (clock s)), freq_counter := snd (clock_tick (clock s))\<rparr>"
  let ?s2 = "?s1\<lparr>task_arr := (task_arr s)[i := t]\<rparr>"
  have i: "length (task_arr s) = 32" "i < 32" "current s = Some i" using assms by (simp_all add: sched_pre_def)
  have tick: "tick_task (task_arr s ! i) = (if t_ttl t = 0 then t\<lparr>t_state := t_state t OR 2\<rparr> else t)"
    by (simp add: tick_task_def t_def)
  have "timer_handler s = bind_res (update_current (\<lambda>t. t\<lparr>t_ttl := t_ttl t - 1\<rparr>) ?s1) (\<lambda>s.
      bind_res (current_task s) (\<lambda>t.
      if t_ttl t = 0 then update_current (\<lambda>t. t\<lparr>t_state := t_state t OR TASK_NEED_SCHED\<rparr>) s else Inr s))"
    by (simp add: timer_handler_def clock_tick_def clock_def Let_def)
  moreover have "update_current (\<lambda>t. t\<lparr>t_ttl := t_ttl t - 1\<rparr>) ?s1 = Inr ?s2"
    using i update_current_spec [of ?s1 i] by (simp add: t_def)
  moreover have "current_task ?s2 = Inr t"
    using i current_task_spec [of ?s2 i] by simp
  moreover have "update_current (\<lambda>t. t\<lparr>t_state := t_state t OR TASK_NEED_SCHED\<rparr>) ?s2 =
      Inr (?s1\<lparr>task_arr := (task_arr s)[i := t\<lparr>t_state := t_state t OR 2\<rparr>]\<rparr>)"
    using i update_current_spec [of ?s2 i] by simp
  ultimately show ?thesis by (simp add: tick)
qed

lemma cond_schedule_no:
  assumes "sched_pre s i" "t_state (task_arr s ! i) = 1"
  shows "cond_schedule s = Inr s"
  using assms current_task_spec [of s i] by (auto simp: cond_schedule_def sched_pre_def)

lemma cond_schedule_yes:
  assumes "sched_pre s i" "t_state (task_arr s ! i) = 3"
  shows "cond_schedule s = schedule s"
  using assms current_task_spec [of s i] by (auto simp: cond_schedule_def sched_pre_def)

lemma sched_pre_update:
  assumes "sched_pre s i" "t_tid t = of_nat i"
  shows "sched_pre (s\<lparr>task_arr := (task_arr s)[i := t]\<rparr>) i"
  using assms by (auto simp: sched_pre_def live_def nth_list_update)

lemma sched_inv_cond_schedule: "sched_inv s \<Longrightarrow> cond_schedule s = Inr s"
  by (metis sched_invE cond_schedule_no task_ok_def)

lemma clock_tick_bound: "snd c < 25 \<Longrightarrow> snd (clock_tick c) < 25"
  by (auto simp: clock_tick_def split: prod.splits)

text \<open>A tick inside the slice.\<close>

lemma timer_irq_inside:
  assumes inv: "sched_inv s" and cur: "current s = Some i" and ttl: "1 < unat (t_ttl (task_arr s ! i))"
  shows "\<exists>s'. timer_irq s = Inr s' \<and> sched_inv s' \<and> current s' = Some i \<and> contexts_kept s s' \<and>
    (\<forall>k. live s' k = live s k) \<and> clock s' = clock_tick (clock s) \<and>
    unat (t_ttl (task_arr s' ! i)) = unat (t_ttl (task_arr s ! i)) - 1 \<and>
    (\<forall>k<32. k \<noteq> i \<longrightarrow> task_arr s' ! k = task_arr s ! k)"
proof -
  have pre: "sched_pre s i" "task_ok (task_arr s ! i) i" "live s i"
    using inv cur by (auto elim: sched_invE)
  let ?t = "task_arr s ! i" and ?s1 = "s\<lparr>secs := fst (clock_tick (clock s)),
    freq_counter := snd (clock_tick (clock s)), task_arr := (task_arr s)[i := tick_task (task_arr s ! i)]\<rparr>"
  have ttl': "unat (t_ttl ?t - 1) = unat (t_ttl ?t) - 1" using ttl by (simp add: unat_sub word_le_nat_alt)
  then have "unat (t_ttl ?t - 1) \<noteq> 0" using ttl by simp
  then have nz: "t_ttl ?t - 1 \<noteq> 0" by auto
  have i: "i < 32" "length (task_arr s) = 32" using pre by (simp_all add: sched_pre_def)
  have "freq_counter s < 25" using pre by (simp add: sched_pre_def)
  then have "sched_pre ?s1 i"
    using sched_pre_update [OF pre(1), of "tick_task ?t"] pre(1) clock_tick_bound [of "clock s"]
    by (simp add: sched_pre_def live_def clock_def)
  moreover have ok: "task_ok (tick_task ?t) i"
    using pre(2) ttl' ttl nz by (auto simp: task_ok_def tick_task_def)
  ultimately have "cond_schedule ?s1 = Inr ?s1" "sched_inv ?s1"
    using i cond_schedule_no [of ?s1 i] by (auto simp: sched_inv_pre live_def task_ok_def)
  moreover have "live ?s1 k = live s k" for k
    using i nz pre(3) by (simp add: live_def tick_task_def nth_list_update)
  moreover have "contexts_kept s ?s1"
    using i by (simp add: contexts_kept_def ctx_def nth_list_update)
  ultimately show ?thesis
    using timer_handler_eq [OF pre(1)] ttl' i cur
    by (intro exI [of _ ?s1]) (simp add: timer_irq_def clock_def)
qed

text \<open>The tick that ends the slice.\<close>

lemma timer_irq_end:
  assumes inv: "sched_inv s" and cur: "current s = Some i" and ttl: "t_ttl (task_arr s ! i) = 1"
  shows "\<exists>j s'. next_live s i = Some j \<and> timer_irq s = Inr s' \<and> sched_inv s' \<and> current s' = Some j \<and>
    contexts_kept s s' \<and> (\<forall>k. live s' k = live s k) \<and> clock s' = clock_tick (clock s) \<and>
    (\<forall>k<32. k \<noteq> i \<longrightarrow> attrs (task_arr s' ! k) = attrs (task_arr s ! k))"
proof -
  have pre: "sched_pre s i" "task_ok (task_arr s ! i) i" "live s i"
    using inv cur by (auto elim: sched_invE)
  let ?t = "task_arr s ! i" and ?s1 = "s\<lparr>secs := fst (clock_tick (clock s)),
    freq_counter := snd (clock_tick (clock s)), task_arr := (task_arr s)[i := tick_task (task_arr s ! i)]\<rparr>"
  have i: "i < 32" "length (task_arr s) = 32" using pre by (simp_all add: sched_pre_def)
  have "freq_counter s < 25" using pre by (simp add: sched_pre_def)
  then have pre1: "sched_pre ?s1 i"
    using sched_pre_update [OF pre(1), of "tick_task ?t"] pre(1) clock_tick_bound [of "clock s"]
    by (simp add: sched_pre_def live_def clock_def)
  have st: "t_state (task_arr ?s1 ! i) = 3" using pre(2) ttl i by (simp add: tick_task_def task_ok_def)
  have lv: "live ?s1 k = live s k" for k
    using i st pre(3) by (cases "k = i") (simp_all add: live_def)
  obtain j where j: "next_live s i = Some j" using next_live_exists [OF i(1) pre(3)] by blast
  then have "next_live ?s1 i = Some j" using next_live_cong [of ?s1 s, OF lv] by metis
  then obtain s' where s': "schedule ?s1 = Inr s'" "scheduled ?s1 i j s'" "sched_inv s'"
    using schedule_inv [OF pre1] st by auto
  have "contexts_kept s ?s1"
    using i by (simp add: contexts_kept_def ctx_def nth_list_update)
  then have "contexts_kept s s'" using s'(2) by (auto simp: scheduled_def intro: contexts_kept_trans)
  moreover have "\<forall>k<32. k \<noteq> i \<longrightarrow> attrs (task_arr s' ! k) = attrs (task_arr s ! k)"
    using s'(2) by (simp add: scheduled_def)
  moreover have "live s' k = live s k" for k using scheduled_live [OF s'(2)] st lv by simp
  ultimately show ?thesis
    using j s' timer_handler_eq [OF pre(1)] cond_schedule_yes [OF pre1 st]
    by (intro exI [of _ j] exI [of _ s']) (simp add: timer_irq_def scheduled_def clock_def)
qed

lemma timer_irq_ok:
  assumes "sched_inv s"
  obtains s' where "timer_irq s = Inr s'" "sched_inv s'" "\<forall>k. live s' k = live s k" "contexts_kept s s'"
    "clock s' = clock_tick (clock s)"
proof -
  obtain i where i: "current s = Some i" "task_ok (task_arr s ! i) i" using sched_invE [OF assms] by metis
  show ?thesis
  proof (cases "t_ttl (task_arr s ! i) = 1")
    case True
    then show ?thesis using timer_irq_end [OF assms i(1)] that by blast
  next
    case False
    have "unat (t_ttl (task_arr s ! i)) \<noteq> 1" using False by (metis unat_1 unsigned_word_eqI)
    then have "1 < unat (t_ttl (task_arr s ! i))" using i(2) by (simp add: task_ok_def)
    then show ?thesis using timer_irq_inside [OF assms i(1)] that by blast
  qed
qed

section \<open>Exits, requests to switch and new tasks\<close>

text \<open>The command \<open>nt\<close> of the shell and the \<open>cond_schedule\<close> that ends the interrupt.\<close>

definition request_switch :: "ksched \<Rightarrow> ksched res" where
  "request_switch s = bind_res (update_current (\<lambda>t. t\<lparr>t_state := t_state t OR 2\<rparr>) s) cond_schedule"

lemma request_switch_ok:
  assumes inv: "sched_inv s"
  obtains i j s' where "current s = Some i" "next_live s i = Some j" "request_switch s = Inr s'" "sched_inv s'"
    "current s' = Some j" "\<forall>k. live s' k = live s k" "contexts_kept s s'"
proof -
  obtain i where i: "current s = Some i" "live s i" "task_ok (task_arr s ! i) i" "sched_pre s i"
    using sched_invE [OF inv] by metis
  let ?t = "(task_arr s ! i)\<lparr>t_state := t_state (task_arr s ! i) OR 2\<rparr>"
  let ?s1 = "s\<lparr>task_arr := (task_arr s)[i := ?t]\<rparr>"
  have len: "length (task_arr s) = 32" "i < 32" using i(4) by (simp_all add: sched_pre_def)
  have pre1: "sched_pre ?s1 i" using sched_pre_update [OF i(4)] i(3) by (simp add: task_ok_def)
  have st: "t_state (task_arr ?s1 ! i) = 3" using i(3) len by (simp add: task_ok_def)
  have lv: "live ?s1 k = live s k" for k using st i(2) len by (cases "k = i") (simp_all add: live_def)
  obtain j where j: "next_live s i = Some j" using next_live_exists [OF len(2) i(2)] by blast
  then have "next_live ?s1 i = Some j" using next_live_cong [of ?s1 s, OF lv] by metis
  then obtain s' where s': "schedule ?s1 = Inr s'" "scheduled ?s1 i j s'" "sched_inv s'"
    using schedule_inv [OF pre1] st by auto
  have "contexts_kept s ?s1" using len by (simp add: contexts_kept_def ctx_def nth_list_update)
  then have "contexts_kept s s'" using s'(2) by (auto simp: scheduled_def intro: contexts_kept_trans)
  moreover have "\<forall>k. live s' k = live s k" using scheduled_live [OF s'(2)] st lv by simp
  moreover have "request_switch s = Inr s'"
    using s'(1) cond_schedule_yes [OF pre1 st] update_current_spec [OF len i(1)] by (simp add: request_switch_def)
  ultimately show ?thesis using that i j s' by (simp add: scheduled_def)
qed

lemma exit_current_ok:
  assumes inv: "sched_inv s" and cur: "current s = Some i" and other: "live s k" "k \<noteq> i"
  obtains j s' where "j \<noteq> i" "exit_current s = Inr s'" "sched_inv s'" "current s' = Some j"
    "\<forall>k. live s' k = (k \<noteq> i \<and> live s k)" "\<forall>k<32. k \<noteq> i \<longrightarrow> ctx s' k = ctx s k" "tss_for s' j"
proof -
  have i: "live s i" "task_ok (task_arr s ! i) i" "sched_pre s i"
    using inv cur by (auto elim: sched_invE)
  let ?t = "(task_arr s ! i)\<lparr>t_state := 0\<rparr>"
  let ?s1 = "s\<lparr>task_arr := (task_arr s)[i := ?t]\<rparr>"
  have len: "length (task_arr s) = 32" "i < 32" using i(3) by (simp_all add: sched_pre_def)
  have pre1: "sched_pre ?s1 i" using sched_pre_update [OF i(3)] i(2) by (simp add: task_ok_def)
  have st: "t_state (task_arr ?s1 ! i) = 0" using len by simp
  have lv: "live ?s1 k = (k \<noteq> i \<and> live s k)" for k using st len by (cases "k = i") (simp_all add: live_def)
  obtain j where j: "next_live ?s1 i = Some j" "live ?s1 j" using next_live_exists [OF len(2)] lv other by blast
  then obtain s' where s': "schedule ?s1 = Inr s'" "scheduled ?s1 i j s'" "sched_inv s'"
    using schedule_inv [OF pre1] st by auto
  have ji: "j \<noteq> i" using j(2) lv by simp
  have "ctx ?s1 k = ctx s k" for k using len by (simp add: ctx_def nth_list_update)
  then have "\<forall>k<32. ctx s' k = ctx s k" using s'(2) by (simp add: scheduled_def contexts_kept_def)
  moreover have "\<forall>k. live s' k = (k \<noteq> i \<and> live s k)" using scheduled_live [OF s'(2)] st lv by simp
  moreover have "exit_current s = Inr s'"
    using s'(1) update_current_spec [OF len cur] by (simp add: exit_current_def)
  ultimately show ?thesis using that [of j s'] s' ji by (simp add: scheduled_def)
qed

lemma exit_current_last:
  assumes inv: "sched_inv s" and cur: "current s = Some i" and only: "\<And>k. live s k \<Longrightarrow> k = i"
  shows "exit_current s = Inl NullDeref"
proof -
  have i: "live s i" "task_ok (task_arr s ! i) i" "sched_pre s i"
    using inv cur by (auto elim: sched_invE)
  let ?s1 = "s\<lparr>task_arr := (task_arr s)[i := (task_arr s ! i)\<lparr>t_state := 0\<rparr>]\<rparr>"
  have len: "length (task_arr s) = 32" "i < 32" using i(3) by (simp_all add: sched_pre_def)
  have pre1: "sched_pre ?s1 i" using sched_pre_update [OF i(3)] i(2) by (simp add: task_ok_def)
  have "\<not> live ?s1 k" for k using only [of k] len by (cases "k = i") (auto simp: live_def)
  then have none: "next_live ?s1 i = None" by (simp add: next_live_None)
  have "schedule ?s1 = context_switch ?s1 None"
    using next_task_current [OF pre1] none len cur current_task_spec [of ?s1 i]
    by (simp add: schedule_def)
  also have "\<dots> = Inl NullDeref" using cur by (simp add: context_switch_def)
  finally show ?thesis using update_current_spec [OF len cur] by (simp add: exit_current_def)
qed

lemma get_next_tid_loop_find:
  assumes "length arr = 32" "\<forall>i \<in> set is. i < 32"
  shows "get_next_tid_loop arr is =
    (case find (\<lambda>i. t_state (arr ! i) = 0) is of Some i \<Rightarrow> Inr i | None \<Rightarrow> Inl (AssertFail ''can't get next tid''))"
  using assms by (induction "is") (auto simp: rd_in)

lemma get_next_tid_least:
  assumes "length (task_arr s) = 32" "i < 32" "\<not> live s i" "\<And>k. k < i \<Longrightarrow> live s k"
  shows "get_next_tid s = Inr i"
proof -
  have "find (\<lambda>i. t_state (task_arr s ! i) = 0) [0..<32] = Some i"
    unfolding find_Some_iff using assms by (intro exI [of _ i]) (auto simp: live_def simp del: upt.simps)
  then show ?thesis using get_next_tid_loop_find [OF assms(1), of "[0..<32]"]
    by (auto simp: get_next_tid_def simp del: upt.simps)
qed

lemma get_next_tid_full:
  assumes "length (task_arr s) = 32" "\<And>k. k < 32 \<Longrightarrow> live s k"
  shows "get_next_tid s = Inl (AssertFail ''can't get next tid'')"
proof -
  have "find (\<lambda>i. t_state (task_arr s ! i) = 0) [0..<32] = None"
    unfolding find_None_iff using assms by (auto simp: live_def simp del: upt.simps)
  then show ?thesis using get_next_tid_loop_find [OF assms(1), of "[0..<32]"]
    by (auto simp: get_next_tid_def simp del: upt.simps)
qed

lemma new_task_ok:
  assumes inv: "sched_inv s" and i: "i < 32" "\<not> live s i" "\<And>k. k < i \<Longrightarrow> live s k"
  obtains s' t where "new_task s cr3 esp = Inr (s', t)" "t_tid t = of_nat i" "task_arr s' = (task_arr s)[i := t]"
    "s' = s\<lparr>task_arr := (task_arr s)[i := t]\<rparr>" "t_phy_dir t = cr3" "t_esp t = esp" "t_state t = 1" "t_ttl t = 10"
proof -
  obtain c where c: "current s = Some c" "sched_pre s c" using sched_invE [OF inv] by metis
  have len: "length (task_arr s) = 32" "c < 32" using c(2) by (simp_all add: sched_pre_def)
  show ?thesis
    using that i get_next_tid_least [OF len(1) i] current_task_spec [OF len c(1)]
    by (simp add: new_task_def wr_in len Let_def)
qed

lemma new_task_full:
  assumes inv: "sched_inv s" and full: "\<And>k. k < 32 \<Longrightarrow> live s k"
  shows "new_task s cr3 esp = Inl (AssertFail ''can't get next tid'')"
proof -
  obtain c where c: "current s = Some c" "sched_pre s c" using sched_invE [OF inv] by metis
  have len: "length (task_arr s) = 32" "c < 32" using c(2) by (simp_all add: sched_pre_def)
  show ?thesis
    using get_next_tid_full [OF len(1) full] current_task_spec [OF len c(1)] by (simp add: new_task_def)
qed

lemma new_task_cases:
  assumes "sched_inv s"
  obtains (slot) i s' t where "i < 32" "\<not> live s i" "\<forall>k<i. live s k" "new_task s cr3 esp = Inr (s', t)"
      "t_tid t = of_nat i" "s' = s\<lparr>task_arr := (task_arr s)[i := t]\<rparr>" "t_phy_dir t = cr3" "t_esp t = esp" "t_state t = 1" "t_ttl t = 10"
  | (full) "\<forall>k<32. live s k" "new_task s cr3 esp = Inl (AssertFail ''can't get next tid'')"
proof (cases "\<forall>k<32. live s k")
  case True
  then show ?thesis using full new_task_full [OF assms] by blast
next
  case False
  define i where "i = (LEAST k. k < 32 \<and> \<not> live s k)"
  have i: "i < 32 \<and> \<not> live s i" unfolding i_def by (rule LeastI_ex) (use False in blast)
  have "live s k" if "k < i" for k using not_less_Least [of k "\<lambda>k. k < 32 \<and> \<not> live s k"] that i by (auto simp: i_def)
  then show ?thesis using slot i new_task_ok [OF assms, of i cr3 esp] by blast
qed

lemma sched_inv_fill:
  assumes inv: "sched_inv s" and i: "i < 32" "\<not> live s i" and t: "t_tid t = of_nat i" "t_state t = 1" "t_ttl t = 10"
  shows "sched_inv (s\<lparr>task_arr := (task_arr s)[i := t]\<rparr>)"
proof -
  let ?s' = "s\<lparr>task_arr := (task_arr s)[i := t]\<rparr>"
  have len: "length (task_arr s) = 32" using inv by (simp add: sched_inv_def)
  have lv: "live ?s' k = (k = i \<or> live s k)" for k using i t len by (simp add: live_def nth_list_update)
  have "task_ok (task_arr ?s' ! k) k" if "live ?s' k" for k
  proof (cases "k = i")
    case True
    then show ?thesis using i t len by (simp add: task_ok_def)
  next
    case False
    then show ?thesis using inv that lv [of k] by (simp add: sched_inv_def)
  qed
  then show ?thesis using inv lv by (auto simp: sched_inv_def)
qed

lemma context_switch'_ok:
  assumes inv: "sched_inv s" and j: "live s j" "current s \<noteq> Some j"
  obtains s' where "context_switch' s j = Inr s'" "sched_inv s'" "current s' = Some j" "contexts_kept s s'"
    "tss_entry s' = tss_entry s" "\<forall>k<32. attrs (task_arr s' ! k) = attrs (task_arr s ! k)"
proof -
  obtain i where i: "current s = Some i" "sched_pre s i" using sched_invE [OF inv] by metis
  have len: "length (task_arr s) = 32" "i < 32" "j < 32" "i \<noteq> j" using i j by (auto simp: sched_pre_def live_def)
  let ?t = "(task_arr s ! i)\<lparr>t_phy_dir := reg_cr3 s, t_esp := reg_esp s - 36\<rparr>"
  let ?s' = "s\<lparr>task_arr := (task_arr s)[i := ?t], current := Some j,
     reg_esp := t_esp (task_arr s ! j) + 36, reg_cr3 := t_phy_dir (task_arr s ! j)\<rparr>"
  have at: "\<forall>k<32. attrs (task_arr ?s' ! k) = attrs (task_arr s ! k)"
    using len by (simp add: attrs_def nth_list_update)
  have lv: "live ?s' k = live s k" for k using at by (auto simp: live_def attrs_def)
  have "task_ok (task_arr ?s' ! k) k" if "live ?s' k" for k
    using that lv [of k] inv at task_ok_attrs [of "task_arr ?s' ! k" "task_arr s ! k"]
    by (simp add: sched_inv_def live_def)
  then have "sched_inv ?s'" using inv lv j(1) by (simp add: sched_inv_def)
  moreover have "context_switch' s j = Inr ?s'"
    using len i(1) by (simp add: context_switch'_def update_current_def rd_in)
  moreover have "contexts_kept s ?s'" using len i(1) by (simp add: contexts_kept_def ctx_def nth_list_update)
  ultimately show ?thesis using that at by simp
qed

section \<open>Reachable schedulers\<close>

text \<open>The scheduler with the kernel as its only task, in slot 0.\<close>

definition sched_boot :: "ksched \<Rightarrow> bool" where
  "sched_boot s \<longleftrightarrow> length (task_arr s) = 32 \<and> current s = Some 0 \<and> freq_counter s = 0 \<and>
     t_tid (task_arr s ! 0) = 0 \<and> t_state (task_arr s ! 0) = 1 \<and> t_ttl (task_arr s ! 0) = 10 \<and>
     (\<forall>k. 0 < k \<longrightarrow> k < 32 \<longrightarrow> t_state (task_arr s ! k) = 0)"

inductive sched_reach :: "ksched \<Rightarrow> bool" where
  boot: "sched_boot s \<Longrightarrow> sched_reach s"
| run: "sched_reach s \<Longrightarrow> sched_reach (s\<lparr>reg_esp := e\<rparr>)"
| tick: "sched_reach s \<Longrightarrow> timer_irq s = Inr s' \<Longrightarrow> sched_reach s'"
| request: "sched_reach s \<Longrightarrow> request_switch s = Inr s' \<Longrightarrow> sched_reach s'"
| exit: "sched_reach s \<Longrightarrow> exit_current s = Inr s' \<Longrightarrow> sched_reach s'"
| create: "sched_reach s \<Longrightarrow> new_task s cr3 esp = Inr (s', t) \<Longrightarrow> sched_reach s'"
| spawn: "sched_reach s \<Longrightarrow> live s j \<Longrightarrow> current s \<noteq> Some j \<Longrightarrow> context_switch' s j = Inr s' \<Longrightarrow> sched_reach s'"

lemma sched_boot_inv:
  assumes "sched_boot s"
  shows "sched_inv s"
proof -
  have lv: "live s k \<longleftrightarrow> k = 0" for k using assms by (cases k) (auto simp: live_def sched_boot_def)
  then show ?thesis using assms by (auto simp: sched_inv_def sched_boot_def task_ok_def)
qed

lemma exit_current_inv:
  assumes "sched_inv s" "exit_current s = Inr s'"
  shows "sched_inv s'"
proof -
  obtain i where i: "current s = Some i" using sched_invE [OF assms(1)] by metis
  show ?thesis
  proof (cases "\<exists>k. live s k \<and> k \<noteq> i")
    case True
    then obtain k where "live s k" "k \<noteq> i" by blast
    then show ?thesis using exit_current_ok [OF assms(1) i] assms(2) by (metis Inr_inject)
  next
    case False
    then have "exit_current s = Inl NullDeref" using exit_current_last [OF assms(1) i] by blast
    then show ?thesis using assms(2) by simp
  qed
qed

lemma sched_reach_inv: "sched_reach s \<Longrightarrow> sched_inv s"
proof (induction rule: sched_reach.induct)
  case (boot s)
  then show ?case by (rule sched_boot_inv)
next
  case (run s e)
  then show ?case by (simp add: sched_inv_def live_def)
next
  case (tick s s')
  then show ?case using timer_irq_ok [of s] by (metis Inr_inject)
next
  case (request s s')
  then show ?case using request_switch_ok [of s] by (metis Inr_inject)
next
  case (exit s s')
  then show ?case using exit_current_inv by blast
next
  case (create s cr3 esp s' t)
  show ?case by (rule new_task_cases [OF create.IH, of cr3 esp]) (use create sched_inv_fill in auto)
next
  case (spawn s j s')
  then show ?case using context_switch'_ok [of s j] by (metis Inr_inject)
qed

section \<open>Every live task runs\<close>

primrec ticks :: "nat \<Rightarrow> ksched \<Rightarrow> ksched res" where
  "ticks 0 s = Inr s"
| "ticks (Suc n) s = bind_res (timer_irq s) (ticks n)"

lemma ticks_add: "ticks (m + n) s = bind_res (ticks m s) (ticks n)"
proof (induction m arbitrary: s)
  case (Suc m)
  then have "ticks (m + n) = (\<lambda>x. bind_res (ticks m x) (ticks n))" by (intro ext)
  then show ?case by (simp add: bind_res_assoc)
qed simp

lemma slice_ends:
  assumes "sched_inv s" "current s = Some i"
  shows "\<exists>n\<le>10. \<exists>s' j. ticks n s = Inr s' \<and> sched_inv s' \<and> next_live s i = Some j \<and> current s' = Some j \<and>
    (\<forall>k. live s' k = live s k) \<and> contexts_kept s s'"
proof -
  have "\<exists>n\<le>m. \<exists>s' j. ticks n s = Inr s' \<and> sched_inv s' \<and> next_live s i = Some j \<and> current s' = Some j \<and>
    (\<forall>k. live s' k = live s k) \<and> contexts_kept s s'" if "unat (t_ttl (task_arr s ! i)) \<le> m" for m
    using that assms
  proof (induction m arbitrary: s)
    case 0
    then show ?case by (auto elim!: sched_invE simp: task_ok_def)
  next
    case (Suc m)
    have ok: "task_ok (task_arr s ! i) i" using Suc.prems(2,3) by (auto elim: sched_invE)
    show ?case
    proof (cases "t_ttl (task_arr s ! i) = 1")
      case True
      then obtain j s' where "next_live s i = Some j" "timer_irq s = Inr s'" "sched_inv s'" "current s' = Some j"
        "contexts_kept s s'" "\<forall>k. live s' k = live s k"
        using timer_irq_end [OF Suc.prems(2,3)] by blast
      then show ?thesis by (intro exI [of _ 1]) simp
    next
      case False
      then have "unat (t_ttl (task_arr s ! i)) \<noteq> 1" by (metis unat_1 unsigned_word_eqI)
      then have "1 < unat (t_ttl (task_arr s ! i))" using ok by (simp add: task_ok_def)
      then obtain s1 where s1: "timer_irq s = Inr s1" "sched_inv s1" "current s1 = Some i" "contexts_kept s s1"
        "\<forall>k. live s1 k = live s k" "unat (t_ttl (task_arr s1 ! i)) = unat (t_ttl (task_arr s ! i)) - 1"
        using timer_irq_inside [OF Suc.prems(2,3)] by blast
      have "unat (t_ttl (task_arr s1 ! i)) \<le> m" using s1(6) Suc.prems(1) by simp
      then obtain n s' j where n: "n \<le> m" "ticks n s1 = Inr s'" "sched_inv s'" "next_live s1 i = Some j"
        "current s' = Some j" "\<forall>k. live s' k = live s1 k" "contexts_kept s1 s'"
        using Suc.IH [OF _ s1(2,3)] by blast
      have "next_live s i = Some j" using n(4) next_live_cong [of s1 s] s1(5) by metis
      then show ?thesis using n s1 by (intro exI [of _ "Suc n"]) (auto intro: contexts_kept_trans)
    qed
  qed
  moreover have "unat (t_ttl (task_arr s ! i)) \<le> 10"
    using assms by (auto elim!: sched_invE simp: task_ok_def)
  ultimately show ?thesis by blast
qed

lemma reaches_turn:
  assumes "sched_inv s" "current s = Some i" "live s j" "(i + d) mod 32 = j" "d < 32" "i < 32"
  shows "\<exists>n \<le> 10 * d. \<exists>s'. ticks n s = Inr s' \<and> sched_inv s' \<and> current s' = Some j \<and> contexts_kept s s'"
  using assms
proof (induction d arbitrary: s i rule: less_induct)
  case (less d)
  show ?case
  proof (cases "d = 0")
    case True
    then show ?thesis using less.prems by (intro exI [of _ 0]) (simp add: contexts_kept_refl)
  next
    case False
    obtain n s1 i1 where n: "n \<le> 10" "ticks n s = Inr s1" "sched_inv s1" "next_live s i = Some i1"
      "current s1 = Some i1" "\<forall>k. live s1 k = live s k" "contexts_kept s s1"
      using slice_ends [OF less.prems(1,2)] by blast
    obtain k where k: "1 \<le> k" "i1 = (i + k) mod 32" "\<And>m. 1 \<le> m \<Longrightarrow> m < k \<Longrightarrow> \<not> live s ((i + m) mod 32)"
      using next_live_Some [OF n(4)] by metis
    have kd: "k \<le> d" using k(3) [of d] less.prems(3,4) False by (metis not_le less_one nat_less_le)
    have "(i1 + (d - k)) mod 32 = (i + k + (d - k)) mod 32" unfolding k(2) by (simp only: mod_add_left_eq)
    then have "(i1 + (d - k)) mod 32 = j" using less.prems(4) kd by simp
    then obtain m s' where m: "m \<le> 10 * (d - k)" "ticks m s1 = Inr s'" "sched_inv s'" "current s' = Some j" "contexts_kept s1 s'"
      using less.IH [of "d - k" s1 i1, OF _ n(3,5)] n(6) less.prems(3,5) k(1,2) False by fastforce
    have "n + m \<le> 10 * d" using n(1) m(1) kd k(1) by (simp add: diff_mult_distrib2)
    then show ?thesis using n m by (intro exI [of _ "n + m"]) (auto simp: ticks_add intro: contexts_kept_trans)
  qed
qed

section \<open>A concrete scheduler\<close>

definition zero_task :: Task where
  "zero_task = \<lparr>t_esp = 0, t_phy_dir = 0, t_esp0 = 0, t_ptid = 0, t_tid = 0, t_state = 0, t_ttl = 0\<rparr>"

definition zero_gdt :: gdt_entry where
  "zero_gdt = \<lparr>limit_low = 0, base_low = 0, base_middle = 0, access = 0, granularity = 0, base_high = 0\<rparr>"

definition zero_tss :: tss_entry_struct where
  "zero_tss = \<lparr>prev_tss = 0, esp0 = 0, ss0 = 0, esp1 = 0, ss1 = 0, esp2 = 0, ss2 = 0, tss_cr3 = 0, tss_eip = 0,
     tss_eflags = 0, tss_eax = 0, tss_ecx = 0, tss_edx = 0, tss_ebx = 0, tss_esp = 0, tss_ebp = 0, tss_esi = 0,
     tss_edi = 0, tss_es = 0, tss_cs = 0, tss_ss = 0, tss_ds = 0, tss_fs = 0, tss_gs = 0, tss_ldt = 0,
     tss_trap = 0, tss_iomap_base = 0\<rparr>"

definition boot_sched :: ksched where
  "boot_sched = \<lparr>task_arr = zero_task\<lparr>t_state := 1, t_ttl := 10, t_phy_dir := 0x100000\<rparr> # replicate 31 zero_task,
     current = Some 0, tss_entry = zero_tss, TSS_SEGMENT = zero_gdt, reg_esp = 0xC0800000, reg_cr3 = 0x100000,
     secs = 0, freq_counter = 0\<rparr>"

lemma boot_sched_boot: "sched_boot boot_sched"
  by (auto simp: sched_boot_def boot_sched_def zero_task_def nth_Cons split: nat.splits)

lemma boot_sched_reach: "sched_reach boot_sched"
  by (rule sched_reach.boot [OF boot_sched_boot])

lemma boot_sched_current: "current boot_sched = Some 0"
  by (simp add: boot_sched_def)

lemma boot_sched_live: "live boot_sched k \<longleftrightarrow> k = 0"
  using boot_sched_boot by (cases k) (auto simp: live_def sched_boot_def)

section \<open>Properties\<close>

text \<open>
  C1. Scheduling is round robin. In every reachable scheduler \<open>schedule\<close> returns and hands the processor to
  the live task that follows the current one cyclically (itself when there is no other), gives the
  current task a new slice, points the TSS at the kernel stack of the new task, and keeps the context
  of every task: stack pointer and page directory of each are those it had, in the registers for the
  new task.
\<close>

theorem schedule_round_robin:
  assumes "sched_reach s" "current s = Some i"
  shows "\<exists>s' k. schedule s = Inr s' \<and> k \<in> {1..32} \<and> current s' = Some ((i + k) mod 32) \<and>
     live s ((i + k) mod 32) \<and> (\<forall>m \<in> {1..<k}. \<not> live s ((i + m) mod 32)) \<and>
     t_ttl (task_arr s' ! i) = 10 \<and> t_state (task_arr s' ! i) = 1 \<and>
     (k \<noteq> 32 \<longrightarrow> esp0 (tss_entry s') = t_esp0 (task_arr s' ! ((i + k) mod 32))) \<and>
     (\<forall>n<32. ctx s' n = ctx s n)"
proof -
  have inv: "sched_inv s" by (rule sched_reach_inv [OF assms(1)])
  then have i: "live s i" "task_ok (task_arr s ! i) i" "sched_pre s i" using assms(2) by (auto elim: sched_invE)
  have i32: "i < 32" using i(1) by (simp add: live_def)
  obtain j where j: "next_live s i = Some j" using next_live_exists [OF i32 i(1)] by blast
  obtain s' where s': "schedule s = Inr s'" "scheduled s i j s'"
    using schedule_inv [OF i(3) _ j] i(2) by (auto simp: task_ok_def)
  obtain k where k: "1 \<le> k" "k \<le> 32" "j = (i + k) mod 32" "live s j"
    "\<And>m. 1 \<le> m \<Longrightarrow> m < k \<Longrightarrow> \<not> live s ((i + m) mod 32)"
    using next_live_Some [OF j] by metis
  have "attrs (task_arr s' ! i) = attrs (reslice (task_arr s ! i))" using s'(2) i32 by (simp add: scheduled_def)
  then have "t_ttl (task_arr s' ! i) = 10" "t_state (task_arr s' ! i) = 1"
    using i(2) by (simp_all add: attrs_def reslice_def task_ok_def)
  moreover have "j \<noteq> i" if "k \<noteq> 32" using that k(1,2,3) i32 by (auto simp: mod_if)
  then have "k \<noteq> 32 \<longrightarrow> esp0 (tss_entry s') = t_esp0 (task_arr s' ! j)"
    using s'(2) by (auto simp: scheduled_def tss_for_def)
  ultimately show ?thesis
    using s' k by (intro exI [of _ s'] exI [of _ k]) (auto simp: scheduled_def contexts_kept_def)
qed

theorem schedule_round_robin_witness:
  "sched_reach boot_sched \<and> current boot_sched = Some 0 \<and> (\<exists>s'. schedule boot_sched = Inr s' \<and> current s' = Some 0)"
proof -
  have c: "current boot_sched = Some 0" by (simp add: boot_sched_def)
  obtain s' k where "schedule boot_sched = Inr s'" "current s' = Some ((0 + k) mod 32)" "live boot_sched ((0 + k) mod 32)"
    using schedule_round_robin [OF boot_sched_reach c] by blast
  then show ?thesis using c boot_sched_reach by (simp add: boot_sched_live)
qed

text \<open>
  C2. The scheduler never gets stuck. In every scheduler reached by timer interrupts, requests to switch, new
  tasks, spawns and exits in any order the current task is live, every live task sits in the slot of
  its number, is runnable and has between 1 and 10 ticks left; a timer interrupt then returns and counts
  one tick of the clock; an exit returns exactly if another task is live; a new task is refused by the
  assertion exactly if all 32 slots are taken, and otherwise gets the first free slot.
\<close>

theorem scheduler_safe:
  assumes "sched_reach s"
  shows "(\<exists>i. current s = Some i \<and> live s i \<and>
      ((\<exists>s'. exit_current s = Inr s') \<longleftrightarrow> (\<exists>k. live s k \<and> k \<noteq> i))) \<and>
    (\<forall>k. live s k \<longrightarrow> t_tid (task_arr s ! k) = of_nat k \<and> t_state (task_arr s ! k) = 1 \<and>
      unat (t_ttl (task_arr s ! k)) \<in> {1..10}) \<and>
    (\<exists>s'. timer_irq s = Inr s' \<and> clock s' = clock_tick (clock s)) \<and>
    (if \<forall>k<32. live s k then new_task s cr3 esp = Inl (AssertFail ''can't get next tid'')
      else \<exists>s' t i. new_task s cr3 esp = Inr (s', t) \<and> i < 32 \<and> \<not> live s i \<and> (\<forall>k<i. live s k) \<and> t_tid t = of_nat i \<and>
        task_arr s' = (task_arr s)[i := t])"
proof (intro conjI)
  have inv: "sched_inv s" by (rule sched_reach_inv [OF assms])
  obtain i where i: "current s = Some i" "live s i" using sched_invE [OF inv] by metis
  have "(\<exists>s'. exit_current s = Inr s') \<longleftrightarrow> (\<exists>k. live s k \<and> k \<noteq> i)"
    using exit_current_ok [OF inv i(1)] exit_current_last [OF inv i(1)] by (metis Inl_Inr_False)
  then show "\<exists>i. current s = Some i \<and> live s i \<and>
      ((\<exists>s'. exit_current s = Inr s') \<longleftrightarrow> (\<exists>k. live s k \<and> k \<noteq> i))" using i by blast
  show "\<forall>k. live s k \<longrightarrow> t_tid (task_arr s ! k) = of_nat k \<and> t_state (task_arr s ! k) = 1 \<and>
      unat (t_ttl (task_arr s ! k)) \<in> {1..10}"
    using inv by (simp add: sched_inv_def task_ok_def)
  show "\<exists>s'. timer_irq s = Inr s' \<and> clock s' = clock_tick (clock s)" using timer_irq_ok [OF inv] by metis
  show "if \<forall>k<32. live s k then new_task s cr3 esp = Inl (AssertFail ''can't get next tid'')
      else \<exists>s' t i. new_task s cr3 esp = Inr (s', t) \<and> i < 32 \<and> \<not> live s i \<and> (\<forall>k<i. live s k) \<and> t_tid t = of_nat i \<and>
        task_arr s' = (task_arr s)[i := t]"
    by (rule new_task_cases [OF inv, of cr3 esp]) auto
qed

theorem scheduler_safe_witness:
  "sched_reach boot_sched \<and> \<not> (\<exists>s'. exit_current boot_sched = Inr s') \<and>
   (\<exists>s'. timer_irq boot_sched = Inr s' \<and> clock s' = (0, 1))"
proof -
  have "\<not> (\<exists>s'. exit_current boot_sched = Inr s')"
    using scheduler_safe [OF boot_sched_reach] by (auto simp: boot_sched_live)
  moreover have "clock_tick (clock boot_sched) = (0, 1)" by (simp add: clock_tick_def clock_def boot_sched_def word_le_nat_alt)
  ultimately show ?thesis using scheduler_safe [OF boot_sched_reach] boot_sched_reach by simp
qed

text \<open>
  C3. No live task starves: from every reachable scheduler, if only the timer interrupts, the processor comes to
  any given live task after at most 310 ticks, with the context that the task had.
\<close>

theorem every_task_runs:
  assumes "sched_reach s" "live s j"
  shows "\<exists>n \<le> 310. \<exists>s'. ticks n s = Inr s' \<and> current s' = Some j \<and> (reg_esp s', reg_cr3 s') = ctx s j"
proof -
  have inv: "sched_inv s" by (rule sched_reach_inv [OF assms(1)])
  obtain i where i: "current s = Some i" "i < 32" using sched_invE [OF inv] by (metis live_def)
  have j: "j < 32" using assms(2) by (simp add: live_def)
  have d: "(i + (j + 32 - i) mod 32) mod 32 = j" using i(2) j by (simp add: mod_add_right_eq)
  obtain n s' where n: "n \<le> 10 * ((j + 32 - i) mod 32)" "ticks n s = Inr s'" "current s' = Some j" "contexts_kept s s'"
    using reaches_turn [OF inv i(1) assms(2) d _ i(2)] by auto
  have "(j + 32 - i) mod 32 < 32" by simp
  then have "(j + 32 - i) mod 32 \<le> 31" by linarith
  then have "n \<le> 310" using n(1) by linarith
  moreover have "ctx s' j = ctx s j" using n(4) j by (simp add: contexts_kept_def)
  ultimately show ?thesis using n by (auto simp: ctx_def)
qed

theorem every_task_runs_witness:
  "sched_reach boot_sched \<and> live boot_sched 0 \<and> (\<exists>n \<le> 310. \<exists>s'. ticks n boot_sched = Inr s' \<and> current s' = Some 0)"
  using every_task_runs [OF boot_sched_reach, of 0] boot_sched_reach by (auto simp: boot_sched_live)

text \<open>
  Exit of the last live task dereferences \<open>NULL\<close>: \<open>schedule\<close> finds no task and passes \<open>NULL\<close> to
  \<open>context_switch\<close>.
\<close>

theorem last_exit_null:
  assumes "sched_reach s" "\<forall>k. live s k \<longrightarrow> current s = Some k"
  shows "exit_current s = Inl NullDeref"
proof -
  have inv: "sched_inv s" by (rule sched_reach_inv [OF assms(1)])
  obtain i where "current s = Some i" using sched_invE [OF inv] by metis
  then show ?thesis using exit_current_last [OF inv] assms(2) by simp
qed

theorem last_exit_null_witness: "exit_current boot_sched = Inl NullDeref"
  by (rule last_exit_null [OF boot_sched_reach]) (simp add: boot_sched_live boot_sched_current)

text \<open>
  A segment descriptor written by \<open>gdt_set_gate\<close> holds the base address, the low 20 bits of the limit, the
  access byte and the high half of the granularity byte, and they can be read back from it.
\<close>

theorem gdt_gate_roundtrip:
  "let g = gdt_set_gate e base limit acc gran in
     (ucast (base_low g) OR push_bit 16 (ucast (base_middle g)) OR push_bit 24 (ucast (base_high g)) :: u32) = base \<and>
     (ucast (limit_low g) OR push_bit 16 (ucast (granularity g AND 0x0F)) :: u32) = take_bit 20 limit \<and>
     access g = acc \<and> granularity g AND 0xF0 = gran AND 0xF0"
proof -
  have high: "n - 16 < 8" if "bit base n" "\<not> bit base (24 + (n - 24))" for n
    using that by (cases "n < 24") auto
  have m: "(0xFFFF :: u32) = mask 16" "(0xFF :: u32) = mask 8" "(0x0F :: u32) = mask 4" "(0x0F :: u8) = mask 4"
    "(0xF0 :: u8) = push_bit 4 (mask 4)"
    by (simp_all add: mask_eq_exp_minus_1 push_bit_eq_mult)
  show ?thesis
    unfolding gdt_set_gate_def Let_def m
    by (intro conjI; rule bit_eqI)
      (auto simp: bit_simps dest: bit_imp_le_length intro: high)
qed

end
