(* ===== verification/Ts_Load_Props.thy ===== *)
theory Ts_Load_Props
  imports Ts_Load Ts_Mem_Props Ts_Task_Props
begin

text \<open>
  Loading tasks: the slots of the window for temporary mappings as a resource, and what \<open>alloc_kstack_and_task\<close> and
  \<open>create_task_address_space\<close> do through it.
\<close>

section \<open>Slots\<close>

text \<open>Slot \<open>k\<close> shows the frame at \<open>pa\<close>; a free slot shows none.\<close>

definition tmap :: "paging \<Rightarrow> nat \<Rightarrow> nat \<Rightarrow> nat \<Rightarrow> bool" where
  "tmap st sys k pa \<longleftrightarrow> k < 1024 \<and> PAGE_ENTRY_SET (pmem st (sys + 4 * k)) \<and> ent_addr (pmem st (sys + 4 * k)) = pa"

definition free_slots :: "paging \<Rightarrow> nat \<Rightarrow> nat set" where
  "free_slots st sys = {k. k < 1024 \<and> \<not> PAGE_ENTRY_SET (pmem st (sys + 4 * k))}"

text \<open>Only the table of temporary mappings differs.\<close>

definition outside :: "nat \<Rightarrow> paging \<Rightarrow> paging \<Rightarrow> bool" where
  "outside sys st st' \<longleftrightarrow> cr3 st' = cr3 st \<and> paging_on st' = paging_on st \<and> frames st' = frames st \<and>
     (\<forall>a. a < sys \<or> sys + 4096 \<le> a \<longrightarrow> pmem st' a = pmem st a)"

lemma outside_refl [simp]: "outside sys st st"
  by (simp add: outside_def)

lemma outside_trans: "outside sys st st' \<Longrightarrow> outside sys st' st'' \<Longrightarrow> outside sys st st''"
  by (simp add: outside_def)

lemma finite_free_slots [simp]: "finite (free_slots st sys)"
  by (simp add: free_slots_def)

lemma tmap_not_free: "tmap st sys k pa \<Longrightarrow> k \<notin> free_slots st sys"
  by (simp add: tmap_def free_slots_def)

text \<open>A write to slot \<open>k\<close>.\<close>

lemma slot_write:
  fixes v :: u32 and st :: paging and sys k :: nat
  assumes "sys_window st sys rv" "k < 1024"
  defines "st' \<equiv> st\<lparr>pmem := (pmem st)(sys + 4 * k := v)\<rparr>"
  shows "sys_window st' sys rv" "outside sys st st'" "\<And>j p. j \<noteq> k \<Longrightarrow> tmap st sys j p \<Longrightarrow> tmap st' sys j p"
    "free_slots st' sys = (if PAGE_ENTRY_SET v then free_slots st sys - {k} else insert k (free_slots st sys))"
    "PAGE_ENTRY_SET v \<Longrightarrow> ent_addr v = pa \<Longrightarrow> tmap st' sys k pa"
  using window_write(1) [OF assms(1,2), of v] assms(2)
  by (auto simp: st'_def outside_def tmap_def free_slots_def)

lemma create_temp_va_ok:
  assumes "sys_window st sys rv" "free_slots st sys \<noteq> {}" "pa mod 4096 = 0" "pa < 4294967296"
  shows "\<exists>st' k. create_temp_va st pa = Inr (st', IX_TO_VA 1022 k) \<and> k \<in> free_slots st sys \<and> sys_window st' sys rv \<and> outside sys st st' \<and>
    tmap st' sys k pa \<and> (\<forall>j p. tmap st sys j p \<longrightarrow> tmap st' sys j p) \<and> free_slots st' sys = free_slots st sys - {k}"
proof -
  obtain j where "j < 1024" "\<not> PAGE_ENTRY_SET (pmem st (sys + 4 * j))" using assms(2) by (auto simp: free_slots_def)
  then have "find (\<lambda>i. \<not> PAGE_ENTRY_SET (pmem st (sys + 4 * i))) [0..<1024] \<noteq> None"
    unfolding find_None_iff by (auto simp del: upt.simps)
  then obtain k where k: "find (\<lambda>i. \<not> PAGE_ENTRY_SET (pmem st (sys + 4 * i))) [0..<1024] = Some k" by blast
  then have kf: "k < 1024" "k \<in> free_slots st sys" unfolding find_Some_iff by (auto simp: free_slots_def simp del: upt.simps)
  let ?st = "st\<lparr>pmem := (pmem st)(sys + 4 * k := of_nat pa OR 0xB)\<rparr>"
  have "create_temp_va st pa = Inr (?st, IX_TO_VA 1022 k)"
    using create_temp_loop_find [OF assms(1), of "[0..<1024]" pa] k by (auto simp: create_temp_va_def simp del: upt.simps)
  moreover note w = slot_write [OF assms(1) kf(1), where v = "of_nat pa OR 0xB"]
  moreover have "tmap ?st sys k pa" using w(5) ent_addr_entry [OF assms(3,4)] by simp
  moreover have "tmap ?st sys j p" if "tmap st sys j p" for j p using w(3) that tmap_not_free [OF that] kf(2) by (cases "j = k") auto
  ultimately show ?thesis using kf(2) by (intro exI [of _ ?st] exI [of _ k]) simp
qed

lemma delete_temp_va_ok:
  assumes "sys_window st sys rv" "k < 1024"
  shows "\<exists>st'. delete_temp_va st (IX_TO_VA 1022 k) = Inr st' \<and> sys_window st' sys rv \<and> outside sys st st' \<and>
    (\<forall>j p. j \<noteq> k \<longrightarrow> tmap st sys j p \<longrightarrow> tmap st' sys j p) \<and> free_slots st' sys = insert k (free_slots st sys)"
proof -
  let ?st = "st\<lparr>pmem := (pmem st)(sys + 4 * k := 0)\<rparr>"
  have "PAGE_TABLE_INDEX (IX_TO_VA 1022 k) = k" using ix_to_va_index(2) [of 1022 k 0] assms(2) by simp
  then have "delete_temp_va st (IX_TO_VA 1022 k) = Inr ?st"
    using window_write(2) [OF assms, of 0] by (simp add: delete_temp_va_def)
  then show ?thesis using slot_write [OF assms, where v = 0] by (intro exI [of _ ?st]) simp
qed

lemma lookup_temp_va_ok:
  assumes "sys_window st sys rv" "tmap st sys k pa"
  shows "\<exists>j. lookup_temp_va st pa = Inr (IX_TO_VA 1022 j) \<and> tmap st sys j pa"
proof -
  let ?P = "\<lambda>i. PAGE_ENTRY_SET (pmem st (sys + 4 * i)) \<and> ent_addr (pmem st (sys + 4 * i)) = pa"
  have "find ?P [0..<1024] \<noteq> None" unfolding find_None_iff using assms(2) by (auto simp: tmap_def simp del: upt.simps)
  then obtain j where j: "find ?P [0..<1024] = Some j" by blast
  then have "tmap st sys j pa" unfolding find_Some_iff by (auto simp: tmap_def simp del: upt.simps)
  moreover have "lookup_temp_va st pa = Inr (IX_TO_VA 1022 j)"
    using lookup_temp_loop_find [OF assms(1), of "[0..<1024]" pa] j by (auto simp: lookup_temp_va_def simp del: upt.simps)
  ultimately show ?thesis by blast
qed

lemma lookup_temp_va_none:
  assumes "sys_window st sys rv" "\<nexists>k. tmap st sys k pa"
  shows "lookup_temp_va st pa = Inr 0"
proof -
  have "find (\<lambda>i. PAGE_ENTRY_SET (pmem st (sys + 4 * i)) \<and> ent_addr (pmem st (sys + 4 * i)) = pa) [0..<1024] = None"
    unfolding find_None_iff using assms(2) by (auto simp: tmap_def simp del: upt.simps)
  then show ?thesis using lookup_temp_loop_find [OF assms(1), of "[0..<1024]" pa] by (auto simp: lookup_temp_va_def simp del: upt.simps)
qed

lemma IX_TO_VA_nonzero [simp]: "IX_TO_VA 1022 k \<noteq> 0"
  by (simp add: IX_TO_VA_def)

lemma get_temp_va_ok:
  assumes "sys_window st sys rv" "free_slots st sys \<noteq> {}" "pa mod 4096 = 0" "pa < 4294967296"
  shows "\<exists>st' k. get_temp_va st pa = Inr (st', IX_TO_VA 1022 k) \<and> sys_window st' sys rv \<and> outside sys st st' \<and>
    tmap st' sys k pa \<and> (\<forall>j p. tmap st sys j p \<longrightarrow> tmap st' sys j p) \<and> free_slots st' sys = free_slots st sys - {k}"
proof (cases "\<exists>k. tmap st sys k pa")
  case True
  then obtain j where j: "lookup_temp_va st pa = Inr (IX_TO_VA 1022 j)" "tmap st sys j pa"
    using lookup_temp_va_ok [OF assms(1)] by blast
  have "free_slots st sys - {j} = free_slots st sys" using tmap_not_free [OF j(2)] by simp
  then show ?thesis using j assms(1) by (intro exI [of _ st] exI [of _ j]) (simp add: get_temp_va_def)
next
  case False
  then have "get_temp_va st pa = create_temp_va st pa" using lookup_temp_va_none [OF assms(1)] by (simp add: get_temp_va_def)
  then show ?thesis using create_temp_va_ok [OF assms] by auto
qed

section \<open>Accesses through a slot\<close>

lemma translate_tmap: "sys_window st sys rv \<Longrightarrow> tmap st sys k pa \<Longrightarrow> off < 4096 \<Longrightarrow> translate st (IX_TO_VA 1022 k + off) = Inr (pa + off)"
  using window_slot [of st sys rv k off] by (simp add: tmap_def)

lemma ld_tmap: "sys_window st sys rv \<Longrightarrow> tmap st sys k pa \<Longrightarrow> off < 4096 \<Longrightarrow> ld st (IX_TO_VA 1022 k + off) = Inr (pmem st (pa + off))"
  using translate_tmap by (simp add: ld_def)

lemma ld_tmap_word: "sys_window st sys rv \<Longrightarrow> tmap st sys k pa \<Longrightarrow> i < 1024 \<Longrightarrow> ld st (IX_TO_VA 1022 k + 4 * i) = Inr (pmem st (pa + 4 * i))"
  by (rule ld_tmap) simp_all

lemma page_disjoint:
  assumes "a mod 4096 = 0" "b mod 4096 = 0" "a \<noteq> b" "i < 4096" "j < (4096 :: nat)"
  shows "a + i \<noteq> b + j"
proof
  assume e: "a + i = b + j"
  have "(a + i) div 4096 = a div 4096" "(b + j) div 4096 = b div 4096"
    using assms by (simp_all add: div_add1_eq)
  then have "a div 4096 * 4096 = b div 4096 * 4096" using e by simp
  then show False using assms(1-3) by (metis mod_0_imp_dvd dvd_div_mult_self)
qed

text \<open>A store into a frame that is not used for paging.\<close>

lemma sto_tmap:
  fixes v :: u32 and st :: paging and pa off :: nat
  assumes "sys_window st sys rv" "tmap st sys k pa" "off < 4096" "pa \<noteq> cr3 st" "pa \<noteq> sys" "pa \<noteq> rv"
  defines "st' \<equiv> st\<lparr>pmem := (pmem st)(pa + off := v)\<rparr>"
  shows "sto st (IX_TO_VA 1022 k + off) v = Inr st'" "sys_window st' sys rv" "tmap st' sys j p \<longleftrightarrow> tmap st sys j p"
proof -
  show "sto st (IX_TO_VA 1022 k + off) v = Inr st'" using translate_tmap [OF assms(1-3)] by (simp add: sto_def st'_def)
  have pg: "pa mod 4096 = 0" "sys mod 4096 = 0" "rv mod 4096 = 0" "cr3 st mod 4096 = 0"
    using assms(1,2) ent_addr_page by (auto simp: tmap_def sys_window_def)
  have same: "pmem st' (b + 4 * i) = pmem st (b + 4 * i)" if "b \<in> {cr3 st, sys, rv}" "i < 1024" for b i
  proof -
    have "b mod 4096 = 0" "pa \<noteq> b" using that(1) pg assms(4-6) by auto
    from page_disjoint [OF pg(1) this assms(3), of "4 * i"] that(2) show ?thesis by (simp add: st'_def)
  qed
  have st': "cr3 st' = cr3 st" "paging_on st' = paging_on st" by (simp_all add: st'_def)
  show "sys_window st' sys rv" using assms(1) same [of "cr3 st"] same [of "cr3 st" 1022] same [of "cr3 st" 1023] same [of rv 1022] unfolding sys_window_def st' by simp
  show "tmap st' sys j p \<longleftrightarrow> tmap st sys j p" using same [of sys j] by (auto simp: tmap_def)
qed

text \<open>Several stores into such a frame; \<open>offs\<close> pairs an offset with a word.\<close>

definition put_words :: "nat \<Rightarrow> (nat \<times> u32) list \<Rightarrow> (nat \<Rightarrow> u32) \<Rightarrow> nat \<Rightarrow> u32" where
  "put_words pa offs = fold (\<lambda>(off, v) m. m(pa + off := v)) offs"

lemma put_words_simps [simp]:
  "put_words pa [] m = m" "put_words pa ((off, v) # offs) m = put_words pa offs (m(pa + off := v))"
  by (simp_all add: put_words_def)

lemma put_words_elsewhere: "(\<forall>(off, v) \<in> set offs. a \<noteq> pa + off) \<Longrightarrow> put_words pa offs m a = m a"
  by (induction offs arbitrary: m) auto

lemma put_words_at: "put_words pa offs m (pa + off) = (case map_of (rev offs) off of None \<Rightarrow> m (pa + off) | Some v \<Rightarrow> v)"
  by (induction offs arbitrary: m) (auto simp: map_add_def split: option.splits)

text \<open>A frame that the accesses through the window do not depend on.\<close>

definition plain_frame :: "paging \<Rightarrow> nat \<Rightarrow> nat \<Rightarrow> nat \<Rightarrow> bool" where
  "plain_frame st sys rv pa \<longleftrightarrow> pa \<noteq> cr3 st \<and> pa \<noteq> sys \<and> pa \<noteq> rv"

lemma sto_all_tmap:
  assumes "sys_window st sys rv" "tmap st sys k pa" "plain_frame st sys rv pa" "\<forall>(off, v) \<in> set offs. off < 4096"
  defines "st' \<equiv> st\<lparr>pmem := put_words pa offs (pmem st)\<rparr>"
  shows "sto_all (map (\<lambda>(off, v). (IX_TO_VA 1022 k + off, v)) offs) st = Inr st'" "sys_window st' sys rv"
    "tmap st' sys j p \<longleftrightarrow> tmap st sys j p"
proof -
  have "sto_all (map (\<lambda>(off, v). (IX_TO_VA 1022 k + off, v)) offs) st = Inr (st\<lparr>pmem := put_words pa offs (pmem st)\<rparr>) \<and>
    sys_window (st\<lparr>pmem := put_words pa offs (pmem st)\<rparr>) sys rv \<and>
    (\<forall>j p. tmap (st\<lparr>pmem := put_words pa offs (pmem st)\<rparr>) sys j p \<longleftrightarrow> tmap st sys j p)"
    using assms(1-4)
  proof (induction offs arbitrary: st)
    case (Cons ov offs)
    obtain off v where ov: "ov = (off, v)" by fastforce
    let ?st = "st\<lparr>pmem := (pmem st)(pa + off := v)\<rparr>"
    have "off < 4096" "pa \<noteq> cr3 st" "pa \<noteq> sys" "pa \<noteq> rv" using Cons.prems ov by (auto simp: plain_frame_def)
    note s = sto_tmap [OF Cons.prems(1,2) this, where v = v]
    have "plain_frame ?st sys rv pa" using Cons.prems(3) by (simp add: plain_frame_def)
    then show ?case using Cons.IH [OF s(2)] s(1,3) Cons.prems(2,4) by (simp add: ov fun_upd_def)
  qed simp
  then show "sto_all (map (\<lambda>(off, v). (IX_TO_VA 1022 k + off, v)) offs) st = Inr st'" "sys_window st' sys rv"
    "tmap st' sys j p \<longleftrightarrow> tmap st sys j p" by (simp_all add: st'_def)
qed

section \<open>Existing mappings\<close>

text \<open>The directory at \<open>d\<close> has the table \<open>T\<close> at index \<open>di\<close>.\<close>

definition dir_table :: "paging \<Rightarrow> nat \<Rightarrow> nat \<Rightarrow> nat \<Rightarrow> bool" where
  "dir_table st d di T \<longleftrightarrow> PAGE_ENTRY_SET (pmem st (d + 4 * di)) \<and> ent_addr (pmem st (d + 4 * di)) = T"

lemma ent_addr_bound: "ent_addr e < 4294967296"
  by (simp add: ent_addr_def) (use unsigned_less [where 'a = nat and w = "e AND 0xFFFFF000"] in simp)

lemma dir_table_page: "dir_table st d di T \<Longrightarrow> T mod 4096 = 0 \<and> T < 4294967296"
  using ent_addr_page ent_addr_bound by (auto simp: dir_table_def)

lemma outside_word:
  assumes "outside sys st st'" "d mod 4096 = 0" "sys mod 4096 = 0" "d \<noteq> sys" "off < 4096"
  shows "pmem st' (d + off) = pmem st (d + off)"
proof -
  have "d + off < sys \<or> sys + 4096 \<le> d + off"
  proof (rule ccontr)
    assume "\<not> ?thesis"
    then have "d + off = sys + (d + off - sys)" "d + off - sys < 4096" by auto
    then show False using page_disjoint [OF assms(2-5)] by blast
  qed
  then show ?thesis using assms(1) unfolding outside_def by blast
qed

lemma dir_table_outside:
  assumes "outside sys st st'" "d mod 4096 = 0" "sys mod 4096 = 0" "d \<noteq> sys" "di < 1024"
  shows "dir_table st' d di T \<longleftrightarrow> dir_table st d di T"
  using outside_word [OF assms(1-4), of "4 * di"] assms(5) by (simp add: dir_table_def)

text \<open>A page that is present already.\<close>

lemma region_page_present:
  assumes w: "sys_window st sys rv" and d: "tmap st sys kd d" "dir_table st d (PAGE_DIR_INDEX va) X" "PAGE_DIR_INDEX va < 1024"
    and t: "tmap st sys kt T" "PAGE_ENTRY_SET (pmem st (T + 4 * PAGE_TABLE_INDEX va))" and va: "KERNEL_V_START \<le> va"
  shows "region_page st (IX_TO_VA 1022 kd) rev_tb flag va (IX_TO_VA 1022 kt) dir_flg = Inr (st, 0, IX_TO_VA 1022 kt, dir_flg)"
proof -
  have "PAGE_TABLE_INDEX va < 1024" by (simp add: PAGE_TABLE_INDEX_def)
  then show ?thesis using ld_tmap_word [OF w d(1) d(3)] ld_tmap_word [OF w t(1)] assms
    by (simp add: region_page_def create_page_table_def pg_dir_no_entry_def dir_table_def)
qed

lemma get_pt_va_present:
  assumes w: "sys_window st sys rv" and d: "tmap st sys kd d" "dir_table st d di T" "di < 1024" "T \<noteq> 0"
  shows "get_pt_va st (IX_TO_VA 1022 kd) di = get_temp_va st T" "lookup_pt_temp_va st (IX_TO_VA 1022 kd) di = lookup_temp_va st T"
  using ld_tmap_word [OF w d(1) d(3)] d(2,4)
  by (simp_all add: get_pt_va_def lookup_pt_temp_va_def pt_phy_from_dir_def dir_table_def)

lemma region_page_first:
  assumes w: "sys_window st sys rv" and d: "tmap st sys kd d" "dir_table st d (PAGE_DIR_INDEX va) T" "PAGE_DIR_INDEX va < 1024" "T \<noteq> 0"
    and g: "get_temp_va st T = Inr (st', IX_TO_VA 1022 kt)" "sys_window st' sys rv" "tmap st' sys kt T"
    and t: "PAGE_ENTRY_SET (pmem st' (T + 4 * PAGE_TABLE_INDEX va))" and va: "KERNEL_V_START \<le> va"
  shows "region_page st (IX_TO_VA 1022 kd) rev_tb flag va 0 dir_flg = Inr (st', 0, IX_TO_VA 1022 kt, dir_flg)"
proof -
  have "PAGE_TABLE_INDEX va < 1024" by (simp add: PAGE_TABLE_INDEX_def)
  then show ?thesis using ld_tmap_word [OF w d(1) d(3)] ld_tmap_word [OF g(2,3)] get_pt_va_present [OF w d] assms
    by (simp add: region_page_def create_page_table_def pg_dir_no_entry_def dir_table_def)
qed

text \<open>
  The directory at \<open>d\<close>, shown in slot \<open>kd\<close>, has the page of the kernel stack in table \<open>T\<close>: the frame at \<open>K\<close>. The region of one
  page that starts at \<open>KSTACK_FRAME\<close> takes in the page after it too, which is looked for in the same table.
\<close>

definition has_kstack :: "paging \<Rightarrow> nat \<Rightarrow> nat \<Rightarrow> nat \<Rightarrow> nat \<Rightarrow> bool" where
  "has_kstack st sys d T K \<longleftrightarrow> d mod 4096 = 0 \<and> d < 4294967296 \<and> d \<noteq> sys \<and> d \<noteq> T \<and> T \<noteq> sys \<and> T \<noteq> 0 \<and>
     dir_table st d 1021 T \<and> PAGE_ENTRY_SET (pmem st (d + 4 * 1022)) \<and> dir_table st T 1023 K \<and> PAGE_ENTRY_SET (pmem st (T + 4 * 0)) \<and>
     (\<exists>R kr. dir_table st d 1023 R \<and> R \<noteq> 0 \<and> tmap st sys kr R)"

lemma KSTACK_index [simp]:
  "PAGE_DIR_INDEX KSTACK_VA = 1021" "PAGE_TABLE_INDEX KSTACK_VA = 1023" "PAGE_DIR_INDEX 0xFF800000 = 1022" "PAGE_TABLE_INDEX 0xFF800000 = 0"
  by (simp_all add: PAGE_DIR_INDEX_def PAGE_TABLE_INDEX_def)

lemma has_kstack_outside:
  assumes "sys_window st sys rv" "outside sys st st'" "\<forall>j p. tmap st sys j p \<longrightarrow> tmap st' sys j p" "has_kstack st sys d T K"
  shows "has_kstack st' sys d T K"
proof -
  have h: "d mod 4096 = 0" "d < 4294967296" "d \<noteq> sys" "d \<noteq> T" "T \<noteq> sys" "T \<noteq> 0" "dir_table st d 1021 T"
    "PAGE_ENTRY_SET (pmem st (d + 4 * 1022))" "dir_table st T 1023 K" "PAGE_ENTRY_SET (pmem st (T + 4 * 0))"
    and "\<exists>R kr. dir_table st d 1023 R \<and> R \<noteq> 0 \<and> tmap st sys kr R"
    using assms(4) unfolding has_kstack_def by blast+
  then obtain R kr where R: "dir_table st d 1023 R" "R \<noteq> 0" "tmap st sys kr R" by blast
  have m: "sys mod 4096 = 0" "T mod 4096 = 0" using assms(1) dir_table_page [OF h(7)] by (simp_all add: sys_window_def)
  note d = dir_table_outside [OF assms(2) h(1) m(1) h(3)] and T = dir_table_outside [OF assms(2) m(2,1) h(5)]
  have e: "pmem st' (d + 4 * 1022) = pmem st (d + 4 * 1022)" "pmem st' (T + 4 * 0) = pmem st (T + 4 * 0)"
    using outside_word [OF assms(2) h(1) m(1) h(3), of "4 * 1022"] outside_word [OF assms(2) m(2,1) h(5), of "4 * 0"] by simp_all
  show ?thesis unfolding has_kstack_def e d [of 1021, simplified] d [of 1023, simplified] T [of 1023, simplified]
    using h R assms(3) by blast
qed

lemma stack_region:
  assumes w: "sys_window st sys rv" and f: "free_slots st sys \<noteq> {}" and d: "tmap st sys kd d" and h: "has_kstack st sys d T K"
  shows "\<exists>st' kt. request_region_vmap st (IX_TO_VA 1022 kd) KSTACK_VA 4096 flag = Some (Inr (st', 1)) \<and> sys_window st' sys rv \<and>
    outside sys st st' \<and> (\<forall>j p. tmap st sys j p \<longrightarrow> tmap st' sys j p) \<and> free_slots st' sys = free_slots st sys - {kt}"
proof -
  obtain R kr where R: "dir_table st d 1023 R" "R \<noteq> 0" "tmap st sys kr R" using h unfolding has_kstack_def by blast
  have T: "dir_table st d 1021 T" "T \<noteq> 0" "T mod 4096 = 0" "T < 4294967296"
    using h dir_table_page unfolding has_kstack_def by blast+
  obtain st' kt where g: "get_temp_va st T = Inr (st', IX_TO_VA 1022 kt)" "sys_window st' sys rv" "outside sys st st'" "tmap st' sys kt T"
    "\<forall>j p. tmap st sys j p \<longrightarrow> tmap st' sys j p" "free_slots st' sys = free_slots st sys - {kt}"
    using get_temp_va_ok [OF w f T(3,4)] by (elim exE conjE) blast
  have h': "has_kstack st' sys d T K" by (rule has_kstack_outside [OF w g(3,5) h])
  then have t: "PAGE_ENTRY_SET (pmem st' (T + 4 * 1023))" "PAGE_ENTRY_SET (pmem st' (T + 4 * 0))" "PAGE_ENTRY_SET (pmem st' (d + 4 * 1022))"
    by (simp_all add: has_kstack_def dir_table_def)
  obtain jr where jr: "lookup_temp_va st R = Inr (IX_TO_VA 1022 jr)" using lookup_temp_va_ok [OF w R(3)] by blast
  have r1: "region_page st (IX_TO_VA 1022 kd) (IX_TO_VA 1022 jr) flag KSTACK_VA 0 fl = Inr (st', 0, IX_TO_VA 1022 kt, fl)" for fl
    using region_page_first [OF w d, of KSTACK_VA T st' kt] T g t by simp
  have r2: "region_page st' (IX_TO_VA 1022 kd) (IX_TO_VA 1022 jr) flag 0xFF800000 (IX_TO_VA 1022 kt) fl = Inr (st', 0, IX_TO_VA 1022 kt, fl)" for fl
    using g(5) d t by (intro region_page_present [OF g(2) _ _ _ g(4), where d = d and X = "ent_addr (pmem st' (d + 4 * 1022))"])
      (simp_all add: dir_table_def)
  have "region_loop st (IX_TO_VA 1022 kd) (IX_TO_VA 1022 jr) flag 0xFF800000 KSTACK_VA 0 0 fl = Some (Inr (st', 0))" for fl
    by (subst region_loop.simps, simp add: r1 add32_def, subst region_loop.simps, simp add: r2 add32_def, subst region_loop.simps, simp)
  then have "request_region_vmap st (IX_TO_VA 1022 kd) KSTACK_VA 4096 flag = Some (Inr (st', 1))"
    using get_pt_va_present(2) [OF w d R(1) _ R(2)] jr by (simp add: request_region_vmap_def add32_def)
  then show ?thesis using g by blast
qed

lemma get_phy_kstack:
  assumes w: "sys_window st sys rv" and f: "free_slots st sys \<noteq> {}" and d: "tmap st sys kd d" and h: "has_kstack st sys d T K"
  shows "\<exists>st' kt. get_phy_from_dir st (IX_TO_VA 1022 kd) KSTACK_VA = Inr (st', K) \<and> sys_window st' sys rv \<and>
    outside sys st st' \<and> tmap st' sys kd d \<and> free_slots st' sys = insert kt (free_slots st sys)"
proof -
  have T: "dir_table st d 1021 T" "T \<noteq> 0" "T mod 4096 = 0" "T < 4294967296" "d \<noteq> T"
    using h dir_table_page unfolding has_kstack_def by blast+
  obtain st' kt where g: "get_temp_va st T = Inr (st', IX_TO_VA 1022 kt)" "sys_window st' sys rv" "outside sys st st'" "tmap st' sys kt T"
    "\<forall>j p. tmap st sys j p \<longrightarrow> tmap st' sys j p" "free_slots st' sys = free_slots st sys - {kt}"
    using get_temp_va_ok [OF w f T(3,4)] by (elim exE conjE) blast
  have kt: "kt < 1024" "kd \<noteq> kt" using g(4,5) d T(5) by (auto simp: tmap_def)
  obtain st'' where x: "delete_temp_va st' (IX_TO_VA 1022 kt) = Inr st''" "sys_window st'' sys rv" "outside sys st' st''"
    "\<forall>j p. j \<noteq> kt \<longrightarrow> tmap st' sys j p \<longrightarrow> tmap st'' sys j p" "free_slots st'' sys = insert kt (free_slots st' sys)"
    using delete_temp_va_ok [OF g(2) kt(1)] by (elim exE conjE) blast
  have K: "dir_table st' T 1023 K" using has_kstack_outside [OF w g(3,5) h] by (simp add: has_kstack_def)
  have "get_phy_from_dir st (IX_TO_VA 1022 kd) KSTACK_VA = Inr (st'', K)"
    using ld_tmap_word [OF w d, of 1021] ld_tmap_word [OF g(2,4), of 1023] T(1) K g(1) x(1)
    by (simp add: get_phy_from_dir_def dir_table_def)
  moreover have "tmap st'' sys kd d" using x(4) g(5) d kt(2) by blast
  moreover have "free_slots st'' sys = insert kt (free_slots st sys)" using x(5) g(6) by auto
  ultimately show ?thesis using x outside_trans [OF g(3) x(3)] by blast
qed

section \<open>Control blocks\<close>

lemma KSTACK_TO_TASK_off: "KSTACK_TO_TASK a + i = a + (4068 + i)" "KSTACK_TO_TASK a = a + 4068"
  by (simp_all add: KSTACK_TO_TASK_def)

text \<open>The control block in the words of a frame.\<close>

definition task_at :: "paging \<Rightarrow> nat \<Rightarrow> Task" where
  "task_at st a = \<lparr>t_esp = pmem st a, t_phy_dir = pmem st (a + 4), t_esp0 = pmem st (a + 8), t_ptid = pmem st (a + 12),
     t_tid = pmem st (a + 16), t_state = pmem st (a + 20), t_ttl = pmem st (a + 24)\<rparr>"

lemma ld_task_tmap:
  assumes "sys_window st sys rv" "tmap st sys k pa"
  shows "ld_task st (KSTACK_TO_TASK (IX_TO_VA 1022 k)) = Inr (task_at st (pa + 4068))"
  unfolding ld_task_def KSTACK_TO_TASK_off
  using ld_tmap [OF assms, of 4068] ld_tmap [OF assms, of "4068 + 4"] ld_tmap [OF assms, of "4068 + 8"] ld_tmap [OF assms, of "4068 + 12"]
    ld_tmap [OF assms, of "4068 + 16"] ld_tmap [OF assms, of "4068 + 20"] ld_tmap [OF assms, of "4068 + 24"]
  by (simp add: task_at_def ac_simps)

text \<open>The stores of \<open>alloc_kstack_and_task\<close> into the new control block, in their order.\<close>

definition new_words :: "nat \<Rightarrow> u32 \<Rightarrow> nat \<Rightarrow> (nat \<times> u32) list" where
  "new_words d ptid tid = [(4072, of_nat d), (4076, 0xFF7FFFE0), (4080, ptid), (4088, 1), (4092, 10), (4084, of_nat tid)]"

lemma fill_task_tmap:
  assumes w: "sys_window st sys rv" and k: "tmap st sys k pa" and p: "plain_frame st sys rv pa"
  obtains s1 s2 st' where
    "sto_all [(KSTACK_TO_TASK (IX_TO_VA 1022 k) + 4, of_nat d), (KSTACK_TO_TASK (IX_TO_VA 1022 k) + 8, 0xFF7FFFE0)] st = Inr s1"
    "sto_all [(KSTACK_TO_TASK (IX_TO_VA 1022 k) + 12, ptid), (KSTACK_TO_TASK (IX_TO_VA 1022 k) + 20, 1),
       (KSTACK_TO_TASK (IX_TO_VA 1022 k) + 24, 10)] s1 = Inr s2"
    "sto s2 (KSTACK_TO_TASK (IX_TO_VA 1022 k) + 16) (of_nat tid) = Inr st'"
    "st' = st\<lparr>pmem := put_words pa (new_words d ptid tid) (pmem st)\<rparr>" "sys_window st' sys rv" "\<And>j q. tmap st' sys j q \<longleftrightarrow> tmap st sys j q"
proof -
  have o: "\<forall>(off, v) \<in> set (new_words d ptid tid). off < 4096" by (simp add: new_words_def)
  note a = sto_all_tmap [OF w k p o]
  then show thesis using that unfolding new_words_def KSTACK_TO_TASK_off by (simp add: add.commute [of "IX_TO_VA 1022 k"]) blast
qed

lemma task_at_words:
  "task_at (st\<lparr>pmem := put_words pa (new_words d ptid tid) (pmem st)\<rparr>) (pa + 4068) =
     \<lparr>t_esp = pmem st (pa + 4068), t_phy_dir = of_nat d, t_esp0 = 0xFF7FFFE0, t_ptid = ptid, t_tid = of_nat tid, t_state = 1, t_ttl = 10\<rparr>"
  by (simp add: task_at_def new_words_def)

lemma task_at_outside:
  assumes "outside sys st st'" "pa mod 4096 = 0" "sys mod 4096 = 0" "pa \<noteq> sys"
  shows "task_at st' (pa + 4068) = task_at st (pa + 4068)"
  using outside_word [OF assms, of 4068] outside_word [OF assms, of 4072] outside_word [OF assms, of 4076] outside_word [OF assms, of 4080]
    outside_word [OF assms, of 4084] outside_word [OF assms, of 4088] outside_word [OF assms, of 4092]
  by (simp add: task_at_def add.commute [of pa])

lemma new_task_split:
  assumes "new_task s d esp = Inr (s', t)" "length (task_arr s) = 32"
  obtains c tid where "current_task s = Inr c" "get_next_tid s = Inr tid" "tid < 32" "s' = s\<lparr>task_arr := (task_arr s)[tid := t]\<rparr>"
    "t = \<lparr>t_esp = esp, t_phy_dir = d, t_esp0 = 0xFF7FFFE0, t_ptid = t_tid c, t_tid = of_nat tid, t_state = 1, t_ttl = 10\<rparr>"
  using assms by (auto simp: new_task_def Let_def wr_def split: if_splits)

lemma card_slots_minus: "Suc m \<le> card (free_slots st sys) \<Longrightarrow> m \<le> card (free_slots st sys - {k})"
  unfolding card_Diff_singleton_if by (cases "k \<in> free_slots st sys") simp_all

text \<open>The call up to the new control block: the state in which slot \<open>kd\<close> shows the directory and slot \<open>k\<close> the stack.\<close>

lemma alloc_kstack_window:
  assumes w: "sys_window st sys rv" and n: "3 \<le> card (free_slots st sys)" and h: "has_kstack st sys d T K"
  obtains s1 s2 s3 s4 kd k where "create_temp_va st d = Inr (s1, IX_TO_VA 1022 kd)"
    "request_region_vmap s1 (IX_TO_VA 1022 kd) KSTACK_VA 4096 0xB = Some (Inr (s2, 1))"
    "get_phy_from_dir s2 (IX_TO_VA 1022 kd) KSTACK_VA = Inr (s3, K)" "create_temp_va s3 K = Inr (s4, IX_TO_VA 1022 k)"
    "sys_window s4 sys rv" "outside sys st s4" "tmap s4 sys kd d" "tmap s4 sys k K" "kd \<noteq> k"
proof -
  have d: "d mod 4096 = 0" "d < 4294967296" "dir_table st T 1023 K" using h by (simp_all add: has_kstack_def)
  have f: "free_slots st sys \<noteq> {}" using n by auto
  obtain s1 kd where s1: "create_temp_va st d = Inr (s1, IX_TO_VA 1022 kd)" "sys_window s1 sys rv" "outside sys st s1"
    "tmap s1 sys kd d" "\<forall>j p. tmap st sys j p \<longrightarrow> tmap s1 sys j p" "free_slots s1 sys = free_slots st sys - {kd}"
    using create_temp_va_ok [OF w f d(1,2)] by (elim exE conjE) (rule that)
  have h1: "has_kstack s1 sys d T K" by (rule has_kstack_outside [OF w s1(3,5) h])
  have n1: "2 \<le> card (free_slots s1 sys)" unfolding s1(6) by (rule card_slots_minus) (use n in simp)
  then have f1: "free_slots s1 sys \<noteq> {}" by auto
  obtain s2 kt where s2: "request_region_vmap s1 (IX_TO_VA 1022 kd) KSTACK_VA 4096 0xB = Some (Inr (s2, 1))" "sys_window s2 sys rv"
    "outside sys s1 s2" "\<forall>j p. tmap s1 sys j p \<longrightarrow> tmap s2 sys j p" "free_slots s2 sys = free_slots s1 sys - {kt}"
    using stack_region [OF s1(2) f1 s1(4) h1, of "0xB"] by (elim exE conjE) (rule that)
  have h2: "has_kstack s2 sys d T K" by (rule has_kstack_outside [OF s1(2) s2(3,4) h1])
  have "1 \<le> card (free_slots s2 sys)" unfolding s2(5) by (rule card_slots_minus) (use n1 in simp)
  then have f2: "free_slots s2 sys \<noteq> {}" by auto
  have kd: "tmap s2 sys kd d" using s2(4) s1(4) by blast
  obtain s3 ku where s3: "get_phy_from_dir s2 (IX_TO_VA 1022 kd) KSTACK_VA = Inr (s3, K)" "sys_window s3 sys rv" "outside sys s2 s3"
    "tmap s3 sys kd d" "free_slots s3 sys = insert ku (free_slots s2 sys)"
    using get_phy_kstack [OF s2(2) f2 kd h2] by (elim exE conjE) (rule that)
  have f3: "free_slots s3 sys \<noteq> {}" using s3(5) by simp
  have K: "K mod 4096 = 0" "K < 4294967296" using dir_table_page [OF d(3)] by simp_all
  obtain s4 k where s4: "create_temp_va s3 K = Inr (s4, IX_TO_VA 1022 k)" "k \<in> free_slots s3 sys" "sys_window s4 sys rv" "outside sys s3 s4"
    "tmap s4 sys k K" "\<forall>j p. tmap s3 sys j p \<longrightarrow> tmap s4 sys j p"
    using create_temp_va_ok [OF s3(2) f3 K] by (elim exE conjE) (rule that)
  have "kd \<noteq> k" using tmap_not_free [OF s3(4)] s4(2) by blast
  moreover have "tmap s4 sys kd d" using s4(6) s3(4) by blast
  moreover have "outside sys st s4" by (rule outside_trans [OF outside_trans [OF s1(3) s2(3)] outside_trans [OF s3(3) s4(4)]])
  ultimately show thesis by (intro that [OF s1(1) s2(1) s3(1) s4(1,3) _ _ s4(5)])
qed

section \<open>The kernel part of a directory\<close>









section \<open>Properties\<close>




text \<open>
  When the page of the kernel stack is mapped in the new directory already (entries 0 and 1023 of the table that entry 1021 of the
  directory names are set), as it is once \<open>load_task\<close> has copied entry 1021 of a directory with a kernel stack, and the reverse table of
  the new directory has a temporary mapping, \<open>alloc_kstack_and_task\<close> takes no frame: the control block is written into the stack frame
  \<open>K\<close> that is there. The array of tasks is that of \<open>new_task\<close>. The rest of memory, apart from the table of temporary mappings, is as
  before.
\<close>

lemma kstack_shared:
  assumes "sys_window st sys rv" "3 \<le> card (free_slots st sys)" "has_kstack st sys d T K" "plain_frame st sys rv K"
    and "length (task_arr s) = 32" "new_task s (of_nat d) (pmem st (K + 4068)) = Inr (s', t)"
  shows "\<exists>st' k. alloc_kstack_and_task st s d = Some (Inr (st', s', IX_TO_VA 1022 k)) \<and>
    translate st' (IX_TO_VA 1022 k) = Inr K \<and> task_at st' (K + 4068) = t \<and> frames st' = frames st \<and>
    (\<forall>a. \<not> (sys \<le> a \<and> a < sys + 4096) \<and> \<not> (K + 4068 \<le> a \<and> a < K + 4096) \<longrightarrow> pmem st' a = pmem st a)"
proof -
  obtain s1 s2 s3 s4 kd k where w: "create_temp_va st d = Inr (s1, IX_TO_VA 1022 kd)"
    "request_region_vmap s1 (IX_TO_VA 1022 kd) KSTACK_VA 4096 0xB = Some (Inr (s2, 1))"
    "get_phy_from_dir s2 (IX_TO_VA 1022 kd) KSTACK_VA = Inr (s3, K)" "create_temp_va s3 K = Inr (s4, IX_TO_VA 1022 k)"
    "sys_window s4 sys rv" "outside sys st s4" "tmap s4 sys kd d" "tmap s4 sys k K" "kd \<noteq> k"
    using alloc_kstack_window [OF assms(1-3)] by metis
  obtain c tid where t: "current_task s = Inr c" "get_next_tid s = Inr tid" "tid < 32"
    "t = \<lparr>t_esp = pmem st (K + 4068), t_phy_dir = of_nat d, t_esp0 = 0xFF7FFFE0, t_ptid = t_tid c, t_tid = of_nat tid, t_state = 1, t_ttl = 10\<rparr>"
    "s' = s\<lparr>task_arr := (task_arr s)[tid := t]\<rparr>"
    using new_task_split [OF assms(6,5)] by metis
  have K: "K mod 4096 = 0" "sys mod 4096 = 0" "K \<noteq> sys" "plain_frame s4 sys rv K" "kd < 1024"
    using assms(1,3,4) w(6,7) dir_table_page [of st T 1023 K] by (auto simp: has_kstack_def plain_frame_def outside_def sys_window_def tmap_def)
  obtain f1 f2 s5 where f:
    "sto_all [(KSTACK_TO_TASK (IX_TO_VA 1022 k) + 4, of_nat d), (KSTACK_TO_TASK (IX_TO_VA 1022 k) + 8, 0xFF7FFFE0)] s4 = Inr f1"
    "sto_all [(KSTACK_TO_TASK (IX_TO_VA 1022 k) + 12, t_tid c), (KSTACK_TO_TASK (IX_TO_VA 1022 k) + 20, 1),
       (KSTACK_TO_TASK (IX_TO_VA 1022 k) + 24, 10)] f1 = Inr f2"
    "sto f2 (KSTACK_TO_TASK (IX_TO_VA 1022 k) + 16) (of_nat tid) = Inr s5"
    "s5 = s4\<lparr>pmem := put_words K (new_words d (t_tid c) tid) (pmem s4)\<rparr>" "sys_window s5 sys rv" "\<And>j q. tmap s5 sys j q \<longleftrightarrow> tmap s4 sys j q"
    using fill_task_tmap [OF w(5,8) K(4)] by metis
  have at: "task_at s5 (K + 4068) = t"
    using outside_word [OF w(6) K(1-3), of 4068] unfolding f(4) task_at_words by (simp add: t(4))
  obtain s6 where s6: "delete_temp_va s5 (IX_TO_VA 1022 kd) = Inr s6" "sys_window s6 sys rv" "outside sys s5 s6" "tmap s6 sys k K"
    using delete_temp_va_ok [OF f(5) K(5)] w(8,9) f(6) by metis
  have ct: "current_tid f1 s = Inr (t_tid c)" using t(1) by (auto simp: current_tid_def current_task_def split: option.splits)
  have tid: "unat (t_tid t) = tid" using t(3) by (simp add: t(4) unat_of_nat)
  have "alloc_kstack_and_task st s d = Some (Inr (s6, s\<lparr>task_arr := (task_arr s)[tid := t]\<rparr>, IX_TO_VA 1022 k))"
    using w(1-4) f(1-3) ct t(2,3) s6(1) ld_task_tmap [OF f(5), of k K] f(6) w(8) at tid assms(5)
    by (simp add: alloc_kstack_and_task_def Let_def wr_def del: sto_all.simps)
  moreover have "translate s6 (IX_TO_VA 1022 k) = Inr K" using translate_tmap [OF s6(2,4), of 0] by simp
  moreover have "task_at s6 (K + 4068) = t" using task_at_outside [OF s6(3) K(1-3)] at by simp
  moreover have "frames s6 = frames st" using s6(3) w(6) f(4) by (simp add: outside_def)
  moreover have "pmem s6 a = pmem st a" if a: "\<not> (sys \<le> a \<and> a < sys + 4096)" "\<not> (K + 4068 \<le> a \<and> a < K + 4096)" for a
  proof -
    have "pmem s6 a = pmem s5 a" "pmem s4 a = pmem st a" using s6(3) w(6) a(1) unfolding outside_def by (meson not_le)+
    moreover have "pmem s5 a = pmem s4 a" using a(2) by (auto simp: f(4) new_words_def intro!: put_words_elsewhere simp del: put_words_simps)
    ultimately show ?thesis by simp
  qed
  ultimately show ?thesis using t(5) by (intro exI [of _ s6] exI [of _ k]) simp
qed

text \<open>A directory, its tables and a stack frame in memory, with one temporary mapping.\<close>

definition stack_mem :: paging where
  "stack_mem = \<lparr>pmem = (\<lambda>_. 0)(0x100FF8 := 0x10100B, 0x100FFC := 0x10200B, 0x102FF8 := 0x101001, 0x101000 := 0x10500B,
       0x103FF4 := 0x10400B, 0x103FF8 := 0x10700B, 0x103FFC := 0x10500B, 0x104FFC := 0x10600B, 0x104000 := 0x10800B, 0x106FE4 := 0xFF7FF000),
     cr3 = 0x100000, paging_on = True, frames = (\<lambda>_. 0)\<rparr>"

lemma entry_set_nums: "PAGE_ENTRY_SET 0x10100B" "PAGE_ENTRY_SET 0x10200B" "PAGE_ENTRY_SET 0x101001" "PAGE_ENTRY_SET 0x10500B"
  "PAGE_ENTRY_SET 0x10400B" "PAGE_ENTRY_SET 0x10700B" "PAGE_ENTRY_SET 0x10600B" "PAGE_ENTRY_SET 0x10800B"
  by (simp_all add: PAGE_ENTRY_SET_def)

lemma ent_addr_nums: "ent_addr 0x10100B = 0x101000" "ent_addr 0x10200B = 0x102000" "ent_addr 0x101001 = 0x101000"
  "ent_addr 0x10500B = 0x105000" "ent_addr 0x10400B = 0x104000" "ent_addr 0x10600B = 0x106000"
  by (simp_all add: ent_addr_def)

lemma stack_mem_window: "sys_window stack_mem 0x101000 0x102000"
proof -
  have "pmem stack_mem (0x100000 + 4 * di) = 0" if "di < 1022" for di using that by (simp add: stack_mem_def)
  moreover have "pmem stack_mem (0x100000 + 4 * 1022) = 0x10100B" "pmem stack_mem (0x100000 + 4 * 1023) = 0x10200B"
    "pmem stack_mem (0x102000 + 4 * 1022) = 0x101001" "paging_on stack_mem" "cr3 stack_mem = 0x100000" by (simp_all add: stack_mem_def)
  moreover have "di < 1022 \<or> di = 1023" if "di < 1024" "di \<noteq> (1022 :: nat)" for di using that by arith
  ultimately show ?thesis unfolding sys_window_def by (force simp: entry_set_nums ent_addr_nums)
qed

lemma stack_mem_kstack: "has_kstack stack_mem 0x101000 0x103000 0x104000 0x106000"
proof -
  have e: "pmem stack_mem (0x103000 + 4 * 1021) = 0x10400B" "pmem stack_mem (0x103000 + 4 * 1022) = 0x10700B"
    "pmem stack_mem (0x103000 + 4 * 1023) = 0x10500B" "pmem stack_mem (0x104000 + 4 * 1023) = 0x10600B"
    "pmem stack_mem (0x104000 + 4 * 0) = 0x10800B" "pmem stack_mem (0x101000 + 4 * 0) = 0x10500B"
    by (simp_all add: stack_mem_def)
  have "dir_table stack_mem 0x103000 1023 0x105000" "tmap stack_mem 0x101000 0 0x105000"
    unfolding dir_table_def tmap_def e by (simp_all add: entry_set_nums ent_addr_nums)
  then have "\<exists>R kr. dir_table stack_mem 0x103000 1023 R \<and> R \<noteq> 0 \<and> tmap stack_mem 0x101000 kr R"
    by (intro exI [of _ "0x105000"] exI [of _ "0"]) simp
  moreover have "dir_table stack_mem 0x103000 1021 0x104000" "dir_table stack_mem 0x104000 1023 0x106000"
    unfolding dir_table_def e by (simp_all add: entry_set_nums ent_addr_nums)
  ultimately show ?thesis unfolding has_kstack_def e by (simp add: entry_set_nums)
qed

lemma stack_mem_slots: "3 \<le> card (free_slots stack_mem 0x101000)"
proof -
  have "{1, 2, 3} \<subseteq> free_slots stack_mem 0x101000" by (simp add: free_slots_def stack_mem_def)
  from card_mono [OF _ this] show ?thesis by simp
qed

text \<open>The hypotheses hold in that memory.\<close>

lemma kstack_shared_example:
  "\<exists>st' s' va. alloc_kstack_and_task stack_mem boot_sched 0x103000 = Some (Inr (st', s', va)) \<and> translate st' va = Inr 0x106000 \<and>
     task_arr s' ! 1 = task_at st' 0x106FE4 \<and> t_phy_dir (task_at st' 0x106FE4) = 0x103000 \<and> t_esp (task_at st' 0x106FE4) = 0xFF7FF000"
proof -
  have len: "length (task_arr boot_sched) = 32" by (simp add: boot_sched_def)
  have esp: "pmem stack_mem (0x106000 + 4068) = 0xFF7FF000" by (simp add: stack_mem_def)
  have nt: "\<exists>s' t. new_task boot_sched (of_nat 0x103000) (pmem stack_mem (0x106000 + 4068)) = Inr (s', t) \<and>
      task_arr s' ! 1 = t \<and> t_phy_dir t = 0x103000 \<and> t_esp t = 0xFF7FF000"
    unfolding esp
    by (simp add: new_task_def boot_sched_def current_task_def get_next_tid_def zero_task_def rd_def wr_def Let_def upt_rec)
  then obtain s' t where t: "new_task boot_sched (of_nat 0x103000) (pmem stack_mem (0x106000 + 4068)) = Inr (s', t)"
    "task_arr s' ! 1 = t" "t_phy_dir t = 0x103000" "t_esp t = 0xFF7FF000" by blast
  have p: "plain_frame stack_mem 0x101000 0x102000 0x106000" by (simp add: plain_frame_def stack_mem_def)
  obtain st' k where k: "alloc_kstack_and_task stack_mem boot_sched 0x103000 = Some (Inr (st', s', IX_TO_VA 1022 k))"
    "translate st' (IX_TO_VA 1022 k) = Inr 0x106000" "task_at st' (0x106000 + 4068) = t"
    using kstack_shared [OF stack_mem_window stack_mem_slots stack_mem_kstack p len t(1)] by (elim exE conjE) (rule that)
  have "task_at st' 0x106FE4 = t" using k(3) by simp
  with k(1,2) t(2-4) show ?thesis by (intro exI [of _ st'] exI [of _ s'] exI [of _ "IX_TO_VA 1022 k"]) simp
qed

section \<open>The trap frame\<close>

lemma sto_all_append: "sto_all (xs @ ys) st = bind_res (sto_all xs st) (sto_all ys)"
  by (induction xs arbitrary: st) (simp_all add: bind_res_assoc bind_res_def split: sum.splits)

lemma memzero_sto_all: "memzero_loop p is st = sto_all (map (\<lambda>i. (p + 4 * i, 0)) is) st"
  by (induction "is" arbitrary: st) (simp_all add: bind_res_def split: sum.splits)

lemma tf_size: "SIZEOF_TF = 76"
  by (simp add: SIZEOF_TF_def TrapFrame_def ContextRegister_def)

lemma tf_fields:
  "tf_field tf ''cs'' = tf + 60" "tf_field tf ''context_reg.eip'' = tf + 36" "tf_field tf ''ss'' = tf + 72" "tf_field tf ''fs'' = tf + 48"
  "tf_field tf ''gs'' = tf + 52" "tf_field tf ''es'' = tf + 44" "tf_field tf ''ds'' = tf + 40" "tf_field tf ''iret_eip'' = tf + 56"
  "tf_field tf ''iret_esp'' = tf + 68" "tf_field tf ''eflags'' = tf + 64"
  by (simp_all add: tf_field_def TrapFrame_def ContextRegister_def)

definition tf_words :: "u32 \<Rightarrow> (nat \<times> u32) list" where
  "tf_words r = map (\<lambda>i. (3992 + 4 * i, 0)) [0..<19] @
     [(4052, 0x1B), (4028, r), (4064, 0x23), (4040, 0x23), (4044, 0x23), (4036, 0x23), (4032, 0x23), (4048, 0), (4060, 0xBFFFFFFC), (4056, 512)]"

lemma tf_lookup: "map (\<lambda>i. the (map_of (rev (tf_words r)) (3992 + 4 * i))) [0..<19] =
    [0, 0, 0, 0, 0, 0, 0, 0, 0, r, 0x23, 0x23, 0x23, 0x23, 0, 0x1B, 512, 0xBFFFFFFC, 0x23]"
  by (simp add: tf_words_def upt_rec)

lemma fill_trap_frame_words:
  "fill_trap_frame (KSTACK_TO_TASK (IX_TO_VA 1022 k) - SIZEOF_TF) r st = sto_all (map (\<lambda>(off, v). (IX_TO_VA 1022 k + off, v)) (tf_words r)) st"
  by (simp add: fill_trap_frame_def memzero_def memzero_sto_all tf_words_def sto_all_append KSTACK_TO_TASK_def tf_size tf_fields comp_def ac_simps
      del: upt.simps sto_all.simps)

text \<open>
  C28. The trap frame of a new task. Below the control block in the stack page \<open>fill_trap_frame\<close> leaves the nineteen words from which the task
  starts: zero registers, \<open>__ret_syscall\<close> as the address to switch to, the user data segment, the entry point 0 in the user code
  segment with interrupts enabled, and the top of the user stack. Nothing else in memory changes.
\<close>

theorem trap_frame_ready:
  assumes "sys_window st sys rv" "tmap st sys k K" "plain_frame st sys rv K"
  shows "\<exists>st'. fill_trap_frame (KSTACK_TO_TASK (IX_TO_VA 1022 k) - SIZEOF_TF) r st = Inr st' \<and>
    map (\<lambda>i. pmem st' (K + 3992 + 4 * i)) [0..<19] =
      [0, 0, 0, 0, 0, 0, 0, 0, 0, r, 0x23, 0x23, 0x23, 0x23, 0, 0x1B, 512, 0xBFFFFFFC, 0x23] \<and>
    (\<forall>a. \<not> (K + 3992 \<le> a \<and> a < K + 4068) \<longrightarrow> pmem st' a = pmem st a)"
proof -
  let ?st = "st\<lparr>pmem := put_words K (tf_words r) (pmem st)\<rparr>"
  have o: "\<forall>(off, v) \<in> set (tf_words r). 3992 \<le> off \<and> off < 4068" by (auto simp: tf_words_def)
  then have "\<forall>(off, v) \<in> set (tf_words r). off < 4096" by fastforce
  then have f1: "fill_trap_frame (KSTACK_TO_TASK (IX_TO_VA 1022 k) - SIZEOF_TF) r st = Inr ?st"
    using sto_all_tmap(1) [OF assms] unfolding fill_trap_frame_words by blast
  have "pmem ?st (K + 3992 + 4 * i) = the (map_of (rev (tf_words r)) (3992 + 4 * i))" if "i < 19" for i
  proof -
    have "(3992 + 4 * i, 0) \<in> set (tf_words r)" using that by (auto simp: tf_words_def)
    then have "map_of (rev (tf_words r)) (3992 + 4 * i) \<noteq> None" unfolding map_of_eq_None_iff by force
    then show ?thesis using put_words_at [of K "tf_words r" "pmem st" "3992 + 4 * i"] by (auto simp: ac_simps)
  qed
  then have "map (\<lambda>i. pmem ?st (K + 3992 + 4 * i)) [0..<19] = map (\<lambda>i. the (map_of (rev (tf_words r)) (3992 + 4 * i))) [0..<19]"
    by (intro map_cong refl) simp
  then have f2: "map (\<lambda>i. pmem ?st (K + 3992 + 4 * i)) [0..<19] =
      [0, 0, 0, 0, 0, 0, 0, 0, 0, r, 0x23, 0x23, 0x23, 0x23, 0, 0x1B, 512, 0xBFFFFFFC, 0x23]"
    unfolding tf_lookup .
  have f3: "pmem ?st a = pmem st a" if "\<not> (K + 3992 \<le> a \<and> a < K + 4068)" for a
    using that o by (auto intro!: put_words_elsewhere)
  show ?thesis by (intro exI [of _ ?st] conjI f1 f2 allI impI f3)
qed

theorem trap_frame_ready_witness:
  "\<exists>st'. fill_trap_frame (KSTACK_TO_TASK (IX_TO_VA 1022 0) - SIZEOF_TF) 0xC0002000 stack_mem = Inr st' \<and> pmem st' 0x105FBC = 0xC0002000 \<and>
     pmem st' 0x105FD4 = 0x1B \<and> pmem st' 0x105FDC = 0xBFFFFFFC \<and> pmem st' 0x100FF8 = 0x10100B"
proof -
  have "tmap stack_mem 0x101000 0 0x105000" "plain_frame stack_mem 0x101000 0x102000 0x105000"
    by (simp_all add: tmap_def plain_frame_def stack_mem_def entry_set_nums ent_addr_nums)
  from trap_frame_ready [OF stack_mem_window this, of "0xC0002000"]
  obtain st' where st': "fill_trap_frame (KSTACK_TO_TASK (IX_TO_VA 1022 0) - SIZEOF_TF) 0xC0002000 stack_mem = Inr st'"
    and m: "map (\<lambda>i. pmem st' (0x105000 + 3992 + 4 * i)) [0..<19] =
      [0, 0, 0, 0, 0, 0, 0, 0, 0, 0xC0002000, 0x23, 0x23, 0x23, 0x23, 0, 0x1B, 512, 0xBFFFFFFC, 0x23]"
    and e: "\<forall>a. \<not> (0x105000 + 3992 \<le> a \<and> a < 0x105000 + 4068) \<longrightarrow> pmem st' a = pmem stack_mem a" by (elim exE conjE) (rule that)
  have "pmem st' 0x100FF8 = 0x10100B" using e [rule_format, of "0x100FF8"] by (simp add: stack_mem_def)
  moreover have "pmem st' 0x105FBC = 0xC0002000" using arg_cong [OF m, of "\<lambda>l. l ! 9"] by (simp del: upt.simps)
  moreover have "pmem st' 0x105FD4 = 0x1B" using arg_cong [OF m, of "\<lambda>l. l ! 15"] by (simp del: upt.simps)
  moreover have "pmem st' 0x105FDC = 0xBFFFFFFC" using arg_cong [OF m, of "\<lambda>l. l ! 17"] by (simp del: upt.simps)
  ultimately show ?thesis using st' by blast
qed

end
