(* ===== verification/Ts_Keyboard_Props.thy ===== *)
theory Ts_Keyboard_Props
  imports Ts_Keyboard Ts_Print_Props Ts_Task_Props
begin

text \<open>
  The keyboard, the shell and the console together. \<open>kb_inv\<close> says which incomplete sequences the
  history may hold. Each key keeps the console reachable, so what is proved of reachable consoles
  holds while the user types.
\<close>

section \<open>Keys on a reachable console\<close>

text \<open>The console has room for further output.\<close>

abbreviation (input) roomy :: "char list \<Rightarrow> bool" where
  "roomy log \<equiv> length log < 4294966000"

lemma printf_reach:
  assumes "con_reach c log" "roomy log" "NUL \<notin> set s" "CHR ''%'' \<notin> set s" "length s < 100"
  shows "\<exists>c'. printf c (Some (s @ [NUL])) [] = Some (Inr c') \<and> con_reach c' (log @ s)"
  using con_reach_put_text [OF assms(1), of s] assms(2-5) by (simp add: printf_plain)

text \<open>The effect of a key on the output text.\<close>

definition key_output :: "console \<Rightarrow> KEY_CODE \<Rightarrow> char list" where
  "key_output c k =
     (if k = KEY_ENTER then input_text c @ [NL]
      else if k = KEY_PRINTSCR then ''printscr detected'' @ [NL]
      else if k = KEY_PRINTSCR_RELEASE then ''printscr_re detected'' @ [NL]
      else if k = KEY_PAUSE then ''pause detected'' @ [NL] else [])"

lemma input_step_reach:
  assumes r: "con_reach c log"
  shows "\<exists>c'. get_input_char c ch = Inr c' \<and> con_reach c' log"
    and "\<exists>c'. modify_input_cnt c (- 1) = Inr c' \<and> con_reach c' log"
    and "\<exists>c'. window_move_up c = Inr c' \<and> con_reach c' log"
    and "\<exists>c'. window_move_down c = Inr c' \<and> con_reach c' log"
proof -
  note i = con_reach_inv [OF r]
  show "\<exists>c'. get_input_char c ch = Inr c' \<and> con_reach c' log"
    using get_input_char_spec [of c log ch] i con_reach.key [OF r] by blast
  show "\<exists>c'. modify_input_cnt c (- 1) = Inr c' \<and> con_reach c' log"
    using backspace_spec [of c log] i con_reach.backspace [OF r] by blast
  have len: "length log < 4294967296" using i by simp
  show "\<exists>c'. window_move_up c = Inr c' \<and> con_reach c' log"
    using window_move_up_spec [OF _ len, of c] i con_reach.up [OF r] by blast
  show "\<exists>c'. window_move_down c = Inr c' \<and> con_reach c' log"
    using window_move_down_spec [of c log] i con_reach.down [OF r] by blast
qed

lemma enter_reach:
  assumes "con_reach c log" "roomy log" "input_text c \<noteq> []"
  shows "\<exists>c'. flush_input_buffer c = Some (Inr c') \<and> con_reach c' (log @ input_text c @ [NL])"
  using flush_input_buffer_spec [of c log] con_reach_inv [OF assms(1)] con_reach.enter [OF assms(1) _ assms(3)]
    assms(2,3) by auto

lemma shell_key_reach:
  assumes r: "con_reach c log" "roomy log" and e: "k = KEY_ENTER \<Longrightarrow> input_text c \<noteq> []"
  shows "\<exists>c'. shell_get_key_code c k = Some (Inr c') \<and> con_reach c' (log @ key_output c k)"
proof -
  note p = printf_reach [OF r, of "''printscr detected'' @ [NL]"] printf_reach [OF r, of "''printscr_re detected'' @ [NL]"]
    printf_reach [OF r, of "''pause detected'' @ [NL]"]
  note s = input_step_reach [OF r(1)]
  consider "k = KEY_EMPTY" | "k = KEY_UP_RELEASE" | "k = KEY_DOWN_RELEASE" | "KEY_A \<le> k \<and> k \<le> KEY_Z"
    | "KEY_ZERO \<le> k \<and> k \<le> KEY_NINE \<or> k \<in> set input_keys" | "k = KEY_ENTER" | "k = KEY_BACKSPACE"
    | "k \<in> {KEY_PRINTSCR, KEY_PRINTSCR_RELEASE, KEY_PAUSE}"
    | "k \<notin> {KEY_EMPTY, KEY_UP_RELEASE, KEY_DOWN_RELEASE, KEY_ENTER, KEY_BACKSPACE, KEY_PRINTSCR, KEY_PRINTSCR_RELEASE,
        KEY_PAUSE} \<and> \<not> (KEY_A \<le> k \<and> k \<le> KEY_Z) \<and> \<not> (KEY_ZERO \<le> k \<and> k \<le> KEY_NINE \<or> k \<in> set input_keys)"
    by blast
  then show ?thesis
  proof cases
    case 1
    then show ?thesis using r by (simp add: shell_get_key_code_def key_output_def)
  next
    case 2
    then show ?thesis using s(3) by (auto simp: shell_get_key_code_def key_output_def)
  next
    case 3
    then show ?thesis using s(4) by (auto simp: shell_get_key_code_def key_output_def)
  next
    case 4
    then show ?thesis using s(1) by (auto simp: shell_get_key_code_def key_output_def case_mode_def)
  next
    case 5
    then show ?thesis using s(1) by (auto simp: shell_get_key_code_def key_output_def input_keys_def)
  next
    case 6
    then show ?thesis using enter_reach [OF r] e by (auto simp: shell_get_key_code_def key_output_def input_keys_def)
  next
    case 7
    then show ?thesis using s(2) by (auto simp: shell_get_key_code_def key_output_def input_keys_def)
  next
    case 8
    then show ?thesis using p by (auto simp: shell_get_key_code_def key_output_def input_keys_def)
  next
    case 9
    then show ?thesis using r(1) by (auto simp: shell_get_key_code_def key_output_def)
  qed
qed

section \<open>The state machine\<close>

definition kb_inv :: "kb \<Rightarrow> bool" where
  "kb_inv k \<longleftrightarrow> length (scancode_history k) = 6 \<and> scancode_depth k \<le> 5 \<and>
     (1 \<le> scancode_depth k \<longrightarrow> scancode_history k ! 0 \<in> {0xE0, 0xE1}) \<and>
     (2 \<le> scancode_depth k \<longrightarrow> scancode_history k ! 0 = 0xE0 \<longrightarrow> scancode_history k ! 1 \<in> {0x2A, 0xB7}) \<and>
     (4 \<le> scancode_depth k \<longrightarrow> scancode_history k ! 0 = 0xE1)"

definition put_history :: "kb \<Rightarrow> u8 \<Rightarrow> kb" where
  "put_history k code = k\<lparr>scancode_history := (scancode_history k)[scancode_depth k := code],
     scancode_depth := scancode_depth k + 1\<rparr>"

lemma length_keycode_tbl [simp]: "length keycode_tbl = 86"
  by (simp add: keycode_tbl_def)

lemma unat_86: "unat code = 86 \<longleftrightarrow> code = (86 :: u8)"
proof
  assume "unat code = 86"
  then have "unat code = unat (86 :: u8)" by simp
  then show "code = 86" by (rule unsigned_word_eqI)
qed simp

lemma kb_decode_depth0:
  assumes "scancode_depth k = 0" "code \<noteq> 86"
  shows "kb_decode k code = Inr (if code = 0xE0 \<or> code = 0xE1 then Put_history
    else Deliver (if unat code < 86 then keycode_tbl ! unat code else KEY_EMPTY))"
proof -
  have "unat code \<noteq> 86" using assms(2) unat_86 by blast
  then show ?thesis using assms(1) by (auto simp: kb_decode_def kb_depth0_def rd_in)
qed

lemma put_history_simps [simp]:
  "scancode_depth (put_history k code) = scancode_depth k + 1"
  "scancode_history (put_history k code) = (scancode_history k)[scancode_depth k := code]"
  by (simp_all add: put_history_def)

lemma kb_decode_total:
  assumes inv: "kb_inv k" and ok: "scancode_depth k = 0 \<longrightarrow> code \<noteq> 86"
  obtains (deliver) key where "kb_decode k code = Inr (Deliver key)"
    "scancode_depth k = 0 \<longrightarrow> key = (if unat code < 86 then keycode_tbl ! unat code else KEY_EMPTY)"
    "scancode_depth k \<noteq> 0 \<longrightarrow> key \<noteq> KEY_ENTER"
  | (put) "kb_decode k code = Inr Put_history" "scancode_depth k < 5" "kb_inv (put_history k code)"
proof -
  have len: "length (scancode_history k) = 6" using inv by (simp add: kb_inv_def)
  consider "scancode_depth k = 0" | "scancode_depth k = 1" | "scancode_depth k = 2" | "scancode_depth k = 3"
    | "scancode_depth k = 4" | "scancode_depth k = 5"
    using inv by (fastforce simp: kb_inv_def)
  then show ?thesis
  proof cases
    case 1
    then show ?thesis
      using deliver put kb_decode_depth0 [of k code] ok len
      by (cases "code = 0xE0 \<or> code = 0xE1") (auto simp: kb_inv_def)
  next
    case 2
    have dec: "kb_decode k code = Inr (if scancode_history k ! 0 = 0xE1 \<or> code = 0x2A \<or> code = 0xB7 then Put_history
        else Deliver (if code = 0xC8 then KEY_UP_RELEASE else if code = 0xD0 then KEY_DOWN_RELEASE else KEY_EMPTY))"
      using 2 len by (simp add: kb_decode_def kb_depth1_def rd_in)
    show ?thesis
    proof (cases "scancode_history k ! 0 = 0xE1 \<or> code = 0x2A \<or> code = 0xB7")
      case True
      then show ?thesis using put dec 2 inv by (auto simp: kb_inv_def)
    next
      case False
      then show ?thesis
        using deliver [of "if code = 0xC8 then KEY_UP_RELEASE else if code = 0xD0 then KEY_DOWN_RELEASE else KEY_EMPTY"]
          dec 2 by simp
    qed
  next
    case 3
    then show ?thesis using put inv by (auto simp: kb_inv_def kb_decode_def)
  next
    case 4
    then show ?thesis using deliver put inv by (auto simp: kb_inv_def kb_decode_def kb_depth3_def rd_in)
  next
    case 5
    then show ?thesis using put inv by (auto simp: kb_inv_def kb_decode_def)
  next
    case 6
    then show ?thesis using deliver by (auto simp: kb_decode_def)
  qed
qed

text \<open>The key that ends an input line: the scan code of Enter.\<close>

lemma keycode_tbl_enter: "i < 86 \<Longrightarrow> keycode_tbl ! i = KEY_ENTER \<longleftrightarrow> i = 28"
proof -
  have "\<forall>i \<in> {..<86}. keycode_tbl ! i = KEY_ENTER \<longleftrightarrow> i = 28"
    by (simp add: keycode_tbl_def lessThan_Suc numeral_eq_Suc lessThan_0)
  then show "i < 86 \<Longrightarrow> ?thesis" by simp
qed

definition kb_bad :: "kb \<Rightarrow> console \<Rightarrow> u8 \<Rightarrow> bool" where
  "kb_bad k c code \<longleftrightarrow> scancode_depth k = 0 \<and> (code = 86 \<or> code = 28 \<and> input_text c = [])"

lemma kb_scan_reach:
  assumes inv: "kb_inv k" and r: "con_reach c log" "roomy log" and ok: "\<not> kb_bad k c code"
  shows "\<exists>k' c' log'. kb_scan k c code = Some (Inr (k', c')) \<and> kb_inv k' \<and> con_reach c' (log @ log') \<and>
    (scancode_depth k' = 0 \<or> scancode_depth k' = scancode_depth k + 1)"
proof -
  have len: "length (scancode_history k) = 6" using inv by (simp add: kb_inv_def)
  have n86: "scancode_depth k = 0 \<longrightarrow> code \<noteq> 86" using ok by (auto simp: kb_bad_def)
  show ?thesis
  proof (rule kb_decode_total [OF inv n86])
    fix key
    assume d: "kb_decode k code = Inr (Deliver key)"
      "scancode_depth k = 0 \<longrightarrow> key = (if unat code < 86 then keycode_tbl ! unat code else KEY_EMPTY)"
      "scancode_depth k \<noteq> 0 \<longrightarrow> key \<noteq> KEY_ENTER"
    have "input_text c \<noteq> []" if "key = KEY_ENTER"
    proof -
      have d0: "scancode_depth k = 0" using d(3) that by blast
      then have "unat code = 28" using d(2) that keycode_tbl_enter [of "unat code"] by (simp split: if_splits)
      then have "unat code = unat (28 :: u8)" by simp
      then have "code = 28" by (rule unsigned_word_eqI)
      then show ?thesis using ok d0 by (simp add: kb_bad_def)
    qed
    then obtain c' where "shell_get_key_code c key = Some (Inr c')" "con_reach c' (log @ key_output c key)"
      using shell_key_reach [OF r, of key] by blast
    moreover have "kb_inv (k\<lparr>scancode_depth := 0\<rparr>)" using len by (simp add: kb_inv_def)
    ultimately show ?thesis using d(1) by (auto simp: kb_scan_def)
  next
    assume "kb_decode k code = Inr Put_history" "scancode_depth k < 5" "kb_inv (put_history k code)"
    then show ?thesis
      using len r by (auto simp: kb_scan_def wr_in put_history_def intro: exI [of _ "[]"])
  qed
qed

lemma kb_scan_bad:
  assumes r: "con_reach c log" "roomy log" and bad: "kb_bad k c code"
  shows "kb_scan k c code = Some (Inl OutOfBounds)"
proof (cases "code = 86")
  case True
  then show ?thesis using bad by (simp add: kb_scan_def kb_decode_def kb_depth0_def kb_bad_def rd_out)
next
  case False
  then have b: "scancode_depth k = 0" "code = 28" "input_text c = []" using bad by (auto simp: kb_bad_def)
  have i: "con_inv c log" using con_reach_inv [OF r(1)] by simp
  then have "input_cnt c = 0" using b(3) length_input_text [of c] con_invD(1) [of c log] by simp
  then have "flush_input_buffer c = Some (Inl OutOfBounds)" using flush_empty [OF i] r(2) by simp
  moreover have "keycode_tbl ! 28 = KEY_ENTER" using keycode_tbl_enter [of 28] by simp
  then have "kb_decode k code = Inr (Deliver KEY_ENTER)" using kb_decode_depth0 [of k code] b by simp
  ultimately show ?thesis by (simp add: kb_scan_def shell_get_key_code_def input_keys_def)
qed

section \<open>Typing\<close>

primrec kb_scans :: "kb \<Rightarrow> console \<Rightarrow> u8 list \<Rightarrow> (kb \<times> console) res option" where
  "kb_scans k c [] = Some (Inr (k, c))"
| "kb_scans k c (x # xs) = bind_ro (kb_scan k c x) (\<lambda>(k, c). kb_scans k c xs)"

text \<open>The keys of the table that stand for a character of the input line.\<close>

definition char_key :: "u8 \<Rightarrow> bool" where
  "char_key code \<longleftrightarrow> unat code < 86 \<and> (let k = keycode_tbl ! unat code in
     KEY_A \<le> k \<and> k \<le> KEY_Z \<or> KEY_ZERO \<le> k \<and> k \<le> KEY_NINE \<or> k \<in> set input_keys)"

definition key_char :: "u8 \<Rightarrow> char" where
  "key_char code = char_of (keycode_tbl ! unat code)"

lemma char_key_le: "char_key code \<Longrightarrow> keycode_tbl ! unat code < 256"
  by (auto simp: char_key_def Let_def input_keys_def)

lemma press_key:
  assumes "char_key code" "scancode_depth k = 0" "con_reach c log" "roomy log"
  obtains c' where "kb_scan k c code = Some (Inr (k, c'))" "con_reach c' log"
    "input_text c' = take 40 (input_text c @ [key_char code])"
proof -
  let ?key = "keycode_tbl ! unat code"
  have u: "unat code < 86" using assms(1) by (simp add: char_key_def)
  then have "code \<noteq> 86" "code \<noteq> 0xE0" "code \<noteq> 0xE1" by auto
  then have dec: "kb_decode k code = Inr (Deliver ?key)" using kb_decode_depth0 [OF assms(2), of code] u by simp
  have ch: "chr_int (int ?key) = key_char code" using char_key_le [OF assms(1)] by (simp add: chr_int_def key_char_def)
  have sh: "shell_get_key_code c ?key = Some (get_input_char c (key_char code))"
    using assms(1) ch by (auto simp: shell_get_key_code_def char_key_def Let_def case_mode_def input_keys_def)
  note i = con_reach_inv [OF assms(3)]
  obtain c' where c': "get_input_char c (key_char code) = Inr c'" "con_inv c' log" "input_shown c'"
    "input_text c' = (if length (input_text c) < 40 then input_text c @ [key_char code] else input_text c)"
    using get_input_char_spec [of c log "key_char code"] i by blast
  have l40: "length (input_text c) \<le> 40" using i length_input_text con_geomD(10) con_invD(1) by metis
  have "kb_scan k c code = Some (Inr (k\<lparr>scancode_depth := 0\<rparr>, c'))" using dec sh c'(1) by (simp add: kb_scan_def)
  moreover have "k\<lparr>scancode_depth := 0\<rparr> = k" using assms(2) by simp
  moreover have "input_text c' = take 40 (input_text c @ [key_char code])" using c'(4) l40 by simp
  ultimately show ?thesis using that con_reach.key [OF assms(3) c'(1)] by simp
qed

lemma release_key:
  assumes "unat code < 86" "scancode_depth k = 0"
  shows "kb_scan k c (code + 0x80) = Some (Inr (k, c))"
proof -
  have u: "unat (code + 0x80) = unat code + 128" using assms(1) by (simp add: unat_word_ariths)
  have ne: "code + 0x80 \<noteq> w" if "unat w = 224 \<or> unat w = 225 \<or> unat w = 86" for w
    using u assms(1) that by auto
  have "code + 0x80 \<noteq> 86" "code + 0x80 \<noteq> 0xE0" "code + 0x80 \<noteq> 0xE1" by (rule ne, simp)+
  then have "kb_decode k (code + 0x80) = Inr (Deliver KEY_EMPTY)"
    unfolding kb_decode_depth0 [OF assms(2) \<open>code + 0x80 \<noteq> 86\<close>] u using assms(1) by simp
  moreover have "k\<lparr>scancode_depth := 0\<rparr> = k" using assms(2) by simp
  ultimately show ?thesis by (simp add: kb_scan_def shell_get_key_code_def)
qed

lemma typing:
  "\<forall>x \<in> set codes. char_key x \<Longrightarrow> scancode_depth k = 0 \<Longrightarrow> con_reach c log \<Longrightarrow> roomy log \<Longrightarrow>
     \<exists>c'. kb_scans k c (concat (map (\<lambda>x. [x, x + 0x80]) codes)) = Some (Inr (k, c')) \<and> con_reach c' log \<and>
       input_text c' = take 40 (input_text c @ map key_char codes)"
proof (induction codes arbitrary: c)
  case Nil
  have "length (input_text c) \<le> 40"
    using con_reach_inv [OF Nil.prems(3)] length_input_text con_geomD(10) con_invD(1) by metis
  then show ?case using Nil by simp
next
  case (Cons x xs)
  have cx: "char_key x" using Cons.prems(1) by simp
  obtain c1 where c1: "kb_scan k c x = Some (Inr (k, c1))" "con_reach c1 log"
    "input_text c1 = take 40 (input_text c @ [key_char x])"
    using press_key [OF cx Cons.prems(2-4)] by blast
  have "kb_scan k c1 (x + 0x80) = Some (Inr (k, c1))"
    using release_key [OF _ Cons.prems(2)] cx by (simp add: char_key_def)
  moreover obtain c' where c': "kb_scans k c1 (concat (map (\<lambda>x. [x, x + 0x80]) xs)) = Some (Inr (k, c'))" "con_reach c' log"
    "input_text c' = take 40 (input_text c1 @ map key_char xs)"
    using Cons.IH [OF _ Cons.prems(2) c1(2) Cons.prems(4)] Cons.prems(1) by auto
  moreover have "input_text c' = take 40 (input_text c @ map key_char (x # xs))"
    using c'(3) c1(3) by (cases "length (input_text c) < 40") simp_all
  ultimately show ?case using c1(1) by simp
qed

section \<open>Commands\<close>

lemma is_command_spec:
  assumes "NUL \<notin> set v" "cstr s 0 w"
  shows "is_command v s = Inr (v = w)"
proof -
  have "cstr (v @ [NUL]) 0 v" using cstr_append_NUL [OF assms(1), of "[]" "[]"] by simp
  then show ?thesis using string_equal_loop_spec [OF _ assms(2)] by (simp add: is_command_def string_equal_def)
qed

lemma printl_reach:
  assumes "con_reach c log" "roomy log" "NUL \<notin> set t" "length t < 100"
  shows "\<exists>c'. printl c (t @ [NUL]) = Some (Inr c') \<and> con_reach c' (log @ t @ [NL])"
proof -
  have "cstr (t @ [NUL]) 0 t" using cstr_append_NUL [OF assms(3), of "[]" "[]"] by simp
  then show ?thesis using con_reach_put_text [OF assms(1), of "t @ [NL]"] assms(2,4) by (simp add: printl_text)
qed

lemma token_whole: "d \<notin> set w \<Longrightarrow> token d w = w"
proof -
  assume d: "d \<notin> set w"
  then have "dropWhile ((=) d) w = w" by (cases w) auto
  then show ?thesis using d by (auto simp: token_def takeWhile_eq_all_conv)
qed

lemma command_word:
  assumes s: "cstr s 0 w" "CHR '' '' \<notin> set w" and b: "length w < length buffer"
  shows "strtok s 0 ('' '' @ [NUL]) buffer = Inr (put_str buffer 0 (w @ [NUL]), None)"
proof -
  have d: "cstr ('' '' @ [NUL]) 0 [CHR '' '']" by (simp add: cstr_def)
  have t: "token (CHR '' '') w = w" by (rule token_whole [OF s(2)])
  have "dropWhile ((=) (CHR '' '')) w = w" using s(2) by (cases w) auto
  moreover have "dropWhile ((\<noteq>) (CHR '' '')) w = []" using s(2) by (auto simp: dropWhile_eq_Nil_conv)
  ultimately have "rest (CHR '' '') w = []" by (simp only: rest_def dropWhile.simps)
  then show ?thesis using strtok_spec [OF d s(1), of buffer] b t by (auto split: option.splits)
qed

section \<open>Properties\<close>

text \<open>
  C22. A keyboard interrupt, once the controller shows a byte, either keeps the incomplete sequence of scan
  codes well-formed and the console reachable, changing neither tasks nor memory, and a sequence is
  complete after at most six codes; or the scan code is one of the two for which the code reads outside
  an array: 86, one past the end of the table of key codes, and Enter on an empty line.
\<close>

theorem keyboard_safe:
  assumes "kb_inv k" "con_reach (con m) log" "length log < 4294966000" "shows_bit 0x64 1 (pio m) n"
  shows "\<exists>p. poll 0x64 1 (pio m) = Some p \<and>
    (let code = fst (inb p 0x60) in
     if scancode_depth k = 0 \<and> (code = 86 \<or> code = 28 \<and> input_text (con m) = [])
     then kb_handler k m = Some (Inl OutOfBounds)
     else \<exists>k' m' log'. kb_handler k m = Some (Inr (k', m')) \<and> kb_inv k' \<and> con_reach (con m') (log @ log') \<and>
       sched m' = sched m \<and> mem m' = mem m \<and> scancode_depth k' \<le> 5 \<and>
       (scancode_depth k' = 0 \<or> scancode_depth k' = scancode_depth k + 1))"
proof -
  obtain p where p: "poll 0x64 1 (pio m) = Some p" using poll_returns [OF assms(4)] by blast
  let ?code = "fst (inb p 0x60)"
  have h: "kb_handler k m = bind_ro (kb_scan k (con m) ?code) (\<lambda>(k, c). Some (Inr (k, m\<lparr>con := c, pio := snd (inb p 0x60)\<rparr>)))"
    using p by (simp add: kb_handler_def split_beta)
  show ?thesis
  proof (cases "kb_bad k (con m) ?code")
    case True
    then have "kb_handler k m = Some (Inl OutOfBounds)" using h kb_scan_bad [OF assms(2,3) True] by simp
    then show ?thesis using p True by (simp add: kb_bad_def Let_def)
  next
    case False
    obtain k' c' log' where k': "kb_scan k (con m) ?code = Some (Inr (k', c'))" "kb_inv k'" "con_reach c' (log @ log')"
      "scancode_depth k' = 0 \<or> scancode_depth k' = scancode_depth k + 1"
      using kb_scan_reach [OF assms(1-3) False] by blast
    let ?m' = "m\<lparr>con := c', pio := snd (inb p 0x60)\<rparr>"
    have "kb_handler k m = Some (Inr (k', ?m'))" using h k'(1) by simp
    moreover have "scancode_depth k' \<le> 5" using k'(2) by (simp add: kb_inv_def)
    ultimately have ex: "\<exists>k' m' log'. kb_handler k m = Some (Inr (k', m')) \<and> kb_inv k' \<and> con_reach (con m') (log @ log') \<and>
       sched m' = sched m \<and> mem m' = mem m \<and> scancode_depth k' \<le> 5 \<and>
       (scancode_depth k' = 0 \<or> scancode_depth k' = scancode_depth k + 1)"
      using k'(2-4) by (intro exI [of _ k'] exI [of _ ?m'] exI [of _ log']) simp
    show ?thesis
      by (intro exI [of _ p]) (simp only: p Let_def False [unfolded kb_bad_def] if_False simp_thms ex)
  qed
qed

definition idle_kb :: kb where
  "idle_kb = \<lparr>scancode_history = replicate 6 0, scancode_depth = 0\<rparr>"

definition some_machine :: "console \<Rightarrow> machine" where
  "some_machine c = \<lparr>con = c, pio = \<lparr>dev = (\<lambda>_ port. if port = 0x64 then 1 else 0x1E), trace = []\<rparr>,
     mem = (\<lambda>_. NUL), sched = boot_sched\<rparr>"

theorem keyboard_safe_witness:
  "\<exists>m k' m'. kb_inv idle_kb \<and> con_reach (con m) [] \<and> shows_bit 0x64 1 (pio m) 0 \<and>
     kb_handler idle_kb m = Some (Inr (k', m')) \<and> kb_inv k'"
proof -
  obtain c where c: "con_reach c []" using some_console by blast
  have k: "kb_inv idle_kb" by (simp add: kb_inv_def idle_kb_def)
  have s: "shows_bit 0x64 1 (pio (some_machine c)) 0" by (simp add: shows_bit_def some_machine_def inb_def Let_def)
  have r: "con_reach (con (some_machine c)) []" using c by (simp add: some_machine_def)
  obtain p where p: "poll 0x64 1 (pio (some_machine c)) = Some p" using poll_returns [OF s] by blast
  have "fst (inb p 0x60) = 0x1E" using poll_dev [OF p] by (simp add: some_machine_def inb_def Let_def)
  then show ?thesis using keyboard_safe [OF k r _ s] k r s p by (auto simp: Let_def)
qed

text \<open>
  C32. Typing works: pressing and releasing keys of letters, digits and punctuation appends their characters,
  letters in upper case, to the input line, which keeps the first 40 characters, and leaves the output
  alone.
\<close>

theorem typing_fills_line:
  assumes "\<forall>x \<in> set codes. char_key x" "scancode_depth k = 0" "con_reach c log" "length log < 4294966000"
  shows "\<exists>c'. kb_scans k c (concat (map (\<lambda>x. [x, x + 0x80]) codes)) = Some (Inr (k, c')) \<and> con_reach c' log \<and>
     input_text c' = take 40 (input_text c @ map key_char codes)"
  using assms by (rule typing)

theorem typing_fills_line_witness:
  "\<exists>c c'. con_reach c [] \<and> kb_scans idle_kb c [0x23, 0xA3, 0x17, 0x97] = Some (Inr (idle_kb, c')) \<and> input_text c' = ''HI''"
proof -
  obtain c where c: "con_reach c []" "input_text c = []" using some_console by blast
  have e: "keycode_tbl ! 35 = 72" "keycode_tbl ! 23 = 73" by (simp_all add: keycode_tbl_def)
  have ch: "char_of (72 :: nat) = CHR ''H''" "char_of (73 :: nat) = CHR ''I''" by (simp_all add: char_of_def bit_0)
  have k: "\<forall>x \<in> set [0x23, 0x17]. char_key x" by (simp add: char_key_def e)
  have "scancode_depth idle_kb = 0" by (simp add: idle_kb_def)
  from typing_fills_line [OF k this c(1)] c show ?thesis by (auto simp: key_char_def e ch)
qed

text \<open>
  The commands of the shell: \<open>hello\<close> prints a greeting, \<open>clear\<close> clears the console, \<open>nt\<close> marks the current
  task so that the end of the interrupt switches to the next live task, and \<open>sp\<close> without an argument
  passes \<open>NULL\<close> to the parser of serial commands, which dereferences it.
\<close>

theorem shell_commands:
  assumes "cstr s 0 w" "con_reach (con m) log" "length log < 4294966000" "sched_reach (sched m)" "length buffer = 256"
  shows "(w = ''hello'' \<longrightarrow> (\<exists>c'. parse_command m s buffer sb rb = Some (Inr (m\<lparr>con := c'\<rparr>)) \<and>
        con_reach c' (log @ ''hello from kernel'' @ [NL]))) \<and>
     (w = ''clear'' \<longrightarrow> (\<exists>c'. parse_command m s buffer sb rb = Some (Inr (m\<lparr>con := c'\<rparr>)) \<and> con_reach c' log)) \<and>
     (w = ''nt'' \<longrightarrow> (\<exists>c' m' s' i. parse_command m s buffer sb rb = Some (Inr m') \<and> con m' = c' \<and>
        con_reach c' (log @ ''switch to next task'' @ [NL]) \<and> current (sched m) = Some i \<and>
        cond_schedule (sched m') = Inr s' \<and> current s' = next_live (sched m) i)) \<and>
     (w = ''sp'' \<longrightarrow> parse_command m s buffer sb rb = Some (Inl NullDeref))"
proof (intro conjI impI)
  note cmd = is_command_spec [OF _ assms(1)]
  {
    assume w: "w = ''hello''"
    then show "\<exists>c'. parse_command m s buffer sb rb = Some (Inr (m\<lparr>con := c'\<rparr>)) \<and> con_reach c' (log @ ''hello from kernel'' @ [NL])"
      using cmd [of "''hello''"] printl_reach [OF assms(2,3), of "''hello from kernel''"]
      by (auto simp: parse_command_def)
  next
    assume w: "w = ''clear''"
    have "con_inv (con m) log" using con_reach_inv [OF assms(2)] by simp
    then obtain c' where "console_clear (con m) = Some (Inr c')"
      using console_clear_spec [of "con m" log] con_invD(1,2) by metis
    then show "\<exists>c'. parse_command m s buffer sb rb = Some (Inr (m\<lparr>con := c'\<rparr>)) \<and> con_reach c' log"
      using w cmd [of "''hello''"] cmd [of "''halt''"] cmd [of "''clear''"] con_reach.clear [OF assms(2)]
      by (auto simp: parse_command_def)
  next
    assume w: "w = ''nt''"
    obtain c' where c': "printl (con m) (''switch to next task'' @ [NUL]) = Some (Inr c')"
      "con_reach c' (log @ ''switch to next task'' @ [NL])"
      using printl_reach [OF assms(2,3), of "''switch to next task''"] by auto
    obtain i j s' where i: "current (sched m) = Some i" "next_live (sched m) i = Some j"
      "request_switch (sched m) = Inr s'" "current s' = Some j"
      using request_switch_ok [OF sched_reach_inv [OF assms(4)]] by metis
    then obtain sc where sc: "update_current (\<lambda>t. t\<lparr>t_state := t_state t OR 2\<rparr>) (sched m) = Inr sc" "cond_schedule sc = Inr s'"
      by (auto simp: request_switch_def)
    have "parse_command m s buffer sb rb = Some (Inr (m\<lparr>con := c', sched := sc\<rparr>))"
      using w cmd [of "''hello''"] cmd [of "''halt''"] cmd [of "''clear''"] cmd [of "''nt''"] c'(1) sc(1)
      by (simp add: parse_command_def)
    then show "\<exists>c' m' s' i. parse_command m s buffer sb rb = Some (Inr m') \<and> con m' = c' \<and>
        con_reach c' (log @ ''switch to next task'' @ [NL]) \<and> current (sched m) = Some i \<and>
        cond_schedule (sched m') = Inr s' \<and> current s' = next_live (sched m) i"
      using c'(2) i sc(2) by auto
  next
    assume w: "w = ''sp''"
    have tk: "strtok s 0 ('' '' @ [NUL]) buffer = Inr (put_str buffer 0 (w @ [NUL]), None)"
      using command_word [OF assms(1), of buffer] assms(5) w by simp
    have "cstr (put_str buffer 0 (w @ [NUL])) 0 w" using put_str_cstr [of w 0 buffer] assms(5) w by simp
    then have "is_command ''sp'' (put_str buffer 0 (w @ [NUL])) = Inr True" using is_command_spec [of "''sp''"] w by simp
    then show "parse_command m s buffer sb rb = Some (Inl NullDeref)"
      using w tk cmd [of "''hello''"] cmd [of "''halt''"] cmd [of "''clear''"] cmd [of "''nt''"]
      by (simp add: parse_command_def parse_serial_command_def)
  }
qed

theorem shell_commands_witness:
  "\<exists>m. con_reach (con m) [] \<and> sched_reach (sched m) \<and>
     parse_command m (''sp'' @ [NUL]) (replicate 256 NUL) [] [] = Some (Inl NullDeref)"
proof -
  obtain c where c: "con_reach c []" using some_console by blast
  have "con_reach (con (some_machine c)) []" "sched_reach (sched (some_machine c))"
    using c boot_sched_reach by (simp_all add: some_machine_def)
  moreover have "cstr (''sp'' @ [NUL]) 0 ''sp''" by (simp add: cstr_def)
  ultimately show ?thesis using shell_commands [of "''sp'' @ [NUL]" "''sp''" "some_machine c" "[]" "replicate 256 NUL"]
    by (intro exI [of _ "some_machine c"]) simp
qed

end
