(* ===== verification/Ts_Isr_Props.thy ===== *)
theory Ts_Isr_Props
  imports Ts_Isr Ts_Keyboard_Props
begin

text \<open>
  The kernel as a whole. \<open>kernel_inv\<close> joins the invariants of the console, the scheduler and the keyboard;
  the lemmas show that the interrupt handlers keep it and what they send to the interrupt controller.
\<close>

section \<open>The invariant of the kernel\<close>


section \<open>Messages\<close>











section \<open>Interrupts\<close>











section \<open>The interrupt table\<close>

definition gate :: "u32 \<Rightarrow> u8 \<Rightarrow> IDTDesc" where
  "gate addr flag = \<lparr>offset_1 = ucast (addr AND 0xFFFF), selector = 8, zero = 0, type_attr = flag,
     offset_2 = ucast (drop_bit 16 addr AND 0xFFFF)\<rparr>"

definition gate_offset :: "IDTDesc \<Rightarrow> u32" where
  "gate_offset d = ucast (offset_1 d) OR push_bit 16 (ucast (offset_2 d))"

lemma gate_offset_gate: "gate_offset (gate addr flag) = addr"
proof -
  have m: "(0xFFFF :: u32) = mask 16" by (simp add: mask_eq_exp_minus_1)
  show ?thesis unfolding gate_offset_def gate_def m
    by (rule bit_eqI) (auto simp: bit_simps dest: bit_imp_le_length)
qed

lemma init_trap_gate_eq:
  assumes "n < length tbl"
  shows "init_trap_gate tbl n addr 8 flag = Inr (tbl[n := gate addr flag])"
proof -
  have "(tbl ! n)\<lparr>offset_1 := ucast (addr AND 0xFFFF), offset_2 := ucast (drop_bit 16 addr AND 0xFFFF),
      selector := 8, zero := 0, type_attr := flag\<rparr> = gate addr flag"
    by (cases "tbl ! n") (simp add: gate_def)
  then show ?thesis using assms by (simp add: init_trap_gate_def rd_in wr_in)
qed

lemma init_irqs_eq:
  "\<forall>n \<in> set ns. n < length tbl \<Longrightarrow> \<exists>tbl'. init_irqs isr ns tbl = Inr tbl' \<and> length tbl' = length tbl \<and>
     (\<forall>i < length tbl. tbl' ! i = (if i \<in> set ns then gate (isr i) 0x8F else tbl ! i))"
proof (induction ns arbitrary: tbl)
  case (Cons n ns)
  have n: "n < length tbl" using Cons.prems by simp
  obtain tbl' where t: "init_irqs isr ns (tbl[n := gate (isr n) 0x8F]) = Inr tbl'" "length tbl' = length tbl"
    "\<forall>i < length tbl. tbl' ! i = (if i \<in> set ns then gate (isr i) 0x8F else tbl[n := gate (isr n) 0x8F] ! i)"
    using Cons.IH [of "tbl[n := gate (isr n) 0x8F]"] Cons.prems by auto
  then show ?case using init_trap_gate_eq [OF n] n by (auto simp: nth_list_update)
qed simp

section \<open>A concrete kernel\<close>

definition some_kernel :: "console \<Rightarrow> kernel" where
  "some_kernel c = \<lparr>mach = some_machine c, kbd = idle_kb,
     idt = replicate 64 \<lparr>offset_1 = 0, selector = 0, zero = 0, type_attr = 0, offset_2 = 0\<rparr>,
     idt_limit = 0, idt_base = 0, syscall_table = replicate 64 None\<rparr>"


section \<open>Properties\<close>



text \<open>
  C38. After \<open>init_idt\<close> the interrupt table is complete: each of the 64 gates leads to its stub through the
  kernel code segment, only the gate of the system call is open to user code, and the table register
  covers exactly the table.
\<close>

theorem idt_complete:
  assumes "length (idt k) = 64"
  shows "\<exists>k'. init_idt isr idt_addr k = Inr k' \<and> length (idt k') = 64 \<and>
     (\<forall>n<64. gate_offset (idt k' ! n) = isr n \<and> selector (idt k' ! n) = 8 \<and> zero (idt k' ! n) = 0 \<and>
        type_attr (idt k' ! n) = (if n = 63 then 0xEF else 0x8F)) \<and>
     unat (idt_limit k') + 1 = 8 * length (idt k') \<and> idt_base k' = idt_addr"
proof -
  obtain t where t: "init_irqs isr [0..<64] (idt k) = Inr t" "length t = 64" "\<forall>i<64. t ! i = gate (isr i) 0x8F"
    using init_irqs_eq [of "[0..<64]" "idt k" isr] assms by (auto simp del: upt.simps)
  have g: "gate_offset (d\<lparr>type_attr := f\<rparr>) = gate_offset d" for d f by (simp add: gate_offset_def)
  have s: "selector (gate a f) = 8" "zero (gate a f) = 0" "type_attr (gate a f) = f" for a f by (simp_all add: gate_def)
  show ?thesis
    using t by (auto simp: init_idt_def Let_def rd_in wr_in nth_list_update g gate_offset_gate s simp del: upt.simps)
qed

theorem idt_complete_witness:
  "\<forall>c. \<exists>k'. init_idt (\<lambda>n. 0xC0800000 + of_nat n) 0xC0900000 (some_kernel c) = Inr k' \<and> gate_offset (idt k' ! 63) = 0xC080003F"
proof
  fix c
  have l: "length (idt (some_kernel c)) = 64" by (simp add: some_kernel_def)
  show "\<exists>k'. init_idt (\<lambda>n. 0xC0800000 + of_nat n) 0xC0900000 (some_kernel c) = Inr k' \<and> gate_offset (idt k' ! 63) = 0xC080003F"
    using idt_complete [OF l, of "\<lambda>n. 0xC0800000 + of_nat n" "0xC0900000"] by auto
qed

end
