(* ===== verification/Ts_Ata_Props.thy ===== *)
theory Ts_Ata_Props
  imports Ts_Ata Ts_Print_Props
begin

text \<open>
  What the disk driver does on a drive that keeps to the ATA protocol.

  \<open>ata_drive\<close> is the state of a drive as the standard describes it, \<open>ata_step\<close> the effect of a port
  operation on it. \<open>ata_device\<close> says of the ports that they show such a drive: it may be busy for any
  finite time, and once it is not, its status has no error and the data port shows the next bytes.
  \<open>disk_ok\<close> is the state between two commands; the driver's operations are shown to satisfy the
  interface \<open>block_device\<close>.
\<close>

section \<open>The drive\<close>

datatype ata_phase = Idle | DataIn "char list" | DataOut nat nat "char list" | Undefined

record ata_drive =
  regs :: "u16 \<Rightarrow> u16"
  phase :: ata_phase
  platter :: "nat \<Rightarrow> char list"
  ident :: "char list"

definition ata_lba :: "(u16 \<Rightarrow> u16) \<Rightarrow> nat" where
  "ata_lba r = unat (r 0x1F3) + 256 * unat (r 0x1F4) + 65536 * unat (r 0x1F5) + 16777216 * (unat (r 0x1F6) mod 16)"

definition ata_count :: "(u16 \<Rightarrow> u16) \<Rightarrow> nat" where
  "ata_count r = (if r 0x1F2 = 0 then 256 else unat (r 0x1F2))"

definition data_in :: "char list \<Rightarrow> ata_phase" where
  "data_in bs = (if bs = [] then Idle else DataIn bs)"

definition data_word :: "char list \<Rightarrow> u16" where
  "data_word bs = ucast (chr_byte (bs ! 0)) + push_bit 8 (ucast (chr_byte (bs ! 1)))"

definition word_bytes :: "u16 \<Rightarrow> char list" where
  "word_bytes w = [byte_chr (ucast (w AND 0xFF)), byte_chr (ucast (drop_bit 8 w AND 0xFF))]"

definition data_out :: "nat \<Rightarrow> nat \<Rightarrow> char list \<Rightarrow> ata_drive \<Rightarrow> ata_drive" where
  "data_out lba n acc d =
     (if length acc < 512 then d\<lparr>phase := DataOut lba n acc\<rparr>
      else d\<lparr>platter := (platter d)(lba := acc), phase := (if n = 1 then Idle else DataOut (lba + 1) (n - 1) [])\<rparr>)"

definition ata_command :: "u16 \<Rightarrow> ata_drive \<Rightarrow> ata_drive" where
  "ata_command v d =
     (if phase d \<noteq> Idle then d\<lparr>phase := Undefined\<rparr>
      else if v = 0x20 then
        d\<lparr>phase := DataIn (concat (map (platter d) [ata_lba (regs d)..<ata_lba (regs d) + ata_count (regs d)]))\<rparr>
      else if v = 0x30 then d\<lparr>phase := DataOut (ata_lba (regs d)) (ata_count (regs d)) []\<rparr>
      else if v = 0xE7 then d
      else if v = 0xEC then d\<lparr>phase := DataIn (ident d)\<rparr>
      else d\<lparr>phase := Undefined\<rparr>)"

fun ata_step :: "ata_drive \<Rightarrow> port_event \<Rightarrow> ata_drive" where
  "ata_step d (Out port v) =
     (if port = 0x1F7 then ata_command v d
      else if port = 0x1F0 then (case phase d of DataOut lba n acc \<Rightarrow> data_out lba n (acc @ word_bytes v) d | _ \<Rightarrow> d)
      else if port \<in> {0x1F2, 0x1F3, 0x1F4, 0x1F5, 0x1F6} then d\<lparr>regs := (regs d)(port := v)\<rparr>
      else d)"
| "ata_step d (In port v) =
     (if port = 0x1F0 then (case phase d of DataIn bs \<Rightarrow> d\<lparr>phase := data_in (drop 2 bs)\<rparr> | _ \<Rightarrow> d) else d)"

definition not_busy :: "io \<Rightarrow> bool" where
  "not_busy p \<longleftrightarrow> fst (inb p 0x1F7) AND 0x80 = 0"

definition settled :: "ata_drive \<Rightarrow> io \<Rightarrow> bool" where
  "settled d p \<longleftrightarrow> (let q = snd (inb p 0x1F7); (alt, q') = inb q 0x3F6 in
     alt AND 1 = 0 \<and> alt AND 0x20 = 0 \<and> (\<forall>bs. phase d = DataIn bs \<longrightarrow> dev q' (trace q') 0x1F0 = data_word bs))"

definition ata_device :: "(port_event list \<Rightarrow> u16 \<Rightarrow> u16) \<Rightarrow> ata_drive \<Rightarrow> bool" where
  "ata_device dv d0 \<longleftrightarrow> (\<forall>tr. let p = \<lparr>dev = dv, trace = tr\<rparr>; d = foldl ata_step d0 tr in
     phase d \<noteq> Undefined \<longrightarrow>
       (\<exists>n. not_busy (reads n 0x1F7 p)) \<and> (\<exists>n. shows_bit 0x1F7 0x40 p n) \<and> (not_busy p \<longrightarrow> settled d p))"

text \<open>The ports \<open>p\<close> show the drive \<open>d\<close>.\<close>

definition ata_at :: "ata_drive \<Rightarrow> io \<Rightarrow> ata_drive \<Rightarrow> bool" where
  "ata_at d0 p d \<longleftrightarrow> ata_device (dev p) d0 \<and> foldl ata_step d0 (trace p) = d"

section \<open>Bytes\<close>

lemma chr_byte_inverse [simp]: "byte_chr (chr_byte c) = c"
proof -
  have "unat (of_nat (of_char c) :: u8) = of_char c"
    using nat_of_char_less_256 [of c] by (simp add: unat_of_nat)
  then show ?thesis by (simp add: byte_chr_def chr_byte_def)
qed

lemma byte_chr_inverse [simp]: "chr_byte (byte_chr b) = b"
proof -
  have "unat b < 256" using unsigned_less [of b] by simp
  then show ?thesis by (simp add: byte_chr_def chr_byte_def)
qed

lemma word_pair:
  fixes a b :: u8
  shows "ucast ((ucast a + push_bit 8 (ucast b) :: u16) AND 0xFF) = a"
    "ucast (drop_bit 8 (ucast a + push_bit 8 (ucast b) :: u16) AND 0xFF) = b"
proof -
  let ?w = "ucast a + push_bit 8 (ucast b) :: u16"
  have ab: "unat a < 256" "unat b < 256" using unsigned_less [of a] unsigned_less [of b] by simp_all
  have "unat ?w = unat a + 256 * unat b"
    using ab by (simp add: unat_word_ariths unsigned_ucast_eq take_bit_eq_mod push_bit_eq_mult)
  note w = this
  have m: "unat (x AND 0xFF) = unat x mod 256" for x :: u16
  proof -
    have "(0xFF :: u16) = mask 8" by (simp add: mask_eq_exp_minus_1)
    then have "unat (x AND 0xFF) = unat (take_bit 8 x)" by (simp only: take_bit_eq_mask)
    also have "\<dots> = take_bit 8 (unat x)" by (rule unsigned_take_bit_eq)
    finally show ?thesis by (simp add: take_bit_eq_mod)
  qed
  have "unat (ucast (?w AND 0xFF) :: u8) = unat a" using ab by (simp add: unsigned_ucast_eq take_bit_eq_mod m w)
  then show "ucast (?w AND 0xFF) = a" by (rule unsigned_word_eqI)
  have "unat (drop_bit 8 ?w) = drop_bit 8 (unat ?w)" by (rule unat_drop_bit_eq)
  also have "\<dots> = unat b" using ab by (simp add: w drop_bit_eq_div)
  finally have "unat (drop_bit 8 ?w AND 0xFF) = unat b" using m [of "drop_bit 8 ?w"] ab by simp
  then have "unat (ucast (drop_bit 8 ?w AND 0xFF) :: u8) = unat b"
    using ab unsigned_ucast_eq [of "drop_bit 8 ?w AND 0xFF", where ?'c = 8 and ?'a = nat] by (simp only:) (simp add: take_bit_eq_mod)
  then show "ucast (drop_bit 8 ?w AND 0xFF) = b" by (rule unsigned_word_eqI)
qed

lemma data_word_bytes:
  "byte_chr (ucast (data_word bs AND 0xFF)) = bs ! 0" "byte_chr (ucast (drop_bit 8 (data_word bs) AND 0xFF)) = bs ! 1"
  by (simp_all add: data_word_def word_pair)

lemma word_bytes_pair: "word_bytes (ucast (chr_byte a) + push_bit 8 (ucast (chr_byte b))) = [a, b]"
  by (simp add: word_bytes_def word_pair)

section \<open>Waiting\<close>

lemma ata_at_step:
  "ata_at d0 p d \<Longrightarrow> ata_at d0 (outb p port v) (ata_step d (Out port (ucast v)))"
  "ata_at d0 p d \<Longrightarrow> ata_at d0 (outw p port w) (ata_step d (Out port w))"
  "ata_at d0 p d \<Longrightarrow> ata_at d0 (snd (inw p port)) (ata_step d (In port (fst (inw p port))))"
  "ata_at d0 p d \<Longrightarrow> port \<noteq> 0x1F0 \<Longrightarrow> ata_at d0 (snd (inb p port)) d"
  by (simp_all add: ata_at_def outb_def outw_def inb_def inw_def Let_def log_event_def)

lemma ata_at_reads: "ata_at d0 p d \<Longrightarrow> port \<noteq> 0x1F0 \<Longrightarrow> ata_at d0 (reads n port p) d"
  by (induction n arbitrary: p) (simp_all add: ata_at_step)

lemma ata_at_read_ignore: "ata_at d0 p d \<Longrightarrow> port \<noteq> 0x1F0 \<Longrightarrow> ata_at d0 (read_ignore port p) d"
  by (simp add: read_ignore_def ata_at_step)

lemma ata_at_ignores: "ata_at d0 p d \<Longrightarrow> port \<noteq> 0x1F0 \<Longrightarrow> ata_at d0 ((read_ignore port ^^ n) p) d"
  by (induction n) (simp_all add: ata_at_read_ignore)

lemma ata_at_wait: "ata_at d0 p d \<Longrightarrow> ata_at d0 (ata_wait p) d"
  by (simp add: ata_wait_def ata_at_ignores)

lemma ata_atD:
  assumes "ata_at d0 p d" "phase d \<noteq> Undefined"
  shows "\<exists>n. not_busy (reads n 0x1F7 p)" "\<exists>n. shows_bit 0x1F7 0x40 p n" "not_busy p \<Longrightarrow> settled d p"
proof -
  have p: "\<lparr>dev = dev p, trace = trace p\<rparr> = p" by (cases p) simp
  then have "(\<exists>n. not_busy (reads n 0x1F7 p)) \<and> (\<exists>n. shows_bit 0x1F7 0x40 p n) \<and> (not_busy p \<longrightarrow> settled d p)"
    using assms unfolding ata_at_def ata_device_def Let_def by (metis p)
  then show "\<exists>n. not_busy (reads n 0x1F7 p)" "\<exists>n. shows_bit 0x1F7 0x40 p n" "not_busy p \<Longrightarrow> settled d p" by blast+
qed

lemma wait_not_bsy_returns:
  "not_busy (reads n 0x1F7 p) \<Longrightarrow> \<exists>k. wait_not_bsy p = Some (reads (Suc k) 0x1F7 p) \<and> not_busy (reads k 0x1F7 p)"
proof (induction n arbitrary: p)
  case 0
  then show ?case by (intro exI [of _ 0], subst wait_not_bsy.simps) (simp add: not_busy_def split_beta Let_def)
next
  case (Suc n)
  show ?case
  proof (cases "not_busy p")
    case True
    then show ?thesis
      by (intro exI [of _ 0], subst wait_not_bsy.simps) (simp add: not_busy_def split_beta Let_def)
  next
    case False
    then have eq: "wait_not_bsy p = wait_not_bsy (reads 1 0x1F7 p)"
      by (subst wait_not_bsy.simps) (simp add: not_busy_def split_beta Let_def)
    obtain k where "wait_not_bsy (reads 1 0x1F7 p) = Some (reads (Suc k) 0x1F7 (reads 1 0x1F7 p))"
      "not_busy (reads k 0x1F7 (reads 1 0x1F7 p))" using Suc.IH [of "reads 1 0x1F7 p"] Suc.prems by auto
    then show ?thesis using eq by (intro exI [of _ "Suc k"]) simp
  qed
qed

lemma reads_Suc_end: "reads (Suc k) port p = snd (inb (reads k port p) port)"
  by (induction k arbitrary: p) simp_all

text \<open>The data port shows the next word.\<close>

definition data_ready :: "ata_drive \<Rightarrow> io \<Rightarrow> bool" where
  "data_ready d p \<longleftrightarrow> (\<forall>bs. phase d = DataIn bs \<longrightarrow> dev p (trace p) 0x1F0 = data_word bs)"

lemma ata_poll_bsy_ok:
  assumes at: "ata_at d0 p d" and def: "phase d \<noteq> Undefined"
  shows "returns (ata_poll_bsy p) (\<lambda>(state, p'). ata_at d0 p' d \<and> data_ready d p')"
proof -
  obtain k where k: "wait_not_bsy p = Some (reads (Suc k) 0x1F7 p)" "not_busy (reads k 0x1F7 p)"
    using ata_atD(1) [OF assms] wait_not_bsy_returns by blast
  define q where "q = reads k 0x1F7 p"
  have q: "ata_at d0 q d" using ata_at_reads [OF at] by (simp add: q_def)
  have "settled d q" using ata_atD(3) [OF q def] k(2) by (simp add: q_def)
  note q = q this
  have "ata_at d0 (snd (inb (snd (inb q 0x1F7)) 0x3F6)) d" by (intro ata_at_step q(1)) simp_all
  then show ?thesis
    using q(2) k(1) unfolding reads_Suc_end by (simp add: ata_poll_bsy_def q_def settled_def data_ready_def split_beta Let_def)
qed

text \<open>The test of \<open>ata_poll_bsy_drq\<close> always succeeds: a complemented byte is never zero as an \<open>int\<close>.\<close>

lemma drq_test: "(push_bit 3 s AND ucast (v :: u8)) OR (NOT (ucast v) AND NOT (push_bit 3 s)) \<noteq> (0 :: u32)"
  if "s \<in> {0, 1}" for s :: u32
proof -
  have "\<not> bit v 31" using bit_imp_le_length [of v 31] by auto
  then have "\<not> bit (ucast v :: u32) 31" by (simp add: bit_ucast_iff)
  moreover have "\<not> bit (push_bit 3 s) 31" using that by (auto simp: bit_push_bit_iff bit_1_iff)
  ultimately have "bit ((push_bit 3 s AND ucast v) OR (NOT (ucast v) AND NOT (push_bit 3 s)) :: u32) 31"
    by (simp add: bit_simps)
  then show ?thesis by auto
qed

lemma ata_poll_bsy_drq_eq: "s \<in> {0, 1} \<Longrightarrow> ata_poll_bsy_drq p s = ata_poll_bsy p"
  using drq_test [of s] by (simp add: ata_poll_bsy_drq_def bind_ro_def split: option.splits sum.splits)

lemma ata_poll_bsy_drq_ok [tc]:
  assumes "ata_at d0 p d" "phase d \<noteq> Undefined" "s \<in> {0, 1}"
  shows "returns (ata_poll_bsy_drq p s) (\<lambda>(state, p'). ata_at d0 p' d \<and> data_ready d p')"
  using ata_poll_bsy_ok [OF assms(1,2)] assms(3) by (simp only: ata_poll_bsy_drq_eq)

lemma ata_poll_drdy_ok:
  assumes "ata_at d0 p d" "phase d \<noteq> Undefined"
  shows "\<exists>p'. ata_poll_drdy p = Some p' \<and> ata_at d0 p' d"
proof -
  obtain m where "poll 0x1F7 0x40 p = Some (reads (Suc m) 0x1F7 p)"
    using ata_atD(2) [OF assms] poll_returns by blast
  then show ?thesis using ata_at_reads [OF assms(1), of "0x1F7" "Suc m"] by (simp add: ata_poll_drdy_def)
qed

section \<open>Buffers\<close>

lemma take_two: "Suc 0 < length bs \<Longrightarrow> bs = bs ! 0 # bs ! 1 # drop 2 bs"
  by (cases bs; cases "tl bs") auto

lemma put_str_append:
  "j + length s \<le> length b \<Longrightarrow> put_str (put_str b j s) (j + length s) t = put_str b j (s @ t)"
  by (simp add: put_str_def add.commute add.left_commute)

lemma put_str_pair:
  "j + 1 < length b \<Longrightarrow> put_str (b[j := x, j + 1 := y]) (j + 2) s = put_str b j (x # y # s)"
  using put_str_Cons [of j b x "y # s"] put_str_Cons [of "j + 1" "b[j := x]" y s] by simp

lemma ata_read_buffer_loop_ok:
  assumes "ata_at d0 p d" "phase d = data_in bs" "2 * k \<le> length bs" "off + i + 2 * k \<le> length b"
  shows "returns (ata_read_buffer_loop p b off (i + 2 * k) i) (\<lambda>(p', b').
    ata_at d0 p' (d\<lparr>phase := data_in (drop (2 * k) bs)\<rparr>) \<and> b' = put_str b (off + i) (take (2 * k) bs))"
  using assms
proof (induction k arbitrary: p d bs i b)
  case 0
  then have "ata_at d0 p (d\<lparr>phase := data_in bs\<rparr>)" by (cases d) simp
  then show ?case by (simp add: ata_read_buffer_loop.simps put_str_def)
next
  case (Suc k)
  define bs' where "bs' = drop 2 bs"
  have bs: "bs = bs ! 0 # bs ! 1 # bs'" "phase d = DataIn bs"
    using Suc.prems(2,3) take_two [of bs] by (auto simp: bs'_def data_in_def)
  show ?case
  proof (subst ata_read_buffer_loop.simps, simp only: add_less_cancel_left less_add_same_cancel1 mult_Suc_right, simp,
      rule returns_bind_ro [OF ata_poll_bsy_drq_ok [OF Suc.prems(1)]])
    show "phase d \<noteq> Undefined" by (simp add: bs(2))
    show "1 \<in> {0 :: u32, 1}" by simp
    fix x
    assume "case x of (state, q) \<Rightarrow> ata_at d0 q d \<and> data_ready d q"
    then obtain st q where x: "x = (st, q)" "ata_at d0 q d" "dev q (trace q) 0x1F0 = data_word bs"
      using bs(2) by (cases x) (auto simp: data_ready_def)
    define d' where "d' = d\<lparr>phase := data_in bs'\<rparr>"
    have at: "ata_at d0 (snd (inw q 0x1F0)) d'"
      using ata_at_step(3) [OF x(2), of "0x1F0"] bs(2) by (simp add: d'_def bs'_def)
    have w: "fst (inw q 0x1F0) = data_word bs" using x(3) by (simp add: inw_def Let_def)
    define b' where "b' = b[off + i := bs ! 0, off + i + 1 := bs ! 1]"
    have "returns (ata_read_buffer_loop (snd (inw q 0x1F0)) b' off ((i + 2) + 2 * k) (i + 2)) (\<lambda>(p', b'').
        ata_at d0 p' (d'\<lparr>phase := data_in (drop (2 * k) bs')\<rparr>) \<and> b'' = put_str b' (off + (i + 2)) (take (2 * k) bs'))"
      using Suc.prems(3,4) by (intro Suc.IH at) (simp_all add: d'_def b'_def bs'_def)
    moreover have "put_str b' (off + (i + 2)) (take (2 * k) bs') = put_str b (off + i) (take (2 * Suc k) bs)"
      using Suc.prems(4) put_str_pair [of "off + i" b "bs ! 0" "bs ! 1" "take (2 * k) bs'"] arg_cong [OF bs(1), of "take (2 * Suc k)"]
      by (simp add: b'_def add.assoc)
    moreover have "drop (2 * k) bs' = drop (2 * Suc k) bs" by (simp add: bs'_def)
    ultimately show "returns (case x of (uu, p) \<Rightarrow> case inw p 0x1F0 of (data, p) \<Rightarrow>
          bind_ro (Some (wr b (off + i) (byte_chr (ucast (data AND 0xFF))))) (\<lambda>b.
          bind_ro (Some (wr b (Suc (off + i)) (byte_chr (ucast (drop_bit 8 data AND 0xFF))))) (\<lambda>b.
          ata_read_buffer_loop p b off (Suc (Suc (i + 2 * k))) (Suc (Suc i)))))
        (\<lambda>(p', b'). ata_at d0 p' (d\<lparr>phase := data_in (drop (Suc (Suc (2 * k))) bs)\<rparr>) \<and>
           b' = put_str b (off + i) (take (Suc (Suc (2 * k))) bs))"
      using Suc.prems(4) w by (simp add: x(1) split_beta wr_in data_word_bytes d'_def b'_def)
  qed
qed

lemma data_out_step:
  assumes "phase d = DataOut lba n acc"
  shows "ata_step d (Out 0x1F0 (ucast (chr_byte x) + push_bit 8 (ucast (chr_byte y)))) = data_out lba n (acc @ [x, y]) d"
  using assms by (simp add: word_bytes_pair)

lemma ata_write_buffer_loop_ok:
  assumes "ata_at d0 p d" "phase d = DataOut lba n acc" "length acc + 2 * k \<le> 512" "length acc < 512"
    "off + i + 2 * k \<le> length b"
  shows "returns (ata_write_buffer_loop p b off (i + 2 * k) i) (\<lambda>p'.
    ata_at d0 p' (data_out lba n (acc @ take (2 * k) (drop (off + i) b)) d))"
  using assms
proof (induction k arbitrary: p d acc i)
  case 0
  then have "ata_at d0 p (data_out lba n acc d)" by (cases d) (simp add: data_out_def)
  then show ?case by (simp add: ata_write_buffer_loop.simps)
next
  case (Suc k)
  define x y where "x = b ! (off + i)" and "y = b ! (off + i + 1)"
  have tk: "take (2 * Suc k) (drop (off + i) b) = x # y # take (2 * k) (drop (off + (i + 2)) b)"
    using Suc.prems(5) Cons_nth_drop_Suc [of "off + i" b, symmetric] Cons_nth_drop_Suc [of "off + i + 1" b, symmetric]
    by (simp add: x_def y_def)
  have rds: "rd b (off + i) = Inr x" "rd b (off + i + 1) = Inr y" using Suc.prems(5) by (simp_all add: rd_in x_def y_def)
  show ?case
  proof (subst ata_write_buffer_loop.simps, subst if_P, simp, rule returns_bind_ro [OF ata_poll_bsy_drq_ok [OF Suc.prems(1)]])
    show "phase d \<noteq> Undefined" by (simp add: Suc.prems(2))
    show "1 \<in> {0 :: u32, 1}" by simp
    fix r
    assume "case r of (state, q) \<Rightarrow> ata_at d0 q d \<and> data_ready d q"
    then obtain st q where r: "r = (st, q)" "ata_at d0 q d" by (cases r) auto
    define q' where "q' = outw q 0x1F0 (ucast (chr_byte x) + push_bit 8 (ucast (chr_byte y)))"
    have at: "ata_at d0 q' (data_out lba n (acc @ [x, y]) d)"
      using ata_at_step(2) [OF r(2), of "0x1F0"] unfolding data_out_step [OF Suc.prems(2), symmetric] q'_def .
    have "returns (ata_write_buffer_loop q' b off ((i + 2) + 2 * k) (i + 2)) (\<lambda>p'.
        ata_at d0 p' (data_out lba n (acc @ take (2 * Suc k) (drop (off + i) b)) d))"
    proof (cases "length acc + 2 < 512")
      case True
      define d' where "d' = d\<lparr>phase := DataOut lba n (acc @ [x, y])\<rparr>"
      have "data_out lba n (acc @ [x, y]) d = d'" using True by (simp add: data_out_def d'_def)
      then have "returns (ata_write_buffer_loop q' b off ((i + 2) + 2 * k) (i + 2)) (\<lambda>p'.
          ata_at d0 p' (data_out lba n ((acc @ [x, y]) @ take (2 * k) (drop (off + (i + 2)) b)) d'))"
        using Suc.prems(3,5) True at by (intro Suc.IH) (simp_all add: d'_def)
      moreover have "data_out lba n acc' d' = data_out lba n acc' d" for acc' by (simp add: d'_def data_out_def)
      ultimately show ?thesis by (simp only: tk) simp
    next
      case False
      then have "k = 0" using Suc.prems(3) by simp
      then show ?thesis using at unfolding tk by (simp add: ata_write_buffer_loop.simps)
    qed
    then show "returns (case r of (uu, p) \<Rightarrow> bind_ro (Some (rd b (off + i))) (\<lambda>lo. bind_ro (Some (rd b (off + i + 1))) (\<lambda>hi.
          ata_write_buffer_loop (outw p (0x1F0 + 0) (ucast (chr_byte lo) + push_bit 8 (ucast (chr_byte hi))))
            b off (i + 2 * Suc k) (i + 2))))
        (\<lambda>p'. ata_at d0 p' (data_out lba n (acc @ take (2 * Suc k) (drop (off + i) b)) d))"
      using r(1) rds by (simp add: q'_def)
  qed
qed

section \<open>Commands\<close>

lemma unat_reg: "n < 256 \<Longrightarrow> unat (ucast (of_nat n :: u8) :: u16) = n"
  by (simp add: unsigned_ucast_eq unsigned_of_nat take_bit_eq_mod)

lemma unat_reg_head: "n < 16 \<Longrightarrow> unat (ucast (0xE0 OR of_nat n :: u8) :: u16) mod 16 = n"
proof -
  assume n: "n < 16"
  have "unat (ucast (0xE0 OR of_nat n :: u8) :: u16) mod 16 = take_bit 4 (unat (0xE0 OR of_nat n :: u8))"
    by (simp add: unsigned_ucast_eq take_bit_eq_mod mod_mod_cancel)
  also have "unat (0xE0 OR of_nat n :: u8) = 0xE0 OR n"
    using n by (simp add: unsigned_or_eq unsigned_of_nat take_bit_eq_mod)
  also have "take_bit 4 (0xE0 OR n) = take_bit 4 (0xE0 :: nat) OR take_bit 4 n" by (rule take_bit_or)
  finally show ?thesis using n by (simp add: take_bit_eq_mod)
qed

definition sector_regs :: "(u16 \<Rightarrow> u16) \<Rightarrow> nat \<Rightarrow> nat \<Rightarrow> u16 \<Rightarrow> u16" where
  "sector_regs r lba n = r(0x1F6 := ucast (0xE0 OR of_nat (lba div 16777216 mod 16) :: u8), 0x1F2 := ucast (of_nat n :: u8),
     0x1F3 := ucast (of_nat (lba mod 256) :: u8), 0x1F4 := ucast (of_nat (lba div 256 mod 256) :: u8),
     0x1F5 := ucast (of_nat (lba div 65536 mod 256) :: u8))"

lemma sector_regs_lba: "lba < 268435456 \<Longrightarrow> ata_lba (sector_regs r lba n) = lba"
proof -
  assume lba: "lba < 268435456"
  have "lba div 256 div 256 = lba div 65536" "lba div 65536 div 256 = lba div 16777216" by (simp_all flip: div_mult2_eq)
  then have "lba = lba mod 256 + 256 * (lba div 256 mod 256) + 65536 * (lba div 65536 mod 256) + 16777216 * (lba div 16777216)"
    using div_mult_mod_eq [of lba 256] div_mult_mod_eq [of "lba div 256" 256] div_mult_mod_eq [of "lba div 65536" 256]
    by linarith
  moreover have "lba div 16777216 < 16" using lba less_mult_imp_div_less [of lba 16 16777216] by simp
  ultimately show ?thesis
    using unat_reg_head [of "lba div 16777216 mod 16"] unat_reg [of "lba mod 256"] unat_reg [of "lba div 256 mod 256"]
      unat_reg [of "lba div 65536 mod 256"] by (simp add: ata_lba_def sector_regs_def)
qed

lemma sector_regs_count: "0 < n \<Longrightarrow> n \<le> 256 \<Longrightarrow> ata_count (sector_regs r lba n) = n"
proof -
  assume n: "0 < n" "n \<le> 256"
  show ?thesis
  proof (cases "n = 256")
    case True
    then have "(of_nat n :: u8) = 0" by simp
    then show ?thesis using True by (simp add: ata_count_def sector_regs_def)
  next
    case False
    then have "unat (ucast (of_nat n :: u8) :: u16) = n" using n by (intro unat_reg) simp
    moreover from this have "(ucast (of_nat n :: u8) :: u16) \<noteq> 0" using n(1) by (metis unsigned_0 less_irrefl)
    ultimately show ?thesis by (simp add: ata_count_def sector_regs_def)
  qed
qed

lemma select_sector_ok:
  assumes "ata_at d0 p d" "phase d = Idle"
  shows "returns (select_sector p lba n c) (\<lambda>p'. ata_at d0 p' (ata_command (ucast c) (d\<lparr>regs := sector_regs (regs d) lba n\<rparr>)))"
proof -
  define d1 where "d1 = d\<lparr>regs := (regs d)(0x1F6 := ucast (0xE0 OR of_nat (lba div 16777216 mod 16) :: u8))\<rparr>"
  have d1: "ata_at d0 (outb p 0x1F6 (0xE0 OR of_nat (lba div 16777216 mod 16))) d1" "phase d1 \<noteq> Undefined"
    using ata_at_step(1) [OF assms(1), of "0x1F6"] assms(2) by (simp_all add: d1_def)
  show ?thesis
    unfolding select_sector_def Let_def
  proof (simp, rule returns_bind_ro [OF ata_poll_bsy_drq_ok [OF d1]], simp, clarify)
    fix q assume q: "ata_at d0 q d1"
    obtain q' where q': "ata_poll_drdy q = Some q'" "ata_at d0 q' d1" using ata_poll_drdy_ok [OF q d1(2)] by blast
    have "ata_at d0 (outb (outb (outb (outb (outb (outb q' 0x3F6 2) 0x1F2 (of_nat n)) 0x1F3 (of_nat (lba mod 256)))
        0x1F4 (of_nat (lba div 256 mod 256))) 0x1F5 (of_nat (lba div 65536 mod 256))) 0x1F7 c)
      (foldl ata_step d1 [Out 0x3F6 2, Out 0x1F2 (ucast (of_nat n :: u8)), Out 0x1F3 (ucast (of_nat (lba mod 256) :: u8)),
         Out 0x1F4 (ucast (of_nat (lba div 256 mod 256) :: u8)), Out 0x1F5 (ucast (of_nat (lba div 65536 mod 256) :: u8)),
         Out 0x1F7 (ucast c)])"
      using q'(2) by (simp add: ata_at_def outb_def log_event_def)
    also have "foldl ata_step d1 [Out 0x3F6 2, Out 0x1F2 (ucast (of_nat n :: u8)), Out 0x1F3 (ucast (of_nat (lba mod 256) :: u8)),
         Out 0x1F4 (ucast (of_nat (lba div 256 mod 256) :: u8)), Out 0x1F5 (ucast (of_nat (lba div 65536 mod 256) :: u8)),
         Out 0x1F7 (ucast c)] = ata_command (ucast c) (d\<lparr>regs := sector_regs (regs d) lba n\<rparr>)"
      by (simp add: d1_def sector_regs_def)
    finally show "returns (Option.bind (ata_poll_drdy q) (\<lambda>p. Some (Inr (ata_wait (outb (outb (outb (outb (outb (outb p 0x3F6 2)
        0x1F2 (of_nat n)) 0x1F3 (of_nat (lba mod 256))) 0x1F4 (of_nat (lba div 256 mod 256)))
        0x1F5 (of_nat (lba div 65536 mod 256))) 0x1F7 c)))))
      (\<lambda>p'. ata_at d0 p' (ata_command (ucast c) (d\<lparr>regs := sector_regs (regs d) lba n\<rparr>)))"
      using q'(1) by (simp add: ata_at_wait)
  qed
qed

lemma concat_take_sectors:
  "\<forall>l. length (D l) = 512 \<Longrightarrow> length (concat (map D [a..<a + n])) = 512 * n"
  by (induction n) simp_all

lemma read_sectors_loop_ok:
  assumes "ata_at d0 p d" "phase d = data_in bs" "length bs = 512 * k" "512 * (i + k) \<le> length b"
  shows "returns (read_sectors_loop p b [i..<i + k]) (\<lambda>(p', b').
    ata_at d0 p' (d\<lparr>phase := Idle\<rparr>) \<and> b' = put_str b (512 * i) bs)"
  using assms
proof (induction k arbitrary: p d bs i b)
  case 0
  then have "ata_at d0 p (d\<lparr>phase := Idle\<rparr>)" by (cases d) (simp add: data_in_def)
  then show ?case using 0 by (simp add: put_str_def)
next
  case (Suc k)
  have up: "[i..<i + Suc k] = i # [Suc i..<Suc i + k]" by (simp add: upt_conv_Cons)
  have def: "phase d \<noteq> Undefined" using Suc.prems(2) by (simp add: data_in_def)
  show ?case unfolding up read_sectors_loop.simps
  proof (rule returns_bind_ro)
    show "returns (if 0 < i then bind_ro (ata_poll_bsy_drq p 1) (\<lambda>(_, p). Some (Inr p)) else Some (Inr p)) (\<lambda>p. ata_at d0 p d)"
      using Suc.prems(1) by (auto intro!: returns_bind_ro [OF ata_poll_bsy_drq_ok [OF Suc.prems(1) def]])
  next
    fix q assume q: "ata_at d0 q d"
    have buf: "returns (ata_read_buffer q b (512 * i) 512) (\<lambda>(p', b').
        ata_at d0 p' (d\<lparr>phase := data_in (drop 512 bs)\<rparr>) \<and> b' = put_str b (512 * i) (take 512 bs))"
      using ata_read_buffer_loop_ok [OF q Suc.prems(2), of 256 "512 * i" 0 b] Suc.prems(3,4) by (simp add: ata_read_buffer_def)
    show "returns (bind_ro (ata_read_buffer q b (512 * i) 512) (\<lambda>(p, b). read_sectors_loop p b [Suc i..<Suc i + k]))
      (\<lambda>(p', b'). ata_at d0 p' (d\<lparr>phase := Idle\<rparr>) \<and> b' = put_str b (512 * i) bs)"
    proof (rule returns_bind_ro [OF buf], clarify)
      fix q' assume q': "ata_at d0 q' (d\<lparr>phase := data_in (drop 512 bs)\<rparr>)"
      define b' where "b' = put_str b (512 * i) (take 512 bs)"
      have len: "length b' = length b" using Suc.prems(3,4) by (simp add: b'_def put_str_def)
      have "returns (read_sectors_loop q' b' [Suc i..<Suc i + k]) (\<lambda>(p', b'').
          ata_at d0 p' (d\<lparr>phase := data_in (drop 512 bs)\<rparr>\<lparr>phase := Idle\<rparr>) \<and> b'' = put_str b' (512 * Suc i) (drop 512 bs))"
        using Suc.prems(3,4) by (intro Suc.IH [OF q']) (simp_all add: len)
      moreover have "put_str b' (512 * Suc i) (drop 512 bs) = put_str b (512 * i) bs"
        using put_str_append [of "512 * i" "take 512 bs" b "drop 512 bs"] Suc.prems(3,4) by (simp add: b'_def add.commute)
      ultimately show "returns (read_sectors_loop q' (put_str b (512 * i) (take 512 bs)) [Suc i..<Suc i + k])
        (\<lambda>(p', b'). ata_at d0 p' (d\<lparr>phase := Idle\<rparr>) \<and> b' = put_str b (512 * i) bs)"
        by (simp add: b'_def)
    qed
  qed
qed

text \<open>The contents of the disk after \<open>n\<close> sectors are written.\<close>

definition store_sectors :: "(nat \<Rightarrow> char list) \<Rightarrow> nat \<Rightarrow> nat \<Rightarrow> char list \<Rightarrow> nat \<Rightarrow> char list" where
  "store_sectors D lba n bs = (\<lambda>l. if lba \<le> l \<and> l < lba + n then take 512 (drop (512 * (l - lba)) bs) else D l)"

lemma store_sectors_step:
  "(\<lambda>l. store_sectors (D(lba := take 512 bs)) (lba + 1) n (drop 512 bs) l) = store_sectors D lba (Suc n) bs"
proof
  fix l
  show "store_sectors (D(lba := take 512 bs)) (lba + 1) n (drop 512 bs) l = store_sectors D lba (Suc n) bs l"
  proof (cases "lba < l")
    case True
    then obtain k where "l = lba + 1 + k" using less_iff_Suc_add [of lba l] by auto
    then show ?thesis by (simp add: store_sectors_def add.commute)
  qed (simp add: store_sectors_def)
qed

lemma write_sectors_loop_ok:
  assumes "ata_at d0 p d" "phase d = (if k = 0 then Idle else DataOut lba k [])" "512 * (i + k) \<le> length b" "512 * (i + k) < 4294967296"
  shows "returns (write_sectors_loop p b [i..<i + k]) (\<lambda>p'.
    ata_at d0 p' (d\<lparr>phase := Idle, platter := store_sectors (platter d) lba k (drop (512 * i) b)\<rparr>))"
  using assms
proof (induction k arbitrary: p d i lba)
  case 0
  then have "ata_at d0 p (d\<lparr>phase := Idle, platter := platter d\<rparr>)" by (cases d) simp
  moreover have "store_sectors (platter d) lba 0 (drop (512 * i) b) = platter d"
    by (auto simp: store_sectors_def fun_eq_iff)
  ultimately show ?case by simp
next
  case (Suc k)
  have up: "[i..<i + Suc k] = i # [Suc i..<Suc i + k]" by (simp add: upt_conv_Cons)
  have ph: "phase d = DataOut lba (Suc k) []" using Suc.prems(2) by simp
  then have def: "phase d \<noteq> Undefined" by simp
  have mul: "mul32 512 i = 512 * i" using Suc.prems(4) by (simp add: mul32_def)
  show ?case unfolding up write_sectors_loop.simps mul
  proof (rule returns_bind_ro)
    have "ata_at d0 (read_ignore (0x3F6 + 0) p) d" using Suc.prems(1) by (simp add: ata_at_read_ignore)
    note this [THEN ata_poll_bsy_drq_ok, OF def]
    then show "returns (if 0 < i then bind_ro (ata_poll_bsy_drq (read_ignore (0x3F6 + 0) p) 1) (\<lambda>(_, p). Some (Inr p))
        else Some (Inr p)) (\<lambda>p. ata_at d0 p d)"
      using Suc.prems(1) by (auto intro!: returns_bind_ro)
  next
    fix q assume q: "ata_at d0 q d"
    define s where "s = take 512 (drop (512 * i) b)"
    have s: "length s = 512" using Suc.prems(3) by (simp add: s_def)
    have buf: "returns (ata_write_buffer q b (512 * i) 512) (\<lambda>p'. ata_at d0 p' (data_out lba (Suc k) s d))"
      using ata_write_buffer_loop_ok [OF q ph, of 256 "512 * i" 0 b] Suc.prems(3) by (simp add: ata_write_buffer_def s_def)
    define d' where "d' = d\<lparr>platter := (platter d)(lba := s), phase := (if k = 0 then Idle else DataOut (lba + 1) k [])\<rparr>"
    have d': "data_out lba (Suc k) s d = d'" using s by (simp add: data_out_def d'_def)
    show "returns (bind_ro (ata_write_buffer q b (512 * i) 512) (\<lambda>p. write_sectors_loop p b [Suc i..<Suc i + k]))
      (\<lambda>p'. ata_at d0 p' (d\<lparr>phase := Idle, platter := store_sectors (platter d) lba (Suc k) (drop (512 * i) b)\<rparr>))"
    proof (rule returns_bind_ro [OF buf], unfold d')
      fix q' assume q': "ata_at d0 q' d'"
      have "returns (write_sectors_loop q' b [Suc i..<Suc i + k]) (\<lambda>p'.
          ata_at d0 p' (d'\<lparr>phase := Idle, platter := store_sectors (platter d') (lba + 1) k (drop (512 * Suc i) b)\<rparr>))"
        using Suc.prems(3,4) by (intro Suc.IH [OF q']) (simp_all add: d'_def)
      moreover have "store_sectors (platter d') (lba + 1) k (drop (512 * Suc i) b) =
          store_sectors (platter d) lba (Suc k) (drop (512 * i) b)"
        using store_sectors_step [of "platter d" lba "drop (512 * i) b" k] by (simp add: d'_def s_def add.commute)
      ultimately show "returns (write_sectors_loop q' b [Suc i..<Suc i + k])
        (\<lambda>p'. ata_at d0 p' (d\<lparr>phase := Idle, platter := store_sectors (platter d) lba (Suc k) (drop (512 * i) b)\<rparr>))"
        by (simp add: d'_def)
    qed
  qed
qed

section \<open>The disk between two commands\<close>

definition disk_ok :: "(nat \<Rightarrow> char list) \<Rightarrow> machine \<Rightarrow> bool" where
  "disk_ok D m \<longleftrightarrow> (\<exists>d0 d. ata_at d0 (pio m) d \<and> phase d = Idle \<and> platter d = D) \<and> (\<forall>l. length (D l) = 512)"

text \<open>Only the ports have changed.\<close>

definition only_pio :: "machine \<Rightarrow> machine \<Rightarrow> bool" where
  "only_pio m m' \<longleftrightarrow> (\<exists>p. m' = m\<lparr>pio := p\<rparr>)"

lemma only_pio_refl [simp]: "only_pio m m" "only_pio m (m\<lparr>pio := p\<rparr>)"
  by (cases m) (auto simp: only_pio_def)

lemma only_pio_trans [trans]: "only_pio m m' \<Longrightarrow> only_pio m' m'' \<Longrightarrow> only_pio m m''"
  by (auto simp: only_pio_def)

lemma only_pioD: "only_pio m m' \<Longrightarrow> con m' = con m" "only_pio m m' \<Longrightarrow> mem m' = mem m" "only_pio m m' \<Longrightarrow> sched m' = sched m"
  by (auto simp: only_pio_def)

lemma disk_ok_length: "disk_ok D m \<Longrightarrow> length (D l) = 512"
  by (simp add: disk_ok_def)

lemma disk_ok_cong: "pio m' = pio m \<Longrightarrow> disk_ok D m' = disk_ok D m"
  by (simp add: disk_ok_def)

lemma disk_okI: "ata_at d0 p (d\<lparr>phase := Idle\<rparr>) \<Longrightarrow> platter d = D \<Longrightarrow> \<forall>l. length (D l) = 512 \<Longrightarrow> disk_ok D (m\<lparr>pio := p\<rparr>)"
  unfolding disk_ok_def by (intro conjI exI [of _ d0] exI [of _ "d\<lparr>phase := Idle\<rparr>"]) simp_all

lemma store_sectors_length:
  "\<forall>l. length (D l) = 512 \<Longrightarrow> 512 * n \<le> length b \<Longrightarrow> length (store_sectors D lba n b l) = 512"
proof -
  assume D: "\<forall>l. length (D l) = 512" "512 * n \<le> length b"
  have "512 \<le> length b - 512 * (l - lba)" if "lba \<le> l" "l < lba + n"
  proof -
    have "512 * (l - lba) + 512 \<le> 512 * n" using that by simp
    then show ?thesis using D(2) by linarith
  qed
  then show ?thesis using D(1) by (auto simp: store_sectors_def)
qed

lemma ata_read_sector_ok:
  assumes "disk_ok D m" "n = min (buf_size cmd div 512) (sec_num cmd)" "0 < n" "n \<le> 256" "lba_start cmd < 268435456"
    "512 * n \<le> length (io_buf cmd)"
  shows "returns (ata_read_sector m cmd) (\<lambda>(m', b, k). disk_ok D m' \<and> only_pio m m' \<and> k = n \<and>
    b = put_str (io_buf cmd) 0 (concat (map D [lba_start cmd..<lba_start cmd + n])))"
proof -
  obtain d0 d where d: "ata_at d0 (pio m) d" "phase d = Idle" "platter d = D" and D: "\<forall>l. length (D l) = 512"
    using assms(1) by (auto simp: disk_ok_def)
  define bs where "bs = concat (map D [lba_start cmd..<lba_start cmd + n])"
  have bs: "length bs = 512 * n" using concat_take_sectors [OF D, of "lba_start cmd" n] by (simp add: bs_def)
  then have ne: "bs \<noteq> []" using assms(3) by auto
  define d1 where "d1 = ata_command (ucast (0x20 :: u8)) (d\<lparr>regs := sector_regs (regs d) (lba_start cmd) n\<rparr>)"
  have d1: "phase d1 = data_in bs" "platter d1 = D"
    using d(2,3) assms(3-5) ne by (simp_all add: d1_def ata_command_def data_in_def flip: bs_def)
      (simp_all add: bs_def sector_regs_lba sector_regs_count)
  have n: "(if buf_size cmd div 512 < sec_num cmd then buf_size cmd div 512 else sec_num cmd) = n" using assms(2) by simp
  show ?thesis
    unfolding ata_read_sector_def Let_def n
  proof (subst if_not_P, use assms(3) in simp, rule returns_bind_ro [OF select_sector_ok [OF d(1,2)]], fold d1_def)
    fix p assume p: "ata_at d0 p d1"
    show "returns (bind_ro (read_sectors_loop p (io_buf cmd) [0..<n]) (\<lambda>(p, b). Some (Inr (m\<lparr>pio := p\<rparr>, b, n))))
      (\<lambda>(m', b, k). disk_ok D m' \<and> only_pio m m' \<and> k = n \<and> b = put_str (io_buf cmd) 0 (concat (map D [lba_start cmd..<lba_start cmd + n])))"
      using returns_bind_ro [OF read_sectors_loop_ok [OF p d1(1) bs, of 0 "io_buf cmd"]] assms(6) D d1(2)
      by (auto simp: bs_def intro!: disk_okI returns_bind_ro [OF read_sectors_loop_ok [OF p d1(1) bs, of 0 "io_buf cmd", simplified]])
  qed
qed

lemma ata_write_sector_ok:
  assumes "disk_ok D m" "n = sec_num cmd" "0 < n" "n \<le> 256" "lba_start cmd < 268435456" "512 * n \<le> length (io_buf cmd)"
  shows "returns (ata_write_sector m cmd) (\<lambda>(m', k).
    disk_ok (store_sectors D (lba_start cmd) n (io_buf cmd)) m' \<and> only_pio m m' \<and> k = n)"
proof -
  obtain d0 d where d: "ata_at d0 (pio m) d" "phase d = Idle" "platter d = D" and D: "\<forall>l. length (D l) = 512"
    using assms(1) by (auto simp: disk_ok_def)
  define D' where "D' = store_sectors D (lba_start cmd) n (io_buf cmd)"
  have D': "\<forall>l. length (D' l) = 512" using store_sectors_length [OF D assms(6)] by (simp add: D'_def)
  define d1 where "d1 = ata_command (ucast (0x30 :: u8)) (d\<lparr>regs := sector_regs (regs d) (lba_start cmd) n\<rparr>)"
  have d1: "phase d1 = (if n = 0 then Idle else DataOut (lba_start cmd) n [])" "platter d1 = D"
    using d(2,3) assms(3-5) by (simp_all add: d1_def ata_command_def sector_regs_lba sector_regs_count)
  define d2 where "d2 = d1\<lparr>phase := Idle, platter := D'\<rparr>"
  have d2: "phase d2 \<noteq> Undefined" "d2\<lparr>phase := Idle\<rparr> = d2" "platter d2 = D'" "ata_command 0xE7 d2 = d2"
    by (simp_all add: d2_def ata_command_def)
  show ?thesis
    unfolding ata_write_sector_def Let_def assms(2) [symmetric] D'_def [symmetric]
  proof (rule returns_bind_ro [OF select_sector_ok [OF d(1,2)]], fold d1_def)
    fix p assume p: "ata_at d0 p d1"
    have loop: "returns (write_sectors_loop p (io_buf cmd) [0..<n]) (\<lambda>p'. ata_at d0 p' d2)"
      using write_sectors_loop_ok [OF p d1(1), of 0 "io_buf cmd"] assms(4,6) d1(2) by (simp add: d2_def D'_def)
    show "returns (bind_ro (write_sectors_loop p (io_buf cmd) [0..<n]) (\<lambda>p.
        bind_ro (ata_poll_bsy_drq (read_ignore (0x3F6 + 0) p) 0) (\<lambda>(_, p).
        Option.bind (ata_poll_drdy p) (\<lambda>p.
        bind_ro (ata_poll_bsy_drq (ata_wait (outb p (0x1F0 + 7) 0xE7)) 0) (\<lambda>(_, p). Some (Inr (m\<lparr>pio := p\<rparr>, n)))))))
      (\<lambda>(m', k). disk_ok D' m' \<and> only_pio m m' \<and> k = n)"
    proof (rule returns_bind_ro [OF loop])
      fix p assume "ata_at d0 p d2"
      then have "ata_at d0 (read_ignore (0x3F6 + 0) p) d2" by (simp add: ata_at_read_ignore)
      from ata_poll_bsy_drq_ok [OF this d2(1), of 0]
      show "returns (bind_ro (ata_poll_bsy_drq (read_ignore (0x3F6 + 0) p) 0) (\<lambda>(_, p).
          Option.bind (ata_poll_drdy p) (\<lambda>p.
          bind_ro (ata_poll_bsy_drq (ata_wait (outb p (0x1F0 + 7) 0xE7)) 0) (\<lambda>(_, p). Some (Inr (m\<lparr>pio := p\<rparr>, n))))))
        (\<lambda>(m', k). disk_ok D' m' \<and> only_pio m m' \<and> k = n)"
      proof (rule returns_bind_ro, simp, clarify)
        fix q assume q: "ata_at d0 q d2"
        obtain q' where q': "ata_poll_drdy q = Some q'" "ata_at d0 q' d2" using ata_poll_drdy_ok [OF q d2(1)] by blast
        have "ata_at d0 (ata_wait (outb q' 0x1F7 0xE7)) d2"
          using ata_at_step(1) [OF q'(2), of "0x1F7" "0xE7"] d2(4) by (simp add: ata_at_wait)
        from ata_poll_bsy_drq_ok [OF this d2(1), of 0]
        show "returns (Option.bind (ata_poll_drdy q) (\<lambda>p.
            bind_ro (ata_poll_bsy_drq (ata_wait (outb p (0x1F0 + 7) 0xE7)) 0) (\<lambda>(_, p). Some (Inr (m\<lparr>pio := p\<rparr>, n)))))
          (\<lambda>(m', k). disk_ok D' m' \<and> only_pio m m' \<and> k = n)"
          using d2(2,3) D' by (auto simp: q'(1) intro!: disk_okI [of d0 _ d2] elim!: returns_bind_ro)
      qed
    qed
  qed
qed

section \<open>Interface\<close>

text \<open>
  A device of blocks of 512 bytes: \<open>good D s\<close> says that \<open>D\<close> is what the device holds in state \<open>s\<close>; reading returns
  the blocks and keeps them, writing replaces exactly the blocks written.
\<close>

locale block_device =
  fixes good :: "(nat \<Rightarrow> char list) \<Rightarrow> 's \<Rightarrow> bool"
    and read_op :: "'s \<Rightarrow> nat \<Rightarrow> nat \<Rightarrow> ('s \<times> char list) res option"
    and write_op :: "'s \<Rightarrow> nat \<Rightarrow> nat \<Rightarrow> char list \<Rightarrow> 's res option"
    and limit :: nat and most :: nat
  assumes read_law: "good D s \<Longrightarrow> 0 < n \<Longrightarrow> n \<le> most \<Longrightarrow> lba < limit \<Longrightarrow>
      returns (read_op s lba n) (\<lambda>(s', b). good D s' \<and> b = concat (map D [lba..<lba + n]))"
    and write_law: "good D s \<Longrightarrow> 0 < n \<Longrightarrow> n \<le> most \<Longrightarrow> lba < limit \<Longrightarrow> length b = 512 * n \<Longrightarrow>
      returns (write_op s lba n b) (good (store_sectors D lba n b))"
begin

lemma concat_blocks: "length b = 512 * n \<Longrightarrow> concat (map (\<lambda>i. take 512 (drop (512 * i) b)) [0..<n]) = b"
proof (induction n arbitrary: b)
  case (Suc n)
  have "concat (map (\<lambda>i. take 512 (drop (512 * i) b)) [0..<Suc n]) =
      concat (map (\<lambda>i. take 512 (drop (512 * i) (take (512 * n) b))) [0..<n]) @ take 512 (drop (512 * n) b)"
    by (simp add: take_drop add.commute min_def) (intro arg_cong [of _ _ concat] map_cong; simp)
  also have "\<dots> = take (512 * n) b @ drop (512 * n) b" using Suc by simp
  finally show ?case by simp
qed simp

text \<open>Blocks that were written are read back, and every other block is as before.\<close>

lemma write_read:
  assumes "good D s" "0 < n" "n \<le> most" "lba < limit" "length b = 512 * n"
  shows "returns (bind_ro (write_op s lba n b) (\<lambda>s. read_op s lba n)) (\<lambda>(s', b'). b' = b \<and> good (store_sectors D lba n b) s')"
proof (rule returns_bind_ro [OF write_law [OF assms]])
  fix s' assume s': "good (store_sectors D lba n b) s'"
  have "map (store_sectors D lba n b) [lba..<lba + n] = map (\<lambda>i. take 512 (drop (512 * i) b)) [0..<n]"
    by (rule nth_equalityI) (simp_all add: store_sectors_def)
  then have "concat (map (store_sectors D lba n b) [lba..<lba + n]) = b" using concat_blocks [OF assms(5)] by simp
  then show "returns (read_op s' lba n) (\<lambda>(s', b'). b' = b \<and> good (store_sectors D lba n b) s')"
    using read_law [OF s' assms(2-4)] by (auto simp: returns_def)
qed

lemma write_read_other:
  assumes "good D s" "0 < n" "n \<le> most" "lba < limit" "length b = 512 * n"
    and "0 < k" "k \<le> most" "l < limit" "l + k \<le> lba \<or> lba + n \<le> l"
  shows "returns (bind_ro (write_op s lba n b) (\<lambda>s. read_op s l k)) (\<lambda>(s', b'). b' = concat (map D [l..<l + k]))"
proof (rule returns_bind_ro [OF write_law [OF assms(1-5)]])
  fix s' assume s': "good (store_sectors D lba n b) s'"
  have "map (store_sectors D lba n b) [l..<l + k] = map D [l..<l + k]"
    using assms(9) by (intro map_cong) (auto simp: store_sectors_def)
  then show "returns (read_op s' l k) (\<lambda>(s', b'). b' = concat (map D [l..<l + k]))"
    using read_law [OF s' assms(6-8)] by (auto simp: returns_def simp del: map_eq_conv)
qed

end

text \<open>The operations of the driver with a buffer of the right size.\<close>

definition ata_read :: "machine \<Rightarrow> nat \<Rightarrow> nat \<Rightarrow> (machine \<times> char list) res option" where
  "ata_read m lba n =
     bind_ro (ata_read_sector m \<lparr>lba_start = lba, sec_num = n, io_buf = replicate (512 * n) NUL, buf_size = 512 * n\<rparr>)
       (\<lambda>(m, b, _). Some (Inr (m, b)))"

definition ata_write :: "machine \<Rightarrow> nat \<Rightarrow> nat \<Rightarrow> char list \<Rightarrow> machine res option" where
  "ata_write m lba n b =
     bind_ro (ata_write_sector m \<lparr>lba_start = lba, sec_num = n, io_buf = b, buf_size = 512 * n\<rparr>) (\<lambda>(m, _). Some (Inr m))"

interpretation ata: block_device disk_ok ata_read ata_write 268435456 256
proof
  fix D m and n lba :: nat
  assume A: "disk_ok D m" "0 < n" "n \<le> 256" "lba < 268435456"
  define bs where "bs = concat (map D [lba..<lba + n])"
  have "length bs = 512 * n" using concat_take_sectors [of D lba n] disk_ok_length [OF A(1)] by (simp add: bs_def)
  then have "put_str (replicate (512 * n) NUL) 0 bs = bs" by (simp add: put_str_def)
  then show "returns (ata_read m lba n) (\<lambda>(s', b). disk_ok D s' \<and> b = concat (map D [lba..<lba + n]))"
    using ata_read_sector_ok [OF A(1), of n "\<lparr>lba_start = lba, sec_num = n, io_buf = replicate (512 * n) NUL, buf_size = 512 * n\<rparr>"] A(2-4)
    by (auto simp: ata_read_def returns_def bs_def)
next
  fix D m and b :: "char list" and n lba :: nat
  assume "disk_ok D m" "0 < n" "n \<le> 256" "lba < 268435456" "length b = 512 * n"
  then show "returns (ata_write m lba n b) (disk_ok (store_sectors D lba n b))"
    using ata_write_sector_ok [of D m n "\<lparr>lba_start = lba, sec_num = n, io_buf = b, buf_size = 512 * n\<rparr>"]
    by (auto simp: ata_write_def returns_def)
qed

section \<open>A drive\<close>

text \<open>A drive that is always ready.\<close>

definition ready_drive :: "ata_drive \<Rightarrow> port_event list \<Rightarrow> u16 \<Rightarrow> u16" where
  "ready_drive d0 tr port = (let d = foldl ata_step d0 tr in
     if port = 0x1F7 \<or> port = 0x3F6 then 0x50
     else if port = 0x1F0 then (case phase d of DataIn bs \<Rightarrow> data_word bs | _ \<Rightarrow> 0) else 0)"

lemma ready_drive_device: "ata_device (ready_drive d0) d0"
proof -
  have "not_busy (reads 0 0x1F7 p) \<and> shows_bit 0x1F7 0x40 p 0 \<and> settled (foldl ata_step d0 (trace p)) p"
    if "dev p = ready_drive d0" for p
    using that by (simp add: not_busy_def shows_bit_def settled_def inb_def ready_drive_def Let_def log_event_def)
  then have "not_busy (reads 0 0x1F7 \<lparr>dev = ready_drive d0, trace = tr\<rparr>) \<and> shows_bit 0x1F7 0x40 \<lparr>dev = ready_drive d0, trace = tr\<rparr> 0 \<and>
      settled (foldl ata_step d0 tr) \<lparr>dev = ready_drive d0, trace = tr\<rparr>" for tr by (metis io.select_convs)
  then show ?thesis unfolding ata_device_def Let_def by blast
qed

definition disk_machine :: "console \<Rightarrow> (nat \<Rightarrow> char list) \<Rightarrow> machine" where
  "disk_machine c D = \<lparr>con = c, pio = \<lparr>dev = ready_drive \<lparr>regs = (\<lambda>_. 0), phase = Idle, platter = D, ident = []\<rparr>, trace = []\<rparr>,
     mem = (\<lambda>_. NUL), sched = undefined\<rparr>"

lemma disk_machine_ok: "\<forall>l. length (D l) = 512 \<Longrightarrow> disk_ok D (disk_machine c D)"
  unfolding disk_ok_def ata_at_def disk_machine_def
  by (intro conjI exI [of _ "\<lparr>regs = (\<lambda>_. 0), phase = Idle, platter = D, ident = []\<rparr>"]) (simp_all add: ready_drive_device)

section \<open>Properties\<close>

text \<open>
  C5. On a drive that keeps to the ATA protocol, whatever time it is busy, \<open>ata_read_sector\<close> returns: it stores the
  sectors from \<open>lba_start\<close> on into the buffer, as many as were asked for and fit, leaves the rest of the buffer and the disk
  as they are, and reports the number of sectors.
\<close>

theorem ata_read_sector_correct:
  assumes "disk_ok D m" "n = min (buf_size cmd div 512) (sec_num cmd)" "0 < n" "n \<le> 256" "lba_start cmd < 268435456"
    and "512 * n \<le> length (io_buf cmd)"
  shows "returns (ata_read_sector m cmd) (\<lambda>(m', b, k). disk_ok D m' \<and> only_pio m m' \<and> k = n \<and>
    b = concat (map D [lba_start cmd..<lba_start cmd + n]) @ drop (512 * n) (io_buf cmd))"
proof -
  have "put_str (io_buf cmd) 0 (concat (map D [lba_start cmd..<lba_start cmd + n])) =
      concat (map D [lba_start cmd..<lba_start cmd + n]) @ drop (512 * n) (io_buf cmd)"
    using concat_take_sectors [of D "lba_start cmd" n] disk_ok_length [OF assms(1)] by (simp add: put_str_def)
  then show ?thesis using ata_read_sector_ok [OF assms] by simp
qed

theorem ata_read_sector_correct_witness:
  "\<exists>m. disk_ok (\<lambda>l. replicate 512 (if l = 7 then CHR ''x'' else NUL)) m \<and>
     returns (ata_read_sector m \<lparr>lba_start = 7, sec_num = 9, io_buf = replicate 1000 NUL, buf_size = 1000\<rparr>)
       (\<lambda>(m', b, k). k = 1 \<and> b = replicate 512 (CHR ''x'') @ replicate 488 NUL)"
proof -
  define D where "D = (\<lambda>l :: nat. replicate 512 (if l = 7 then CHR ''x'' else NUL))"
  have ok: "disk_ok D (disk_machine boot_console D)" by (rule disk_machine_ok) (simp add: D_def)
  have "returns (ata_read_sector (disk_machine boot_console D) \<lparr>lba_start = 7, sec_num = 9, io_buf = replicate 1000 NUL, buf_size = 1000\<rparr>)
      (\<lambda>(m', b, k). k = 1 \<and> b = replicate 512 (CHR ''x'') @ replicate 488 NUL)"
    by (rule returns_mono [OF ata_read_sector_correct [OF ok, of 1]]) (auto simp: D_def)
  then show ?thesis using ok unfolding D_def by blast
qed

text \<open>
  C6. What \<open>ata_write_sector\<close> stores, \<open>ata_read_sector\<close> reads back, for any number of sectors up to 256 and any contents of the
  buffer, and no other sector of the disk changes.
\<close>

theorem ata_write_read_roundtrip:
  assumes "disk_ok D m" "0 < n" "n \<le> 256" "lba < 268435456" "length b = 512 * n"
  shows "returns (bind_ro (ata_write_sector m \<lparr>lba_start = lba, sec_num = n, io_buf = b, buf_size = 512 * n\<rparr>) (\<lambda>(m, _).
      ata_read_sector m \<lparr>lba_start = lba, sec_num = n, io_buf = replicate (512 * n) NUL, buf_size = 512 * n\<rparr>))
    (\<lambda>(m', b', k). b' = b \<and> k = n \<and> disk_ok (store_sectors D lba n b) m' \<and>
       (\<forall>l. l < lba \<or> lba + n \<le> l \<longrightarrow> store_sectors D lba n b l = D l))"
proof -
  let ?w = "ata_write_sector m \<lparr>lba_start = lba, sec_num = n, io_buf = b, buf_size = 512 * n\<rparr>"
  let ?r = "\<lambda>m. ata_read_sector m \<lparr>lba_start = lba, sec_num = n, io_buf = replicate (512 * n) NUL, buf_size = 512 * n\<rparr>"
  have "returns (bind_ro ?w (\<lambda>(m, _). ?r m)) (\<lambda>(m', b', k). k = n)"
    using assms by (intro returns_bind_ro [OF ata_write_sector_ok]) (auto intro!: returns_mono [OF ata_read_sector_ok])
  moreover have "bind_ro (ata_write m lba n b) (\<lambda>s. ata_read s lba n) = bind_ro (bind_ro ?w (\<lambda>(m, _). ?r m)) (\<lambda>(m, b, _). Some (Inr (m, b)))"
    by (simp add: ata_write_def ata_read_def bind_ro_assoc split_beta)
  ultimately show ?thesis
    using ata.write_read [OF assms] by (auto simp: returns_def store_sectors_def)
qed

theorem ata_write_read_roundtrip_witness:
  "\<exists>m. disk_ok (\<lambda>l. replicate 512 NUL) m \<and>
     returns (bind_ro (ata_write_sector m \<lparr>lba_start = 3, sec_num = 2, io_buf = replicate 1024 (CHR ''x''), buf_size = 1024\<rparr>) (\<lambda>(m, _).
       ata_read_sector m \<lparr>lba_start = 3, sec_num = 2, io_buf = replicate 1024 NUL, buf_size = 1024\<rparr>))
     (\<lambda>(m', b', k). b' = replicate 1024 (CHR ''x'') \<and> k = 2)"
proof -
  have ok: "disk_ok (\<lambda>l. replicate 512 NUL) (disk_machine boot_console (\<lambda>l. replicate 512 NUL))" by (rule disk_machine_ok) simp
  have "returns (bind_ro (ata_write_sector (disk_machine boot_console (\<lambda>l. replicate 512 NUL))
        \<lparr>lba_start = 3, sec_num = 2, io_buf = replicate 1024 (CHR ''x''), buf_size = 1024\<rparr>) (\<lambda>(m, _).
      ata_read_sector m \<lparr>lba_start = 3, sec_num = 2, io_buf = replicate 1024 NUL, buf_size = 1024\<rparr>))
    (\<lambda>(m', b', k). b' = replicate 1024 (CHR ''x'') \<and> k = 2)"
    using returns_mono [OF ata_write_read_roundtrip [OF ok, of 2 3 "replicate 1024 (CHR ''x'')"],
      of "\<lambda>(m', b', k). b' = replicate 1024 (CHR ''x'') \<and> k = 2"] by auto
  then show ?thesis using ok by blast
qed

text \<open>
  C39. The test of the data request bit in \<open>ata_poll_bsy_drq\<close> never fails, because the complement of the status is taken of an
  \<open>int\<close>: for both values of \<open>set_drq\<close> the function does the same as \<open>ata_poll_bsy\<close>, and \<open>ata polling drq error\<close> is never raised.
\<close>

theorem ata_drq_test_void:
  "ata_poll_bsy_drq p 0 = ata_poll_bsy p \<and> ata_poll_bsy_drq p 1 = ata_poll_bsy p \<and>
     ata_poll_bsy_drq p 0 \<noteq> Some (Inl (Panic ''ata polling drq error'')) \<and>
     ata_poll_bsy_drq p 1 \<noteq> Some (Inl (Panic ''ata polling drq error''))"
  by (auto simp: ata_poll_bsy_drq_eq ata_poll_bsy_def bind_eq_Some_conv Let_def split: prod.splits if_splits)

end
