(* ===== verification/Ts_Fat_Table.thy ===== *)
theory Ts_Fat_Table
  imports Ts_Fat Ts_Ata_Props
begin

text \<open>
  The file allocation table on the disk. \<open>fat_of\<close> reads the table as a function from clusters to 16-bit values;
  \<open>fat_get_next_cluster\<close> and \<open>write_fat\<close> implement it (the interface \<open>fat_table\<close>), the walk that frees a chain ends on every
  table, and the search for a free cluster finds the first one.
\<close>

section \<open>Bytes\<close>

lemma length_bytes16 [simp]: "length (bytes16 n) = 2"
  by (simp add: bytes16_def)

lemma length_bytes32 [simp]: "length (bytes32 n) = 4"
  by (simp add: bytes32_def)

lemma le16_bound: "le16 b i < 65536"
proof -
  have "of_char (b ! i) < (256 :: nat)" "of_char (b ! (i + 1)) < (256 :: nat)" by (rule nat_of_char_less_256)+
  then show ?thesis unfolding le16_def by linarith
qed

lemma le16_bytes16: "le16 (bytes16 n) 0 = n mod 65536"
proof -
  have "n mod 65536 = n mod 256 + 256 * (n div 256 mod 256)" using mod_mult2_eq [of n 256 256] by simp
  then show ?thesis by (simp add: le16_def bytes16_def)
qed

lemma le16_append:
  "i + 1 < length b \<Longrightarrow> le16 (b @ c) i = le16 b i" "length b \<le> i \<Longrightarrow> le16 (b @ c) i = le16 c (i - length b)"
  by (auto simp: le16_def nth_append Suc_diff_le)

text \<open>A value that is stored is read back, and a value at another place is not changed.\<close>

lemma le16_put:
  assumes "put_bytes b i (bytes16 v) = Inr b'"
  shows "le16 b' i = v mod 65536" "j + 1 < i \<or> i + 1 < j \<Longrightarrow> j + 1 < length b \<Longrightarrow> le16 b' j = le16 b j" "length b' = length b"
proof -
  have b: "i + 2 \<le> length b" "b' = take i b @ bytes16 v @ drop (i + 2) b"
    using assms by (auto simp: put_bytes_def split: if_splits)
  show "le16 b' i = v mod 65536" using b le16_bytes16 [of v] by (simp add: le16_append)
  show "le16 b' j = le16 b j" if "j + 1 < i \<or> i + 1 < j" "j + 1 < length b"
  proof -
    have "b' ! k = b ! k" if "k < i \<or> i + 1 < k" "k < length b" for k
      using that b by (auto simp: nth_append le_add_diff_inverse2 simp flip: add_2_eq_Suc')
    from this [of j] this [of "j + 1"] show ?thesis using that by (auto simp: le16_def)
  qed
  show "length b' = length b" using b by simp
qed

section \<open>Geometry\<close>

text \<open>
  The volumes considered: sectors of 512 bytes, the table on \<open>sectors_fat\<close> sectors from \<open>fat_start\<close> on, at most 256 of them,
  before the root directory, and the data after it; no 16-bit sector number overflows.
\<close>

definition vol_ok :: "Fat16Volume \<Rightarrow> bool" where
  "vol_ok vol \<longleftrightarrow> bytes_per_sector (sb vol) = 512 \<and> 0 < sectors_per_cluster (sb vol) \<and> sectors_per_cluster (sb vol) < 256 \<and>
     cluster_bytes vol = sectors_per_cluster (sb vol) * 512 \<and> fat_start vol + 256 \<le> 65536 \<and> sectors_fat (sb vol) \<le> 256 \<and>
     fat_start vol + sectors_fat (sb vol) \<le> root_dir_start vol \<and> root_dir_start vol + root_sectors vol \<le> data_start vol \<and>
     data_start vol < 65536"

lemma vol_okD:
  assumes "vol_ok vol"
  shows "bytes_per_sector (sb vol) = 512" "0 < sectors_per_cluster (sb vol)" "sectors_per_cluster (sb vol) < 256"
    "cluster_bytes vol = 512 * sectors_per_cluster (sb vol)" "fat_start vol + 256 \<le> 65536" "sectors_fat (sb vol) \<le> 256"
    "fat_start vol + sectors_fat (sb vol) \<le> root_dir_start vol" "root_dir_start vol + root_sectors vol \<le> data_start vol"
    "data_start vol < 65536"
  using assms by (simp_all add: vol_ok_def mult.commute)

definition fat_sector :: "Fat16Volume \<Rightarrow> nat \<Rightarrow> nat" where
  "fat_sector vol c = fat_start vol + c div 256"

definition fat_of :: "Fat16Volume \<Rightarrow> (nat \<Rightarrow> char list) \<Rightarrow> nat \<Rightarrow> nat" where
  "fat_of vol D c = le16 (D (fat_sector vol c)) (2 * (c mod 256))"

definition set_fat :: "Fat16Volume \<Rightarrow> (nat \<Rightarrow> char list) \<Rightarrow> nat \<Rightarrow> nat \<Rightarrow> nat \<Rightarrow> char list" where
  "set_fat vol D c v = (let s = D (fat_sector vol c); i = 2 * (c mod 256) in
     D(fat_sector vol c := take i s @ bytes16 v @ drop (i + 2) s))"

lemma mod_256_bound: "2 * (c mod 256) + 1 < (512 :: nat)"
  using mod_less_divisor [of 256 c] by linarith

lemma fat_of_set_fat:
  assumes "\<forall>l. length (D l) = 512"
  shows "fat_of vol (set_fat vol D c v) = (fat_of vol D)(c := v mod 65536)"
proof
  fix x :: nat
  define b where "b = take (2 * (c mod 256)) (D (fat_sector vol c)) @ bytes16 v @ drop (2 * (c mod 256) + 2) (D (fat_sector vol c))"
  have "2 * (c mod 256) + 1 < 512" by (rule mod_256_bound)
  then have put: "put_bytes (D (fat_sector vol c)) (2 * (c mod 256)) (bytes16 v) = Inr b"
    using assms by (simp add: put_bytes_def b_def)
  have set: "set_fat vol D c v = D(fat_sector vol c := b)" by (simp add: set_fat_def b_def Let_def)
  have xb: "2 * (x mod 256) + 1 < (512 :: nat)" by (rule mod_256_bound)
  consider "x = c" | "x div 256 \<noteq> c div 256" | "x mod 256 \<noteq> c mod 256" using div_mod_decomp [of x 256] div_mod_decomp [of c 256] by metis
  then show "fat_of vol (set_fat vol D c v) x = ((fat_of vol D)(c := v mod 65536)) x"
  proof cases
    case 1
    then show ?thesis using le16_put(1) [OF put] by (simp add: fat_of_def set)
  next
    case 2
    then have "fat_sector vol x \<noteq> fat_sector vol c" "x \<noteq> c" by (auto simp: fat_sector_def)
    then show ?thesis by (simp add: fat_of_def set)
  next
    case 3
    then have "le16 b (2 * (x mod 256)) = le16 (D (fat_sector vol c)) (2 * (x mod 256))"
      using xb assms by (intro le16_put(2) [OF put]) auto
    then show ?thesis using 3 by (auto simp: fat_of_def set)
  qed
qed

lemma set_fat_other: "l \<noteq> fat_sector vol c \<Longrightarrow> set_fat vol D c v l = D l"
  by (simp add: set_fat_def Let_def)

section \<open>Reading and writing entries\<close>

lemma length_local_buf [simp]: "length (local_buf stk n) = n"
  by (simp add: local_buf_def)

lemma read_fat_ok:
  assumes "disk_ok D m" "vol_ok vol" "c < 65536" "length b = 512"
  shows "returns (read_fat m vol c b) (\<lambda>(m', b', s). disk_ok D m' \<and> only_pio m m' \<and> b' = D (fat_sector vol c) \<and> s = fat_sector vol c)"
proof -
  note v = vol_okD [OF assms(2)]
  have s: "(fat_start vol + c * 2 div 512) mod 65536 = fat_sector vol c"
  proof -
    have "c * 2 div 512 = c div 256" using div_mult_mult2 [of 2 c 256] by simp
    moreover have "c div 256 < 256" using assms(3) by (simp add: less_mult_imp_div_less)
    ultimately show ?thesis using v(5) by (simp add: fat_sector_def)
  qed
  have l: "fat_sector vol c < 268435456"
    using v(5) less_mult_imp_div_less [of c 256 256] assms(3) by (simp add: fat_sector_def)
  define cmd where "cmd = \<lparr>lba_start = fat_sector vol c, sec_num = 1, io_buf = b, buf_size = 512\<rparr>"
  have "returns (ata_read_sector m cmd) (\<lambda>(m', b, k). disk_ok D m' \<and> only_pio m m' \<and> k = 1 \<and>
      b = put_str (io_buf cmd) 0 (concat (map D [lba_start cmd..<lba_start cmd + 1])))"
    using assms l by (intro ata_read_sector_ok) (simp_all add: cmd_def)
  moreover have "put_str b 0 (D (fat_sector vol c)) = D (fat_sector vol c)"
    using disk_ok_length [OF assms(1)] assms(4) by (simp add: put_str_def)
  ultimately obtain m' where "ata_read_sector m cmd = Some (Inr (m', D (fat_sector vol c), 1))" "disk_ok D m'" "only_pio m m'"
    by (auto simp: returns_def cmd_def)
  then show ?thesis unfolding read_fat_def udiv_def v(1) by (simp add: Let_def s [simplified] cmd_def)
qed

lemma fat_get_next_cluster_ok:
  assumes "disk_ok D m" "vol_ok vol" "c < 65536"
  shows "returns (fat_get_next_cluster m stk vol c) (\<lambda>(m', v). disk_ok D m' \<and> only_pio m m' \<and> v = fat_of vol D c)"
proof -
  obtain m' where "read_fat m vol c (local_buf stk 512) = Some (Inr (m', D (fat_sector vol c), fat_sector vol c))" "disk_ok D m'" "only_pio m m'"
    using read_fat_ok [OF assms, of "local_buf stk 512"] by (auto simp: returns_def)
  then show ?thesis
    using assms(3) mod_256_bound [of c] disk_ok_length [OF assms(1)]
    by (simp add: fat_get_next_cluster_def umod_def vol_okD(1) [OF assms(2)] Let_def rd16_def fat_of_def)
qed

lemma write_fat_ok:
  assumes "disk_ok D m" "vol_ok vol" "c < 65536"
  shows "returns (write_fat m stk vol c v) (\<lambda>(m', _). disk_ok (set_fat vol D c v) m' \<and> only_pio m m')"
proof -
  define b where "b = take (2 * (c mod 256)) (D (fat_sector vol c)) @ bytes16 v @ drop (2 * (c mod 256) + 2) (D (fat_sector vol c))"
  have len: "length b = 512" using mod_256_bound [of c] disk_ok_length [OF assms(1)] by (simp add: b_def)
  have put: "put_bytes (D (fat_sector vol c)) (2 * (c mod 256)) (bytes16 v) = Inr b"
    using mod_256_bound [of c] disk_ok_length [OF assms(1)] by (simp add: put_bytes_def b_def)
  have l: "fat_sector vol c < 268435456"
    using vol_okD(5) [OF assms(2)] less_mult_imp_div_less [of c 256 256] assms(3) by (simp add: fat_sector_def)
  have st: "store_sectors D (fat_sector vol c) 1 b = set_fat vol D c v"
    using len by (auto simp: store_sectors_def set_fat_def b_def Let_def fun_eq_iff)
  obtain q where q: "read_fat m vol c (local_buf stk 512) = Some (Inr (q, D (fat_sector vol c), fat_sector vol c))" "disk_ok D q" "only_pio m q"
    using read_fat_ok [OF assms, of "local_buf stk 512"] by (auto simp: returns_def)
  define cmd where "cmd = \<lparr>lba_start = fat_sector vol c, sec_num = 1, io_buf = b, buf_size = 512\<rparr>"
  obtain m' k where "ata_write_sector q cmd = Some (Inr (m', k))" "disk_ok (set_fat vol D c v) m'" "only_pio q m'"
    using ata_write_sector_ok [OF q(2), of 1 cmd] l len st by (auto simp: cmd_def returns_def)
  then show ?thesis
    using q(1,3) assms(3) put only_pio_trans by (auto simp: write_fat_def umod_def vol_okD(1) [OF assms(2)] Let_def cmd_def)
qed

section \<open>The table as an interface\<close>

text \<open>
  Clusters that a walk from \<open>c\<close> along the table \<open>F\<close> visits while the cluster number is a normal one.
\<close>

inductive_set chain_set :: "(nat \<Rightarrow> nat) \<Rightarrow> nat \<Rightarrow> nat set" for F c where
  start: "FAT_CLUS_NORMAL c \<Longrightarrow> c \<in> chain_set F c"
| follow: "x \<in> chain_set F c \<Longrightarrow> FAT_CLUS_NORMAL (F x) \<Longrightarrow> F x \<in> chain_set F c"

lemma chain_set_normal: "x \<in> chain_set F c \<Longrightarrow> FAT_CLUS_NORMAL x"
  by (induction rule: chain_set.induct)

lemma chain_set_end: "\<not> FAT_CLUS_NORMAL c \<Longrightarrow> chain_set F c = {}"
proof -
  have "x \<in> chain_set F c \<Longrightarrow> FAT_CLUS_NORMAL c" for x by (induction rule: chain_set.induct)
  then show "\<not> FAT_CLUS_NORMAL c \<Longrightarrow> chain_set F c = {}" by blast
qed

lemma normal_0 [simp]: "\<not> FAT_CLUS_NORMAL 0"
  by (simp add: FAT_CLUS_NORMAL_def)

lemma normal_bound: "FAT_CLUS_NORMAL c \<Longrightarrow> c < 65536"
  by (simp add: FAT_CLUS_NORMAL_def)

text \<open>Freeing the first cluster of a walk leaves the rest of the walk.\<close>

lemma chain_set_step:
  assumes "FAT_CLUS_NORMAL c"
  shows "insert c (chain_set (F(c := 0)) (F c)) = chain_set F c"
proof
  have "x \<in> chain_set F c" if "x \<in> chain_set (F(c := 0)) (F c)" for x
    using that
  proof (induction rule: chain_set.induct)
    case start
    then show ?case using assms chain_set.follow [OF chain_set.start] by blast
  next
    case (follow x)
    then show ?case using chain_set.follow [of x F c] by (auto split: if_splits)
  qed
  then show "insert c (chain_set (F(c := 0)) (F c)) \<subseteq> chain_set F c" using assms chain_set.start by blast
  have "x \<in> insert c (chain_set (F(c := 0)) (F c))" if "x \<in> chain_set F c" for x
    using that
  proof (induction rule: chain_set.induct)
    case (follow x)
    show ?case
    proof (cases "x = c")
      case True
      then show ?thesis using follow(2) chain_set.start [of "F c"] by simp
    next
      case False
      then have "x \<in> chain_set (F(c := 0)) (F c)" using follow(3) by blast
      then show ?thesis using chain_set.follow [of x "F(c := 0)" "F c"] follow(2) fun_upd_other [OF False, of F 0] by (simp del: fun_upd_apply)
    qed
  qed simp
  then show "chain_set F c \<subseteq> insert c (chain_set (F(c := 0)) (F c))" by blast
qed

text \<open>
  A table that can be read and written entry by entry; \<open>free\<close> is a loop that frees the entries of a walk. It returns for
  every table, also for one with a cycle, because the walk stops at an entry it has freed before, and it frees exactly the
  clusters of the walk.
\<close>

locale fat_table =
  fixes good :: "(nat \<Rightarrow> nat) \<Rightarrow> 's \<Rightarrow> bool"
    and get :: "'s \<Rightarrow> nat \<Rightarrow> ('s \<times> nat) res option"
    and put :: "'s \<Rightarrow> nat \<Rightarrow> nat \<Rightarrow> 's res option"
    and free :: "'s \<Rightarrow> nat \<Rightarrow> 's res option"
  assumes get_law: "good F s \<Longrightarrow> c < 65536 \<Longrightarrow> returns (get s c) (\<lambda>(s', v). good F s' \<and> v = F c)"
    and put_law: "good F s \<Longrightarrow> c < 65536 \<Longrightarrow> v < 65536 \<Longrightarrow> returns (put s c v) (good (F(c := v)))"
    and free_unfold: "free s c = (if FAT_CLUS_NORMAL c
      then bind_ro (get s c) (\<lambda>(s, nxt). bind_ro (put s c 0) (\<lambda>s. free s nxt)) else Some (Inr s))"
begin

lemma put_get: "good F s \<Longrightarrow> c < 65536 \<Longrightarrow> v < 65536 \<Longrightarrow> d < 65536 \<Longrightarrow>
    returns (bind_ro (put s c v) (\<lambda>s. get s d)) (\<lambda>(_, w). w = (if d = c then v else F d))"
  by (rule returns_bind_ro [OF put_law], assumption+, rule returns_mono [OF get_law]) (auto split: if_splits)

lemma free_returns: "good F s \<Longrightarrow> returns (free s c) (good (\<lambda>x. if x \<in> chain_set F c then 0 else F x))"
proof (induction "card {x. FAT_CLUS_NORMAL x \<and> F x \<noteq> 0}" arbitrary: F s c rule: less_induct)
  case less
  show ?case
  proof (cases "FAT_CLUS_NORMAL c")
    case False
    then have "free s c = Some (Inr s)" using free_unfold [of s c] by simp
    then show ?thesis using less.prems chain_set_end [OF False, of F] by simp
  next
    case True
    define F' where "F' = F(c := 0)"
    obtain s1 where s1: "get s c = Some (Inr (s1, F c))" "good F s1"
      using get_law [OF less.prems normal_bound [OF True]] by (auto simp: returns_def)
    obtain s2 where s2: "put s1 c 0 = Some (Inr s2)" "good F' s2"
      using put_law [OF s1(2) normal_bound [OF True], of 0] by (auto simp: returns_def F'_def)
    have eq: "free s c = free s2 (F c)" using True s1(1) s2(1) free_unfold [of s c] by simp
    have all: "(\<lambda>x. if x \<in> chain_set F' (F c) then 0 else F' x) = (\<lambda>x. if x \<in> chain_set F c then 0 else F x)"
      using chain_set_step [OF True, of F] by (auto simp: F'_def fun_eq_iff)
    show ?thesis
    proof (cases "F c = 0")
      case True
      then have "free s2 (F c) = Some (Inr s2)" using free_unfold [of s2 "F c"] by simp
      moreover have "good (\<lambda>x. if x \<in> chain_set F' (F c) then 0 else F' x) s2" using s2(2) True chain_set_end [of 0 F'] by simp
      ultimately show ?thesis using eq all by simp
    next
      case nz: False
      have fin: "finite {x. FAT_CLUS_NORMAL x \<and> F x \<noteq> 0}"
        by (rule finite_subset [of _ "{..<65536}"]) (auto dest: normal_bound)
      have "{x. FAT_CLUS_NORMAL x \<and> F' x \<noteq> 0} \<subset> {x. FAT_CLUS_NORMAL x \<and> F x \<noteq> 0}" using True nz by (auto simp: F'_def)
      then have "card {x. FAT_CLUS_NORMAL x \<and> F' x \<noteq> 0} < card {x. FAT_CLUS_NORMAL x \<and> F x \<noteq> 0}" by (rule psubset_card_mono [OF fin])
      from less.hyps [OF this s2(2), of "F c"] show ?thesis using eq all by simp
    qed
  qed
qed

end

text \<open>
  The table of a volume. What the operations keep besides the table: the machine except its ports, and every sector
  outside the table.
\<close>

definition fat_frame :: "Fat16Volume \<Rightarrow> machine \<Rightarrow> (nat \<Rightarrow> char list) \<Rightarrow> (nat \<Rightarrow> nat) \<Rightarrow> machine \<Rightarrow> bool" where
  "fat_frame vol m0 D0 F m \<longleftrightarrow> vol_ok vol \<and> only_pio m0 m \<and> (\<exists>D. disk_ok D m \<and> fat_of vol D = F \<and>
     (\<forall>l. l < fat_start vol \<or> fat_start vol + 256 \<le> l \<longrightarrow> D l = D0 l))"

lemma fat_sector_range: "c < 65536 \<Longrightarrow> fat_start vol \<le> fat_sector vol c \<and> fat_sector vol c < fat_start vol + 256"
  using less_mult_imp_div_less [of c 256 256] by (simp add: fat_sector_def)

interpretation fat: fat_table "fat_frame vol m0 D0" "\<lambda>m c. fat_get_next_cluster m stk vol c"
  "\<lambda>m c v. bind_ro (write_fat m stk vol c v) (\<lambda>(m, _). Some (Inr m))" "fat_free_clusters_until_end stk vol"
  for vol m0 D0 stk
proof
  fix F m c
  assume A: "fat_frame vol m0 D0 F m" "c < (65536 :: nat)"
  then obtain D where assms: "vol_ok vol" and D: "disk_ok D m" "fat_of vol D = F" "only_pio m0 m" "\<forall>l. l < fat_start vol \<or> fat_start vol + 256 \<le> l \<longrightarrow> D l = D0 l"
    by (auto simp: fat_frame_def)
  show "returns (fat_get_next_cluster m stk vol c) (\<lambda>(s', v). fat_frame vol m0 D0 F s' \<and> v = F c)"
    by (rule returns_mono [OF fat_get_next_cluster_ok [OF D(1) assms A(2)]]) (use D assms in \<open>auto simp: fat_frame_def intro: only_pio_trans\<close>)
  fix v :: nat
  assume v: "v < 65536"
  obtain m' k where w: "write_fat m stk vol c v = Some (Inr (m', k))" "disk_ok (set_fat vol D c v) m'" "only_pio m m'"
    using write_fat_ok [OF D(1) assms A(2), of stk v] by (auto simp: returns_def)
  have "fat_of vol (set_fat vol D c v) = F(c := v)" using fat_of_set_fat [of D vol c v] disk_ok_length [OF D(1)] D(2) v by simp
  moreover have "set_fat vol D c v l = D0 l" if "l < fat_start vol \<or> fat_start vol + 256 \<le> l" for l
    using that D(4) set_fat_other [of l vol c D v] fat_sector_range [OF A(2), of vol] by auto
  ultimately have "fat_frame vol m0 D0 (F(c := v)) m'"
    unfolding fat_frame_def using assms D(3) w only_pio_trans by blast
  then show "returns (bind_ro (write_fat m stk vol c v) (\<lambda>(m, _). Some (Inr m))) (fat_frame vol m0 D0 (F(c := v)))"
    using w(1) by simp
next
  fix m c
  show "fat_free_clusters_until_end stk vol m c = (if FAT_CLUS_NORMAL c
      then bind_ro (fat_get_next_cluster m stk vol c) (\<lambda>(s, nxt).
        bind_ro (bind_ro (write_fat s stk vol c 0) (\<lambda>(m, _). Some (Inr m))) (\<lambda>s. fat_free_clusters_until_end stk vol s nxt))
      else Some (Inr m))"
    by (subst fat_free_clusters_until_end.simps) (simp add: bind_ro_assoc case_prod_unfold)
qed

section \<open>Searching a free cluster\<close>

text \<open>The table entries of consecutive sectors are the little endian words of their bytes.\<close>

lemma nth_concat_sectors:
  assumes "\<forall>l. length (D l) = 512" "i < 512 * n"
  shows "concat (map D [a..<a + n]) ! i = D (a + i div 512) ! (i mod 512)"
  using assms(2)
proof (induction n)
  case (Suc n)
  have len: "length (concat (map D [a..<a + n])) = 512 * n" using concat_take_sectors [OF assms(1)] .
  show ?case
  proof (cases "i < 512 * n")
    case True
    then show ?thesis using Suc.IH len by (simp add: nth_append)
  next
    case False
    then obtain k where k: "i = 512 * n + k" "k < 512" using Suc.prems le_iff_add [of "512 * n" i] by auto
    then have "i div 512 = n" "i mod 512 = k" by simp_all
    then show ?thesis using k len by (simp add: nth_append)
  qed
qed simp

lemma le16_concat_sectors:
  assumes "\<forall>l. length (D l) = 512" "2 * j + 1 < 512 * n"
  shows "le16 (concat (map D [a..<a + n])) (2 * j) = le16 (D (a + j div 256)) (2 * (j mod 256))"
proof -
  define q r where "q = j div 256" and "r = j mod 256"
  have "2 * j = 512 * q + 2 * r" using div_mult_mod_eq [of j 256] unfolding q_def r_def by linarith
  moreover have "2 * r + 1 < 512" using mod_256_bound [of j] by (simp add: r_def)
  ultimately have j: "2 * j = 512 * q + 2 * r" "2 * r + 1 < 512" by blast+
  have e: "2 * j div 512 = q" "2 * j mod 512 = 2 * r" "(2 * j + 1) div 512 = q" "(2 * j + 1) mod 512 = 2 * r + 1"
    unfolding j(1) using j(2) by simp_all
  show ?thesis
    using nth_concat_sectors [OF assms(1), of "2 * j" n a] nth_concat_sectors [OF assms(1), of "2 * j + 1" n a] assms(2)
    by (simp only: le16_def e) (simp add: q_def r_def)
qed

definition free_entry :: "(nat \<Rightarrow> nat) \<Rightarrow> nat \<Rightarrow> bool" where
  "free_entry F c \<longleftrightarrow> 2 < c \<and> F c = 0"

lemma free_in_block_spec:
  assumes "\<forall>k<N. le16 b (2 * k) = F (base + k)" "2 * N \<le> length b" "i \<le> N" "base + N \<le> 65536" "cnt = (base + i) mod 65536"
  shows "free_in_block b (2 * N) (2 * i) cnt =
    Inr (case find (free_entry F) [base + i..<base + N] of Some c \<Rightarrow> (Some c, c) | None \<Rightarrow> (None, (base + N) mod 65536))"
  using assms(3,5)
proof (induction "N - i" arbitrary: i cnt)
  case 0
  then show ?case by (subst free_in_block.simps) simp
next
  case (Suc n)
  then have i: "i < N" "cnt = base + i" using assms(4) by simp_all
  have up: "[base + i..<base + N] = (base + i) # [base + Suc i..<base + N]" using i(1) by (simp add: upt_conv_Cons)
  have v: "rd16 b (2 * i) = Inr (F (base + i))" using i(1) assms(1,2) by (simp add: rd16_def)
  have "free_in_block b (2 * N) (2 * Suc i) ((cnt + 1) mod 65536) =
      Inr (case find (free_entry F) [base + Suc i..<base + N] of Some c \<Rightarrow> (Some c, c) | None \<Rightarrow> (None, (base + N) mod 65536))"
    using Suc i by (intro Suc.hyps(1)) simp_all
  then show ?case using i v up by (subst free_in_block.simps) (simp add: free_entry_def FAT_CLUS_FREE_def)
qed

lemma free_cluster_loop_ok:
  assumes "disk_ok D m" "vol_ok vol" "length b = cluster_bytes vol" "k * sectors_per_cluster (sb vol) + s = sectors_fat (sb vol)"
  shows "case find (free_entry (fat_of vol D)) [256 * s..<256 * sectors_fat (sb vol)] of
      Some c \<Rightarrow> returns (free_cluster_loop vol m b (fat_start vol + s) (256 * s mod 65536)) (\<lambda>(m', c'). c' = c \<and> disk_ok D m' \<and> only_pio m m')
    | None \<Rightarrow> free_cluster_loop vol m b (fat_start vol + s) (256 * s mod 65536) = Some (Inl (Panic ''fat16: run out of clusters''))"
  using assms(1,3,4)
proof (induction k arbitrary: m b s)
  case 0
  note v = vol_okD [OF assms(2)]
  have "sub32 (fat_start vol + s) (fat_start vol) = s" using 0 v(5,6) by (subst sub32_exact) auto
  then have "free_cluster_loop vol m b (fat_start vol + s) (256 * s mod 65536) = Some (Inl (Panic ''fat16: run out of clusters''))"
    using 0 by (subst free_cluster_loop.simps) simp
  then show ?case using 0 by simp
next
  case (Suc k)
  note v = vol_okD [OF assms(2)]
  define spc F where "spc = sectors_per_cluster (sb vol)" and "F = fat_of vol D"
  have s: "s + spc \<le> sectors_fat (sb vol)" "0 < spc" using Suc.prems(3) v(2) by (simp_all add: spc_def)
  have sub: "sub32 (fat_start vol + s) (fat_start vol) = s" using s v(5,6) by (subst sub32_exact) auto
  define blk where "blk = concat (map D [fat_start vol + s..<fat_start vol + s + spc])"
  have D: "\<forall>l. length (D l) = 512" using disk_ok_length [OF Suc.prems(1)] by simp
  have len: "length blk = cluster_bytes vol" using concat_take_sectors [OF D] v(4) by (simp add: blk_def spc_def)
  define cmd where "cmd = \<lparr>lba_start = fat_start vol + s, sec_num = spc, io_buf = b, buf_size = cluster_bytes vol\<rparr>"
  have "returns (ata_read_sector m cmd) (\<lambda>(m', b, k). disk_ok D m' \<and> only_pio m m' \<and> k = spc \<and>
      b = put_str (io_buf cmd) 0 (concat (map D [lba_start cmd..<lba_start cmd + spc])))"
    using Suc.prems s v by (intro ata_read_sector_ok) (simp_all add: cmd_def spc_def)
  moreover have "put_str b 0 blk = blk" using len Suc.prems(2) by (simp add: put_str_def)
  ultimately obtain m' where m': "ata_read_sector m cmd = Some (Inr (m', blk, spc))" "disk_ok D m'" "only_pio m m'"
    by (auto simp: returns_def cmd_def blk_def)
  have ent: "\<forall>j<256 * spc. le16 blk (2 * j) = F (256 * s + j)"
    using le16_concat_sectors [OF D, of _ spc "fat_start vol + s"] by (auto simp: blk_def F_def fat_of_def fat_sector_def add.assoc)
  have len': "2 * (256 * spc) \<le> length blk" using len v(4) by (simp add: spc_def)
  have scan: "free_in_block blk (cluster_bytes vol) 0 (256 * s mod 65536) = Inr (case find (free_entry F) [256 * s..<256 * s + 256 * spc] of
      Some c \<Rightarrow> (Some c, c) | None \<Rightarrow> (None, 256 * (s + spc) mod 65536))"
    using free_in_block_spec [OF ent len', of 0 "256 * s mod 65536"] v(4,6) s unfolding distrib_left [of 256 s spc]
    by (simp add: spc_def)
  have up: "[256 * s..<256 * sectors_fat (sb vol)] = [256 * s..<256 * s + 256 * spc] @ [256 * (s + spc)..<256 * sectors_fat (sb vol)]"
    using s upt_add_eq_append [of "256 * s" "256 * s + 256 * spc" "256 * sectors_fat (sb vol) - (256 * s + 256 * spc)"]
    by (simp add: distrib_left)
  have fnd: "find P (xs @ ys) = (case find P xs of Some x \<Rightarrow> Some x | None \<Rightarrow> find P ys)" for P :: "nat \<Rightarrow> bool" and xs ys
    by (induction xs) simp_all
  have unf: "free_cluster_loop vol m b (fat_start vol + s) (256 * s mod 65536) =
      (case find (free_entry F) [256 * s..<256 * s + 256 * spc] of Some c \<Rightarrow> Some (Inr (m', c))
       | None \<Rightarrow> free_cluster_loop vol m' blk (fat_start vol + s + spc) (256 * (s + spc) mod 65536))"
    using sub s v(5,6) m'(1) scan
    by (subst free_cluster_loop.simps) (simp add: cmd_def spc_def add32_exact split: option.splits)
  show ?case
  proof (cases "find (free_entry F) [256 * s..<256 * s + 256 * spc]")
    case (Some c)
    then show ?thesis using unf up m' by (simp add: fnd F_def)
  next
    case None
    have "k * spc + (s + spc) = sectors_fat (sb vol)" using Suc.prems(3) by (simp add: spc_def)
    from Suc.IH [OF m'(2) len this [unfolded spc_def]]
    show ?thesis using None unf up m'(3) only_pio_trans
      by (auto simp: fnd F_def spc_def add.assoc elim!: returns_mono split: option.splits)
  qed
qed

lemma fat_get_free_cluster_ok:
  assumes "disk_ok D m" "vol_ok vol" "sectors_per_cluster (sb vol) dvd sectors_fat (sb vol)"
  shows "case find (free_entry (fat_of vol D)) [0..<256 * sectors_fat (sb vol)] of
      Some c \<Rightarrow> returns (fat_get_free_cluster m stk vol) (\<lambda>(m', c'). c' = c \<and> disk_ok D m' \<and> only_pio m m')
    | None \<Rightarrow> fat_get_free_cluster m stk vol = Some (Inl (Panic ''fat16: run out of clusters''))"
proof -
  obtain k where "k * sectors_per_cluster (sb vol) + 0 = sectors_fat (sb vol)" using assms(3) by (metis add_0_right dvd_def mult.commute)
  from free_cluster_loop_ok [OF assms(1,2) _ this, of "local_buf stk (cluster_bytes vol)"]
  show ?thesis by (simp add: fat_get_free_cluster_def split: option.splits)
qed

end
