(* ===== verification/Ts_Fat_Read.thy ===== *)
theory Ts_Fat_Read
  imports Ts_Fat_Table Ts_Fat_File
begin

text \<open>
  Files as byte strings. A chain of clusters (\<open>fchain\<close>) holds the bytes \<open>file_bytes\<close>; \<open>fat_read_file\<close> is shown to read them.
\<close>

section \<open>Arithmetic of offsets\<close>

lemma to_int32_exact: "a < 2147483648 \<Longrightarrow> to_int32 a = int a"
  by (simp add: to_int32_def)

lemma to_u32_int [simp]: "a < 4294967296 \<Longrightarrow> to_u32 (int a) = a"
  by (simp add: to_u32_def)

lemma imin_exact: "a < 2147483648 \<Longrightarrow> b < 2147483648 \<Longrightarrow> imin a b = min a b"
  by (auto simp: imin_def to_int32_exact c_min_def min_def)

lemma idiv_exact: "a < 2147483648 \<Longrightarrow> 0 < b \<Longrightarrow> idiv a b = Inr (a div b)"
proof -
  assume A: "a < 2147483648" "0 < b"
  have "a div b \<le> a" by simp
  then have "to_u32 (int (a div b)) = a div b" using A(1) by (intro to_u32_int) linarith
  then show ?thesis using A by (simp add: idiv_def to_int32_exact c_div_nonneg zdiv_int)
qed

section \<open>Clusters\<close>

definition clus_ok :: "Fat16Volume \<Rightarrow> nat \<Rightarrow> bool" where
  "clus_ok vol c \<longleftrightarrow> 2 \<le> c \<and> c \<le> 0xFFEF \<and> c < 256 * sectors_fat (sb vol)"

definition cluster_sec :: "Fat16Volume \<Rightarrow> nat \<Rightarrow> nat" where
  "cluster_sec vol c = data_start vol + (c - 2) * sectors_per_cluster (sb vol)"

definition cluster_data :: "Fat16Volume \<Rightarrow> (nat \<Rightarrow> char list) \<Rightarrow> nat \<Rightarrow> char list" where
  "cluster_data vol D c = concat (map D [cluster_sec vol c..<cluster_sec vol c + sectors_per_cluster (sb vol)])"

lemma clus_ok_bound: "clus_ok vol c \<Longrightarrow> c < 65536" "clus_ok vol c \<Longrightarrow> \<not> FAT_CLUS_EOF c"
  by (auto simp: clus_ok_def FAT_CLUS_EOF_def)

lemma length_cluster_data:
  "vol_ok vol \<Longrightarrow> disk_ok D m \<Longrightarrow> length (cluster_data vol D c) = cluster_bytes vol"
  using concat_take_sectors [of D "cluster_sec vol c"] vol_okD(4) by (simp add: cluster_data_def disk_ok_length)

lemma cluster_bytes_pos: "vol_ok vol \<Longrightarrow> 0 < cluster_bytes vol" "vol_ok vol \<Longrightarrow> cluster_bytes vol < 131072"
  using vol_okD [of vol] by simp_all

lemma cluster_lba_ok:
  assumes "vol_ok vol" "clus_ok vol c"
  shows "cluster_lba vol (int c) = cluster_sec vol c" "cluster_sec vol c < 268435456"
proof -
  have "(c - 2) * sectors_per_cluster (sb vol) \<le> 65536 * 256"
    using vol_okD(3) [OF assms(1)] assms(2) by (intro mult_le_mono) (auto simp: clus_ok_def)
  then have s: "cluster_sec vol c < 20000000" using vol_okD(9) [OF assms(1)] by (simp add: cluster_sec_def)
  then show "cluster_sec vol c < 268435456" by simp
  have "int (data_start vol) + (int c - 2) * int (sectors_per_cluster (sb vol)) = int (cluster_sec vol c)"
    using assms(2) by (simp add: cluster_sec_def clus_ok_def of_nat_diff)
  then show "cluster_lba vol (int c) = cluster_sec vol c" using s by (simp add: cluster_lba_def)
qed

lemma fat_read_cluster_ok:
  assumes "disk_ok D m" "vol_ok vol" "clus_ok vol c" "length b = cluster_bytes vol"
  shows "\<exists>m'. fat_read_cluster m vol c b = Some (Inr (m', cluster_data vol D c, sectors_per_cluster (sb vol))) \<and> disk_ok D m' \<and> only_pio m m'"
proof -
  note v = vol_okD [OF assms(2)]
  define cmd where "cmd = \<lparr>lba_start = cluster_sec vol c, sec_num = sectors_per_cluster (sb vol), io_buf = b, buf_size = cluster_bytes vol\<rparr>"
  have "returns (ata_read_sector m cmd) (\<lambda>(m', b, k). disk_ok D m' \<and> only_pio m m' \<and> k = sectors_per_cluster (sb vol) \<and>
      b = put_str (io_buf cmd) 0 (concat (map D [lba_start cmd..<lba_start cmd + sectors_per_cluster (sb vol)])))"
    using assms v cluster_lba_ok(2) [OF assms(2,3)] by (intro ata_read_sector_ok) (simp_all add: cmd_def)
  moreover have "put_str b 0 (cluster_data vol D c) = cluster_data vol D c"
    using length_cluster_data [OF assms(2,1)] assms(4) by (simp add: put_str_def)
  ultimately show ?thesis
    using cluster_lba_ok(1) [OF assms(2,3)] clus_ok_bound(1) [OF assms(3)]
    by (auto simp: returns_def fat_read_cluster_def cmd_def cluster_data_def)
qed

section \<open>Chains\<close>

fun fchain :: "Fat16Volume \<Rightarrow> (nat \<Rightarrow> nat) \<Rightarrow> nat \<Rightarrow> nat list \<Rightarrow> bool" where
  "fchain vol F c [] \<longleftrightarrow> FAT_CLUS_EOF c"
| "fchain vol F c (x # xs) \<longleftrightarrow> c = x \<and> clus_ok vol x \<and> fchain vol F (F x) xs"

definition file_bytes :: "Fat16Volume \<Rightarrow> (nat \<Rightarrow> char list) \<Rightarrow> nat list \<Rightarrow> char list" where
  "file_bytes vol D cs = concat (map (cluster_data vol D) cs)"

lemma file_bytes_simps [simp]:
  "file_bytes vol D [] = []" "file_bytes vol D (c # cs) = cluster_data vol D c @ file_bytes vol D cs"
  by (simp_all add: file_bytes_def)

lemma length_file_bytes: "vol_ok vol \<Longrightarrow> disk_ok D m \<Longrightarrow> length (file_bytes vol D cs) = length cs * cluster_bytes vol"
  by (induction cs) (simp_all add: length_cluster_data)

lemma drop_file_bytes:
  "vol_ok vol \<Longrightarrow> disk_ok D m \<Longrightarrow> drop (k * cluster_bytes vol) (file_bytes vol D cs) = file_bytes vol D (drop k cs)"
proof (induction cs arbitrary: k)
  case (Cons c cs)
  then show ?case by (cases k) (simp_all add: length_cluster_data)
qed simp

lemma fchain_drop: "fchain vol F c cs \<Longrightarrow> k < length cs \<Longrightarrow> fchain vol F (cs ! k) (drop k cs)"
proof (induction cs arbitrary: c k)
  case (Cons x cs)
  then show ?case by (cases k) auto
qed simp

lemma fchain_clus_ok: "fchain vol F c cs \<Longrightarrow> x \<in> set cs \<Longrightarrow> clus_ok vol x"
  by (induction cs arbitrary: c) auto

lemma fchain_cong: "fchain vol F c cs \<Longrightarrow> (\<And>x. x \<in> set cs \<Longrightarrow> G x = F x) \<Longrightarrow> fchain vol G c cs"
  by (induction cs arbitrary: c) auto

text \<open>A chain that ends does not come back to a cluster.\<close>

lemma fchain_unique: "fchain vol F c cs \<Longrightarrow> fchain vol F c ds \<Longrightarrow> cs = ds"
proof (induction cs arbitrary: c ds)
  case Nil
  then show ?case by (cases ds) (auto dest: clus_ok_bound(2))
next
  case (Cons x cs)
  then show ?case by (cases ds) (auto dest: clus_ok_bound(2))
qed

lemma fchain_distinct: "fchain vol F c cs \<Longrightarrow> distinct cs"
proof (induction cs arbitrary: c)
  case (Cons x cs)
  have "x \<notin> set cs"
  proof
    assume "x \<in> set cs"
    then obtain k where k: "k < length cs" "cs ! k = x" by (auto simp: in_set_conv_nth)
    have "fchain vol F x (drop k cs)" using fchain_drop [of vol F "F x" cs k] Cons.prems k by auto
    moreover have "fchain vol F x (x # cs)" using Cons.prems by simp
    ultimately have "length (drop k cs) = length (x # cs)" using fchain_unique by metis
    then show False by simp
  qed
  then show ?case using Cons by auto
qed simp

section \<open>The loop\<close>

lemma boundary_div:
  assumes "0 < (cb :: nat)"
  shows "(off + cb) div cb = off div cb + 1" "off < (off div cb + 1) * cb" "off div cb * cb \<le> off"
proof -
  show "(off + cb) div cb = off div cb + 1" using assms by (subst div_add_self2) simp_all
qed (use assms dividend_less_div_times [of cb off] in \<open>simp_all add: add.commute\<close>)

lemma read_file_step_ok:
  assumes "disk_ok D m" "vol_ok vol" "clus_ok vol c" "length blk = cluster_bytes vol" "off < e" "e + cluster_bytes vol < 2147483648"
    and "nxt = min e ((off div cluster_bytes vol + 1) * cluster_bytes vol)" "cnt + (nxt - off) \<le> length ub" "cnt \<le> off"
  shows "\<exists>m'. read_file_step vol stk e m blk ub c off cnt = Some (Inr (m', cluster_data vol D c,
      put_str ub cnt (take (nxt - off) (drop (off mod cluster_bytes vol) (cluster_data vol D c))),
      if nxt = (off div cluster_bytes vol + 1) * cluster_bytes vol then fat_of vol D c else c, nxt, cnt + (nxt - off))) \<and>
    disk_ok D m' \<and> only_pio m m'"
proof -
  define cb where "cb = cluster_bytes vol"
  have cb: "0 < cb" using cluster_bytes_pos [OF assms(2)] by (simp add: cb_def)
  note bd = boundary_div [OF cb, of off]
  obtain m1 where m1: "fat_read_cluster m vol c blk = Some (Inr (m1, cluster_data vol D c, sectors_per_cluster (sb vol)))" "disk_ok D m1" "only_pio m m1"
    using fat_read_cluster_ok [OF assms(1-4)] by blast
  have nxt: "imin e (mul32 (off div cb + 1) cb) = nxt" "off < nxt" "nxt \<le> e" "nxt - off \<le> cb - off mod cb"
  proof -
    have "(off div cb + 1) * cb \<le> off + cb" using bd(3) by simp
    also have "\<dots> < 2147483648" using assms(5,6) by (simp add: cb_def)
    finally have "mul32 (off div cb + 1) cb = (off div cb + 1) * cb" "(off div cb + 1) * cb < 2147483648"
      by (simp_all add: mul32_def)
    then show "imin e (mul32 (off div cb + 1) cb) = nxt" using assms(6,7) by (simp add: imin_exact cb_def)
    show "off < nxt" "nxt \<le> e" using assms(5,7) bd(2) by (simp_all add: cb_def)
    have "nxt \<le> off div cb * cb + cb" using assms(7) by (simp add: cb_def)
    then show "nxt - off \<le> cb - off mod cb" using div_mult_mod_eq [of off cb] mod_less_divisor [OF cb, of off] by linarith
  qed
  have sub: "sub32 nxt off = nxt - off" "add32 cnt (nxt - off) = cnt + (nxt - off)" "add32 off cb = off + cb"
    using nxt assms(5,6,9) by (simp_all add: sub32_exact add32_exact cb_def)
  have "off mod cb + (nxt - off) \<le> length (cluster_data vol D c)"
    using nxt(4) mod_less_divisor [OF cb, of off] unfolding length_cluster_data [OF assms(2,1)] cb_def [symmetric] by linarith
  then have cp: "memcpy (cluster_data vol D c) (off mod cb) ub cnt (nxt - off) =
      Inr (put_str ub cnt (take (nxt - off) (drop (off mod cb) (cluster_data vol D c))))"
    using assms(8) by (intro memcpy_spec) simp_all
  have same: "nxt div cb \<noteq> off div cb \<longleftrightarrow> nxt = (off div cb + 1) * cb"
  proof (cases "nxt = (off div cb + 1) * cb")
    case False
    then have "nxt < (off div cb + 1) * cb" using assms(7) by (simp add: cb_def)
    then have "nxt div cb < off div cb + 1" by (rule less_mult_imp_div_less)
    moreover have "off div cb \<le> nxt div cb" using nxt(2) by (intro div_le_mono) simp
    ultimately show ?thesis using False by simp
  qed (use cb in simp)
  obtain m2 where m2: "fat_get_next_cluster m1 stk vol c = Some (Inr (m2, fat_of vol D c))" "disk_ok D m2" "only_pio m1 m2"
    using fat_get_next_cluster_ok [OF m1(2) assms(2) clus_ok_bound(1) [OF assms(3)]] by (auto simp: returns_def)
  define m' where "m' = (if nxt = (off div cb + 1) * cb then m2 else m1)"
  have "(if nxt div cb \<noteq> off div cb then fat_get_next_cluster m1 stk vol c else Some (Inr (m1, c))) =
      Some (Inr (m', if nxt = (off div cb + 1) * cb then fat_of vol D c else c))"
    unfolding same m'_def using m2(1) by simp
  then have "read_file_step vol stk e m blk ub c off cnt = Some (Inr (m', cluster_data vol D c,
      put_str ub cnt (take (nxt - off) (drop (off mod cb) (cluster_data vol D c))),
      if nxt = (off div cb + 1) * cb then fat_of vol D c else c, nxt, cnt + (nxt - off)))"
    using m1(1) cb nxt(1) cp sub bd(1) unfolding read_file_step_def Let_def cb_def [symmetric] udiv_def by simp
  moreover have "disk_ok D m'" "only_pio m m'" using m1 m2 only_pio_trans by (auto simp: m'_def)
  ultimately show ?thesis unfolding cb_def by blast
qed

lemma put_str_take:
  "length s \<le> n \<Longrightarrow> j + n \<le> length b \<Longrightarrow> length (put_str b j s) = length b"
  by (simp add: put_str_def)

text \<open>
  The loop reads until it has filled the request or the chain is at its end.
\<close>

lemma read_file_loop_ok:
  assumes "disk_ok D m" "vol_ok vol" "fchain vol (fat_of vol D) c rs" "length blk = cluster_bytes vol"
    and "off \<le> e" "e + cluster_bytes vol < 2147483648" "cnt \<le> off" "cnt + (e - off) \<le> length ub"
    and "t = max off (min e ((off div cluster_bytes vol + length rs) * cluster_bytes vol))"
  shows "\<exists>m' c'. read_file_loop vol stk e m blk ub c off cnt = Some (Inr (m',
      put_str ub cnt (take (t - off) (drop (off mod cluster_bytes vol) (file_bytes vol D rs))), c', t, cnt + (t - off))) \<and>
    disk_ok D m' \<and> only_pio m m' \<and> fchain vol (fat_of vol D) c' (drop (t div cluster_bytes vol - off div cluster_bytes vol) rs)"
  using assms(1,3,4,5,7,8,9)
proof (induction rs arbitrary: m c blk off cnt ub t)
  case Nil
  define cb where "cb = cluster_bytes vol"
  have "min e (off div cb * cb) \<le> off" by (rule min.coboundedI2) simp
  then have "t = off" using Nil.prems(7) unfolding cb_def [symmetric] by (simp add: max_absorb1)
  then show ?case using Nil.prems by (subst read_file_loop.simps) (auto simp: put_str_def)
next
  case (Cons x rs)
  define cb where "cb = cluster_bytes vol"
  have cb: "0 < cb" using cluster_bytes_pos [OF assms(2)] by (simp add: cb_def)
  have x: "c = x" "clus_ok vol x" "fchain vol (fat_of vol D) (fat_of vol D x) rs" using Cons.prems(2) by simp_all
  show ?case
  proof (cases "off < e")
    case False
    then have "t = off" "off = e" using Cons.prems(4,7) by simp_all
    then show ?thesis using Cons.prems by (subst read_file_loop.simps) (auto simp: put_str_def)
  next
    case True
    define nxt where "nxt = min e ((off div cb + 1) * cb)"
    define s where "s = take (nxt - off) (drop (off mod cb) (cluster_data vol D x))"
    define c1 where "c1 = (if nxt = (off div cb + 1) * cb then fat_of vol D x else x)"
    note bd = boundary_div [OF cb, of off]
    have nxt: "off < nxt" "nxt \<le> e" using True bd(2) by (simp_all add: nxt_def)
    have room: "cnt + (nxt - off) \<le> length ub" using Cons.prems(6) nxt by simp
    obtain m1 where m1: "read_file_step vol stk e m blk ub c off cnt =
        Some (Inr (m1, cluster_data vol D x, put_str ub cnt s, c1, nxt, cnt + (nxt - off)))" "disk_ok D m1" "only_pio m m1"
      using read_file_step_ok [OF Cons.prems(1) assms(2) x(2) Cons.prems(3) True assms(6) nxt_def [unfolded cb_def] room Cons.prems(5), of stk]
      unfolding x(1) s_def c1_def cb_def by blast
    have unf: "read_file_loop vol stk e m blk ub c off cnt =
        read_file_loop vol stk e m1 (cluster_data vol D x) (put_str ub cnt s) c1 nxt (cnt + (nxt - off))"
      using True x(1,2) m1(1) clus_ok_bound(2) by (subst read_file_loop.simps) simp
    have lens: "length s \<le> nxt - off" by (simp add: s_def)
    have lenc: "length (cluster_data vol D x) = cb" using length_cluster_data [OF assms(2) Cons.prems(1)] by (simp add: cb_def)
    have md: "off mod cb + (nxt - off) \<le> cb"
    proof -
      have "nxt \<le> off div cb * cb + cb" by (simp add: nxt_def)
      then show ?thesis using div_mult_mod_eq [of off cb] mod_less_divisor [OF cb, of off] nxt(1) by linarith
    qed
    then have s: "s = take (nxt - off) (drop (off mod cb) (file_bytes vol D (x # rs)))" "length s = nxt - off"
      using lenc by (simp_all add: s_def)
    show ?thesis
    proof (cases "nxt = (off div cb + 1) * cb")
      case at: True
      define t' where "t' = max nxt (min e ((nxt div cb + length rs) * cb))"
      have q: "nxt div cb = off div cb + 1" "nxt mod cb = 0" unfolding at using cb by simp_all
      have "(off div cb + length (x # rs)) * cb = (nxt div cb + length rs) * cb" using q by simp
      moreover have "nxt \<le> (nxt div cb + length rs) * cb" using at q by simp
      ultimately have t: "t = t'" "nxt \<le> t'" "t' \<le> e" using Cons.prems(7) nxt unfolding t'_def cb_def [symmetric] by auto
      have c1: "c1 = fat_of vol D x" using at by (simp add: c1_def)
      have cnt': "cnt + (nxt - off) \<le> nxt" using Cons.prems(5) nxt by simp
      have room': "cnt + (nxt - off) + (e - nxt) \<le> length (put_str ub cnt s)"
        using Cons.prems(6) nxt room lens by (simp add: put_str_take [of s "nxt - off"])
      obtain m2 c2 where m2: "read_file_loop vol stk e m1 (cluster_data vol D x) (put_str ub cnt s) c1 nxt (cnt + (nxt - off)) = Some (Inr (m2,
          put_str (put_str ub cnt s) (cnt + (nxt - off)) (take (t' - nxt) (drop (nxt mod cb) (file_bytes vol D rs))), c2, t',
          cnt + (nxt - off) + (t' - nxt)))" "disk_ok D m2" "only_pio m1 m2" "fchain vol (fat_of vol D) c2 (drop (t' div cb - nxt div cb) rs)"
        using Cons.IH [OF m1(2) x(3) [folded c1] lenc [unfolded cb_def] nxt(2) cnt' room' t'_def [unfolded cb_def]]
        unfolding cb_def [symmetric] by blast
      have "drop (off mod cb) (file_bytes vol D (x # rs)) = s @ file_bytes vol D rs"
        using at s lenc md bd(2) div_mult_mod_eq [of off cb] by (simp add: s_def)
      then have "take (t' - off) (drop (off mod cb) (file_bytes vol D (x # rs))) = s @ take (t' - nxt) (file_bytes vol D rs)"
        using s(2) t(2) nxt(1) by simp
      then have "put_str (put_str ub cnt s) (cnt + (nxt - off)) (take (t' - nxt) (drop (nxt mod cb) (file_bytes vol D rs))) =
          put_str ub cnt (take (t' - off) (drop (off mod cb) (file_bytes vol D (x # rs))))"
        using put_str_append [of cnt s ub "take (t' - nxt) (file_bytes vol D rs)"] room s(2) q(2) by simp
      moreover have "t' div cb - off div cb = Suc (t' div cb - nxt div cb)"
        using q(1) div_le_mono [OF t(2), of cb] by simp
      moreover have "cnt + (nxt - off) + (t' - nxt) = cnt + (t' - off)" using t(2) nxt(1) by simp
      ultimately have "read_file_loop vol stk e m blk ub c off cnt = Some (Inr (m2,
            put_str ub cnt (take (t - off) (drop (off mod cb) (file_bytes vol D (x # rs)))), c2, t, cnt + (t - off)))"
        "fchain vol (fat_of vol D) c2 (drop (t div cb - off div cb) (x # rs))"
        using unf m2(1,4) unfolding t(1) by simp_all
      then show ?thesis using m2(2) only_pio_trans [OF m1(3) m2(3)] unfolding cb_def [symmetric] by blast
    next
      case within: False
      then have e: "nxt = e" "e < (off div cb + 1) * cb" by (simp_all add: nxt_def min_def split: if_splits)
      have "(off div cb + 1) * cb \<le> (off div cb + length (x # rs)) * cb" by simp
      then have "e < (off div cb + length (x # rs)) * cb" using e(2) by linarith
      then have t: "t = e" using Cons.prems(7) nxt e(1) unfolding cb_def [symmetric] by simp
      have "e div cb = off div cb" using e(2) less_mult_imp_div_less [of e "off div cb + 1" cb] div_le_mono [of off e cb] nxt e(1) by simp
      then have "fchain vol (fat_of vol D) c (drop (t div cb - off div cb) (x # rs))" using t Cons.prems(2) by simp
      moreover have "read_file_loop vol stk e m1 (cluster_data vol D x) (put_str ub cnt s) c1 nxt (cnt + (nxt - off)) =
          Some (Inr (m1, put_str ub cnt s, c1, nxt, cnt + (nxt - off)))" using e(1) by (subst read_file_loop.simps) simp
      ultimately show ?thesis
        using unf m1(2,3) within x(1) unfolding s(1) c1_def t e(1) cb_def [symmetric] by auto
    qed
  qed
qed

section \<open>Reading a file\<close>

text \<open>
  \<open>f\<close> is an open regular file whose bytes are on the clusters \<open>cs\<close>; unless it is at its end, its current cluster is
  the one of its offset.
\<close>

definition file_at :: "(nat \<Rightarrow> char list) \<Rightarrow> Fat16File \<Rightarrow> nat list \<Rightarrow> bool" where
  "file_at D f cs \<longleftrightarrow> vol_ok (volume f) \<and> cs \<noteq> [] \<and> fchain (volume f) (fat_of (volume f) D) (start_cluster (dirent f)) cs \<and>
     \<not> is_directory (dirent f) \<and> file_size (dirent f) \<le> length cs * cluster_bytes (volume f) \<and> file_size (dirent f) < 4294967296 \<and>
     (byte_offset f < file_size (dirent f) \<longrightarrow> current_cluster f = cs ! (byte_offset f div cluster_bytes (volume f)))"

definition file_text :: "(nat \<Rightarrow> char list) \<Rightarrow> Fat16File \<Rightarrow> nat list \<Rightarrow> char list" where
  "file_text D f cs = take (file_size (dirent f)) (file_bytes (volume f) D cs)"

text \<open>The abstract file: reading at or after the end reports the end of the file.\<close>

definition read_spec :: "char list \<Rightarrow> nat \<Rightarrow> nat \<Rightarrow> char list option" where
  "read_spec txt pos n = (if length txt \<le> pos then None else Some (take n (drop pos txt)))"

lemma length_file_text: "disk_ok D m \<Longrightarrow> file_at D f cs \<Longrightarrow> length (file_text D f cs) = file_size (dirent f)"
  by (simp add: file_at_def file_text_def length_file_bytes)

lemma fchain_start: "fchain vol F c cs \<Longrightarrow> cs \<noteq> [] \<Longrightarrow> c = cs ! 0 \<and> 2 \<le> c"
  by (cases cs) (auto simp: clus_ok_def)

lemma fat_read_file_ok:
  assumes "disk_ok D m" "file_at D f cs" "byte_offset f < file_size (dirent f)" "n \<le> length ub"
    and "byte_offset f + n + cluster_bytes (volume f) < 2147483648" "k = min n (file_size (dirent f) - byte_offset f)"
  shows "\<exists>m' c ub'. fat_read_file m stk (Some f) ub n =
      Some (Inr (m', f\<lparr>current_cluster := c, byte_offset := byte_offset f + k\<rparr>, ub', int k)) \<and>
    disk_ok D m' \<and> only_pio m m' \<and> length ub' = length ub \<and> take k ub' = take k (drop (byte_offset f) (file_text D f cs)) \<and>
    file_at D (f\<lparr>current_cluster := c, byte_offset := byte_offset f + k\<rparr>) cs"
proof -
  define vol cb off sz where "vol = volume f" and "cb = cluster_bytes vol" and "off = byte_offset f" and "sz = file_size (dirent f)"
  have f: "vol_ok vol" "cs \<noteq> []" "fchain vol (fat_of vol D) (start_cluster (dirent f)) cs" "\<not> is_directory (dirent f)"
    "sz \<le> length cs * cb" "current_cluster f = cs ! (off div cb)" "off < sz" "sz < 4294967296"
    using assms(2,3) by (simp_all add: file_at_def vol_def cb_def off_def sz_def)
  have cb: "0 < cb" using cluster_bytes_pos [OF f(1)] by (simp add: cb_def)
  define q where "q = off div cb"
  have q: "q < length cs" using f(5,7) less_mult_imp_div_less [of off "length cs" cb] by (simp add: q_def)
  define rs where "rs = drop q cs"
  have ch: "fchain vol (fat_of vol D) (cs ! q) rs" using fchain_drop [OF f(3) q] by (simp add: rs_def)
  have eof: "\<not> FAT_CLUS_EOF (cs ! q)" using clus_ok_bound(2) fchain_clus_ok [OF f(3) nth_mem [OF q]] by blast
  have st: "start_cluster (dirent f) \<noteq> 0" using fchain_start [OF f(3,2)] by simp
  define e where "e = off + n"
  define t where "t = max off (min e ((off div cb + length rs) * cb))"
  have "off div cb + length rs = length cs" using q by (simp add: rs_def q_def)
  then have t: "t = min e (length cs * cb)" using f(5,7) by (simp add: t_def e_def)
  have k: "t - off - (t - sz) = k" "sz \<le> t \<Longrightarrow> t - off - (t - sz) = k" "t < sz \<Longrightarrow> t = e \<and> k = n" "k \<le> t - off" "off + k \<le> t"
    using f(5,7) assms(6) by (auto simp: t e_def off_def sz_def)
  have lim: "e + cluster_bytes vol < 2147483648" "off \<le> e" "0 + (e - off) \<le> length ub"
    using assms(4,5) by (simp_all add: e_def off_def vol_def)
  define s where "s = take (t - off) (drop (off mod cb) (file_bytes vol D rs))"
  have s: "s = take (t - off) (drop off (file_bytes vol D cs))"
  proof -
    have "drop (off mod cb) (file_bytes vol D rs) = drop (off mod cb) (drop (q * cb) (file_bytes vol D cs))"
      using drop_file_bytes [OF f(1) assms(1), of q cs] by (simp only: rs_def cb_def)
    also have "\<dots> = drop (off mod cb + off div cb * cb) (file_bytes vol D cs)" by (simp only: drop_drop q_def)
    finally show ?thesis by (simp only: s_def mod_div_mult_eq)
  qed
  have blk: "length (local_buf stk cb) = cluster_bytes vol" by (simp add: cb_def)
  obtain m' c where loop: "read_file_loop vol stk e m (local_buf stk cb) ub (cs ! q) off 0 = Some (Inr (m', put_str ub 0 s, c, t, t - off))"
    "disk_ok D m'" "only_pio m m'" "fchain vol (fat_of vol D) c (drop (t div cb - off div cb) rs)"
    using read_file_loop_ok [OF assms(1) f(1) ch blk lim(2,1) _ lim(3) t_def [unfolded cb_def], of stk] unfolding s_def cb_def
    by auto
  have "t - off \<le> e - off" by (simp add: t)
  then have lens: "length s \<le> n" by (simp add: s e_def)
  have cnt: "(if \<not> is_directory (dirent f) \<and> sz \<le> t then sub32 (t - off) (sub32 t sz) else t - off) = k"
  proof (cases "sz \<le> t")
    case True
    have "t \<le> e" by (simp add: t)
    then have "sub32 t sz = t - sz" "sub32 (t - off) (t - sz) = t - off - (t - sz)"
      using True f(7) lim(1) by (simp_all add: sub32_exact)
    then show ?thesis using True f(4) k(2) by simp
  next
    case False
    then show ?thesis using k(3) by (simp add: e_def)
  qed
  have add: "add32 off n = e" "add32 off k = off + k" "to_int32 k = int k"
    using lim k(4) assms(6) by (simp_all add: add32_exact to_int32_exact e_def)
  define f' where "f' = f\<lparr>current_cluster := c, byte_offset := off + k\<rparr>"
  have run: "fat_read_file m stk (Some f) ub n = Some (Inr (m', f', put_str ub 0 s, int k))"
    using st f(4,6,7) eof loop(1) cnt add
    by (cases "sz \<le> t")
      (simp_all add: fat_read_file_def vol_def [symmetric] cb_def [symmetric] off_def [symmetric] sz_def [symmetric] q_def f'_def Let_def)
  have "take k (put_str ub 0 s) = take k (drop off (file_text D f cs))"
  proof -
    have "take k (put_str ub 0 s) = take k s"
      using k(4) length_file_bytes [OF f(1) assms(1), of cs] t by (simp add: put_str_def s cb_def)
    also have "\<dots> = take k (drop off (file_bytes vol D cs))" using k(4) by (simp add: s min_def)
    also have "\<dots> = take k (drop off (take sz (file_bytes vol D cs)))" using assms(6) by (simp add: drop_take min_def off_def sz_def)
    finally show ?thesis by (simp add: file_text_def vol_def sz_def)
  qed
  moreover have "length (put_str ub 0 s) = length ub" using lens assms(4) by (simp add: put_str_def)
  moreover have "file_at D f' cs"
  proof -
    have "c = cs ! ((off + k) div cb)" if "off + k < sz"
    proof -
      have "t = off + k" using that k(3) assms(6) f(5) by (auto simp: t e_def off_def sz_def min_def split: if_splits)
      moreover have "t div cb < length cs" using that \<open>t = off + k\<close> f(5) less_mult_imp_div_less [of t "length cs" cb] by simp
      moreover have "off div cb \<le> t div cb" using k(5) by (intro div_le_mono) simp
      ultimately have "drop (t div cb - off div cb) rs = drop (t div cb) cs" "drop (t div cb) cs \<noteq> []" by (simp_all add: rs_def q_def)
      then show ?thesis using loop(4) fchain_start [of vol _ c "drop (t div cb) cs"] \<open>t = off + k\<close> by (simp add: nth_via_drop hd_drop_conv_nth)
    qed
    then show ?thesis using assms(2) by (auto simp: file_at_def f'_def vol_def cb_def sz_def off_def)
  qed
  ultimately show ?thesis using run loop(2,3) unfolding f'_def off_def by blast
qed

end
