(* ===== verification/Ts_Fat_Write.thy ===== *)
theory Ts_Fat_Write
  imports Ts_Fat_Read
begin

text \<open>
  Writing files: the effect of \<open>fat_write_cluster\<close> and of the growth of a chain on the bytes of a file, and what stays as it
  was. \<open>frame\<close> says that two disks agree on the clusters outside a set, on their table entries and on the root directory.
\<close>

section \<open>Clusters on the disk\<close>

definition put_cluster :: "Fat16Volume \<Rightarrow> (nat \<Rightarrow> char list) \<Rightarrow> nat \<Rightarrow> char list \<Rightarrow> nat \<Rightarrow> char list" where
  "put_cluster vol D c b = store_sectors D (cluster_sec vol c) (sectors_per_cluster (sb vol)) b"

lemma fat_write_cluster_ok:
  assumes "disk_ok D m" "vol_ok vol" "clus_ok vol c" "length b = cluster_bytes vol"
  shows "\<exists>m'. fat_write_cluster m vol b (int c) 1 = Some (Inr m') \<and> disk_ok (put_cluster vol D c b) m' \<and> only_pio m m'"
proof -
  note v = vol_okD [OF assms(2)]
  define cmd where "cmd = \<lparr>lba_start = cluster_sec vol c, sec_num = sectors_per_cluster (sb vol), io_buf = b, buf_size = cluster_bytes vol\<rparr>"
  obtain m' k where "ata_write_sector m cmd = Some (Inr (m', k))" "disk_ok (put_cluster vol D c b) m'" "only_pio m m'"
    using ata_write_sector_ok [OF assms(1), of "sectors_per_cluster (sb vol)" cmd] assms v cluster_lba_ok(2) [OF assms(2,3)]
    by (auto simp: cmd_def put_cluster_def returns_def)
  then show ?thesis using cluster_lba_ok(1) [OF assms(2,3)] by (auto simp: fat_write_cluster_def cmd_def)
qed

lemma concat_blocks512: "length b = 512 * n \<Longrightarrow> concat (map (\<lambda>i. take 512 (drop (512 * i) b)) [0..<n]) = b"
  by (rule ata.concat_blocks)

lemma cluster_sectors_disjoint:
  assumes "vol_ok vol" "clus_ok vol c" "clus_ok vol x" "x \<noteq> c"
    and "cluster_sec vol x \<le> l" "l < cluster_sec vol x + sectors_per_cluster (sb vol)"
  shows "\<not> (cluster_sec vol c \<le> l \<and> l < cluster_sec vol c + sectors_per_cluster (sb vol))"
proof -
  define s where "s = sectors_per_cluster (sb vol)"
  have gap: "cluster_sec vol a + s \<le> cluster_sec vol b" if "clus_ok vol a" "a < b" for a b
  proof -
    have "(a - 2) * s + s = (a - 2 + 1) * s" by simp
    also have "\<dots> \<le> (b - 2) * s" using that(2) that(1) [unfolded clus_ok_def] by (intro mult_le_mono1) arith
    finally show ?thesis by (simp add: cluster_sec_def s_def)
  qed
  show ?thesis
    using gap [OF assms(2), of x] gap [OF assms(3), of c] assms(4-6) by (cases "x < c") (auto simp: s_def)
qed

lemma cluster_data_put:
  assumes "vol_ok vol" "clus_ok vol c" "clus_ok vol x" "length b = cluster_bytes vol"
  shows "cluster_data vol (put_cluster vol D c b) x = (if x = c then b else cluster_data vol D x)"
proof (cases "x = c")
  case True
  have "map (put_cluster vol D c b) [cluster_sec vol c..<cluster_sec vol c + sectors_per_cluster (sb vol)] =
      map (\<lambda>i. take 512 (drop (512 * i) b)) [0..<sectors_per_cluster (sb vol)]"
    by (rule nth_equalityI) (simp_all add: put_cluster_def store_sectors_def)
  then show ?thesis using True concat_blocks512 [of b "sectors_per_cluster (sb vol)"] assms(4) vol_okD(4) [OF assms(1)]
    by (simp add: cluster_data_def)
next
  case False
  have "map (put_cluster vol D c b) [cluster_sec vol x..<cluster_sec vol x + sectors_per_cluster (sb vol)] =
      map D [cluster_sec vol x..<cluster_sec vol x + sectors_per_cluster (sb vol)]"
    using cluster_sectors_disjoint [OF assms(1-3) False] by (intro map_cong) (auto simp: put_cluster_def store_sectors_def)
  then show ?thesis using False by (simp only: cluster_data_def if_False)
qed

lemma put_cluster_below: "l < data_start vol \<Longrightarrow> put_cluster vol D c b l = D l"
  by (simp add: put_cluster_def store_sectors_def cluster_sec_def)

lemma fat_sector_below:
  assumes "vol_ok vol" "x < 256 * sectors_fat (sb vol)"
  shows "fat_sector vol x < root_dir_start vol" "fat_sector vol x < data_start vol" "fat_start vol \<le> fat_sector vol x"
proof -
  have "x div 256 < sectors_fat (sb vol)" using assms(2) less_mult_imp_div_less [of x "sectors_fat (sb vol)" 256] by (simp add: mult.commute)
  then show "fat_sector vol x < root_dir_start vol" "fat_sector vol x < data_start vol" "fat_start vol \<le> fat_sector vol x"
    using vol_okD(7,8) [OF assms(1)] by (simp_all add: fat_sector_def)
qed

lemma fat_of_put_cluster:
  "vol_ok vol \<Longrightarrow> x < 256 * sectors_fat (sb vol) \<Longrightarrow> fat_of vol (put_cluster vol D c b) x = fat_of vol D x"
  using fat_sector_below(2) by (simp add: fat_of_def put_cluster_below)

lemma cluster_data_set_fat:
  assumes "vol_ok vol" "x < 256 * sectors_fat (sb vol)"
  shows "cluster_data vol (set_fat vol D x v) c = cluster_data vol D c"
proof -
  have "map (set_fat vol D x v) [cluster_sec vol c..<cluster_sec vol c + sectors_per_cluster (sb vol)] =
      map D [cluster_sec vol c..<cluster_sec vol c + sectors_per_cluster (sb vol)]"
    using fat_sector_below(2) [OF assms] by (intro map_cong) (auto simp: cluster_sec_def intro!: set_fat_other)
  then show ?thesis by (simp only: cluster_data_def)
qed

section \<open>What stays\<close>

definition frame :: "Fat16Volume \<Rightarrow> nat set \<Rightarrow> (nat \<Rightarrow> char list) \<Rightarrow> (nat \<Rightarrow> char list) \<Rightarrow> bool" where
  "frame vol S D D' \<longleftrightarrow>
     (\<forall>x. clus_ok vol x \<and> x \<notin> S \<longrightarrow> cluster_data vol D' x = cluster_data vol D x \<and> fat_of vol D' x = fat_of vol D x) \<and>
     (\<forall>l. l < fat_start vol \<or> root_dir_start vol \<le> l \<and> l < data_start vol \<longrightarrow> D' l = D l)"

lemma frame_refl [simp]: "frame vol S D D"
  by (simp add: frame_def)

lemma frame_trans: "frame vol S D D' \<Longrightarrow> frame vol T D' D'' \<Longrightarrow> S \<subseteq> U \<Longrightarrow> T \<subseteq> U \<Longrightarrow> frame vol U D D''"
proof -
  assume A: "frame vol S D D'" "frame vol T D' D''" "S \<subseteq> U" "T \<subseteq> U"
  have "cluster_data vol D'' x = cluster_data vol D x \<and> fat_of vol D'' x = fat_of vol D x" if "clus_ok vol x" "x \<notin> U" for x
  proof -
    have "x \<notin> S" "x \<notin> T" using that(2) A(3,4) by auto
    then show ?thesis using A(1,2) that(1) by (simp add: frame_def)
  qed
  then show ?thesis using A(1,2) by (simp add: frame_def)
qed

lemma frame_put_cluster:
  assumes "vol_ok vol" "clus_ok vol c" "length b = cluster_bytes vol"
  shows "frame vol {c} D (put_cluster vol D c b)"
  using assms vol_okD(7) [OF assms(1)] vol_okD(8) [OF assms(1)]
  by (auto simp: frame_def cluster_data_put fat_of_put_cluster clus_ok_def put_cluster_below)

lemma frame_set_fat:
  assumes "vol_ok vol" "clus_ok vol c" "disk_ok D m"
  shows "frame vol {c} D (set_fat vol D c v)"
proof -
  have c: "c < 256 * sectors_fat (sb vol)" using assms(2) by (simp add: clus_ok_def)
  have "fat_of vol (set_fat vol D c v) = (fat_of vol D)(c := v mod 65536)" by (rule fat_of_set_fat) (simp add: disk_ok_length [OF assms(3)])
  then show ?thesis
    using cluster_data_set_fat [OF assms(1) c] fat_sector_below [OF assms(1) c] by (auto simp: frame_def set_fat_other)
qed

lemma frame_file_bytes:
  "frame vol S D D' \<Longrightarrow> fchain vol F c cs \<Longrightarrow> set cs \<inter> S = {} \<Longrightarrow> file_bytes vol D' cs = file_bytes vol D cs"
proof (induction cs arbitrary: c)
  case (Cons x cs)
  then have "cluster_data vol D' x = cluster_data vol D x" by (auto simp: frame_def)
  then show ?case using Cons by auto
qed simp

section \<open>Writing within a chain\<close>

text \<open>Replacing part of one cluster of a chain replaces that part of the file.\<close>

lemma file_bytes_put:
  assumes "vol_ok vol" "disk_ok D m" "fchain vol F c cs" "k < length cs" "i + length t \<le> cluster_bytes vol"
  shows "file_bytes vol (put_cluster vol D (cs ! k) (put_str (cluster_data vol D (cs ! k)) i t)) cs =
    put_str (file_bytes vol D cs) (k * cluster_bytes vol + i) t"
  using assms(3,4)
proof (induction cs arbitrary: c k)
  case (Cons x cs)
  let ?b = "put_str (cluster_data vol D ((x # cs) ! k)) i t"
  have len: "length (cluster_data vol D y) = cluster_bytes vol" for y using length_cluster_data [OF assms(1,2)] .
  have lenb: "length ?b = cluster_bytes vol" using assms(5) by (simp add: put_str_def len)
  have ok: "clus_ok vol x" "clus_ok vol ((x # cs) ! k)"
    using Cons.prems(1) fchain_clus_ok [OF Cons.prems(1) nth_mem [OF Cons.prems(2)]] by simp_all
  show ?case
  proof (cases k)
    case 0
    have ne: "x \<notin> set cs" using fchain_distinct [OF Cons.prems(1)] by simp
    have "frame vol {x} D (put_cluster vol D x ?b)" using frame_put_cluster [OF assms(1) ok(1), of ?b] lenb 0 by simp
    then have "file_bytes vol (put_cluster vol D x ?b) cs = file_bytes vol D cs"
      using frame_file_bytes [of vol "{x}" D "put_cluster vol D x ?b" F "F x" cs] Cons.prems(1) ne by simp
    then show ?thesis
      using 0 cluster_data_put [OF assms(1) ok(1) ok(1), of ?b D] lenb assms(5) len by (simp add: put_str_def)
  next
    case (Suc j)
    have ne: "(x # cs) ! k \<noteq> x" using fchain_distinct [OF Cons.prems(1)] Suc Cons.prems(2) by auto
    have "cluster_data vol (put_cluster vol D ((x # cs) ! k) ?b) x = cluster_data vol D x"
      using cluster_data_put [OF assms(1) ok(2) ok(1), of ?b D] lenb ne by (simp split: if_splits)
    moreover have "file_bytes vol (put_cluster vol D (cs ! j) (put_str (cluster_data vol D (cs ! j)) i t)) cs =
        put_str (file_bytes vol D cs) (j * cluster_bytes vol + i) t"
      using Cons.IH [of "F x" j] Cons.prems Suc by simp
    ultimately show ?thesis using Suc by (simp add: put_str_def len add.assoc)
  qed
qed simp

section \<open>Growing a chain\<close>

definition free_count :: "Fat16Volume \<Rightarrow> (nat \<Rightarrow> char list) \<Rightarrow> nat" where
  "free_count vol D = card {c. c < 256 * sectors_fat (sb vol) \<and> free_entry (fat_of vol D) c}"

text \<open>The table is searched in steps of a cluster, and no number it yields is a reserved one.\<close>

definition alloc_ok :: "Fat16Volume \<Rightarrow> bool" where
  "alloc_ok vol \<longleftrightarrow> vol_ok vol \<and> sectors_per_cluster (sb vol) dvd sectors_fat (sb vol) \<and> sectors_fat (sb vol) \<le> 255"

lemma fchain_nonzero: "fchain vol F c cs \<Longrightarrow> x \<in> set cs \<Longrightarrow> F x \<noteq> 0"
proof (induction cs arbitrary: c)
  case (Cons y cs)
  show ?case
  proof (cases "x = y")
    case True
    then show ?thesis using Cons.prems by (cases cs) (auto simp: FAT_CLUS_EOF_def clus_ok_def)
  qed (use Cons in auto)
qed simp

lemma fchain_last: "fchain vol F c cs \<Longrightarrow> cs \<noteq> [] \<Longrightarrow> FAT_CLUS_EOF (F (last cs))"
  by (induction cs arbitrary: c) (auto split: if_splits)

lemma fchain_grow:
  assumes "fchain vol F c cs" "cs \<noteq> []" "clus_ok vol t" "t \<notin> set cs"
  shows "fchain vol (F(last cs := t, t := 0xFFFF)) c (cs @ [t])"
  using assms(1,2,4)
proof (induction cs arbitrary: c)
  case (Cons x cs)
  have x: "c = x" "clus_ok vol x" "fchain vol F (F x) cs" "x \<noteq> t" "t \<notin> set cs" using Cons.prems by auto
  show ?case
  proof (cases "cs = []")
    case True
    then show ?thesis using x assms(3) by (simp add: FAT_CLUS_EOF_def)
  next
    case False
    have "x \<noteq> last cs" using fchain_distinct [OF Cons.prems(1)] False by auto
    then show ?thesis using x False Cons.IH [OF x(3) False x(5)] by simp
  qed
qed simp

lemma find_free_ok:
  assumes "alloc_ok vol" "find (free_entry (fat_of vol D)) [0..<256 * sectors_fat (sb vol)] = Some t"
  shows "clus_ok vol t" "fat_of vol D t = 0"
proof -
  have "t < 256 * sectors_fat (sb vol)" "free_entry (fat_of vol D) t" using assms(2) by (auto simp: find_Some_iff)
  moreover have "256 * sectors_fat (sb vol) \<le> 65280" using assms(1) by (simp add: alloc_ok_def)
  ultimately show "clus_ok vol t" "fat_of vol D t = 0" by (auto simp: clus_ok_def free_entry_def)
qed

lemma find_free_exists:
  assumes "0 < free_count vol D"
  obtains t where "find (free_entry (fat_of vol D)) [0..<256 * sectors_fat (sb vol)] = Some t"
proof -
  obtain c where "c < 256 * sectors_fat (sb vol)" "free_entry (fat_of vol D) c"
    using assms by (auto simp: free_count_def card_gt_0_iff)
  then have "find (free_entry (fat_of vol D)) [0..<256 * sectors_fat (sb vol)] \<noteq> None" by (auto simp: find_None_iff)
  then show ?thesis using that by auto
qed

text \<open>The calls that append a free cluster to a chain.\<close>

lemma extend_ok:
  assumes "disk_ok D m" "alloc_ok vol" "fchain vol (fat_of vol D) c cs" "cs \<noteq> []" "0 < free_count vol D"
  shows "\<exists>t m1 m2 k2 m3 k3 D'. fat_get_free_cluster m stk vol = Some (Inr (m1, t)) \<and>
    write_fat m1 stk vol (last cs) t = Some (Inr (m2, k2)) \<and> write_fat m2 stk vol t 0xFFFF = Some (Inr (m3, k3)) \<and>
    disk_ok D' m3 \<and> only_pio m m3 \<and> fchain vol (fat_of vol D') c (cs @ [t]) \<and> frame vol {last cs, t} D D' \<and>
    (\<forall>x. cluster_data vol D' x = cluster_data vol D x) \<and> Suc (free_count vol D') = free_count vol D"
proof -
  have v: "vol_ok vol" "sectors_per_cluster (sb vol) dvd sectors_fat (sb vol)" using assms(2) by (simp_all add: alloc_ok_def)
  obtain t where fnd: "find (free_entry (fat_of vol D)) [0..<256 * sectors_fat (sb vol)] = Some t" by (rule find_free_exists [OF assms(5)])
  note t = find_free_ok [OF assms(2) fnd]
  have tn: "t \<notin> set cs" using fchain_nonzero [OF assms(3), of t] t(2) by auto
  have l: "clus_ok vol (last cs)" "last cs \<noteq> t" "fat_of vol D (last cs) \<noteq> 0"
    using fchain_clus_ok [OF assms(3)] fchain_nonzero [OF assms(3)] tn assms(4) by auto
  obtain m1 where m1: "fat_get_free_cluster m stk vol = Some (Inr (m1, t))" "disk_ok D m1" "only_pio m m1"
    using fat_get_free_cluster_ok [OF assms(1) v, of stk] fnd by (auto simp: returns_def)
  define D1 where "D1 = set_fat vol D (last cs) t"
  obtain m2 k2 where m2: "write_fat m1 stk vol (last cs) t = Some (Inr (m2, k2))" "disk_ok D1 m2" "only_pio m1 m2"
    using write_fat_ok [OF m1(2) v(1) clus_ok_bound(1) [OF l(1)], of stk t] by (auto simp: returns_def D1_def)
  define D2 where "D2 = set_fat vol D1 t 0xFFFF"
  obtain m3 k3 where m3: "write_fat m2 stk vol t 0xFFFF = Some (Inr (m3, k3))" "disk_ok D2 m3" "only_pio m2 m3"
    using write_fat_ok [OF m2(2) v(1) clus_ok_bound(1) [OF t(1)], of stk 65535] by (auto simp: returns_def D2_def)
  have F: "fat_of vol D2 = (fat_of vol D)(last cs := t, t := 0xFFFF)"
    using fat_of_set_fat [of D vol "last cs" t] fat_of_set_fat [of D1 vol t 65535] disk_ok_length [OF m1(2)] disk_ok_length [OF m2(2)]
      clus_ok_bound(1) [OF t(1)] by (simp add: D1_def D2_def)
  have ch: "fchain vol (fat_of vol D2) c (cs @ [t])" unfolding F by (rule fchain_grow [OF assms(3,4) t(1) tn])
  have lim: "last cs < 256 * sectors_fat (sb vol)" "t < 256 * sectors_fat (sb vol)" using l(1) t(1) by (simp_all add: clus_ok_def)
  have data: "\<forall>x. cluster_data vol D2 x = cluster_data vol D x"
    using cluster_data_set_fat [OF v(1) lim(1)] cluster_data_set_fat [OF v(1) lim(2)] by (simp add: D1_def D2_def)
  have fr: "frame vol {last cs, t} D D2"
    using frame_trans [OF frame_set_fat [OF v(1) l(1) m1(2), of t] frame_set_fat [OF v(1) t(1) m2(2) [unfolded D1_def], of 65535]]
    by (simp add: D1_def D2_def)
  have set: "{c. c < 256 * sectors_fat (sb vol) \<and> free_entry (fat_of vol D2) c} =
      {c. c < 256 * sectors_fat (sb vol) \<and> free_entry (fat_of vol D) c} - {t}"
    using l t(1) by (auto simp: F free_entry_def clus_ok_def)
  have mem: "t \<in> {c. c < 256 * sectors_fat (sb vol) \<and> free_entry (fat_of vol D) c}" using fnd by (auto simp: find_Some_iff)
  have "finite {c. c < 256 * sectors_fat (sb vol) \<and> free_entry (fat_of vol D) c}" by simp
  from card_Suc_Diff1 [OF this mem] have "Suc (free_count vol D2) = free_count vol D"
    unfolding free_count_def set .
  moreover have "only_pio m m3" using only_pio_trans [OF only_pio_trans [OF m1(3) m2(3)] m3(3)] .
  ultimately show ?thesis
    using m1(1) m2(1) m3(1,2) ch data fr
    by (intro exI [of _ t] exI [of _ m1] exI [of _ m2] exI [of _ k2] exI [of _ m3] exI [of _ k3] exI [of _ D2] conjI) assumption+
qed

section \<open>The loop\<close>

text \<open>
  The chain \<open>cs\<close> of a file at offset \<open>off\<close> and the chain \<open>cs'\<close> after some bytes \<open>s\<close> were written there.
\<close>

definition written :: "Fat16Volume \<Rightarrow> nat \<Rightarrow> (nat \<Rightarrow> char list) \<Rightarrow> nat list \<Rightarrow> nat \<Rightarrow> char list \<Rightarrow> (nat \<Rightarrow> char list) \<Rightarrow> nat list \<Rightarrow> bool" where
  "written vol c D cs off s D' cs' \<longleftrightarrow> fchain vol (fat_of vol D') c cs' \<and> (\<exists>ts. cs' = cs @ ts) \<and>
     (off + length s) div cluster_bytes vol < length cs' \<and>
     (\<exists>ys. off + length s \<le> length (file_bytes vol D cs @ ys) \<and> file_bytes vol D' cs' = put_str (file_bytes vol D cs @ ys) off s) \<and>
     frame vol (set cs') D D' \<and> free_count vol D' + length cs' = free_count vol D + length cs"

lemma written_trans:
  assumes "written vol c D cs off s D1 cs1" "written vol c D1 cs1 (off + length s) t D2 cs2"
  shows "written vol c D cs off (s @ t) D2 cs2"
proof -
  obtain ys where ys: "off + length s \<le> length (file_bytes vol D cs @ ys)" "file_bytes vol D1 cs1 = put_str (file_bytes vol D cs @ ys) off s"
    using assms(1) by (auto simp: written_def)
  obtain zs where zs: "off + length s + length t \<le> length (file_bytes vol D1 cs1 @ zs)"
    "file_bytes vol D2 cs2 = put_str (file_bytes vol D1 cs1 @ zs) (off + length s) t"
    using assms(2) by (auto simp: written_def)
  let ?X = "file_bytes vol D cs @ ys"
  have "put_str (put_str ?X off s @ zs) (off + length s) t = put_str (?X @ zs) off (s @ t)"
    using ys(1) put_str_append [of off s "?X @ zs" t] by (simp add: put_str_def)
  then have "file_bytes vol D2 cs2 = put_str (file_bytes vol D cs @ ys @ zs) off (s @ t)" using ys(2) zs(2) by simp
  moreover have "off + length (s @ t) \<le> length (file_bytes vol D cs @ ys @ zs)"
    using zs(1) ys by (simp add: length_put_str)
  moreover have "frame vol (set cs2) D D2"
    by (rule frame_trans [of vol "set cs1" D D1 "set cs2"]) (use assms in \<open>auto simp: written_def\<close>)
  moreover have "\<exists>ts. cs2 = cs @ ts" "free_count vol D2 + length cs2 = free_count vol D + length cs"
    "fchain vol (fat_of vol D2) c cs2" "(off + length (s @ t)) div cluster_bytes vol < length cs2"
    using assms by (auto simp: written_def add.assoc)
  ultimately show ?thesis unfolding written_def by blast
qed

lemma written_put:
  assumes "vol_ok vol" "disk_ok D m" "fchain vol (fat_of vol D) c cs" "off div cluster_bytes vol < length cs"
    and "off mod cluster_bytes vol + length s \<le> cluster_bytes vol"
    and "x = cs ! (off div cluster_bytes vol)" "b = put_str (cluster_data vol D x) (off mod cluster_bytes vol) s"
  shows "fchain vol (fat_of vol (put_cluster vol D x b)) c cs"
    "file_bytes vol (put_cluster vol D x b) cs = put_str (file_bytes vol D cs) off s"
    "frame vol (set cs) D (put_cluster vol D x b)" "free_count vol (put_cluster vol D x b) = free_count vol D"
    "length b = cluster_bytes vol"
proof -
  have x: "clus_ok vol x" "x \<in> set cs" using fchain_clus_ok [OF assms(3)] assms(4,6) by simp_all
  show len: "length b = cluster_bytes vol" using assms(5) length_cluster_data [OF assms(1,2)] by (simp add: assms(7) put_str_def)
  have F: "fat_of vol (put_cluster vol D x b) y = fat_of vol D y" if "y < 256 * sectors_fat (sb vol)" for y
    using fat_of_put_cluster [OF assms(1) that] .
  show "fchain vol (fat_of vol (put_cluster vol D x b)) c cs"
    by (rule fchain_cong [OF assms(3)]) (use F fchain_clus_ok [OF assms(3)] in \<open>auto simp: clus_ok_def\<close>)
  show "file_bytes vol (put_cluster vol D x b) cs = put_str (file_bytes vol D cs) off s"
    using file_bytes_put [OF assms(1-3) assms(4) assms(5)] by (simp add: assms(6,7))
  show "frame vol (set cs) D (put_cluster vol D x b)"
    using frame_trans [OF frame_put_cluster [OF assms(1) x(1) len] frame_refl, of "set cs"] x(2) by auto
  show "free_count vol (put_cluster vol D x b) = free_count vol D"
    unfolding free_count_def by (rule arg_cong [of _ _ card]) (use F in \<open>auto simp: free_entry_def\<close>)
qed

lemma write_chunk:
  assumes "0 < (cb :: nat)" "n = min (cb - off mod cb) r" "0 < r"
  shows "0 < n" "n \<le> r" "off mod cb + n \<le> cb"
    "(off + n) mod cb = 0 \<longleftrightarrow> off mod cb + n = cb" "off mod cb + n = cb \<Longrightarrow> (off + n) div cb = off div cb + 1"
    "off mod cb + n \<noteq> cb \<Longrightarrow> (off + n) div cb = off div cb"
proof -
  have md: "off mod cb < cb" using assms(1) by simp
  show n: "0 < n" "n \<le> r" "off mod cb + n \<le> cb" using md assms(2,3) by auto
  have o: "off + n = off div cb * cb + (off mod cb + n)" using div_mult_mod_eq [of off cb] by simp
  show "(off + n) mod cb = 0 \<longleftrightarrow> off mod cb + n = cb"
  proof (cases "off mod cb + n = cb")
    case False
    then have "off mod cb + n < cb" using n(3) by simp
    then have "(off + n) mod cb = off mod cb + n" using mod_add_left_eq [of off cb n] by simp
    then show ?thesis using False n(1) by simp
  qed (subst o, simp)
  show "(off + n) div cb = off div cb + 1" if "off mod cb + n = cb"
    using that assms(1) by (subst o) simp
  show "(off + n) div cb = off div cb" if "off mod cb + n \<noteq> cb"
  proof (rule div_nat_eqI)
    show "cb * (off div cb) \<le> off + n" using times_div_less_eq_dividend [of cb off] by linarith
    have "off + n < off div cb * cb + cb" using o that n(3) by linarith
    then show "off + n < cb * Suc (off div cb)" by (simp add: mult.commute)
  qed
qed

lemma write_file_step_ok:
  assumes "disk_ok D m" "alloc_ok vol" "fchain vol (fat_of vol D) c cs" "off div cluster_bytes vol < length cs"
    and "length blk = cluster_bytes vol" "cnt < sz" "sz \<le> length ub" "off + (sz - cnt) < 2147483648" "sz < 2147483648"
    and "n = min (cluster_bytes vol - off mod cluster_bytes vol) (sz - cnt)"
    and "length cs \<le> (off + n) div cluster_bytes vol \<longrightarrow> 0 < free_count vol D"
  shows "\<exists>m' blk' D' cs'. write_file_step vol stk ub sz m blk (cs ! (off div cluster_bytes vol)) off cnt =
      Some (Inr (m', blk', cs' ! ((off + n) div cluster_bytes vol), off + n, cnt + n)) \<and>
    disk_ok D' m' \<and> only_pio m m' \<and> length blk' = cluster_bytes vol \<and> written vol c D cs off (take n (drop cnt ub)) D' cs'"
proof -
  have vol: "vol_ok vol" using assms(2) by (simp add: alloc_ok_def)
  define cb where "cb = cluster_bytes vol"
  have cb: "0 < cb" "cb < 2147483648" using cluster_bytes_pos [OF vol] by (simp_all add: cb_def)
  have "0 < sz - cnt" using assms(6) by simp
  note n = write_chunk [OF cb(1) assms(10) [folded cb_def] this]
  define x s where "x = cs ! (off div cb)" and "s = take n (drop cnt ub)"
  have x: "clus_ok vol x" using fchain_clus_ok [OF assms(3)] assms(4) by (simp add: x_def cb_def)
  have s: "length s = n" using n(2) assms(6,7) by (simp add: s_def)
  obtain m1 where m1: "fat_read_cluster m vol x blk = Some (Inr (m1, cluster_data vol D x, sectors_per_cluster (sb vol)))" "disk_ok D m1" "only_pio m m1"
    using fat_read_cluster_ok [OF assms(1) vol x assms(5)] by blast
  define b where "b = put_str (cluster_data vol D x) (off mod cb) s"
  define D1 where "D1 = put_cluster vol D x b"
  have "off mod cluster_bytes vol + length s \<le> cluster_bytes vol" using n(3) s by (simp add: cb_def)
  note put = written_put [OF vol assms(1,3,4) this x_def [unfolded cb_def] b_def [unfolded cb_def], folded D1_def]
  obtain m2 where m2: "fat_write_cluster m1 vol b (int x) 1 = Some (Inr m2)" "disk_ok D1 m2" "only_pio m1 m2"
    using fat_write_cluster_ok [OF m1(2) vol x put(5)] unfolding D1_def by blast
  have cp: "memcpy ub cnt (cluster_data vol D x) (off mod cb) n = Inr b"
    using memcpy_spec [of cnt n ub "off mod cb" "cluster_data vol D x"] n(2,3) assms(6,7) length_cluster_data [OF vol assms(1), of x]
    by (simp add: b_def s_def cb_def)
  have im: "imin (sub32 cb (off mod cb)) (sub32 sz cnt) = n" "add32 off n = off + n" "add32 cnt n = cnt + n"
    using assms(6,8,9,10) n(2) cb mod_less_divisor [OF cb(1), of off]
    by (simp_all add: sub32_exact add32_exact imin_exact less_imp_le cb_def)
  obtain m3 where m3: "fat_get_next_cluster m2 stk vol x = Some (Inr (m3, fat_of vol D1 x))" "disk_ok D1 m3" "only_pio m2 m3"
    using fat_get_next_cluster_ok [OF m2(2) vol clus_ok_bound(1) [OF x], of stk] by (auto simp: returns_def)
  have pio3: "only_pio m m2" "only_pio m m3" using m1 m2 m3 only_pio_trans by blast+
  have off: "off + n \<le> length (file_bytes vol D cs)"
  proof -
    have "off + n \<le> (off div cb + 1) * cb" using div_mult_mod_eq [of off cb] n(3) unfolding add_mult_distrib by linarith
    also have "\<dots> \<le> length cs * cb" using assms(4) by (intro mult_le_mono1) (simp add: cb_def)
    finally show ?thesis using length_file_bytes [OF vol assms(1)] by (simp add: cb_def)
  qed
  have base: "\<exists>ys. off + length s \<le> length (file_bytes vol D cs @ ys) \<and> file_bytes vol D1 cs = put_str (file_bytes vol D cs @ ys) off s"
    using put(2) off s by (intro exI [of _ "[]"]) simp
  have head: "write_file_step vol stk ub sz m blk x off cnt =
      (if (off + n) mod cb = 0 then
         if FAT_CLUS_EOF (fat_of vol D1 x) then
           bind_ro (fat_get_free_cluster m3 stk vol) (\<lambda>(m, t).
           bind_ro (write_fat m stk vol x t) (\<lambda>(m, _).
           bind_ro (write_fat m stk vol t 0xFFFF) (\<lambda>(m, _).
           bind_ro (Some (memset b NUL (int cb))) (\<lambda>blk. Some (Inr (m, blk, t, off + n, cnt + n))))))
         else Some (Inr (m3, b, fat_of vol D1 x, off + n, cnt + n))
       else Some (Inr (m2, b, x, off + n, cnt + n)))"
    unfolding write_file_step_def Let_def cb_def [symmetric] umod_def using m1(1) m2(1) m3(1) cp im cb(1) by simp
  show ?thesis
    unfolding cb_def [symmetric] x_def [symmetric] s_def [symmetric]
  proof (cases "off mod cb + n = cb")
    case False
    then have "write_file_step vol stk ub sz m blk x off cnt = Some (Inr (m2, b, cs ! ((off + n) div cb), off + n, cnt + n))"
      using head n(4,6) by (simp add: x_def)
    moreover have "written vol c D cs off s D1 cs"
      using put base assms(4) n(6) [OF False] s by (simp add: written_def cb_def)
    ultimately show "\<exists>m' blk' D' cs'. write_file_step vol stk ub sz m blk x off cnt = Some (Inr (m', blk', cs' ! ((off + n) div cb), off + n, cnt + n)) \<and>
        disk_ok D' m' \<and> only_pio m m' \<and> length blk' = cb \<and> written vol c D cs off s D' cs'"
      using m2(2) pio3(1) put(5) unfolding cb_def by blast
  next
    case at: True
    show "\<exists>m' blk' D' cs'. write_file_step vol stk ub sz m blk x off cnt = Some (Inr (m', blk', cs' ! ((off + n) div cb), off + n, cnt + n)) \<and>
        disk_ok D' m' \<and> only_pio m m' \<and> length blk' = cb \<and> written vol c D cs off s D' cs'"
    proof (cases "off div cb + 1 < length cs")
      case True
      have nx: "fchain vol (fat_of vol D1) x (drop (off div cb) cs)" using fchain_drop [OF put(1), of "off div cb"] True by (simp add: x_def)
      have "drop (off div cb) cs = x # drop (off div cb + 1) cs" using True Cons_nth_drop_Suc [of "off div cb" cs] by (simp add: x_def)
      then have "fchain vol (fat_of vol D1) (fat_of vol D1 x) (drop (off div cb + 1) cs)" using nx by simp
      from fchain_start [OF this] have y: "fat_of vol D1 x = cs ! (off div cb + 1)" using True by simp
      have "clus_ok vol (cs ! (off div cb + 1))" using fchain_clus_ok [OF assms(3)] True by simp
      then have "write_file_step vol stk ub sz m blk x off cnt = Some (Inr (m3, b, cs ! ((off + n) div cb), off + n, cnt + n))"
        using head n(4) at n(5) y clus_ok_bound(2) by simp
      moreover have "written vol c D cs off s D1 cs"
        using put base True n(5) [OF at] s by (simp add: written_def cb_def)
      ultimately show ?thesis using m3(2) pio3(2) put(5) unfolding cb_def by blast
    next
      case last: False
      have len: "off div cb + 1 = length cs" using last assms(4) unfolding cb_def by linarith
      then have "cs \<noteq> []" by auto
      moreover from this have "x = last cs" using len by (simp add: x_def last_conv_nth flip: len)
      ultimately have ne: "cs \<noteq> []" "x = last cs" "off div cb + 1 = length cs" using len by blast+
      have "0 < free_count vol D1" using assms(11) n(5) [OF at] ne(3) put(4) by (simp add: cb_def)
      from extend_ok [OF m3(2) assms(2) put(1) ne(1) this]
      obtain t m4 m5 k5 m6 k6 D2 where g: "fat_get_free_cluster m3 stk vol = Some (Inr (m4, t))"
        "write_fat m4 stk vol (last cs) t = Some (Inr (m5, k5))" "write_fat m5 stk vol t 0xFFFF = Some (Inr (m6, k6))"
        "disk_ok D2 m6" "only_pio m3 m6" "fchain vol (fat_of vol D2) c (cs @ [t])" "frame vol {last cs, t} D1 D2"
        "\<forall>x. cluster_data vol D2 x = cluster_data vol D1 x" "Suc (free_count vol D2) = free_count vol D1" by blast
      have eof: "FAT_CLUS_EOF (fat_of vol D1 x)" using fchain_last [OF put(1) ne(1)] ne(2) by simp
      have ms: "memset b NUL (int cb) = Inr (replicate cb NUL)"
        using fill_range_spec [of 0 cb b NUL] put(5) by (simp add: memset_def cb_def)
      have t: "(cs @ [t]) ! ((off + n) div cb) = t" using n(5) [OF at] ne(3) by (simp add: nth_append)
      have "write_file_step vol stk ub sz m blk x off cnt =
          Some (Inr (m6, replicate cb NUL, (cs @ [t]) ! ((off + n) div cb), off + n, cnt + n))"
        unfolding t using head n(4) at eof g(1-3) ms ne(2) by simp
      moreover have "written vol c D cs off s D2 (cs @ [t])"
      proof -
        have fb: "file_bytes vol D2 (cs @ [t]) = file_bytes vol D1 cs @ cluster_data vol D1 t"
          using g(8) by (simp add: file_bytes_def cong: map_cong)
        obtain ys where "off + length s \<le> length (file_bytes vol D cs @ ys)" "file_bytes vol D1 cs = put_str (file_bytes vol D cs @ ys) off s"
          using base by blast
        then have "file_bytes vol D2 (cs @ [t]) = put_str (file_bytes vol D cs @ ys @ cluster_data vol D1 t) off s"
          "off + length s \<le> length (file_bytes vol D cs @ ys @ cluster_data vol D1 t)"
          unfolding fb by (simp_all add: put_str_def)
        moreover have "frame vol (set (cs @ [t])) D D2"
          by (rule frame_trans [OF put(3) g(7)]) (use ne(1) in auto)
        moreover have "(off + length s) div cb < length (cs @ [t])" using s n(5) [OF at] ne(3) by simp
        moreover have "free_count vol D2 + length (cs @ [t]) = free_count vol D + length cs" using g(9) put(4) by simp
        ultimately show ?thesis using g(6) unfolding written_def cb_def by blast
      qed
      ultimately show ?thesis using g(4) only_pio_trans [OF pio3(2) g(5)] by (intro exI conjI) (assumption | simp)+
    qed
  qed
qed

lemma written_refl:
  "fchain vol (fat_of vol D) c cs \<Longrightarrow> off div cluster_bytes vol < length cs \<Longrightarrow> off \<le> length (file_bytes vol D cs) \<Longrightarrow>
     written vol c D cs off [] D cs"
  unfolding written_def by (auto simp: put_str_def intro!: exI [of _ "[]"])

lemma offset_in_chain: "0 < (cb :: nat) \<Longrightarrow> off div cb < k \<Longrightarrow> off \<le> k * cb"
  using dividend_less_div_times [of cb off] mult_le_mono1 [of "Suc (off div cb)" k cb] by simp

lemma write_file_loop_ok:
  assumes "disk_ok D m" "alloc_ok vol" "fchain vol (fat_of vol D) c cs" "off div cluster_bytes vol < length cs"
    and "length blk = cluster_bytes vol" "cnt \<le> sz" "sz \<le> length ub" "off + (sz - cnt) < 2147483648" "sz < 2147483648"
    and "(off + (sz - cnt)) div cluster_bytes vol < length cs + free_count vol D"
  shows "\<exists>m' D' cs'. write_file_loop vol stk ub sz m blk (cs ! (off div cluster_bytes vol)) off cnt =
      Some (Inr (m', cs' ! ((off + (sz - cnt)) div cluster_bytes vol), off + (sz - cnt))) \<and>
    disk_ok D' m' \<and> only_pio m m' \<and> written vol c D cs off (take (sz - cnt) (drop cnt ub)) D' cs'"
  using assms(1,3-6,8,10)
proof (induction "sz - cnt" arbitrary: D m cs off blk cnt rule: less_induct)
  case less
  have vol: "vol_ok vol" using assms(2) by (simp add: alloc_ok_def)
  define cb where "cb = cluster_bytes vol"
  have cb: "0 < cb" using cluster_bytes_pos [OF vol] by (simp add: cb_def)
  show ?case
  proof (cases "cnt < sz")
    case False
    then have "cnt = sz" using less.prems(5) by simp
    moreover have "off \<le> length (file_bytes vol D cs)"
      using offset_in_chain [OF cb, of off "length cs"] less.prems(3) length_file_bytes [OF vol less.prems(1)] by (simp add: cb_def)
    ultimately show ?thesis using less.prems written_refl [OF less.prems(2,3)]
      by (intro exI [of _ m] exI [of _ D] exI [of _ cs], subst write_file_loop.simps) simp
  next
    case True
    define n where "n = min (cb - off mod cb) (sz - cnt)"
    have n: "0 < n" "n \<le> sz - cnt" using write_chunk [OF cb n_def] True by simp_all
    have "length cs \<le> (off + n) div cb \<longrightarrow> 0 < free_count vol D"
      using less.prems(7) div_le_mono [of "off + n" "off + (sz - cnt)" cb] n(2) by (auto simp: cb_def)
    from write_file_step_ok [OF less.prems(1) assms(2) less.prems(2,3,4) True assms(7) less.prems(6) assms(9) n_def [unfolded cb_def] this [unfolded cb_def], of stk]
    obtain m1 blk1 D1 cs1 where s1: "write_file_step vol stk ub sz m blk (cs ! (off div cb)) off cnt =
        Some (Inr (m1, blk1, cs1 ! ((off + n) div cb), off + n, cnt + n))" "disk_ok D1 m1" "only_pio m m1" "length blk1 = cb"
      "written vol c D cs off (take n (drop cnt ub)) D1 cs1" unfolding cb_def by blast
    have len: "length (take n (drop cnt ub)) = n" using n(2) True assms(7) by simp
    have ch: "fchain vol (fat_of vol D1) c cs1" "(off + n) div cb < length cs1" "free_count vol D1 + length cs1 = free_count vol D + length cs"
      using s1(5) len by (auto simp: written_def cb_def)
    have rest: "off + n + (sz - (cnt + n)) = off + (sz - cnt)" "sz - (cnt + n) < sz - cnt" "cnt + n \<le> sz" using n True by auto
    obtain m2 D2 cs2 where s2: "write_file_loop vol stk ub sz m1 blk1 (cs1 ! ((off + n) div cb)) (off + n) (cnt + n) =
        Some (Inr (m2, cs2 ! ((off + (sz - cnt)) div cb), off + (sz - cnt)))" "disk_ok D2 m2" "only_pio m1 m2"
      "written vol c D1 cs1 (off + n) (take (sz - (cnt + n)) (drop (cnt + n) ub)) D2 cs2"
      using less.hyps [OF rest(2) s1(2) ch(1) ch(2) [unfolded cb_def] s1(4) [unfolded cb_def] rest(3), unfolded rest(1)] less.prems(6,7) ch(3)
      unfolding cb_def [symmetric] by (auto simp: add.commute)
    have "take n (drop cnt ub) @ take (sz - (cnt + n)) (drop (cnt + n) ub) = take (sz - cnt) (drop cnt ub)"
    proof -
      have "sz - cnt = n + (sz - (cnt + n))" using rest by simp
      then show ?thesis by (simp add: take_add add.commute)
    qed
    then have "written vol c D cs off (take (sz - cnt) (drop cnt ub)) D2 cs2"
      using written_trans [OF s1(5), of "take (sz - (cnt + n)) (drop (cnt + n) ub)" D2 cs2] s2(4) len by simp
    moreover have "write_file_loop vol stk ub sz m blk (cs ! (off div cb)) off cnt =
        Some (Inr (m2, cs2 ! ((off + (sz - cnt)) div cb), off + (sz - cnt)))"
      using True s1(1) s2(1) by (subst write_file_loop.simps) simp
    ultimately show ?thesis using s2(2) only_pio_trans [OF s1(3) s2(3)] unfolding cb_def by blast
  qed
qed

end
