(* ===== verification/Ts_Fat_Dir.thy ===== *)
theory Ts_Fat_Dir
  imports Ts_Fat_Table Ts_Fat_File
begin

text \<open>
  Directory entries: the packed structure and its bytes, the search in a block, the form of a name in an entry,
  and the two functions that take a path apart.
\<close>

section \<open>Entries\<close>

definition dirent_ok :: "FatDirEntry \<Rightarrow> bool" where
  "dirent_ok e \<longleftrightarrow> length (filename e) = 8 \<and> length (ext e) = 3 \<and> attr e < 256 \<and> create_mill e < 256 \<and>
     create_time e < 65536 \<and> create_date e < 65536 \<and> last_access e < 65536 \<and> reserve_32 e < 65536 \<and> last_wtime e < 65536 \<and>
     last_wdate e < 65536 \<and> start_cluster e < 65536 \<and> file_size e < 4294967296"

lemma length_dirent_bytes: "dirent_ok e \<Longrightarrow> length (dirent_bytes e) = 32"
  by (simp add: dirent_ok_def dirent_bytes_def)

lemma le16_bytes16_drop: "n < 65536 \<Longrightarrow> le16 (bytes16 n @ r) 0 = n"
  using le16_bytes16 [of n] by (simp add: le16_append)

lemma le16_skip: "le16 (a # b # r) (i + 2) = le16 r i"
  by (simp add: le16_def)

lemma bytes16_cons: "\<exists>a b. bytes16 n = [a, b]"
  by (simp add: bytes16_def)

lemma le32_bytes32: "n < 4294967296 \<Longrightarrow> le32 (bytes32 n @ r) 0 = n"
proof -
  assume n: "n < 4294967296"
  have "n div 65536 < 65536" using n less_mult_imp_div_less [of n 65536 65536] by simp
  moreover have "le16 (bytes16 (n mod 65536) @ bytes16 (n div 65536) @ r) 2 = le16 (bytes16 (n div 65536) @ r) 0"
    by (simp add: le16_append)
  ultimately show ?thesis
    by (simp add: le32_def bytes32_def le16_bytes16_drop numeral_2_eq_2)
qed

lemma le16_at: "length a = i \<Longrightarrow> n < 65536 \<Longrightarrow> le16 (a @ bytes16 n @ r) i = n"
  using le16_bytes16_drop [of n r] by (simp add: le16_append(2))

lemma le32_at: "length a = i \<Longrightarrow> n < 4294967296 \<Longrightarrow> le32 (a @ bytes32 n @ r) i = n"
  using le32_bytes32 [of n r] by (simp add: le32_def le16_append(2) numeral_2_eq_2)

text \<open>Storing an entry into a block and reading it again gives the entry.\<close>

lemma dirent_at_bytes:
  assumes "dirent_ok e"
  shows "dirent_at (a @ dirent_bytes e @ r) (length a) = e"
proof -
  let ?b = "dirent_bytes e @ r"
  define x0 x1 x2 x3 x4 x5 x6 x7 x8 where
    "x0 = filename e @ ext e @ [char_of (attr e), reserved e, char_of (create_mill e)]" and "x1 = x0 @ bytes16 (create_time e)" and
    "x2 = x1 @ bytes16 (create_date e)" and "x3 = x2 @ bytes16 (last_access e)" and "x4 = x3 @ bytes16 (reserve_32 e)" and
    "x5 = x4 @ bytes16 (last_wtime e)" and "x6 = x5 @ bytes16 (last_wdate e)" and "x7 = x6 @ bytes16 (start_cluster e)" and
    "x8 = x7 @ bytes32 (file_size e)"
  note e = assms [unfolded dirent_ok_def]
  have len: "length x0 = 14" "length x1 = 16" "length x2 = 18" "length x3 = 20" "length x4 = 22" "length x5 = 24" "length x6 = 26" "length x7 = 28"
    using e by (simp_all add: x0_def x1_def x2_def x3_def x4_def x5_def x6_def x7_def)
  have b: "?b = x8 @ r" by (simp add: dirent_bytes_def x0_def x1_def x2_def x3_def x4_def x5_def x6_def x7_def x8_def)
  have f1: "le16 ?b 14 = create_time e" using le16_at [OF len(1), of "create_time e"] e by (simp add: b x1_def x2_def x3_def x4_def x5_def x6_def x7_def x8_def)
  have f2: "le16 ?b 16 = create_date e" using le16_at [OF len(2), of "create_date e"] e by (simp add: b x2_def x3_def x4_def x5_def x6_def x7_def x8_def)
  have f3: "le16 ?b 18 = last_access e" using le16_at [OF len(3), of "last_access e"] e by (simp add: b x3_def x4_def x5_def x6_def x7_def x8_def)
  have f4: "le16 ?b 20 = reserve_32 e" using le16_at [OF len(4), of "reserve_32 e"] e by (simp add: b x4_def x5_def x6_def x7_def x8_def)
  have f5: "le16 ?b 22 = last_wtime e" using le16_at [OF len(5), of "last_wtime e"] e by (simp add: b x5_def x6_def x7_def x8_def)
  have f6: "le16 ?b 24 = last_wdate e" using le16_at [OF len(6), of "last_wdate e"] e by (simp add: b x6_def x7_def x8_def)
  have f7: "le16 ?b 26 = start_cluster e" using le16_at [OF len(7), of "start_cluster e"] e by (simp add: b x7_def x8_def)
  have f8: "le32 ?b 28 = file_size e" using le32_at [OF len(8), of "file_size e"] e by (simp add: b x8_def)
  have g: "take 8 ?b = filename e" "take 3 (drop 8 ?b) = ext e" "?b ! 11 = char_of (attr e)" "?b ! 12 = reserved e" "?b ! 13 = char_of (create_mill e)"
    using e by (simp_all add: dirent_bytes_def nth_append)
  show ?thesis using e f1 f2 f3 f4 f5 f6 f7 f8 g by (simp add: dirent_at_def Let_def)
qed

lemma dirent_at_ok: "p + 32 \<le> length b \<Longrightarrow> dirent_ok (dirent_at b p)"
proof -
  assume p: "p + 32 \<le> length b"
  have "le32 (drop p b) 28 < 4294967296" using le16_bound [of "drop p b" 28] le16_bound [of "drop p b" 30] by (simp add: le32_def)
  then show ?thesis using p by (simp add: dirent_ok_def dirent_at_def Let_def le16_bound)
qed

lemma dirent_at_append: "p + 32 \<le> length a \<Longrightarrow> dirent_at (a @ b) p = dirent_at a p"
proof -
  assume p: "p + 32 \<le> length a"
  have l: "le16 (drop p a @ b) i = le16 (drop p a) i" if "i < 31" for i using p that by (intro le16_append(1)) simp
  have n: "(drop p a @ b) ! i = drop p a ! i" if "i < 32" for i
  proof -
    have "i < length (drop p a)" using p that by simp
    then show ?thesis by (rule nth_append_left)
  qed
  show ?thesis using p by (simp add: dirent_at_def Let_def l n le32_def)
qed

section \<open>Searching a block\<close>

lemma str_equal_range_spec:
  assumes "0 \<le> i" "nat e < length a" "nat e < length b"
  shows "str_equal_range a b i e = Inr (if \<forall>j. i \<le> j \<and> j \<le> e \<longrightarrow> a ! nat j = b ! nat j then 1 else 0)"
  using assms
proof (induction "nat (e + 1 - i)" arbitrary: i)
  case 0
  then show ?case by (subst str_equal_range.simps) auto
next
  case (Suc n)
  then have i: "i \<le> e" "nat i < length a" "nat i < length b" by auto
  have ih: "str_equal_range a b (i + 1) e = Inr (if \<forall>j. i + 1 \<le> j \<and> j \<le> e \<longrightarrow> a ! nat j = b ! nat j then 1 else 0)"
    using Suc by (intro Suc.hyps(1)) simp_all
  have all: "(\<forall>j. i \<le> j \<and> j \<le> e \<longrightarrow> a ! nat j = b ! nat j) \<longleftrightarrow>
      a ! nat i = b ! nat i \<and> (\<forall>j. i + 1 \<le> j \<and> j \<le> e \<longrightarrow> a ! nat j = b ! nat j)"
  proof
    assume A: "a ! nat i = b ! nat i \<and> (\<forall>j. i + 1 \<le> j \<and> j \<le> e \<longrightarrow> a ! nat j = b ! nat j)"
    show "\<forall>j. i \<le> j \<and> j \<le> e \<longrightarrow> a ! nat j = b ! nat j"
    proof (intro allI impI)
      fix j assume "i \<le> j \<and> j \<le> e"
      then show "a ! nat j = b ! nat j" using A by (cases "j = i") auto
    qed
  qed (use i(1) in auto)
  show ?case
    unfolding all using i Suc.prems(1) ih by (subst str_equal_range.simps) (simp add: rd_int_def rd_in)
qed

lemma fat_filename_match_spec:
  assumes "length (filename e) = 8" "8 \<le> length name"
  shows "fat_filename_match e name = Inr (filename e = take 8 name)"
proof -
  have "(\<forall>j. 0 \<le> j \<and> j \<le> (7 :: int) \<longrightarrow> filename e ! nat j = name ! nat j) \<longleftrightarrow> filename e = take 8 name"
  proof
    assume A: "\<forall>j. 0 \<le> j \<and> j \<le> (7 :: int) \<longrightarrow> filename e ! nat j = name ! nat j"
    show "filename e = take 8 name"
    proof (rule nth_equalityI)
      fix k assume "k < length (filename e)"
      then show "filename e ! k = take 8 name ! k" using A [rule_format, of "int k"] assms by simp
    qed (use assms in simp)
  next
    assume "filename e = take 8 name"
    then show "\<forall>j. 0 \<le> j \<and> j \<le> (7 :: int) \<longrightarrow> filename e ! nat j = name ! nat j" by (auto simp: nat_less_iff)
  qed
  then show ?thesis using str_equal_range_spec [of 0 7 "filename e" name] assms by (simp add: fat_filename_match_def)
qed

text \<open>
  The entry at \<open>p\<close> has the name and a start cluster other than 0. Like the code, this passes over an entry with start cluster 0,
  which an empty file made by another system may have.
\<close>

definition entry_is :: "char list \<Rightarrow> char list \<Rightarrow> nat \<Rightarrow> bool" where
  "entry_is blk name p \<longleftrightarrow> start_cluster (dirent_at blk p) \<noteq> 0 \<and> filename (dirent_at blk p) = take 8 name"

definition find_entry :: "char list \<Rightarrow> nat \<Rightarrow> char list \<Rightarrow> nat option" where
  "find_entry blk n name = find (entry_is blk name) (map ((*) 32) [0..<n])"

lemma search_name_from:
  assumes "32 * n \<le> length blk" "8 \<le> length name" "k \<le> n"
  shows "search_name_in_block blk (32 * n) name (32 * k) = Inr (find (entry_is blk name) (map ((*) 32) [k..<n]))"
  using assms(3)
proof (induction "n - k" arbitrary: k)
  case 0
  then show ?case by (subst search_name_in_block.simps) simp
next
  case (Suc d)
  then have k: "k < n" "32 * k + 32 \<le> length blk" using assms(1) by simp_all
  define e where "e = dirent_at blk (32 * k)"
  have e: "rd_dirent blk (32 * k) = Inr e" "length (filename e) = 8"
    using k(2) dirent_at_ok [OF k(2)] by (simp_all add: rd_dirent_def e_def dirent_ok_def)
  have ih: "search_name_in_block blk (32 * n) name (32 * Suc k) = Inr (find (entry_is blk name) (map ((*) 32) [Suc k..<n]))"
    using Suc k(1) by (intro Suc.hyps(1)) simp_all
  have up: "[k..<n] = k # [Suc k..<n]" using k(1) by (rule upt_conv_Cons)
  have "search_name_in_block blk (32 * n) name (32 * k) =
      (if start_cluster e \<noteq> 0 \<and> filename e = take 8 name then Inr (Some (32 * k)) else search_name_in_block blk (32 * n) name (32 * Suc k))"
    using k(1) e(1) fat_filename_match_spec [OF e(2) assms(2)]
    by (subst search_name_in_block.simps) (simp add: FAT_CLUS_FREE_def add.commute)
  then show ?case unfolding up using ih by (simp add: entry_is_def flip: e_def)
qed

lemma search_name_spec:
  "32 * n \<le> length blk \<Longrightarrow> 8 \<le> length name \<Longrightarrow> search_name_in_block blk (32 * n) name 0 = Inr (find_entry blk n name)"
  using search_name_from [of n blk name 0] by (simp add: find_entry_def)

lemma find_entry_Some:
  assumes "find_entry blk n name = Some p"
  shows "entry_is blk name p" "32 dvd p" "p + 32 \<le> 32 * n"
  using assms by (auto simp: find_entry_def find_Some_iff)

lemma find_entry_append:
  assumes "32 * n \<le> length a" "find_entry a n name = Some p" "n \<le> k"
  shows "find_entry (a @ b) k name = Some p"
proof -
  have same: "entry_is (a @ b) name (32 * j) = entry_is a name (32 * j)" if "j < n" for j
    using that assms(1) by (simp add: entry_is_def dirent_at_append)
  have "find (entry_is (a @ b) name) (map ((*) 32) [0..<n]) = Some p"
    using assms(2) same by (auto simp: find_entry_def find_Some_iff)
  moreover have "[0..<k] = [0..<n] @ [n..<k]" using assms(3) upt_add_eq_append [of 0 n "k - n"] by simp
  moreover have "find P (xs @ ys) = (case find P xs of Some x \<Rightarrow> Some x | None \<Rightarrow> find P ys)" for P :: "nat \<Rightarrow> bool" and xs ys
    by (induction xs) simp_all
  ultimately show ?thesis by (simp add: find_entry_def)
qed

section \<open>Updating an entry\<close>

text \<open>
  The entry of a file in the root directory is looked up in the sector that the search for the file recorded. The local
  block is longer than a sector if a cluster is; the entry is found in the sector, before the bytes that follow it.
\<close>

lemma fat_update_root_dirent:
  assumes "disk_ok D m" "vol_ok (volume f)" "dirent_cluster f = 0" "dirent_sector f < 268435456"
    and "length (filename (dirent f)) = 8" "find_entry (D (dirent_sector f)) 16 (filename (dirent f)) = Some p"
    and "e = (case new of Some x \<Rightarrow> x | None \<Rightarrow> dirent f)" "dirent_ok e"
  shows "\<exists>m'. fat_update_file_dirent m stk f new = Some (Inr m') \<and> only_pio m m' \<and>
    disk_ok (D(dirent_sector f := put_str (D (dirent_sector f)) p (dirent_bytes e))) m'"
proof -
  note v = vol_okD [OF assms(2)]
  define s cb where "s = dirent_sector f" and "cb = cluster_bytes (volume f)"
  have len: "length (D s) = 512" using disk_ok_length [OF assms(1)] .
  define blk where "blk = put_str (local_buf stk cb) 0 (D s)"
  have blk: "blk = D s @ drop 512 (local_buf stk cb)" "length blk = cb" "512 \<le> cb"
    using len v(2,4) by (simp_all add: blk_def put_str_def cb_def)
  define cmd where "cmd = \<lparr>lba_start = s, sec_num = 1, io_buf = local_buf stk cb, buf_size = cb\<rparr>"
  have one: "1 = min (buf_size cmd div 512) (sec_num cmd)" using v(2,4) by (simp add: cmd_def cb_def)
  obtain m1 k where m1: "ata_read_sector m cmd = Some (Inr (m1, blk, k))" "disk_ok D m1" "only_pio m m1"
    using ata_read_sector_ok [OF assms(1) one] assms(4) blk(3) by (auto simp: cmd_def returns_def blk_def s_def)
  have cb: "cb = 32 * (16 * sectors_per_cluster (sb (volume f)))" using v(4) by (simp add: cb_def)
  have p: "p + 32 \<le> 512" using find_entry_Some(3) [OF assms(6)] by simp
  have "find_entry blk (16 * sectors_per_cluster (sb (volume f))) (filename (dirent f)) = Some p"
    unfolding blk(1) using v(2) len assms(6) by (intro find_entry_append [of 16]) (simp_all add: s_def)
  then have srch: "search_name_in_block blk cb (filename (dirent f)) 0 = Inr (Some p)"
    using search_name_spec [of "16 * sectors_per_cluster (sb (volume f))" blk "filename (dirent f)"] blk(2) assms(5) unfolding cb by simp
  define blk' where "blk' = put_str blk p (dirent_bytes e)"
  have put: "put_bytes blk p (dirent_bytes e) = Inr blk'"
    using p blk(2,3) length_dirent_bytes [OF assms(8)] by (simp add: put_bytes_def blk'_def put_str_def)
  have "take 512 blk' = put_str (D s) p (dirent_bytes e)"
    using p len length_dirent_bytes [OF assms(8)] by (simp add: blk'_def blk(1) put_str_def)
  then have st: "store_sectors D s 1 blk' = D(s := put_str (D s) p (dirent_bytes e))"
    by (auto simp: store_sectors_def fun_eq_iff)
  have "512 * 1 \<le> length blk'" using p blk(2,3) length_dirent_bytes [OF assms(8)] by (simp add: blk'_def put_str_def)
  then obtain m2 j where m2: "ata_write_sector m1 (cmd\<lparr>io_buf := blk'\<rparr>) = Some (Inr (m2, j))"
    "disk_ok (D(s := put_str (D s) p (dirent_bytes e))) m2" "only_pio m1 m2"
    using ata_write_sector_ok [OF m1(2), of 1 "cmd\<lparr>io_buf := blk'\<rparr>"] assms(4) st by (auto simp: cmd_def returns_def s_def)
  have "fat_update_file_dirent m stk f new = Some (Inr m2)"
    using assms(3,7) m1(1) srch put m2(1) unfolding fat_update_file_dirent_def Let_def cmd_def s_def cb_def by simp
  then show ?thesis using m2(2) only_pio_trans [OF m1(3) m2(3)] unfolding s_def by blast
qed

section \<open>Paths\<close>

lemma skip_back_stop: "p < 0 \<or> \<not> P (s ! nat p) \<Longrightarrow> skip_back P s p = p"
  by (subst skip_back.simps) auto

lemma skip_back_run:
  "0 \<le> p - int k + 1 \<Longrightarrow> \<forall>j<k. P (s ! nat (p - int j)) \<Longrightarrow> skip_back P s p = skip_back P s (p - int k)"
proof (induction k arbitrary: p)
  case (Suc k)
  have "skip_back P s p = skip_back P s (p - 1)"
    using Suc.prems(1) Suc.prems(2) [rule_format, of 0] by (subst skip_back.simps) simp
  also have "\<dots> = skip_back P s (p - 1 - int k)"
  proof (rule Suc.IH)
    show "\<forall>j<k. P (s ! nat (p - 1 - int j))"
    proof (intro allI impI)
      fix j assume "j < k"
      then show "P (s ! nat (p - 1 - int j))" using Suc.prems(2) [rule_format, of "Suc j"] by (simp add: algebra_simps)
    qed
  qed (use Suc.prems(1) in simp)
  finally show ?case by (simp add: algebra_simps)
qed simp

text \<open>The byte after a copied string becomes its end.\<close>

lemma wr_terminator: "length n < length b \<Longrightarrow> wr (put_str b 0 n) (length n) NUL = Inr (put_str b 0 (n @ [NUL]))"
  by (simp add: wr_def put_str_def list_update_append upd_conv_take_nth_drop)

text \<open>A path: a directory part that is empty or ends with a slash, a name without slashes, and slashes after it.\<close>

lemma get_filename_spec:
  assumes "NUL \<notin> set (d @ n @ replicate k (CHR ''/''))" "n \<noteq> []" "CHR ''/'' \<notin> set n" "d = [] \<or> last d = CHR ''/''"
    and "length n < length b" "length (d @ n @ replicate k (CHR ''/'')) < 4294967296"
  shows "get_filename (Some (d @ n @ replicate k (CHR ''/'') @ [NUL])) b = Inr (Some (length d), put_str b 0 (n @ [NUL]))"
proof -
  define s where "s = d @ n @ replicate k (CHR ''/'') @ [NUL]"
  have len: "strlen s 0 = Inr (length d + length n + k)"
    using strlen_spec [of s 0 "d @ n @ replicate k (CHR ''/'')"] cstr_append_NUL [of "d @ n @ replicate k (CHR ''/'')" "[]" "[]"] assms(1,6)
    by (simp add: s_def)
  define q where "q = int (length d + length n) - 1"
  have n: "0 < length n" using assms(2) by simp
  have nq: "s ! nat (q - int j) = n ! (length n - 1 - j)" if "j < length n" for j
  proof -
    have e: "nat (q - int j) = length d + (length n - 1 - j)" using that by (simp add: q_def)
    have i: "length n - 1 - j < length n" using n by simp
    have "s ! (length d + i) = n ! i" if "i < length n" for i using that by (simp add: s_def nth_append)
    from this [OF i] show ?thesis unfolding e .
  qed
  have ne: "n ! i \<noteq> CHR ''/''" if "i < length n" for i using assms(3) that nth_mem by metis
  have sl: "s ! nat (int (length d + length n + k) - 1 - int j) = CHR ''/''" if "j < k" for j
  proof -
    have e: "nat (int (length d + length n + k) - 1 - int j) = length d + length n + (k - 1 - j)" using that by simp
    have "s ! (length d + length n + i) = CHR ''/''" if "i < k" for i using that by (simp add: s_def nth_append)
    from this [of "k - 1 - j"] show ?thesis unfolding e using that by simp
  qed
  have "skip_back (\<lambda>c. c = CHR ''/'') s (int (length d + length n + k) - 1) = skip_back (\<lambda>c. c = CHR ''/'') s (int (length d + length n + k) - 1 - int k)"
    using sl by (intro skip_back_run) auto
  also have "\<dots> = skip_back (\<lambda>c. c = CHR ''/'') s q" by (simp add: q_def algebra_simps)
  also have "\<dots> = q" using nq [of 0] ne [of "length n - 1"] n by (intro skip_back_stop) simp
  finally have p1: "skip_back (\<lambda>c. c = CHR ''/'') s (int (length d + length n + k) - 1) = q" .
  have "skip_back (\<lambda>c. c \<noteq> CHR ''/'') s q = skip_back (\<lambda>c. c \<noteq> CHR ''/'') s (q - int (length n))"
    using nq ne by (intro skip_back_run) (auto simp: q_def)
  also have "\<dots> = q - int (length n)"
  proof (rule skip_back_stop)
    show "q - int (length n) < 0 \<or> \<not> s ! nat (q - int (length n)) \<noteq> CHR ''/''"
    proof (cases "d = []")
      case False
      then have "nat (q - int (length n)) = length d - 1" by (simp add: q_def)
      moreover have "s ! (length d - 1) = CHR ''/''" using False assms(4) by (simp add: s_def nth_append last_conv_nth)
      ultimately show ?thesis by simp
    qed (simp add: q_def)
  qed
  finally have p2: "skip_back (\<lambda>c. c \<noteq> CHR ''/'') s q + 1 = int (length d)" by (simp add: q_def)
  have cp: "memcpy s (length d) b 0 (length n) = Inr (put_str b 0 n)"
    using memcpy_spec [of "length d" "length n" s 0 b] assms(5) by (simp add: s_def)
  have q0: "\<not> q < 0" "nat (q - int (length d) + 1) = length n" using n unfolding q_def by linarith+
  have "wr (put_str b 0 n) (length n) NUL = Inr (put_str b 0 (n @ [NUL]))" using assms(5) by (rule wr_terminator)
  then show ?thesis
    unfolding s_def [symmetric] get_filename_def using len p1 p2 q0 cp by (simp add: Let_def)
qed

text \<open>\<open>get_basedir\<close> remembers the last slash that another character follows.\<close>

lemma basedir_loop_upto:
  assumes "\<forall>x\<le>j. s ! x \<noteq> NUL" "s ! j = CHR ''/''" "s ! (j + 1) \<noteq> NUL" "j + 1 < length s" "i \<le> j"
  shows "basedir_loop s i r = basedir_loop s (j + 1) (Some j)"
  using assms(5)
proof (induction "j - i" arbitrary: i r)
  case 0
  then show ?case using assms(1-4) by (subst basedir_loop.simps) (simp add: rd_in)
next
  case (Suc n)
  then have i: "i < j" by simp
  then have "s ! i \<noteq> NUL" "i < length s" "rd s (i + 1) = Inr (s ! (i + 1))" using assms(1,4) by (simp_all add: rd_in)
  then show ?case using Suc.hyps(1) [of "i + 1"] Suc.hyps(2) i by (subst basedir_loop.simps) simp
qed

lemma basedir_loop_rest:
  assumes "s ! e = NUL" "e < length s" "\<forall>x<e. s ! x \<noteq> NUL" "\<forall>x. i \<le> x \<and> x + 1 < e \<longrightarrow> s ! x \<noteq> CHR ''/''" "i \<le> e"
  shows "basedir_loop s i r = Inr r"
  using assms(4,5)
proof (induction "e - i" arbitrary: i)
  case 0
  then show ?case using assms(1,2) by (subst basedir_loop.simps) simp
next
  case (Suc n)
  then have i: "i < e" by simp
  have "s ! i \<noteq> CHR ''/'' \<or> s ! (i + 1) = NUL" using Suc.prems(1) i assms(1) by (cases "i + 1 = e") auto
  moreover have "s ! i \<noteq> NUL" "i < length s" "rd s (i + 1) = Inr (s ! (i + 1))" using i assms(2,3) by (simp_all add: rd_in)
  ultimately show ?case using Suc.hyps(1) [of "i + 1"] Suc.hyps(2) Suc.prems(1) i by (subst basedir_loop.simps) auto
qed

lemma get_basedir_spec:
  assumes "NUL \<notin> set (d @ n @ t)" "n \<noteq> []" "CHR ''/'' \<notin> set n" "d \<noteq> []" "last d = CHR ''/''" "t = [] \<or> t = ''/''"
    and "length d < length b" "length d < 4294967296"
  shows "get_basedir pa (d @ n @ t @ [NUL]) b = Inr (Some (length d - 1), put_str b 0 (d @ [NUL]))"
proof -
  define s e j where "s = d @ n @ t @ [NUL]" and "e = length (d @ n @ t)" and "j = length d - 1"
  have d: "0 < length d" "j + 1 = length d" using assms(4) by (simp_all add: j_def Suc_leI)
  have n: "0 < length n" using assms(2) by simp
  have full: "s ! x = (d @ n @ t) ! x" if "x < e" for x using that nth_append_left [of x "d @ n @ t" "[NUL]"] by (simp add: s_def e_def)
  have nn: "\<forall>x<e. s ! x \<noteq> NUL" using full assms(1) nth_mem [of _ "d @ n @ t"] unfolding e_def by metis
  have e: "s ! e = NUL" "e < length s" by (simp_all add: s_def e_def nth_append)
  have "s ! j = CHR ''/''" using assms(4,5) by (simp add: s_def j_def nth_append last_conv_nth)
  moreover have "j + 1 < e" using d n by (simp add: e_def)
  moreover from this have "s ! (j + 1) \<noteq> NUL" "j + 1 < length s" "\<forall>x\<le>j. s ! x \<noteq> NUL" using nn e(2) by auto
  ultimately have "basedir_loop s 0 None = basedir_loop s (j + 1) (Some j)" by (intro basedir_loop_upto) simp_all
  also have "\<dots> = Inr (Some j)"
  proof (rule basedir_loop_rest [OF e nn])
    show "\<forall>x. j + 1 \<le> x \<and> x + 1 < e \<longrightarrow> s ! x \<noteq> CHR ''/''"
    proof (intro allI impI)
      fix x assume x: "j + 1 \<le> x \<and> x + 1 < e"
      then have i: "x - length d < length n" using assms(6) d by (auto simp: e_def)
      moreover have "s ! x = n ! (x - length d)" using i x d by (simp add: s_def nth_append)
      ultimately show "s ! x \<noteq> CHR ''/''" using assms(3) nth_mem by metis
    qed
  qed (use d n in \<open>simp add: e_def\<close>)
  finally have lp: "basedir_loop s 0 None = Inr (Some j)" .
  have cp: "memcpy s 0 b 0 (j + 1) = Inr (put_str b 0 d)"
    using memcpy_spec [of 0 "length d" s 0 b] assms(7) unfolding d(2) by (simp add: s_def)
  have "wr (put_str b 0 d) (j + 1) NUL = Inr (put_str b 0 (d @ [NUL]))"
    unfolding d(2) using assms(7) by (rule wr_terminator)
  moreover have "of_int32 (int j + 1) = j + 1" using assms(8) d(2) by (simp add: of_int32_def nat_add_distrib)
  ultimately show ?thesis using lp cp unfolding get_basedir_def s_def [symmetric] j_def [symmetric]
    by (simp add: Let_def nat_add_distrib del: memcpy.simps)
qed

lemma memcpy_beyond:
  "i \<le> length src \<Longrightarrow> j \<le> length d \<Longrightarrow> length src < i + n \<or> length d < j + n \<Longrightarrow> memcpy src i d j n = Inl OutOfBounds"
proof (induction n arbitrary: i j d)
  case (Suc n)
  show ?case
  proof (cases "i < length src \<and> j < length d")
    case True
    then show ?thesis using Suc by (simp add: rd_in wr_in)
  next
    case False
    then show ?thesis using Suc.prems by (cases "i < length src") (auto simp: rd_def wr_def)
  qed
qed simp

lemma get_basedir_no_slash:
  assumes "NUL \<notin> set p" "CHR ''/'' \<notin> set p" "0xC0000000 \<le> pa" "pa + length b \<le> 4294967296"
  shows "get_basedir pa (p @ [NUL]) b = Inl OutOfBounds"
proof -
  have lp: "basedir_loop (p @ [NUL]) 0 None = Inr None"
  proof (rule basedir_loop_rest [of _ "length p"])
    show "\<forall>x<length p. (p @ [NUL]) ! x \<noteq> NUL" using assms(1) nth_mem by (metis nth_append_left)
    show "\<forall>x. 0 \<le> x \<and> x + 1 < length p \<longrightarrow> (p @ [NUL]) ! x \<noteq> CHR ''/''"
      using assms(2) nth_mem by (metis nth_append_left add_lessD1)
  qed simp_all
  define n where "n = 4294967297 - pa"
  have "(1 - int pa) mod 4294967296 = int n"
    using assms(3,4) mod_add_self2 [of "1 - int pa" 4294967296] by (simp add: n_def)
  moreover have n: "n < 2147483648" "length b < n" using assms(3,4) by (simp_all add: n_def)
  ultimately have "to_int32 (nat ((1 - int pa) mod 4294967296)) = int n" "of_int32 (int n) = n"
    by (simp_all add: to_int32_def of_int32_def)
  then show ?thesis using lp memcpy_beyond [of 0 "p @ [NUL]" 0 b n] n(2) by (simp add: get_basedir_def del: memcpy.simps)
qed

section \<open>Names in an entry\<close>

lemma upper_loop_spec:
  assumes "i + n \<le> length b"
  shows "upper_loop b [i..<i + n] = Inr (put_str b i (map upper_case (take n (drop i b))))"
  using assms
proof (induction n arbitrary: b i)
  case (Suc n)
  let ?b = "b[i := upper_case (b ! i)]"
  have i: "i < length b" using Suc.prems by simp
  have up: "[i..<i + Suc n] = i # [Suc i..<Suc i + n]" using upt_conv_Cons [of i "i + Suc n"] by simp
  have "upper_loop b [i..<i + Suc n] = upper_loop ?b [Suc i..<Suc i + n]"
    unfolding up using i by (simp add: rd_in wr_in)
  also have "\<dots> = Inr (put_str ?b (Suc i) (map upper_case (take n (drop (Suc i) ?b))))" using Suc.prems by (intro Suc.IH) simp
  also have "put_str ?b (Suc i) (map upper_case (take n (drop (Suc i) ?b))) = put_str b i (map upper_case (take (Suc n) (drop i b)))"
    using i Suc.prems by (simp add: put_str_def take_Suc_conv_app_nth Cons_nth_drop_Suc [symmetric] take_update_swap list_update_append)
  finally show ?case .
qed (simp add: put_str_def)

lemma upper_blank: "upper_case (CHR '' '') = CHR '' ''"
  by (simp add: upper_case_def schar_def uchar_def)

text \<open>
  The name in upper case, filled with blanks. The bytes after the name in the argument do not appear in the result, and the
  ninth byte of the result is a blank.
\<close>

lemma fat16_filename_fmt_spec:
  assumes "NUL \<notin> set n" "length n \<le> 8" "8 \<le> length (n @ t)" "9 \<le> length b"
  shows "fat16_filename_fmt b (n @ NUL # t) = Inr (put_str b 0 (map upper_case n @ replicate (9 - length n) (CHR '' '')))"
proof -
  define b1 where "b1 = put_str b 0 (take 9 (n @ NUL # t))"
  have b1: "memcpy (n @ NUL # t) 0 b 0 9 = Inr b1" "length b1 = length b"
    using memcpy_spec [of 0 9 "n @ NUL # t" 0 b] assms(3,4) by (simp_all add: b1_def put_str_def)
  have split: "b1 = n @ NUL # take (8 - length n) t @ drop 9 b"
    using assms(2-4) by (simp add: b1_def put_str_def Suc_diff_le [of "length n" 8, simplified])
  have len: "strlen b1 0 = Inr (length n)"
    using strlen_spec [of b1 0 n] cstr_append_NUL [OF assms(1), of "[]"] assms(2) unfolding split by simp
  define b2 where "b2 = n @ replicate (8 - length n) (CHR '' '') @ drop 8 b1"
  have "fill_range b1 (length n) 8 (CHR '' '') = Inr b2"
    using fill_range_spec [of "length n" 8 b1 "CHR '' ''"] assms(2,4) b1(2) by (simp add: b2_def split)
  moreover have "wr b2 8 NUL = Inr (b2[8 := NUL])" "length b2 = length b" using assms(2,4) b1(2) by (simp_all add: b2_def wr_in)
  ultimately have pad: "str_pad b1 (CHR '' '') 8 = Inr (b2[8 := NUL])" "length b2 = length b"
    using len assms(2) by (simp_all add: str_pad_def max_absorb2)
  define b3 where "b3 = n @ replicate (9 - length n) (CHR '' '') @ drop 9 b"
  have "b2[8 := CHR '' ''] = b3"
  proof -
    have "drop 8 b1 = b1 ! 8 # drop 9 b1" using Cons_nth_drop_Suc [of 8 b1] assms(4) b1(2) by simp
    moreover have "drop 9 b1 = drop 9 b" using assms(2,3,4) by (simp add: split Suc_diff_le [of "length n" 8, simplified])
    moreover have "replicate (9 - length n) (CHR '' '') = replicate (8 - length n) (CHR '' '') @ ['' '' ! 0]"
      using assms(2) by (simp add: Suc_diff_le replicate_append_same flip: replicate_Suc)
    ultimately show ?thesis using assms(2) by (simp add: b2_def b3_def list_update_append)
  qed
  then have "fat16_pad b (n @ NUL # t) = Inr b3"
    using b1(1) pad assms(4) by (simp add: fat16_pad_def wr_in del: memcpy.simps)
  moreover have "upper_loop b3 [0..<9] = Inr (put_str b 0 (map upper_case n @ replicate (9 - length n) (CHR '' '')))"
  proof -
    have "length b3 = length b" "take 9 b3 = n @ replicate (9 - length n) (CHR '' '')" "drop 9 b3 = drop 9 b"
      using assms(2,4) by (simp_all add: b3_def)
    then show ?thesis using upper_loop_spec [of 0 9 b3] assms(2,4) by (simp add: put_str_def upper_blank)
  qed
  ultimately show ?thesis by (simp add: fat16_filename_fmt_def)
qed

section \<open>Searching the root directory\<close>

text \<open>The search sector by sector: the first sector with an entry of the name, and the place of the entry in it.\<close>

definition find_sector :: "(nat \<Rightarrow> char list) \<Rightarrow> char list \<Rightarrow> nat list \<Rightarrow> (nat \<times> nat) option" where
  "find_sector D name ss = (case find (\<lambda>s. find_entry (D s) 16 name \<noteq> None) ss of
     None \<Rightarrow> None | Some s \<Rightarrow> Some (s, the (find_entry (D s) 16 name)))"

lemma find_sector_Cons: "find_sector D name (s # ss) = (case find_entry (D s) 16 name of Some p \<Rightarrow> Some (s, p) | None \<Rightarrow> find_sector D name ss)"
  by (simp add: find_sector_def split: option.splits)

lemma find_sector_append:
  "find_sector D name (ss @ ts) = (case find_sector D name ss of Some r \<Rightarrow> Some r | None \<Rightarrow> find_sector D name ts)"
  by (induction ss) (simp_all add: find_sector_Cons find_sector_def [of D name "[]"] split: option.splits)

lemma find_sector_Some:
  "find_sector D name ss = Some (s, p) \<Longrightarrow> s \<in> set ss \<and> find_entry (D s) 16 name = Some p"
  by (induction ss) (auto simp: find_sector_Cons find_sector_def [of D name "[]"] split: option.splits)

lemma dirent_at_shift: "length a \<le> p \<Longrightarrow> dirent_at (a @ b) p = dirent_at b (p - length a)"
  by (simp add: dirent_at_def)

lemma find_entry_cons:
  assumes "length a = 512"
  shows "find_entry (a @ b) (16 + n) name =
    (case find_entry a 16 name of Some p \<Rightarrow> Some p | None \<Rightarrow> map_option ((+) 512) (find_entry b n name))"
proof -
  have fa: "find P (xs @ ys) = (case find P xs of Some x \<Rightarrow> Some x | None \<Rightarrow> find P ys)" for P :: "nat \<Rightarrow> bool" and xs ys
    by (induction xs) simp_all
  have fm: "find P (map f xs) = map_option f (find (P \<circ> f) xs)" for P :: "nat \<Rightarrow> bool" and f :: "nat \<Rightarrow> nat" and xs
    by (induction xs) simp_all
  have "map ((*) 32) [0..<16 + n] = map ((*) 32) [0..<16] @ map ((*) 32) [16..<16 + n]"
    by (subst upt_add_eq_append) simp_all
  also have "map ((*) 32) [16..<16 + n] = map ((+) 512) (map ((*) 32) [0..<n])"
    by (rule nth_equalityI) simp_all
  finally have up: "map ((*) 32) [0..<16 + n] = map ((*) 32) [0..<16] @ map ((+) 512) (map ((*) 32) [0..<n])" .
  have f1: "find (entry_is (a @ b) name) (map ((*) 32) [0..<16]) = find (entry_is a name) (map ((*) 32) [0..<16])"
    using assms by (intro find_cong) (auto simp: entry_is_def dirent_at_append)
  have f2: "entry_is (a @ b) name \<circ> (+) 512 = entry_is b name"
    using assms by (simp add: fun_eq_iff entry_is_def dirent_at_shift)
  show ?thesis unfolding find_entry_def up fa fm [of _ "(+) 512"] f1 f2 ..
qed

lemma find_entry_sectors:
  assumes "\<forall>l. length (D l) = 512"
  shows "find_entry (concat (map D [a..<a + n])) (16 * n) name = map_option (\<lambda>(s, p). 512 * (s - a) + p) (find_sector D name [a..<a + n])"
proof (induction n arbitrary: a)
  case (Suc n)
  have up: "[a..<a + Suc n] = a # [Suc a..<Suc a + n]" using upt_conv_Cons [of a "a + Suc n"] by simp
  have "find_entry (concat (map D [a..<a + Suc n])) (16 * Suc n) name = find_entry (D a @ concat (map D [Suc a..<Suc a + n])) (16 + 16 * n) name"
    unfolding up by simp
  also have "\<dots> = (case find_entry (D a) 16 name of Some p \<Rightarrow> Some p
      | None \<Rightarrow> map_option ((+) 512) (map_option (\<lambda>(s, p). 512 * (s - Suc a) + p) (find_sector D name [Suc a..<Suc a + n])))"
    unfolding find_entry_cons [OF assms [rule_format]] Suc.IH ..
  also have "\<dots> = map_option (\<lambda>(s, p). 512 * (s - a) + p) (find_sector D name [a..<a + Suc n])"
  proof -
    have "512 + (512 * (s - Suc a) + p) = 512 * (s - a) + p" if "find_sector D name [Suc a..<Suc a + n] = Some (s, p)" for s p
    proof -
      have "Suc a \<le> s" using find_sector_Some [OF that] by auto
      then show ?thesis using diff_Suc [of s a] by (simp add: diff_mult_distrib2)
    qed
    then show ?thesis unfolding up find_sector_Cons
      by (cases "find_sector D name [Suc a..<Suc a + n]") (auto split: option.splits simp del: upt_Suc)
  qed
  finally show ?case .
qed (simp add: find_entry_def find_sector_def)

text \<open>The loop reads a cluster's worth of sectors at a time; the directory is a whole number of them.\<close>

lemma search_root_loop_ok:
  assumes "disk_ok D m" "vol_ok vol" "8 \<le> length name" "length b = cluster_bytes vol"
    and "i + k * sectors_per_cluster (sb vol) = root_sectors vol"
  shows "\<exists>m' b' lba. disk_ok D m' \<and> only_pio m m' \<and>
    search_root_loop vol name m b (root_dir_start vol + i) = Some (Inr (m', b', lba,
      map_option (\<lambda>(s, p). 512 * (s - lba) + p) (find_sector D name [root_dir_start vol + i..<root_dir_start vol + root_sectors vol]))) \<and>
    (\<forall>s p. find_sector D name [root_dir_start vol + i..<root_dir_start vol + root_sectors vol] = Some (s, p) \<longrightarrow>
       lba \<le> s \<and> s < lba + sectors_per_cluster (sb vol) \<and> b' = concat (map D [lba..<lba + sectors_per_cluster (sb vol)]))"
  using assms(1,4,5)
proof (induction k arbitrary: m b i)
  case 0
  then have "i = root_sectors vol" by simp
  then show ?case
    using 0(1) vol_okD(8,9) [OF assms(2)] by (intro exI [of _ m] exI [of _ b], subst search_root_loop.simps)
      (simp add: sub32_exact find_sector_def)
next
  case (Suc k)
  note v = vol_okD [OF assms(2)]
  define r n where "r = root_dir_start vol + i" and "n = sectors_per_cluster (sb vol)"
  define e where "e = root_dir_start vol + root_sectors vol"
  have n: "0 < n" "n < 256" "cluster_bytes vol = 512 * n" using v by (simp_all add: n_def)
  have re: "r + n + k * n = e" using Suc.prems(3) by (simp add: r_def n_def e_def)
  have lt: "r + n \<le> e" "e < 65536" using re v(8,9) by (simp_all add: e_def)
  define blk where "blk = concat (map D [r..<r + n])"
  have lenb: "length blk = 512 * n" using concat_take_sectors [of D r n] disk_ok_length [OF Suc.prems(1)] by (simp add: blk_def)
  obtain m1 where m1: "ata_read_sector m \<lparr>lba_start = r, sec_num = n, io_buf = b, buf_size = cluster_bytes vol\<rparr> = Some (Inr (m1, blk, n))"
    "disk_ok D m1" "only_pio m m1"
    using ata_read_sector_ok [OF Suc.prems(1), of n "\<lparr>lba_start = r, sec_num = n, io_buf = b, buf_size = cluster_bytes vol\<rparr>"] n lt lenb Suc.prems(2)
    by (auto simp: returns_def put_str_def blk_def)
  have srch: "search_name_in_block blk (mul32 n (bytes_per_sector (sb vol))) name 0 =
      Inr (map_option (\<lambda>(s, p). 512 * (s - r) + p) (find_sector D name [r..<r + n]))"
    using search_name_spec [of "16 * n" blk name] lenb assms(3) n(2) v(1) find_entry_sectors [of D r n name] disk_ok_length [OF Suc.prems(1)]
    by (simp add: mul32_def blk_def mult.commute)
  have unf: "search_root_loop vol name m b r = (case find_sector D name [r..<r + n] of
      Some (s, p) \<Rightarrow> Some (Inr (m1, blk, r, Some (512 * (s - r) + p))) | None \<Rightarrow> search_root_loop vol name m1 blk (r + n))"
  proof -
    have "sub32 r (root_dir_start vol) < root_sectors vol" using lt n(1) by (simp add: sub32_exact r_def e_def)
    then show ?thesis using m1(1) srch lt unfolding n_def [symmetric]
      by (subst search_root_loop.simps) (auto simp: n_def [symmetric] add32_exact split: option.splits)
  qed
  have up: "[r..<e] = [r..<r + n] @ [r + n..<e]" using upt_add_eq_append [of r "r + n" "e - (r + n)"] lt(1) by simp
  show ?case
    unfolding r_def [symmetric] e_def [symmetric] n_def [symmetric]
  proof (cases "find_sector D name [r..<r + n]")
    case None
    have "i + n + k * sectors_per_cluster (sb vol) = root_sectors vol" using Suc.prems(3) by (simp add: n_def)
    from Suc.IH [OF m1(2) lenb [folded n(3)] this, folded e_def n_def] obtain m2 b2 lba where
      "disk_ok D m2" "only_pio m1 m2" "search_root_loop vol name m1 blk (r + n) =
        Some (Inr (m2, b2, lba, map_option (\<lambda>(s, p). 512 * (s - lba) + p) (find_sector D name [r + n..<e])))"
      "\<forall>s p. find_sector D name [r + n..<e] = Some (s, p) \<longrightarrow> lba \<le> s \<and> s < lba + n \<and> b2 = concat (map D [lba..<lba + n])"
      unfolding r_def add.assoc by blast
    then show "\<exists>m' b' lba. disk_ok D m' \<and> only_pio m m' \<and> search_root_loop vol name m b r =
          Some (Inr (m', b', lba, map_option (\<lambda>(s, p). 512 * (s - lba) + p) (find_sector D name [r..<e]))) \<and>
        (\<forall>s p. find_sector D name [r..<e] = Some (s, p) \<longrightarrow> lba \<le> s \<and> s < lba + n \<and> b' = concat (map D [lba..<lba + n]))"
      using unf None only_pio_trans [OF m1(3)] unfolding up find_sector_append by auto
  next
    case (Some sp)
    obtain s p where sp: "sp = (s, p)" by (cases sp)
    have "r \<le> s \<and> s < r + n" using find_sector_Some [of D name "[r..<r + n]" s p] Some sp by auto
    then show "\<exists>m' b' lba. disk_ok D m' \<and> only_pio m m' \<and> search_root_loop vol name m b r =
          Some (Inr (m', b', lba, map_option (\<lambda>(s, p). 512 * (s - lba) + p) (find_sector D name [r..<e]))) \<and>
        (\<forall>s p. find_sector D name [r..<e] = Some (s, p) \<longrightarrow> lba \<le> s \<and> s < lba + n \<and> b' = concat (map D [lba..<lba + n]))"
      using unf m1(2,3) Some sp unfolding up find_sector_append by (intro exI [of _ m1] exI [of _ blk] exI [of _ r]) (simp add: blk_def)
  qed
qed

lemma dirent_at_sectors:
  assumes "\<forall>l. length (D l) = 512" "a \<le> s" "s < a + n" "p + 32 \<le> 512"
  shows "dirent_at (concat (map D [a..<a + n])) (512 * (s - a) + p) = dirent_at (D s) p"
proof -
  have up: "[a..<a + n] = [a..<s] @ s # [Suc s..<a + n]"
    using assms(2,3) upt_add_eq_append [of a s "a + n - s"] upt_conv_Cons [of s "a + n"] by simp
  have len: "length (concat (map D [a..<s])) = 512 * (s - a)" using concat_take_sectors [OF assms(1), of a "s - a"] assms(2) by simp
  have "concat (map D [a..<a + n]) = concat (map D [a..<s]) @ D s @ concat (map D [Suc s..<a + n])" unfolding up by simp
  then show ?thesis using dirent_at_shift [of "concat (map D [a..<s])" "512 * (s - a) + p" "D s @ concat (map D [Suc s..<a + n])"] len
    dirent_at_append [of p "D s"] assms(1,4) by simp
qed

lemma fat_search_root_ok:
  assumes "disk_ok D m" "vol_ok (volume f)" "8 \<le> length name" "sectors_per_cluster (sb (volume f)) dvd root_sectors (volume f)"
    and "R = [root_dir_start (volume f)..<root_dir_start (volume f) + root_sectors (volume f)]"
  shows "\<exists>m'. disk_ok D m' \<and> only_pio m m' \<and> fat_search_root m stk f name = Some (Inr (m', case find_sector D name R of
      None \<Rightarrow> (f, - 1)
    | Some (s, p) \<Rightarrow> (f\<lparr>dirent := dirent_at (D s) p, current_cluster := start_cluster (dirent_at (D s) p), dirent_cluster := 0, dirent_sector := s\<rparr>, 1)))"
proof -
  define vol n where "vol = volume f" and "n = sectors_per_cluster (sb vol)"
  note v = vol_okD [OF assms(2)]
  have D: "\<forall>l. length (D l) = 512" by (simp add: disk_ok_length [OF assms(1)])
  obtain k where "0 + k * n = root_sectors vol" using assms(4) unfolding vol_def n_def by (metis add_0 dvd_def mult.commute)
  from search_root_loop_ok [OF assms(1,2,3) length_local_buf this [unfolded vol_def n_def], of stk]
  obtain m' b lba where l: "disk_ok D m'" "only_pio m m'"
    "search_root_loop vol name m (local_buf stk (cluster_bytes vol)) (root_dir_start vol) =
      Some (Inr (m', b, lba, map_option (\<lambda>(s, p). 512 * (s - lba) + p) (find_sector D name R)))"
    "\<forall>s p. find_sector D name R = Some (s, p) \<longrightarrow> lba \<le> s \<and> s < lba + n \<and> b = concat (map D [lba..<lba + n])"
    unfolding add_0_right assms(5) vol_def n_def by blast
  show ?thesis
  proof (cases "find_sector D name R")
    case None
    then show ?thesis using l by (intro exI [of _ m']) (simp add: fat_search_root_def vol_def [symmetric])
  next
    case (Some sp)
    obtain s p where sp: "find_sector D name R = Some (s, p)" using Some by (cases sp) simp
    have s: "lba \<le> s" "s < lba + n" "b = concat (map D [lba..<lba + n])" using l(4) sp by blast+
    have p: "p + 32 \<le> 512" using find_sector_Some [OF sp] find_entry_Some(3) by fastforce
    have sR: "s < 65536" using find_sector_Some [OF sp] v(8,9) by (simp add: assms(5))
    have "512 * (s - lba) + p + 32 \<le> 512 * n"
    proof -
      have "512 * (s - lba) + 512 \<le> 512 * n" using s(1,2) by linarith
      then show ?thesis using p by linarith
    qed
    then have rd: "rd_dirent b (512 * (s - lba) + p) = Inr (dirent_at (D s) p)"
      using dirent_at_sectors [OF D s(1,2) p] s(3) concat_take_sectors [OF D, of lba n] by (simp add: rd_dirent_def)
    have dv: "udiv (512 * (s - lba) + p) (bytes_per_sector (sb vol)) = Inr (s - lba)"
      using p v(1) by (simp add: udiv_def vol_def)
    have ad: "add32 lba (s - lba) = s" using s(1) sR by (simp add: add32_exact)
    show ?thesis using l(1-3) rd dv ad sp by (intro exI [of _ m']) (simp add: fat_search_root_def vol_def [symmetric])
  qed
qed

end
