(* ===== verification/Ts_Fat_Path.thy ===== *)
theory Ts_Fat_Path
  imports Ts_Fat_Dir Ts_Fat_Read
begin

text \<open>
  Paths: a directory is looked up in the root sectors or along its chain of clusters, and \<open>fat16_find\<close> looks up one
  component of a path after the other. \<open>resolves\<close> is the meaning of a path on the contents of the disk.
\<close>

section \<open>One directory\<close>

text \<open>The clusters of a directory, up to the first number that is not in use as a cluster of a file.\<close>

fun dchain :: "Fat16Volume \<Rightarrow> (nat \<Rightarrow> nat) \<Rightarrow> nat \<Rightarrow> nat list \<Rightarrow> bool" where
  "dchain vol F c [] \<longleftrightarrow> \<not> FAT_CLUS_NORMAL c"
| "dchain vol F c (x # xs) \<longleftrightarrow> c = x \<and> FAT_CLUS_NORMAL x \<and> clus_ok vol x \<and> dchain vol F (F x) xs"

definition find_cluster :: "Fat16Volume \<Rightarrow> (nat \<Rightarrow> char list) \<Rightarrow> char list \<Rightarrow> nat list \<Rightarrow> (nat \<times> nat) option" where
  "find_cluster vol D name cs = (let look = (\<lambda>c. find_entry (cluster_data vol D c) (16 * sectors_per_cluster (sb vol)) name) in
     case find (\<lambda>c. look c \<noteq> None) cs of None \<Rightarrow> None | Some c \<Rightarrow> Some (c, the (look c)))"

lemma find_cluster_Nil [simp]: "find_cluster vol D name [] = None"
  by (simp add: find_cluster_def)

lemma find_cluster_Cons: "find_cluster vol D name (c # cs) =
    (case find_entry (cluster_data vol D c) (16 * sectors_per_cluster (sb vol)) name of Some p \<Rightarrow> Some (c, p) | None \<Rightarrow> find_cluster vol D name cs)"
  by (simp add: find_cluster_def Let_def split: option.splits)

definition in_cluster :: "Fat16Volume \<Rightarrow> (nat \<Rightarrow> char list) \<Rightarrow> Fat16File \<Rightarrow> nat \<times> nat \<Rightarrow> Fat16File" where
  "in_cluster vol D f = (\<lambda>(c, p). let e = dirent_at (cluster_data vol D c) p in
     f\<lparr>dirent := e, dirent_cluster := c, current_cluster := start_cluster e\<rparr>)"

definition in_root :: "(nat \<Rightarrow> char list) \<Rightarrow> Fat16File \<Rightarrow> nat \<times> nat \<Rightarrow> Fat16File" where
  "in_root D f = (\<lambda>(s, p). let e = dirent_at (D s) p in
     f\<lparr>dirent := e, current_cluster := start_cluster e, dirent_cluster := 0, dirent_sector := s\<rparr>)"

lemma search_dir_loop_ok:
  assumes "disk_ok D m" "vol_ok (volume f)" "8 \<le> length name" "length b = cluster_bytes (volume f)"
    and "dchain (volume f) (fat_of (volume f) D) c cs"
  shows "\<exists>m'. disk_ok D m' \<and> only_pio m m' \<and>
    search_dir_loop stk name f m b c = Some (Inr (m', map_option (in_cluster (volume f) D f) (find_cluster (volume f) D name cs)))"
  using assms(1,4,5)
proof (induction cs arbitrary: m b c)
  case Nil
  then show ?case by (intro exI [of _ m], subst search_dir_loop.simps) simp
next
  case (Cons x cs)
  define vol n blk where "vol = volume f" and "n = sectors_per_cluster (sb vol)" and "blk = cluster_data vol D x"
  note v = vol_okD [OF assms(2), folded vol_def, folded n_def]
  have x: "c = x" "FAT_CLUS_NORMAL x" "clus_ok vol x" "dchain vol (fat_of vol D) (fat_of vol D x) cs"
    using Cons.prems(3) by (simp_all add: vol_def)
  have len: "length blk = 512 * n" using length_cluster_data [OF assms(2) Cons.prems(1), of x] v(4) by (simp add: blk_def n_def flip: vol_def)
  obtain m1 where m1: "fat_read_cluster m vol x b = Some (Inr (m1, blk, n))" "disk_ok D m1" "only_pio m m1"
    using fat_read_cluster_ok [OF Cons.prems(1) assms(2) x(3) [unfolded vol_def] Cons.prems(2)] unfolding vol_def n_def blk_def by blast
  have srch: "search_name_in_block blk (cluster_bytes vol) name 0 = Inr (find_entry blk (16 * n) name)"
    using search_name_spec [of "16 * n" blk name] len assms(3) v(4) by simp
  have hd: "search_dir_loop stk name f m b c = (case find_entry blk (16 * n) name of
      Some p \<Rightarrow> bind_ro (Some (rd_dirent blk p)) (\<lambda>e. Some (Inr (m1, Some (f\<lparr>dirent := e, dirent_cluster := x, current_cluster := start_cluster e\<rparr>))))
    | None \<Rightarrow> bind_ro (fat_get_next_cluster m1 stk vol x) (\<lambda>(m, c). search_dir_loop stk name f m blk c))"
    using x(1,2) m1(1) srch v(2) by (subst search_dir_loop.simps) (auto simp: vol_def [symmetric] Let_def split: option.splits)
  show ?case
    unfolding vol_def [symmetric]
  proof (cases "find_entry blk (16 * n) name")
    case None
    obtain m2 where m2: "fat_get_next_cluster m1 stk vol x = Some (Inr (m2, fat_of vol D x))" "disk_ok D m2" "only_pio m1 m2"
      using fat_get_next_cluster_ok [OF m1(2) assms(2) clus_ok_bound(1) [OF x(3)], of stk] by (auto simp: returns_def vol_def)
    obtain m3 where "disk_ok D m3" "only_pio m2 m3" "search_dir_loop stk name f m2 blk (fat_of vol D x) =
        Some (Inr (m3, map_option (in_cluster vol D f) (find_cluster vol D name cs)))"
      using Cons.IH [OF m2(2), of blk "fat_of vol D x"] len v(4) x(4) unfolding vol_def by auto
    then show "\<exists>m'. disk_ok D m' \<and> only_pio m m' \<and>
        search_dir_loop stk name f m b c = Some (Inr (m', map_option (in_cluster vol D f) (find_cluster vol D name (x # cs))))"
      using hd None m2(1) only_pio_trans [OF only_pio_trans [OF m1(3) m2(3)]]
      by (intro exI [of _ m3]) (simp add: find_cluster_Cons blk_def n_def)
  next
    case (Some p)
    then have "rd_dirent blk p = Inr (dirent_at blk p)" using find_entry_Some(3) [OF Some] len by (simp add: rd_dirent_def)
    then show "\<exists>m'. disk_ok D m' \<and> only_pio m m' \<and>
        search_dir_loop stk name f m b c = Some (Inr (m', map_option (in_cluster vol D f) (find_cluster vol D name (x # cs))))"
      using hd Some m1(2,3) by (intro exI [of _ m1]) (simp add: find_cluster_Cons blk_def n_def in_cluster_def Let_def)
  qed
qed

section \<open>Names\<close>

definition entry_name :: "char list \<Rightarrow> char list" where
  "entry_name n = map upper_case n @ replicate (8 - length n) (CHR '' '')"

lemma find_entry_name: "take 8 name = take 8 name' \<Longrightarrow> find_entry b k name = find_entry b k name'"
  by (simp add: find_entry_def entry_is_def [abs_def])

text \<open>What an entry is compared with.\<close>

lemma fat16_filename_fmt_name:
  assumes "NUL \<notin> set n" "length n \<le> 8" "8 \<le> length (n @ t)"
  shows "\<exists>r. fat16_filename_fmt (replicate 16 NUL) (n @ NUL # t) = Inr r \<and> 8 \<le> length r \<and> take 8 r = take 8 (entry_name n)"
proof -
  have "fat16_filename_fmt (replicate 16 NUL) (n @ NUL # t) =
      Inr (put_str (replicate 16 NUL) 0 (map upper_case n @ replicate (9 - length n) (CHR '' '')))"
    by (rule fat16_filename_fmt_spec [OF assms]) simp
  then show ?thesis using assms(2) by (simp add: put_str_def entry_name_def min_def)
qed

definition dir_lookup :: "(nat \<Rightarrow> char list) \<Rightarrow> Fat16File \<Rightarrow> char list \<Rightarrow> nat list \<Rightarrow> Fat16File option" where
  "dir_lookup D f n cs = (let vol = volume f in
     if start_cluster (dirent f) = 0
     then map_option (in_root D f) (find_sector D (entry_name n) [root_dir_start vol..<root_dir_start vol + root_sectors vol])
     else map_option (in_cluster vol D f) (find_cluster vol D (entry_name n) cs))"

lemma fat_search_file_ok:
  assumes "disk_ok D m" "vol_ok (volume f)" "sectors_per_cluster (sb (volume f)) dvd root_sectors (volume f)"
    and "NUL \<notin> set n" "length n \<le> 8" "8 \<le> length (n @ t)" "c = start_cluster (dirent f)"
    and "c \<noteq> 0 \<Longrightarrow> dchain (volume f) (fat_of (volume f) D) c cs"
  shows "\<exists>m'. disk_ok D m' \<and> only_pio m m' \<and> fat_search_file m stk f (n @ NUL # t) c = Some (Inr (m', dir_lookup D f n cs))"
proof -
  obtain r where r: "fat16_filename_fmt (replicate 16 NUL) (n @ NUL # t) = Inr r" "8 \<le> length r" "take 8 r = take 8 (entry_name n)"
    using fat16_filename_fmt_name [OF assms(4-6)] by blast
  have fs: "find_sector D r R = find_sector D (entry_name n) R" "find_cluster (volume f) D r cs = find_cluster (volume f) D (entry_name n) cs" for R
    unfolding find_sector_def find_cluster_def find_entry_name [OF r(3)] by rule+
  show ?thesis
  proof (cases "c = 0")
    case True
    obtain m' where "disk_ok D m'" "only_pio m m'" "fat_search_root m stk f r = Some (Inr (m',
        case find_sector D (entry_name n) [root_dir_start (volume f)..<root_dir_start (volume f) + root_sectors (volume f)] of None \<Rightarrow> (f, - 1)
        | Some (s, p) \<Rightarrow> (f\<lparr>dirent := dirent_at (D s) p, current_cluster := start_cluster (dirent_at (D s) p), dirent_cluster := 0, dirent_sector := s\<rparr>, 1)))"
      using fat_search_root_ok [OF assms(1,2) r(2) assms(3) refl, of stk] unfolding fs by blast
    then show ?thesis using True assms(7) r(1)
      by (intro exI [of _ m']) (auto simp: fat_search_file_def fat_search_file_fmt_def dir_lookup_def in_root_def Let_def split: option.splits)
  next
    case False
    obtain m' where "disk_ok D m'" "only_pio m m'" "search_dir_loop stk r f m (local_buf stk (cluster_bytes (volume f))) c =
        Some (Inr (m', map_option (in_cluster (volume f) D f) (find_cluster (volume f) D (entry_name n) cs)))"
      using search_dir_loop_ok [OF assms(1,2) r(2) length_local_buf assms(8) [OF False], of stk] unfolding fs by blast
    then show ?thesis using False assms(7) r(1)
      by (intro exI [of _ m']) (simp add: fat_search_file_def fat_search_file_fmt_def dir_lookup_def Let_def)
  qed
qed

section \<open>Paths\<close>

text \<open>
  A path stands for a file structure or for nothing: every component is looked up in the directory found so far, whose
  chain of clusters ends.
\<close>

inductive resolves :: "(nat \<Rightarrow> char list) \<Rightarrow> Fat16File \<Rightarrow> char list list \<Rightarrow> Fat16File option \<Rightarrow> bool" for D where
  here: "resolves D f [] (Some f)"
| missing: "start_cluster (dirent f) = 0 \<or> dchain (volume f) (fat_of (volume f) D) (start_cluster (dirent f)) cs \<Longrightarrow>
    dir_lookup D f n cs = None \<Longrightarrow> resolves D f (n # ns) None"
| down: "start_cluster (dirent f) = 0 \<or> dchain (volume f) (fat_of (volume f) D) (start_cluster (dirent f)) cs \<Longrightarrow>
    dir_lookup D f n cs = Some f' \<Longrightarrow> resolves D f' ns r \<Longrightarrow> resolves D f (n # ns) r"

lemma dir_lookup_volume: "dir_lookup D f n cs = Some f' \<Longrightarrow> volume f' = volume f"
  by (auto simp: dir_lookup_def in_root_def in_cluster_def Let_def split: if_splits)

lemma resolves_volume: "resolves D f ns r \<Longrightarrow> r = Some f' \<Longrightarrow> volume f' = volume f"
  by (induction rule: resolves.induct) (auto dest: dir_lookup_volume)

lemma token_empty: "runs d s = [] \<Longrightarrow> token d s = []"
  using runs_unfold [of d s] by (cases "dropWhile ((=) d) s = []") (simp_all add: token_def del: dropWhile_eq_Nil_conv)

lemma runs_Cons: "runs d s = n # ns \<Longrightarrow> token d s = n \<and> runs d (rest d s) = ns"
  using runs_unfold [of d s] by (simp split: if_splits)

lemma runs_subset: "n \<in> set (runs d s) \<Longrightarrow> n \<noteq> [] \<and> set n \<subseteq> set s"
proof (induction "length s" arbitrary: s rule: less_induct)
  case less
  have ne: "dropWhile ((=) d) s \<noteq> []" using less.prems runs_unfold [of d s] by (auto split: if_splits)
  have sub: "set (dropWhile ((=) d) s) \<subseteq> set s" by (auto dest: set_dropWhileD)
  have "length (rest d s) < length s"
  proof -
    have "hd (dropWhile ((=) d) s) \<noteq> d" using ne hd_dropWhile [of "(=) d" s] by auto
    then have "length (dropWhile ((\<noteq>) d) (dropWhile ((=) d) s)) < length (dropWhile ((=) d) s)"
      using ne by (cases "dropWhile ((=) d) s") (auto simp: less_Suc_eq_le length_dropWhile_le)
    then show ?thesis unfolding rest_def by (meson length_dropWhile_le less_le_trans le_less_trans)
  qed
  moreover have "set (rest d s) \<subseteq> set s" using sub by (auto simp: rest_def dest!: set_dropWhileD)
  moreover have "token d s \<noteq> []" "set (token d s) \<subseteq> set s"
    using ne sub hd_dropWhile [of "(=) d" s] by (auto simp: token_def takeWhile_eq_Nil_iff dest: set_takeWhileD)
  moreover have "n = token d s \<or> n \<in> set (runs d (rest d s))" using less.prems runs_unfold [of d s] ne by (simp del: dropWhile_eq_Nil_conv)
  ultimately show ?case using less.hyps [of "rest d s"] by (metis subset_trans)
qed

text \<open>One round of the loop of \<open>fat16_find\<close>.\<close>

lemma find_loop_step:
  assumes "disk_ok D m" "vol_ok (volume f)" "sectors_per_cluster (sb (volume f)) dvd root_sectors (volume f)"
    and "cstr pth i s" "runs (CHR ''/'') s = n # ns" "length n \<le> 8" "length w = 16"
    and "start_cluster (dirent f) = 0 \<or> dchain (volume f) (fat_of (volume f) D) (start_cluster (dirent f)) cs"
  shows "\<exists>nx m1 w'. length w' = 16 \<and> disk_ok D m1 \<and> only_pio m m1 \<and>
    (case nx of None \<Rightarrow> ns = [] | Some j \<Rightarrow> \<exists>s'. cstr pth j s' \<and> runs (CHR ''/'') s' = ns) \<and>
    find_loop stk pth m f w i = (case dir_lookup D f n cs of None \<Rightarrow> Some (Inr (m1, None))
      | Some f' \<Rightarrow> (case nx of None \<Rightarrow> Some (Inr (m1, Some f')) | Some j \<Rightarrow> find_loop stk pth m1 f' w' j))"
proof -
  let ?d = "CHR ''/''"
  have del: "cstr (''/'' @ [NUL]) 0 [?d]" by (simp add: cstr_def)
  have t: "token ?d s = n" "runs ?d (rest ?d s) = ns" using runs_Cons [OF assms(5)] by simp_all
  have nn: "n \<noteq> []" "NUL \<notin> set n" using runs_subset [of n ?d s] assms(5) cstr_nth(4) [OF assms(4)] by auto
  obtain nx where nx: "strtok pth i (''/'' @ [NUL]) w = Inr (put_str w 0 (n @ [NUL]), nx)"
    "case nx of None \<Rightarrow> rest ?d s = [] | Some j \<Rightarrow> rest ?d s \<noteq> [] \<and> cstr pth j (rest ?d s)"
    using strtok_spec [OF del assms(4), of w] assms(6,7) t(1) by auto
  define tl where "tl = drop (length n + 1) w"
  have w': "put_str w 0 (n @ [NUL]) = n @ NUL # tl" "length (n @ NUL # tl) = 16" "8 \<le> length (n @ tl)"
    using assms(6,7) by (simp_all add: put_str_def tl_def)
  have ch: "start_cluster (dirent f) \<noteq> 0 \<Longrightarrow> dchain (volume f) (fat_of (volume f) D) (start_cluster (dirent f)) cs" using assms(8) by simp
  obtain m1 where m1: "disk_ok D m1" "only_pio m m1"
    "fat_search_file m stk f (n @ NUL # tl) (start_cluster (dirent f)) = Some (Inr (m1, dir_lookup D f n cs))"
    using fat_search_file_ok [OF assms(1-3) nn(2) assms(6) w'(3) refl ch, of stk] by blast
  have "hd n \<noteq> NUL" using hd_in_set [OF nn(1)] nn(2) by metis
  moreover have "rd (n @ NUL # tl) 0 = Inr (hd n)" using nn(1) by (simp add: rd_in nth_append hd_conv_nth)
  ultimately have "find_loop stk pth m f w i = (case dir_lookup D f n cs of None \<Rightarrow> Some (Inr (m1, None))
      | Some f' \<Rightarrow> (case nx of None \<Rightarrow> Some (Inr (m1, Some f')) | Some j \<Rightarrow> find_loop stk pth m1 f' (n @ NUL # tl) j))"
    using nx(1) m1(3) unfolding w'(1) by (subst find_loop.simps) simp
  moreover have "case nx of None \<Rightarrow> ns = [] | Some j \<Rightarrow> \<exists>s'. cstr pth j s' \<and> runs ?d s' = ns"
    using nx(2) t(2) by (auto simp: runs_def split: option.splits)
  ultimately show ?thesis using w'(2) m1(1,2) by blast
qed

lemma find_loop_ok:
  assumes "resolves D f ns r" "disk_ok D m" "vol_ok (volume f)" "sectors_per_cluster (sb (volume f)) dvd root_sectors (volume f)"
    and "cstr pth i s" "runs (CHR ''/'') s = ns" "\<forall>n \<in> set ns. length n \<le> 8" "length w = 16"
  shows "\<exists>m'. disk_ok D m' \<and> only_pio m m' \<and> find_loop stk pth m f w i = Some (Inr (m', r))"
  using assms
proof (induction arbitrary: m i s w rule: resolves.induct)
  case (here f)
  have del: "cstr (''/'' @ [NUL]) 0 [CHR ''/'']" by (simp add: cstr_def)
  have "token (CHR ''/'') s = []" using token_empty here.prems(5) by simp
  then obtain nx where "strtok pth i (''/'' @ [NUL]) w = Inr (put_str w 0 [NUL], nx)"
    using strtok_spec [OF del here.prems(4), of w] here.prems(7) by auto
  then show ?case using here.prems(1,7) by (intro exI [of _ m], subst find_loop.simps) (simp add: rd_in put_str_def)
next
  case (missing f cs n ns)
  then show ?case using find_loop_step [OF missing.prems(1-5) _ missing.prems(7) missing.hyps(1), of stk] by auto
next
  case (down f cs n f' ns r)
  note p = down.prems
  obtain nx m1 w' where st: "length w' = 16" "disk_ok D m1" "only_pio m m1"
    "case nx of None \<Rightarrow> ns = [] | Some j \<Rightarrow> \<exists>s'. cstr pth j s' \<and> runs (CHR ''/'') s' = ns"
    "find_loop stk pth m f w i = (case nx of None \<Rightarrow> Some (Inr (m1, Some f')) | Some j \<Rightarrow> find_loop stk pth m1 f' w' j)"
    using find_loop_step [OF p(1-5) _ p(7) down.hyps(1), of stk] p(6) down.hyps(2) by auto
  have vf: "volume f' = volume f" using dir_lookup_volume [OF down.hyps(2)] .
  show ?case
  proof (cases nx)
    case None
    then have "r = Some f'" using down.hyps(3) st(4) by (auto elim: resolves.cases)
    then show ?thesis using st None by auto
  next
    case (Some j)
    then obtain s' where s': "cstr pth j s'" "runs (CHR ''/'') s' = ns" using st(4) by auto
    obtain m2 where "disk_ok D m2" "only_pio m1 m2" "find_loop stk pth m1 f' w' j = Some (Inr (m2, r))"
      using down.IH [OF st(2) _ _ s' _ st(1)] p(2,3,6) vf by auto
    then show ?thesis using st Some only_pio_trans [OF st(3)] by auto
  qed
qed

lemma fat16_find_ok:
  assumes "resolves D (f\<lparr>dirent := root (volume f)\<rparr>) (runs (CHR ''/'') p) r" "disk_ok D m" "vol_ok (volume f)"
    and "sectors_per_cluster (sb (volume f)) dvd root_sectors (volume f)" "dirent_ptr f \<noteq> 0"
    and "NUL \<notin> set p" "p \<noteq> ''/''" "\<forall>n \<in> set (runs (CHR ''/'') p). length n \<le> 8"
  shows "\<exists>m'. disk_ok D m' \<and> only_pio m m' \<and> fat16_find m stk f (p @ [NUL]) = Some (Inr (m', r))"
proof -
  have c: "cstr (p @ [NUL]) 0 p" "cstr (''/'' @ [NUL]) 0 ''/''" using assms(6) by (simp_all add: cstr_def)
  have "string_equal (Some (''/'' @ [NUL])) (Some (p @ [NUL])) = Inr 0"
    using string_equal_loop_spec [OF c(2,1)] assms(7) by (simp add: string_equal_def)
  then show ?thesis
    using find_loop_ok [OF assms(1,2) _ _ c(1) refl assms(8), of "replicate 16 NUL" stk] assms(3-5) by (simp add: fat16_find_def)
qed

end
