(* ===== verification/Ts_Fat_Props.thy ===== *)
theory Ts_Fat_Props
  imports Ts_Fat_Write Ts_Fat_Path
begin

text \<open>
  The theorems about the FAT16 file system, over the machine with its disk: the table, names and paths, reading a
  file and writing a file of the root directory. A file is seen as the string of its bytes; \<open>read_spec\<close> and \<open>write_spec\<close>
  say what the two operations do to that string.
\<close>

section \<open>A file of the root directory\<close>

text \<open>
  The file structure \<open>f\<close> is open for writing on a regular file whose clusters are \<open>cs\<close>, and its directory entry is at
  \<open>p\<close> in the sector of the root directory that was recorded when the file was searched for.
\<close>

definition root_file :: "(nat \<Rightarrow> char list) \<Rightarrow> Fat16File \<Rightarrow> nat list \<Rightarrow> nat \<Rightarrow> bool" where
  "root_file D f cs p \<longleftrightarrow> alloc_ok (volume f) \<and> fchain (volume f) (fat_of (volume f) D) (start_cluster (dirent f)) cs \<and>
     dirent_ok (dirent f) \<and> \<not> is_directory (dirent f) \<and> flag f AND FAT16_CTL_WRITE \<noteq> 0 \<and>
     byte_offset f div cluster_bytes (volume f) < length cs \<and> current_cluster f = cs ! (byte_offset f div cluster_bytes (volume f)) \<and>
     byte_offset f \<le> file_size (dirent f) \<and> file_size (dirent f) \<le> length cs * cluster_bytes (volume f) \<and>
     dirent_cluster f = 0 \<and> root_dir_start (volume f) \<le> dirent_sector f \<and> dirent_sector f < data_start (volume f) \<and>
     find_entry (D (dirent_sector f)) 16 (filename (dirent f)) = Some p"

text \<open>
  \<open>overwrite_spec\<close> is what the comment on writing describes: the bytes replace those at the offset, and the file grows if they reach
  beyond its end. \<open>write_spec\<close> is what the code does at every offset: the file ends after the bytes written. They agree on a write
  that reaches the end of the file.
\<close>

definition overwrite_spec :: "char list \<Rightarrow> nat \<Rightarrow> char list \<Rightarrow> char list" where
  "overwrite_spec txt pos s = take pos txt @ s @ drop (pos + length s) txt"

definition write_spec :: "char list \<Rightarrow> nat \<Rightarrow> char list \<Rightarrow> char list" where
  "write_spec txt pos s = take pos txt @ s"

lemma dirent_at_before:
  assumes "q + 32 \<le> p" "p \<le> length b"
  shows "dirent_at (put_str b p x) q = dirent_at b q"
proof -
  have "q + 32 \<le> length (take p b)" using assms by simp
  from dirent_at_append [OF this, of "x @ drop (p + length x) b"] dirent_at_append [OF this, of "drop p b"]
  show ?thesis by (simp add: put_str_def)
qed

lemma dirent_at_put: "dirent_ok e \<Longrightarrow> p \<le> length b \<Longrightarrow> dirent_at (put_str b p (dirent_bytes e)) p = e"
  using dirent_at_bytes [of e "take p b" "drop (p + 32) b"] by (simp add: put_str_def length_dirent_bytes min_absorb2)

text \<open>Replacing an entry by one with the same name leaves it the first with that name.\<close>

lemma find_entry_put:
  assumes "find_entry b n name = Some p" "32 * n \<le> length b" "dirent_ok e" "filename e = take 8 name" "start_cluster e \<noteq> 0"
  shows "find_entry (put_str b p (dirent_bytes e)) n name = Some p"
proof -
  let ?b = "put_str b p (dirent_bytes e)"
  obtain k where k: "k < n" "p = 32 * k" "\<forall>j<k. \<not> entry_is b name (32 * j)"
    using assms(1) by (auto simp: find_entry_def find_Some_iff)
  have p: "p \<le> length b" using find_entry_Some(3) [OF assms(1)] assms(2) by simp
  have "\<not> entry_is ?b name (32 * j)" if "j < k" for j
    using dirent_at_before [of "32 * j" p b "dirent_bytes e"] that k p by (simp add: entry_is_def)
  moreover have "entry_is ?b name p" using dirent_at_put [OF assms(3) p] assms(4,5) by (simp add: entry_is_def)
  ultimately show ?thesis using k(1,2) by (auto simp: find_entry_def find_Some_iff intro!: exI [of _ k])
qed

text \<open>The chains and the clusters do not depend on the sectors of the root directory.\<close>

lemma root_sector_irrelevant:
  assumes "vol_ok vol" "root_dir_start vol \<le> s" "s < data_start vol"
  shows "x < 256 * sectors_fat (sb vol) \<Longrightarrow> fat_of vol (D(s := b)) x = fat_of vol D x"
    "cluster_data vol (D(s := b)) c = cluster_data vol D c"
proof -
  show "fat_of vol (D(s := b)) x = fat_of vol D x" if "x < 256 * sectors_fat (sb vol)"
    using fat_sector_below(1) [OF assms(1) that] assms(2) by (simp add: fat_of_def)
  have "map (D(s := b)) [cluster_sec vol c..<cluster_sec vol c + sectors_per_cluster (sb vol)] =
      map D [cluster_sec vol c..<cluster_sec vol c + sectors_per_cluster (sb vol)]"
    using assms(3) by (intro map_cong) (auto simp: cluster_sec_def)
  then show "cluster_data vol (D(s := b)) c = cluster_data vol D c" by (simp only: cluster_data_def)
qed

lemma root_sector_chain:
  assumes "vol_ok vol" "root_dir_start vol \<le> s" "s < data_start vol"
  shows "fchain vol (fat_of vol D) c cs \<Longrightarrow> fchain vol (fat_of vol (D(s := b))) c cs"
    "file_bytes vol (D(s := b)) cs = file_bytes vol D cs"
proof -
  show "fchain vol (fat_of vol (D(s := b))) c cs" if ch: "fchain vol (fat_of vol D) c cs"
  proof (rule fchain_cong [OF ch])
    fix x assume "x \<in> set cs"
    then show "fat_of vol (D(s := b)) x = fat_of vol D x"
      using fchain_clus_ok [OF ch] by (intro root_sector_irrelevant(1) [OF assms]) (simp add: clus_ok_def)
  qed
  show "file_bytes vol (D(s := b)) cs = file_bytes vol D cs"
    by (simp add: file_bytes_def root_sector_irrelevant(2) [OF assms] cong: map_cong)
qed

lemma put_str_prefix: "pos + length s \<le> length (a @ b) \<Longrightarrow> pos \<le> length a \<Longrightarrow> take (pos + length s) (put_str (a @ b) pos s) = take pos a @ s"
  by (simp add: put_str_def)

lemma fat_write_file_ok:
  assumes "disk_ok D m" "root_file D f cs p" "n \<le> length ub" "byte_offset f + n < 2147483648"
    and "(byte_offset f + n) div cluster_bytes (volume f) < length cs + free_count (volume f) D"
  shows "\<exists>m' f' D' cs'. fat_write_file m stk (Some f) ub n = Some (Inr (m', f', int n)) \<and>
    disk_ok D' m' \<and> only_pio m m' \<and> root_file D' f' cs' p \<and>
    f' = f\<lparr>byte_offset := byte_offset f + n, dirent := (dirent f)\<lparr>file_size := byte_offset f + n\<rparr>, current_cluster := current_cluster f'\<rparr> \<and>
    file_text D' f' cs' = write_spec (file_text D f cs) (byte_offset f) (take n ub) \<and>
    dirent_at (D' (dirent_sector f)) p = dirent f' \<and>
    (\<forall>x. clus_ok (volume f) x \<and> x \<notin> set cs' \<longrightarrow>
       cluster_data (volume f) D' x = cluster_data (volume f) D x \<and> fat_of (volume f) D' x = fat_of (volume f) D x) \<and>
    (\<forall>l. root_dir_start (volume f) \<le> l \<and> l < data_start (volume f) \<and> l \<noteq> dirent_sector f \<longrightarrow> D' l = D l)"
proof -
  define vol cb off s where "vol = volume f" and "cb = cluster_bytes vol" and "off = byte_offset f" and "s = dirent_sector f"
  have f: "alloc_ok vol" "fchain vol (fat_of vol D) (start_cluster (dirent f)) cs" "dirent_ok (dirent f)" "\<not> is_directory (dirent f)"
    "flag f AND FAT16_CTL_WRITE \<noteq> 0" "off div cb < length cs" "current_cluster f = cs ! (off div cb)" "off \<le> file_size (dirent f)"
    "file_size (dirent f) \<le> length cs * cb" "dirent_cluster f = 0" "root_dir_start vol \<le> s" "s < data_start vol"
    "find_entry (D s) 16 (filename (dirent f)) = Some p"
    using assms(2) by (simp_all add: root_file_def vol_def cb_def off_def s_def)
  have vol: "vol_ok vol" using f(1) by (simp add: alloc_ok_def)
  have cb: "0 < cb" using cluster_bytes_pos [OF vol] by (simp add: cb_def)
  have cur: "clus_ok vol (cs ! (off div cb))" using fchain_clus_ok [OF f(2)] f(6) by simp
  obtain m1 D1 cs1 where w: "write_file_loop vol stk ub n m (local_buf stk cb) (cs ! (off div cb)) off 0 =
      Some (Inr (m1, cs1 ! ((off + n) div cb), off + n))" "disk_ok D1 m1" "only_pio m m1" "written vol (start_cluster (dirent f)) D cs off (take n ub) D1 cs1"
    using write_file_loop_ok [OF assms(1) f(1,2), of off "local_buf stk cb" 0 n ub stk] f(6) assms(3-5) by (auto simp: cb_def off_def vol_def)
  have len: "length (take n ub) = n" using assms(3) by simp
  have w4: "fchain vol (fat_of vol D1) (start_cluster (dirent f)) cs1" "(off + n) div cb < length cs1" "frame vol (set cs1) D D1"
    using w(4) len by (simp_all add: written_def cb_def)
  obtain ys where ys: "off + n \<le> length (file_bytes vol D cs @ ys)" "file_bytes vol D1 cs1 = put_str (file_bytes vol D cs @ ys) off (take n ub)"
    using w(4) len by (auto simp: written_def)
  have cur1: "clus_ok vol (cs1 ! ((off + n) div cb))" using fchain_clus_ok [OF w4(1)] w4(2) by simp
  define e where "e = (dirent f)\<lparr>file_size := off + n\<rparr>"
  define f' where "f' = f\<lparr>byte_offset := off + n, dirent := e, current_cluster := cs1 ! ((off + n) div cb)\<rparr>"
  have e: "dirent_ok e" "filename e = filename (dirent f)" "start_cluster e = start_cluster (dirent f)" "\<not> is_directory e" "length (filename e) = 8"
    using f(3,4) assms(4) by (simp_all add: e_def dirent_ok_def off_def is_directory_def)
  have D1s: "D1 s = D s" using w4(3) f(11,12) by (simp add: frame_def)
  define D' where "D' = D1(s := put_str (D1 s) p (dirent_bytes e))"
  have fl: "dirent_cluster f' = 0" "dirent_sector f' = s" "dirent f' = e" "volume f' = vol" by (simp_all add: f'_def f(10) s_def vol_def)
  have u0: "find_entry (D1 s) 16 (filename e) = Some p" "s < 268435456" using f(12,13) e(2) D1s vol_okD(9) [OF vol] by simp_all
  from fat_update_root_dirent [OF w(2), of f' p e None stk, unfolded fl, OF vol refl u0(2) e(5) u0(1) _ e(1)]
  obtain m' where u: "fat_update_file_dirent m1 stk f' None = Some (Inr m')" "only_pio m1 m'" "disk_ok D' m'"
    unfolding D'_def by auto
  have run: "fat_write_file m stk (Some f) ub n = Some (Inr (m', f', int n))"
    using f(4,5,7) clus_ok_bound [OF cur] clus_ok_bound(1) [OF cur1] w(1) u(1) assms(4)
    unfolding fat_write_file_def by (simp add: vol_def [symmetric] cb_def [symmetric] off_def [symmetric] Let_def to_int32_exact e_def [symmetric] f'_def [symmetric])
  note rs = root_sector_chain [OF vol f(11,12)] root_sector_irrelevant [OF vol f(11,12)]
  have p: "p \<le> length (D1 s)" using find_entry_Some(3) [OF f(13)] disk_ok_length [OF w(2)] by simp
  have sc: "start_cluster e \<noteq> 0" using e(3) fchain_start [OF f(2)] f(6) by force
  have fe: "find_entry (D' s) 16 (filename e) = Some p"
  proof -
    have "32 * 16 \<le> length (D1 s)" using disk_ok_length [OF w(2)] by simp
    from find_entry_put [OF u0(1) this e(1) _ sc] show ?thesis using e(5) by (simp add: D'_def)
  qed
  have sz: "off + n \<le> length cs1 * cb" using offset_in_chain [OF cb w4(2)] .
  have rf: "root_file D' f' cs1 p"
    unfolding root_file_def fl using f(1,5,11,12) rs(1) [OF w4(1)] e(1,3,4) w4(2) sz fe
    by (simp add: D'_def f'_def e_def cb_def f(10) s_def [symmetric] vol_def [symmetric] del: fun_upd_apply)
  have tx: "file_text D' f' cs1 = write_spec (file_text D f cs) off (take n ub)"
  proof -
    have l: "off \<le> length (file_bytes vol D cs)" using f(8,9) length_file_bytes [OF vol assms(1), of cs] by (simp add: cb_def)
    have "file_text D' f' cs1 = take (off + n) (put_str (file_bytes vol D cs @ ys) off (take n ub))"
      by (simp add: file_text_def fl D'_def rs(2) ys(2)) (simp add: e_def)
    also have "\<dots> = take off (file_bytes vol D cs) @ take n ub" using put_str_prefix [of off "take n ub" "file_bytes vol D cs" ys] ys(1) l len by simp
    finally show ?thesis using f(8) by (simp add: write_spec_def file_text_def vol_def min_absorb2)
  qed
  have at: "dirent_at (D' s) p = e" using dirent_at_put [OF e(1) p] by (simp add: D'_def)
  have fr: "cluster_data vol D' x = cluster_data vol D x \<and> fat_of vol D' x = fat_of vol D x" if "clus_ok vol x" "x \<notin> set cs1" for x
    using that w4(3) rs(3) [of x D1] rs(4) [of D1] by (simp add: frame_def D'_def clus_ok_def)
  have rt: "D' l = D l" if "root_dir_start vol \<le> l" "l < data_start vol" "l \<noteq> s" for l
    using that w4(3) by (simp add: frame_def D'_def)
  show ?thesis
    unfolding vol_def [symmetric] off_def [symmetric] s_def [symmetric]
    by (rule exI [of _ m'], rule exI [of _ f'], rule exI [of _ D'], rule exI [of _ cs1], intro conjI run u(3) only_pio_trans [OF w(3) u(2)] rf tx)
      (use at fr fl rt in \<open>simp_all add: f'_def e_def\<close>)
qed

section \<open>A sample volume\<close>

text \<open>
  One sector per cluster, one sector of table and one of root directory. The file \<open>A\<close> has 600 bytes in clusters 3 and 4.
\<close>

definition sample_vol :: Fat16Volume where
  "sample_vol = \<lparr>sb = \<lparr>jmp_instrction = [], oem_name = [], bytes_per_sector = 512, sectors_per_cluster = 1, reserve_sectors = 1, fat_num = 1,
     root_ents_num = 16, small_sectors_num = 200, media_desc = 0, sectors_fat = 1, sectors_per_track = 0, head_num = 0, hidden_sectors = 0,
     large_sectors_num = 0\<rparr>, root = dirent_at (replicate 32 NUL) 0, root_sectors = 1, volume_start = 0, fat_start = 1, root_dir_start = 2,
     data_start = 3, cluster_bytes = 512\<rparr>"

definition sample_dirent :: FatDirEntry where
  "sample_dirent = \<lparr>filename = ''A       '', ext = ''txt'', attr = 0, reserved = NUL, create_mill = 0, create_time = 0, create_date = 0,
     last_access = 0, reserve_32 = 0, last_wtime = 0, last_wdate = 0, start_cluster = 3, file_size = 600\<rparr>"

definition sample_disk :: "nat \<Rightarrow> char list" where
  "sample_disk = (set_fat sample_vol (set_fat sample_vol (\<lambda>l. replicate 512 (if l = 4 then CHR ''a'' else if l = 5 then CHR ''b'' else NUL)) 3 4) 4 65535)
     (2 := put_str (replicate 512 NUL) 0 (dirent_bytes sample_dirent))"

definition sample_file :: Fat16File where
  "sample_file = \<lparr>file_ptr = 1, path_ptr = 1, path = ''/A'', volume = sample_vol, dirent_ptr = 1, dirent = sample_dirent, dirent_sector = 2,
     dirent_cluster = 0, current_cluster = 4, byte_offset = 600, flag = 2\<rparr>"

lemma sample_vol_ok: "alloc_ok sample_vol" "vol_ok sample_vol" "cluster_bytes sample_vol = 512" "sectors_fat (sb sample_vol) = 1"
    "sectors_per_cluster (sb sample_vol) = 1" "root_sectors sample_vol = 1" "root_dir_start sample_vol = 2" "data_start sample_vol = 3"
  by (simp_all add: alloc_ok_def vol_ok_def sample_vol_def)

lemma sample_dirent_ok: "dirent_ok sample_dirent" "\<not> is_directory sample_dirent"
  by (simp_all add: sample_dirent_def dirent_ok_def is_directory_def)

lemma length_set_fat: "\<forall>l. length (D l) = 512 \<Longrightarrow> length (set_fat vol D c v l) = 512"
  using mod_256_bound [of c] by (simp add: set_fat_def Let_def)

lemma sample_disk_length: "length (sample_disk l) = 512"
  by (simp add: sample_disk_def length_set_fat put_str_def length_dirent_bytes [OF sample_dirent_ok(1)])

lemma sample_disk_machine: "disk_ok sample_disk (disk_machine boot_console sample_disk)"
  by (rule disk_machine_ok) (simp add: sample_disk_length)

lemma sample_fat: "c < 256 \<Longrightarrow> fat_of sample_vol sample_disk c = (if c = 3 then 4 else if c = 4 then 65535 else 0)"
proof -
  assume c: "c < 256"
  define E where "E = (\<lambda>l :: nat. replicate 512 (if l = 4 then CHR ''a'' else if l = 5 then CHR ''b'' else NUL))"
  have len: "\<forall>l. length (E l) = 512" by (simp add: E_def)
  have "fat_of sample_vol sample_disk c = fat_of sample_vol (set_fat sample_vol (set_fat sample_vol E 3 4) 4 65535) c"
    unfolding sample_disk_def E_def [symmetric] using c by (intro root_sector_irrelevant(1)) (simp_all add: sample_vol_ok)
  moreover have "\<dots> = ((fat_of sample_vol E)(3 := 4, 4 := 65535)) c"
    using fat_of_set_fat [OF len, of sample_vol 3 4] fat_of_set_fat [of "set_fat sample_vol E 3 4" sample_vol 4 65535] length_set_fat [OF len] by simp
  moreover have "fat_of sample_vol E c = 0" using c by (simp add: fat_of_def E_def fat_sector_def sample_vol_def le16_def)
  ultimately show "fat_of sample_vol sample_disk c = (if c = 3 then 4 else if c = 4 then 65535 else 0)" by simp
qed

lemma sample_chain: "fchain sample_vol (fat_of sample_vol sample_disk) 3 [3, 4]"
  by (simp add: sample_fat clus_ok_def FAT_CLUS_EOF_def sample_vol_ok)

lemma sample_entry: "find_entry (sample_disk 2) 16 ''A       '' = Some 0" "dirent_at (sample_disk 2) 0 = sample_dirent"
proof -
  show at: "dirent_at (sample_disk 2) 0 = sample_dirent"
    using dirent_at_put [OF sample_dirent_ok(1), of 0 "replicate 512 NUL"] by (simp add: sample_disk_def)
  have "entry_is (sample_disk 2) ''A       '' 0" by (simp add: entry_is_def at) (simp add: sample_dirent_def)
  then show "find_entry (sample_disk 2) 16 ''A       '' = Some 0" by (simp add: find_entry_def upt_conv_Cons)
qed

lemma sample_root_file: "root_file sample_disk sample_file [3, 4] 0"
  using sample_chain sample_entry(1) sample_dirent_ok sample_vol_ok
  by (simp add: root_file_def sample_file_def) (simp add: sample_dirent_def)

lemma sample_free: "1 \<le> free_count sample_vol sample_disk"
proof -
  have "5 \<in> {c. c < 256 * sectors_fat (sb sample_vol) \<and> free_entry (fat_of sample_vol sample_disk) c}"
    by (simp add: sample_vol_ok free_entry_def sample_fat)
  then have "free_count sample_vol sample_disk \<noteq> 0" unfolding free_count_def by (subst card_0_eq) auto
  then show ?thesis by simp
qed

lemma sample_text: "file_text sample_disk sample_file [3, 4] = replicate 512 (CHR ''a'') @ replicate 88 (CHR ''b'')"
proof -
  have "sample_disk 4 = replicate 512 (CHR ''a'')" "sample_disk 5 = replicate 512 (CHR ''b'')"
    by (simp_all add: sample_disk_def set_fat_other fat_sector_def sample_vol_def)
  moreover have "cluster_sec sample_vol 3 = 4" "cluster_sec sample_vol 4 = 5" by (simp_all add: cluster_sec_def sample_vol_ok)
  ultimately show ?thesis
    by (simp add: file_text_def sample_file_def file_bytes_def cluster_data_def sample_vol_ok) (simp add: sample_dirent_def)
qed

section \<open>Properties: reading and writing files\<close>

text \<open>
  C8. \<open>fat_read_file\<close> on a regular file implements \<open>read_spec\<close> on the string of the file: at the end of the file it returns
  \<open>FAT_FILE_EOF\<close> and changes nothing; before the end it returns, stores at the start of the buffer the bytes from the offset on, as many
  as were asked for and there are, reports their number and advances the offset by it. The disk does not change.
\<close>

theorem fat_read_file_refines:
  assumes "disk_ok D m" "file_at D f cs" "n \<le> length ub" "byte_offset f + n + cluster_bytes (volume f) < 2147483648"
  shows "case read_spec (file_text D f cs) (byte_offset f) n of
      None \<Rightarrow> fat_read_file m stk (Some f) ub n = Some (Inr (m, f, ub, - 1))
    | Some s \<Rightarrow> returns (fat_read_file m stk (Some f) ub n) (\<lambda>(m', f', ub', k). k = int (length s) \<and> take (length s) ub' = s \<and>
        length ub' = length ub \<and> byte_offset f' = byte_offset f + length s \<and> file_at D f' cs \<and> file_text D f' cs = file_text D f cs \<and>
        disk_ok D m' \<and> only_pio m m')"
proof -
  have len: "length (file_text D f cs) = file_size (dirent f)" using length_file_text [OF assms(1,2)] .
  have nz: "start_cluster (dirent f) \<noteq> 0" "\<not> is_directory (dirent f)"
    using assms(2) fchain_start [of "volume f" "fat_of (volume f) D" "start_cluster (dirent f)" cs] by (auto simp: file_at_def)
  show ?thesis
  proof (cases "byte_offset f < file_size (dirent f)")
    case False
    then show ?thesis using len nz by (simp add: read_spec_def fat_read_file_def)
  next
    case True
    define k where "k = min n (file_size (dirent f) - byte_offset f)"
    obtain m' c ub' where r: "fat_read_file m stk (Some f) ub n = Some (Inr (m', f\<lparr>current_cluster := c, byte_offset := byte_offset f + k\<rparr>, ub', int k))"
      "disk_ok D m'" "only_pio m m'" "length ub' = length ub" "take k ub' = take k (drop (byte_offset f) (file_text D f cs))"
      "file_at D (f\<lparr>current_cluster := c, byte_offset := byte_offset f + k\<rparr>) cs"
      using fat_read_file_ok [OF assms(1,2) True assms(3,4) k_def] by blast
    have s: "take n (drop (byte_offset f) (file_text D f cs)) = take k (drop (byte_offset f) (file_text D f cs))"
      "length (take k (drop (byte_offset f) (file_text D f cs))) = k"
      using len by (simp_all add: k_def min_def)
    show ?thesis using True len r s by (simp add: read_spec_def file_text_def)
  qed
qed

theorem fat_read_file_refines_witness:
  "\<exists>m. disk_ok sample_disk m \<and> returns (fat_read_file m (\<lambda>_. NUL) (Some (sample_file\<lparr>byte_offset := 510, current_cluster := 3\<rparr>)) (replicate 4 NUL) 4)
     (\<lambda>(m', f', ub, k). k = 4 \<and> ub = ''aabb'' \<and> byte_offset f' = 514)"
proof -
  let ?f = "sample_file\<lparr>byte_offset := 510, current_cluster := 3\<rparr>"
  have at: "file_at sample_disk ?f [3, 4]"
    using sample_chain sample_dirent_ok(2) sample_vol_ok by (simp add: file_at_def sample_file_def) (simp add: sample_dirent_def)
  have tx: "file_text sample_disk ?f [3, 4] = replicate 512 (CHR ''a'') @ replicate 88 (CHR ''b'')"
    using sample_text by (simp add: file_text_def)
  have rs: "read_spec (file_text sample_disk ?f [3, 4]) (byte_offset ?f) 4 = Some ''aabb''"
    unfolding tx by (simp add: read_spec_def numeral_eq_Suc)
  have small: "byte_offset ?f + 4 + cluster_bytes (volume ?f) < 2147483648" by (simp add: sample_file_def sample_vol_ok)
  have "returns (fat_read_file (disk_machine boot_console sample_disk) (\<lambda>_. NUL) (Some ?f) (replicate 4 NUL) 4)
      (\<lambda>(m', f', ub, k). k = 4 \<and> ub = ''aabb'' \<and> byte_offset f' = 514)"
    using fat_read_file_refines [OF sample_disk_machine at _ small, of "replicate 4 NUL" "\<lambda>_. NUL"] unfolding rs
    by (auto simp: returns_def)
  then show ?thesis using sample_disk_machine by blast
qed

text \<open>
  C7. \<open>fat_write_file\<close> on a file of the root directory, at an offset from which the bytes reach the end of the file or beyond, and with
  enough free clusters, implements \<open>overwrite_spec\<close> on the string of the file: it returns the number of bytes, the bytes of the file from
  the offset on are replaced by the new ones, and the size grows to the offset after the write if that exceeds it. The chain grows as
  needed, the entry on the disk is the new one, the structure can be used for the next call, and clusters and table entries of
  other files stay as they are.
\<close>

theorem fat_write_file_refines:
  assumes "disk_ok D m" "root_file D f cs p" "n \<le> length ub" "byte_offset f + n < 2147483648"
    and "(byte_offset f + n) div cluster_bytes (volume f) < length cs + free_count (volume f) D" "file_size (dirent f) \<le> byte_offset f + n"
  shows "returns (fat_write_file m stk (Some f) ub n) (\<lambda>(m', f', k). k = int n \<and> only_pio m m' \<and> (\<exists>D' cs'.
    disk_ok D' m' \<and> root_file D' f' cs' p \<and> file_text D' f' cs' = overwrite_spec (file_text D f cs) (byte_offset f) (take n ub) \<and>
    byte_offset f' = byte_offset f + n \<and> dirent f' = (dirent f)\<lparr>file_size := max (file_size (dirent f)) (byte_offset f + n)\<rparr> \<and>
    dirent_at (D' (dirent_sector f)) p = dirent f' \<and>
    (\<forall>x. clus_ok (volume f) x \<and> x \<notin> set cs' \<longrightarrow>
       cluster_data (volume f) D' x = cluster_data (volume f) D x \<and> fat_of (volume f) D' x = fat_of (volume f) D x)))"
proof -
  obtain m' f' D' cs' where w: "fat_write_file m stk (Some f) ub n = Some (Inr (m', f', int n))" "disk_ok D' m'" "only_pio m m'"
    "root_file D' f' cs' p" "file_text D' f' cs' = write_spec (file_text D f cs) (byte_offset f) (take n ub)"
    "f' = f\<lparr>byte_offset := byte_offset f + n, dirent := (dirent f)\<lparr>file_size := byte_offset f + n\<rparr>, current_cluster := current_cluster f'\<rparr>"
    "dirent_at (D' (dirent_sector f)) p = dirent f'"
    "\<forall>x. clus_ok (volume f) x \<and> x \<notin> set cs' \<longrightarrow>
       cluster_data (volume f) D' x = cluster_data (volume f) D x \<and> fat_of (volume f) D' x = fat_of (volume f) D x"
    using fat_write_file_ok [OF assms(1-5), of stk] by (elim exE conjE)
  have fl: "byte_offset f' = byte_offset f + n" "dirent f' = (dirent f)\<lparr>file_size := max (file_size (dirent f)) (byte_offset f + n)\<rparr>"
    using arg_cong [OF w(6), of byte_offset] arg_cong [OF w(6), of dirent] assms(6) by (simp_all add: max_absorb2)
  have "file_at D f cs" using assms(2,4,6) by (auto simp: root_file_def file_at_def alloc_ok_def)
  then have tx: "file_text D' f' cs' = overwrite_spec (file_text D f cs) (byte_offset f) (take n ub)"
    using w(5) length_file_text [OF assms(1)] assms(3,6) by (simp add: write_spec_def overwrite_spec_def min_absorb2)
  show ?thesis
    unfolding w(1) returns_Inr prod.case
    by (intro conjI refl w(3) exI [of _ D'] exI [of _ cs'] w(2,4,7,8) tx fl)
qed

theorem fat_write_file_refines_witness:
  "\<exists>m. disk_ok sample_disk m \<and> returns (fat_write_file m (\<lambda>_. NUL) (Some sample_file) (replicate 500 (CHR ''c'')) 500)
     (\<lambda>(m', f', k). k = 500 \<and> (\<exists>D' cs'. disk_ok D' m' \<and>
        file_text D' f' cs' = replicate 512 (CHR ''a'') @ replicate 88 (CHR ''b'') @ replicate 500 (CHR ''c'')))"
proof -
  have "returns (fat_write_file (disk_machine boot_console sample_disk) (\<lambda>_. NUL) (Some sample_file) (replicate 500 (CHR ''c'')) 500)
     (\<lambda>(m', f', k). k = 500 \<and> (\<exists>D' cs'. disk_ok D' m' \<and>
        file_text D' f' cs' = replicate 512 (CHR ''a'') @ replicate 88 (CHR ''b'') @ replicate 500 (CHR ''c'')))"
  proof (rule returns_mono [OF fat_write_file_refines [OF sample_disk_machine sample_root_file]])
    show "(byte_offset sample_file + 500) div cluster_bytes (volume sample_file) < length [3 :: nat, 4] + free_count (volume sample_file) sample_disk"
      using sample_free by (simp add: sample_file_def sample_vol_ok)
    have "byte_offset sample_file = 600" by (simp add: sample_file_def)
    then show "case x of (m', f', k) \<Rightarrow> k = 500 \<and> (\<exists>D' cs'. disk_ok D' m' \<and>
          file_text D' f' cs' = replicate 512 (CHR ''a'') @ replicate 88 (CHR ''b'') @ replicate 500 (CHR ''c''))"
      if "case x of (m', f', k) \<Rightarrow> k = int 500 \<and> only_pio (disk_machine boot_console sample_disk) m' \<and> (\<exists>D' cs'. disk_ok D' m' \<and> root_file D' f' cs' 0 \<and>
        file_text D' f' cs' = overwrite_spec (file_text sample_disk sample_file [3, 4]) (byte_offset sample_file) (take 500 (replicate 500 (CHR ''c''))) \<and>
        byte_offset f' = byte_offset sample_file + 500 \<and>
        dirent f' = (dirent sample_file)\<lparr>file_size := max (file_size (dirent sample_file)) (byte_offset sample_file + 500)\<rparr> \<and>
        dirent_at (D' (dirent_sector sample_file)) 0 = dirent f' \<and>
        (\<forall>x. clus_ok (volume sample_file) x \<and> x \<notin> set cs' \<longrightarrow> cluster_data (volume sample_file) D' x = cluster_data (volume sample_file) sample_disk x \<and>
          fat_of (volume sample_file) D' x = fat_of (volume sample_file) sample_disk x))" for x
      using that by (auto simp: sample_text overwrite_spec_def)
  qed (simp_all add: sample_file_def sample_dirent_def)
  then show ?thesis using sample_disk_machine by blast
qed

text \<open>A file that was written is found again by its name.\<close>

lemma find_sector_cong:
  "(\<And>s. s \<in> set ss \<Longrightarrow> find_entry (D' s) 16 name = find_entry (D s) 16 name) \<Longrightarrow> find_sector D' name ss = find_sector D name ss"
  by (induction ss) (auto simp: find_sector_Cons find_sector_def [of _ name "[]"] split: option.splits)

text \<open>
  C9. A file of the root directory that is written, looked up by its name with \<open>_fat_search_root\<close> and read from the start gives
  the bytes before the offset of the write followed by the bytes written, through the directory entry and the cluster chain on
  the disk and not through the structure that was written with.
\<close>

theorem fat_write_search_read:
  assumes "disk_ok D m" "root_file D f cs p" "n \<le> length ub" "0 < byte_offset f + n" "byte_offset f + n + cluster_bytes (volume f) < 2147483648"
    and "(byte_offset f + n) div cluster_bytes (volume f) < length cs + free_count (volume f) D"
    and "sectors_per_cluster (sb (volume f)) dvd root_sectors (volume f)" "volume g = volume f" "byte_offset g = 0"
    and "find_sector D (filename (dirent f)) [root_dir_start (volume f)..<root_dir_start (volume f) + root_sectors (volume f)] = Some (dirent_sector f, p)"
  shows "returns (bind_ro (fat_write_file m stk (Some f) ub n) (\<lambda>(m, _, _).
      bind_ro (fat_search_root m stk g (filename (dirent f))) (\<lambda>(m, g, _).
      fat_read_file m stk (Some g) (replicate (byte_offset f + n) NUL) (byte_offset f + n))))
    (\<lambda>(_, _, b, k). k = int (byte_offset f + n) \<and> b = write_spec (file_text D f cs) (byte_offset f) (take n ub))"
proof -
  define vol name N R where "vol = volume f" and "name = filename (dirent f)" and "N = byte_offset f + n"
    and "R = [root_dir_start vol..<root_dir_start vol + root_sectors vol]"
  have rf: "vol_ok vol" "length name = 8" using assms(2) by (simp_all add: root_file_def alloc_ok_def dirent_ok_def vol_def name_def)
  have small: "byte_offset f + n < 2147483648" using assms(5) by simp
  obtain m1 f1 D1 cs1 where w: "fat_write_file m stk (Some f) ub n = Some (Inr (m1, f1, int n))" "disk_ok D1 m1" "only_pio m m1"
    "root_file D1 f1 cs1 p" "file_text D1 f1 cs1 = write_spec (file_text D f cs) (byte_offset f) (take n ub)"
    "f1 = f\<lparr>byte_offset := N, dirent := (dirent f)\<lparr>file_size := N\<rparr>, current_cluster := current_cluster f1\<rparr>"
    "dirent_at (D1 (dirent_sector f)) p = dirent f1"
    "\<forall>l. root_dir_start (volume f) \<le> l \<and> l < data_start (volume f) \<and> l \<noteq> dirent_sector f \<longrightarrow> D1 l = D l"
    using fat_write_file_ok [OF assms(1-3) small assms(6), of stk] unfolding N_def by (elim exE conjE)
  have f1: "dirent f1 = (dirent f)\<lparr>file_size := N\<rparr>" "volume f1 = vol" "dirent_sector f1 = dirent_sector f"
    using arg_cong [OF w(6), of dirent] arg_cong [OF w(6), of volume] arg_cong [OF w(6), of dirent_sector] by (simp_all add: vol_def)
  have "find_sector D1 name R = find_sector D name R"
  proof (rule find_sector_cong)
    fix s assume s: "s \<in> set R"
    show "find_entry (D1 s) 16 name = find_entry (D s) 16 name"
    proof (cases "s = dirent_sector f")
      case True
      then show ?thesis using assms(2) w(4) f1 by (simp add: root_file_def name_def)
    next
      case False
      then show ?thesis using w(8) s vol_okD(8) [OF rf(1)] by (simp add: R_def vol_def)
    qed
  qed
  then have fs: "find_sector D1 name R = Some (dirent_sector f, p)" using assms(10) by (simp add: name_def R_def vol_def)
  define g1 where "g1 = g\<lparr>dirent := dirent f1, current_cluster := start_cluster (dirent f1), dirent_cluster := 0, dirent_sector := dirent_sector f\<rparr>"
  have gv: "vol_ok (volume g)" "sectors_per_cluster (sb (volume g)) dvd root_sectors (volume g)" "8 \<le> length name"
    using rf assms(7,8) by (simp_all add: vol_def)
  obtain m2 where s: "fat_search_root m1 stk g name = Some (Inr (m2, g1, 1))" "disk_ok D1 m2"
    using fat_search_root_ok [OF w(2) gv(1,3,2) refl, of stk] fs w(7) by (auto simp: g1_def assms(8) R_def vol_def)
  have ne: "cs1 \<noteq> []" using w(4) by (auto simp: root_file_def)
  have at: "file_at D1 g1 cs1"
    using ne w(4) f1 assms(9) fchain_start [of vol "fat_of vol D1" "start_cluster (dirent f1)" cs1]
    by (auto simp: file_at_def root_file_def alloc_ok_def g1_def assms(8) dirent_ok_def vol_def)
  have k: "N = min N (file_size (dirent g1) - byte_offset g1)" "byte_offset g1 < file_size (dirent g1)"
    using assms(4,9) f1(1) by (simp_all add: g1_def N_def)
  have "byte_offset g1 + N + cluster_bytes (volume g1) < 2147483648" "N \<le> length (replicate N NUL)"
    using assms(5,8,9) by (simp_all add: g1_def N_def)
  from fat_read_file_ok [OF s(2) at k(2) this(2,1) k(1), of stk]
  obtain m3 g2 b where r: "fat_read_file m2 stk (Some g1) (replicate N NUL) N = Some (Inr (m3, g2, b, int N))"
    "length b = length (replicate N NUL)" "take N b = take N (drop (byte_offset g1) (file_text D1 g1 cs1))"
    by (elim exE conjE)
  have tx: "file_text D1 g1 cs1 = write_spec (file_text D f cs) (byte_offset f) (take n ub)"
    using w(5) f1 assms(8) by (simp add: file_text_def g1_def vol_def)
  have "length (file_text D1 g1 cs1) = N" using length_file_text [OF s(2) at] f1(1) by (simp add: g1_def)
  then have "b = write_spec (file_text D f cs) (byte_offset f) (take n ub)" using r(2,3) tx assms(9) by (simp add: g1_def)
  then show ?thesis using w(1) s(1) r(1) by (simp add: name_def N_def)
qed

theorem fat_write_search_read_witness:
  "\<exists>m. disk_ok sample_disk m \<and> returns (bind_ro (fat_write_file m (\<lambda>_. NUL) (Some sample_file) (replicate 500 (CHR ''c'')) 500) (\<lambda>(m, _, _).
      bind_ro (fat_search_root m (\<lambda>_. NUL) (sample_file\<lparr>byte_offset := 0\<rparr>) ''A       '') (\<lambda>(m, g, _).
      fat_read_file m (\<lambda>_. NUL) (Some g) (replicate 1100 NUL) 1100)))
    (\<lambda>(_, _, b, k). k = 1100 \<and> b = replicate 512 (CHR ''a'') @ replicate 88 (CHR ''b'') @ replicate 500 (CHR ''c''))"
proof -
  have f: "filename (dirent sample_file) = ''A       ''" "byte_offset sample_file = 600" "volume sample_file = sample_vol" "dirent_sector sample_file = 2"
    by (simp_all add: sample_file_def sample_dirent_def)
  have fs: "find_sector sample_disk (filename (dirent sample_file)) [root_dir_start (volume sample_file)..<root_dir_start (volume sample_file) +
      root_sectors (volume sample_file)] = Some (dirent_sector sample_file, 0)"
    unfolding f by (simp add: sample_vol_ok find_sector_Cons sample_entry(1))
  have "(byte_offset sample_file + 500) div cluster_bytes (volume sample_file) < length [3 :: nat, 4] + free_count (volume sample_file) sample_disk"
    using sample_free by (simp add: f sample_vol_ok)
  from fat_write_search_read [OF sample_disk_machine sample_root_file _ _ _ this _ _ _ fs, of "replicate 500 (CHR ''c'')" "sample_file\<lparr>byte_offset := 0\<rparr>" "\<lambda>_. NUL"]
  have "returns (bind_ro (fat_write_file (disk_machine boot_console sample_disk) (\<lambda>_. NUL) (Some sample_file) (replicate 500 (CHR ''c'')) 500) (\<lambda>(m, _, _).
      bind_ro (fat_search_root m (\<lambda>_. NUL) (sample_file\<lparr>byte_offset := 0\<rparr>) ''A       '') (\<lambda>(m, g, _).
      fat_read_file m (\<lambda>_. NUL) (Some g) (replicate 1100 NUL) 1100)))
    (\<lambda>(_, _, b, k). k = 1100 \<and> b = replicate 512 (CHR ''a'') @ replicate 88 (CHR ''b'') @ replicate 500 (CHR ''c''))"
    by (simp add: f sample_vol_ok sample_text write_spec_def)
  then show ?thesis using sample_disk_machine by blast
qed

section \<open>Properties: the allocation table\<close>

text \<open>
  C11. \<open>_fat_free_clusters_until_end\<close> returns for every contents of the table, also for one with a cycle: it sets the entries of exactly
  the clusters that the chain from \<open>c\<close> reaches to zero and changes no sector outside the table.
\<close>

theorem fat_free_chain_terminates:
  assumes "disk_ok D m" "vol_ok vol"
  shows "\<exists>m' D'. fat_free_clusters_until_end stk vol m c = Some (Inr m') \<and> disk_ok D' m' \<and> only_pio m m' \<and>
    fat_of vol D' = (\<lambda>x. if x \<in> chain_set (fat_of vol D) c then 0 else fat_of vol D x) \<and>
    (\<forall>l. l < fat_start vol \<or> fat_start vol + 256 \<le> l \<longrightarrow> D' l = D l)"
proof -
  have "fat_frame vol m D (fat_of vol D) m" using assms by (auto simp: fat_frame_def)
  from fat.free_returns [OF this, of stk c] show ?thesis by (auto simp: returns_def fat_frame_def)
qed

theorem fat_free_chain_terminates_witness:
  "\<exists>m m' D'. disk_ok sample_disk m \<and> fat_free_clusters_until_end (\<lambda>_. NUL) sample_vol m 3 = Some (Inr m') \<and> disk_ok D' m' \<and>
     fat_of sample_vol D' 3 = 0 \<and> fat_of sample_vol D' 4 = 0 \<and> fat_of sample_vol D' 7 = 0"
proof -
  have c: "3 \<in> chain_set (fat_of sample_vol sample_disk) 3" by (rule chain_set.start) (simp add: FAT_CLUS_NORMAL_def)
  from chain_set.follow [OF this] have "4 \<in> chain_set (fat_of sample_vol sample_disk) 3" by (simp add: sample_fat FAT_CLUS_NORMAL_def)
  moreover obtain m' D' where "fat_free_clusters_until_end (\<lambda>_. NUL) sample_vol (disk_machine boot_console sample_disk) 3 = Some (Inr m')" "disk_ok D' m'"
    "fat_of sample_vol D' = (\<lambda>x. if x \<in> chain_set (fat_of sample_vol sample_disk) 3 then 0 else fat_of sample_vol sample_disk x)"
    using fat_free_chain_terminates [OF sample_disk_machine sample_vol_ok(2), of "\<lambda>_. NUL" 3] by blast
  ultimately have "fat_of sample_vol D' 3 = 0 \<and> fat_of sample_vol D' 4 = 0 \<and> fat_of sample_vol D' 7 = 0" "disk_ok D' m'"
    "fat_free_clusters_until_end (\<lambda>_. NUL) sample_vol (disk_machine boot_console sample_disk) 3 = Some (Inr m')"
    using c by (simp_all add: sample_fat)
  then show ?thesis using sample_disk_machine by blast
qed

text \<open>
  C12. \<open>fat_get_free_cluster\<close>, which reads the table a cluster of sectors at a time and counts entries, returns the first zero entry
  after entry 2 in the table seen as a function, on every volume of 512-byte sectors whose table is a whole number of clusters and has such
  an entry.
\<close>

theorem fat_get_free_cluster_first:
  assumes "disk_ok D m" "vol_ok vol" "sectors_per_cluster (sb vol) dvd sectors_fat (sb vol)"
    and "2 < c" "c < 256 * sectors_fat (sb vol)" "fat_of vol D c = 0" "\<forall>j. 2 < j \<and> j < c \<longrightarrow> fat_of vol D j \<noteq> 0"
  shows "returns (fat_get_free_cluster m stk vol) (\<lambda>(m', c'). c' = c \<and> disk_ok D m' \<and> only_pio m m')"
proof -
  have "find (free_entry (fat_of vol D)) [0..<256 * sectors_fat (sb vol)] = Some c"
    unfolding find_Some_iff using assms(4-7) by (intro exI [of _ c]) (auto simp: free_entry_def)
  then show ?thesis using fat_get_free_cluster_ok [OF assms(1-3), of stk] by simp
qed

theorem fat_get_free_cluster_first_witness:
  "\<exists>m. disk_ok sample_disk m \<and> returns (fat_get_free_cluster m (\<lambda>_. NUL) sample_vol) (\<lambda>(_, c). c = 5)"
proof -
  have "\<forall>j. 2 < j \<and> j < 5 \<longrightarrow> fat_of sample_vol sample_disk j \<noteq> 0" by (simp add: sample_fat)
  then have "returns (fat_get_free_cluster (disk_machine boot_console sample_disk) (\<lambda>_. NUL) sample_vol) (\<lambda>(_, c). c = 5)"
    using fat_get_free_cluster_first [OF sample_disk_machine sample_vol_ok(2), of 5 "\<lambda>_. NUL"]
    by (auto simp: sample_vol_ok sample_fat returns_def)
  then show ?thesis using sample_disk_machine by blast
qed

text \<open>
  C13. On a volume of 512-byte sectors an entry of the first table that \<open>write_fat\<close> wrote is what \<open>fat_get_next_cluster\<close> reads, and every
  other entry reads as before.
\<close>

theorem fat_entry_roundtrip:
  assumes "disk_ok D m" "vol_ok vol" "c < 65536" "v < 65536" "d < 65536"
  shows "returns (bind_ro (write_fat m stk vol c v) (\<lambda>(m, _). fat_get_next_cluster m stk vol d)) (\<lambda>(_, w). w = (if d = c then v else fat_of vol D d))"
proof -
  have "fat_frame vol m D (fat_of vol D) m" using assms(1,2) by (auto simp: fat_frame_def)
  from fat.put_get [OF this assms(3-5), of stk] show ?thesis by (simp add: bind_ro_assoc case_prod_unfold split del: if_split)
qed

theorem fat_entry_roundtrip_witness:
  "\<exists>m. returns (bind_ro (write_fat m (\<lambda>_. NUL) sample_vol 9 77) (\<lambda>(m, _). fat_get_next_cluster m (\<lambda>_. NUL) sample_vol 3)) (\<lambda>(_, w). w = 4) \<and>
     returns (bind_ro (write_fat m (\<lambda>_. NUL) sample_vol 9 77) (\<lambda>(m, _). fat_get_next_cluster m (\<lambda>_. NUL) sample_vol 9)) (\<lambda>(_, w). w = 77)"
  using fat_entry_roundtrip [OF sample_disk_machine sample_vol_ok(2), of 9 77 3 "\<lambda>_. NUL"]
    fat_entry_roundtrip [OF sample_disk_machine sample_vol_ok(2), of 9 77 9 "\<lambda>_. NUL"] by (auto simp: sample_fat)

section \<open>Properties: names and paths\<close>

text \<open>
  C10. \<open>fat16_find\<close> returns for every path whose components have at most eight characters and whose directories have chains that end, and
  yields what the path stands for on the disk: component after component the first entry with the name in upper case filled with
  blanks, in the sectors of the root directory or along the clusters of a directory; or nothing.
\<close>

theorem fat16_find_resolves:
  assumes "resolves D (f\<lparr>dirent := root (volume f)\<rparr>) (runs (CHR ''/'') p) r" "disk_ok D m" "vol_ok (volume f)"
    and "sectors_per_cluster (sb (volume f)) dvd root_sectors (volume f)" "dirent_ptr f \<noteq> 0"
    and "NUL \<notin> set p" "p \<noteq> ''/''" "\<forall>n \<in> set (runs (CHR ''/'') p). length n \<le> 8"
  shows "returns (fat16_find m stk f (p @ [NUL])) (\<lambda>(m', r'). r' = r \<and> disk_ok D m' \<and> only_pio m m')"
  using fat16_find_ok [of D f p r m stk] assms by (auto simp: returns_def)

theorem fat16_find_resolves_witness:
  "\<exists>m. disk_ok sample_disk m \<and> returns (fat16_find m (\<lambda>_. NUL) sample_file (''//a'' @ [NUL]))
     (\<lambda>(_, r). r = Some (sample_file\<lparr>current_cluster := 3\<rparr>)) \<and>
   returns (fat16_find m (\<lambda>_. NUL) sample_file (''/b/c'' @ [NUL])) (\<lambda>(_, r). r = None)"
proof -
  let ?f = "sample_file\<lparr>dirent := root sample_vol\<rparr>"
  have f: "volume sample_file = sample_vol" "start_cluster (root sample_vol) = 0" "dirent_ptr sample_file \<noteq> 0"
    by (simp_all add: sample_file_def sample_vol_def dirent_at_def le16_def Let_def)
  have nm: "entry_name ''a'' = ''A       ''" "entry_name ''b'' = ''B       ''" by code_simp+
  have R: "[root_dir_start sample_vol..<root_dir_start sample_vol + root_sectors sample_vol] = [2]" by (simp add: sample_vol_ok)
  have a: "dir_lookup sample_disk ?f ''a'' [] = Some (sample_file\<lparr>current_cluster := 3\<rparr>)"
    using sample_entry by (simp add: dir_lookup_def f nm R find_sector_Cons in_root_def) (simp add: sample_file_def sample_dirent_def)
  have b: "dir_lookup sample_disk ?f ''b'' [] = None"
  proof -
    have "\<not> entry_is (sample_disk 2) ''B       '' (32 * j)" if "j < 16" for j
    proof (cases j)
      case 0
      then show ?thesis using sample_entry(2) by (simp add: entry_is_def sample_dirent_def)
    next
      case (Suc k)
      have "dirent_at (sample_disk 2) (32 * j) = dirent_at (replicate 480 NUL) (32 * k)"
        using dirent_at_shift [of "dirent_bytes sample_dirent" "32 * j" "replicate 480 NUL"] Suc length_dirent_bytes [OF sample_dirent_ok(1)]
        by (simp add: sample_disk_def put_str_def)
      moreover have "filename (dirent_at (replicate 480 NUL) (32 * k)) = replicate 8 NUL" using that Suc by (simp add: dirent_at_def Let_def)
      ultimately show ?thesis by (simp add: entry_is_def numeral_eq_Suc)
    qed
    then have "find_entry (sample_disk 2) 16 ''B       '' = None" by (auto simp: find_entry_def find_None_iff)
    then show ?thesis by (simp add: dir_lookup_def f nm R find_sector_Cons find_sector_def)
  qed
  have ra: "resolves sample_disk ?f [''a''] (Some (sample_file\<lparr>current_cluster := 3\<rparr>))"
    by (rule resolves.down [OF _ a resolves.here]) (simp add: f)
  have rb: "resolves sample_disk ?f [''b'', ''c''] None"
    by (rule resolves.missing [of _ _ "[]"]) (simp_all add: f b)
  note th = fat16_find_resolves [where f = sample_file and stk = "\<lambda>_. NUL", OF _ sample_disk_machine]
  have "returns (fat16_find (disk_machine boot_console sample_disk) (\<lambda>_. NUL) sample_file (''//a'' @ [NUL]))
     (\<lambda>(_, r). r = Some (sample_file\<lparr>current_cluster := 3\<rparr>))"
    using th [of "''//a''" "Some (sample_file\<lparr>current_cluster := 3\<rparr>)"] ra by (auto simp: f sample_vol_ok returns_def runs_def)
  moreover have "returns (fat16_find (disk_machine boot_console sample_disk) (\<lambda>_. NUL) sample_file (''/b/c'' @ [NUL])) (\<lambda>(_, r). r = None)"
    using th [of "''/b/c''" None] rb by (auto simp: f sample_vol_ok returns_def runs_def)
  ultimately show ?thesis using sample_disk_machine by blast
qed

text \<open>
  C37. A path that consists of a directory part ending with a slash, a name without slashes and at most one slash after it is split by
  \<open>get_basedir\<close> and \<open>get_filename\<close> into exactly these parts, each ended by a zero byte in its buffer.
\<close>

theorem path_split:
  assumes "NUL \<notin> set (d @ n @ t)" "n \<noteq> []" "CHR ''/'' \<notin> set n" "d \<noteq> []" "last d = CHR ''/''" "t = [] \<or> t = ''/''"
    and "length d < length b1" "length n < length b2" "length (d @ n @ t) < 4294967296"
  shows "get_basedir pa (d @ n @ t @ [NUL]) b1 = Inr (Some (length d - 1), d @ NUL # drop (length d + 1) b1) \<and>
    get_filename (Some (d @ n @ t @ [NUL])) b2 = Inr (Some (length d), n @ NUL # drop (length n + 1) b2)"
proof -
  obtain k where k: "t = replicate k (CHR ''/'')" using assms(6) by (metis replicate_0 replicate_Suc)
  show ?thesis
    using get_basedir_spec [OF assms(1-7), of pa] get_filename_spec [of d n k b2] assms(1-3,5,8,9) unfolding k by (simp add: put_str_def)
qed

theorem path_split_witness:
  "get_basedir 0xC0900000 (''/usr/a/'' @ [NUL]) (replicate 6 NUL) = Inr (Some 4, ''/usr/'' @ [NUL]) \<and>
   get_filename (Some (''/usr/a/'' @ [NUL])) (replicate 2 NUL) = Inr (Some 5, ''a'' @ [NUL])"
  using path_split [of "''/usr/''" "''a''" "''/''" "replicate 6 NUL" "replicate 2 NUL" "0xC0900000"] by simp

text \<open>
  C40. \<open>get_basedir\<close> of a path without a slash at an address of kernel space, as \<open>fat_open\<close> calls it for a file to be created by its bare
  name, does not return \<open>NULL\<close>: its copy of \<open>d-path+1\<close> bytes with \<open>d = NULL\<close> leaves the bounds of the buffers, for every buffer that
  is shorter than the distance from the path to the end of the address space.
\<close>

theorem get_basedir_bare_name:
  assumes "NUL \<notin> set p" "CHR ''/'' \<notin> set p" "0xC0000000 \<le> pa" "pa + length b \<le> 4294967296"
  shows "get_basedir pa (p @ [NUL]) b = Inl OutOfBounds"
  by (rule get_basedir_no_slash [OF assms])

theorem get_basedir_bare_name_witness: "get_basedir 0xC0900000 (''a'' @ [NUL]) (replicate 128 NUL) = Inl OutOfBounds"
  using get_basedir_bare_name [of "''a''" "0xC0900000" "replicate 128 NUL"] by simp

text \<open>
  \<open>fat16_filename_fmt\<close> writes the name in upper case, filled with blanks to nine bytes: one more than the name field of a directory
  entry has. The bytes that follow the name in memory, which it copies first, do not show in the result.
\<close>

theorem filename_fmt_upper_padded:
  assumes "NUL \<notin> set n" "length n \<le> 8" "8 \<le> length (n @ t)" "9 \<le> length b"
  shows "fat16_filename_fmt b (n @ NUL # t) = Inr (map upper_case n @ replicate (9 - length n) (CHR '' '') @ drop 9 b)"
  using fat16_filename_fmt_spec [OF assms] assms(2) by (simp add: put_str_def)

theorem filename_fmt_upper_padded_witness:
  "fat16_filename_fmt (replicate 11 (CHR ''?'')) (''init'' @ NUL # ''junk'') = Inr (''INIT     ??'')"
proof -
  have "map upper_case ''init'' = ''INIT''" by code_simp
  then show ?thesis using filename_fmt_upper_padded [of "''init''" "''junk''" "replicate 11 (CHR ''?'')"] by (simp add: numeral_eq_Suc)
qed

end
