(* ===== verification/Ts_Main_Props.thy ===== *)
theory Ts_Main_Props
  imports Ts_Main Ts_Load_Props Ts_Isr_Props Ts_Fat_Props
begin

text \<open>
  The start of the kernel, and a client of the file system and the console together: the set-up part of \<open>main\<close> brings all
  components into the states that their own theorems start from, and the loop of \<open>_test_fat16_read\<close> prints a file from the disk.
\<close>

section \<open>Printing a file\<close>

lemma print_chars_loop_text:
  "\<forall>i \<in> set is. i < length s \<Longrightarrow> print_chars_loop c s is = con_dev.put_text c (map ((!) s) is)"
proof (induction "is" arbitrary: c)
  case (Cons i "is")
  have "print_char c (s ! i) = write_console_one c (s ! i)" by (simp add: print_char_def)
  then show ?case using Cons by (cases "write_console_one c (s ! i)") (auto simp: rd_in bind_ro_def split: sum.splits)
qed simp

lemma print_chars_text: "n \<le> length s \<Longrightarrow> print_chars c s (int n) = con_dev.put_text c (take n s)"
proof -
  assume n: "n \<le> length s"
  then have "map ((!) s) [0..<n] = take n s" by (simp add: list_eq_iff_nth_eq)
  then show ?thesis using n print_chars_loop_text [of "[0..<n]" s c] by (simp add: print_chars_def)
qed

text \<open>One round of the loop before the end of the file, and the last one.\<close>

lemma read_print_step:
  assumes "disk_ok D m" "file_at D f cs" "con_follow (con m) log" "length buf = 251" "byte_offset f < file_size (dirent f)"
    and "file_size (dirent f) + 251 + cluster_bytes (volume f) < 2147483648"
    and "length log + (file_size (dirent f) - byte_offset f) \<le> 4294967294" and "k = min 251 (file_size (dirent f) - byte_offset f)"
  obtains m' f' buf' where "read_print_loop stk m f buf = read_print_loop stk m' f' buf'" "disk_ok D m'" "file_at D f' cs" "length buf' = 251"
    "con_follow (con m') (log @ take k (drop (byte_offset f) (file_text D f cs)))" "dirent f' = dirent f" "volume f' = volume f"
    "byte_offset f' = byte_offset f + k" "sched m' = sched m"
proof -
  have n: "251 \<le> length buf" "byte_offset f + 251 + cluster_bytes (volume f) < 2147483648" using assms(4-6) by linarith+
  obtain m1 c ub where r: "fat_read_file m stk (Some f) buf 251 = Some (Inr (m1, f\<lparr>current_cluster := c, byte_offset := byte_offset f + k\<rparr>, ub, int k))"
    "disk_ok D m1" "only_pio m m1" "length ub = length buf" "take k ub = take k (drop (byte_offset f) (file_text D f cs))"
    "file_at D (f\<lparr>current_cluster := c, byte_offset := byte_offset f + k\<rparr>) cs"
    using fat_read_file_ok [OF assms(1,2,5) n assms(8), of stk] by (elim exE conjE) (rule that)
  have con: "con m1 = con m" "sched m1 = sched m" using r(3) by (auto simp: only_pio_def)
  have k: "k \<le> length ub" "k \<le> file_size (dirent f) - byte_offset f" using r(4) assms(4,8) by simp_all
  then have "length log + length (take k ub) \<le> 4294967294" using assms(7) by simp
  from con_dev.put_text_ok [OF assms(3) this]
  obtain c' where c': "con_dev.put_text (con m) (take k ub) = Some (Inr c')" "con_follow c' (log @ take k ub)" by blast
  let ?m = "m1\<lparr>con := c'\<rparr>" and ?f = "f\<lparr>current_cluster := c, byte_offset := byte_offset f + k\<rparr>"
  have "read_print_loop stk m f buf = read_print_loop stk ?m ?f ub"
    using r(1) c'(1) con print_chars_text [OF k(1)] by (subst read_print_loop.simps) simp
  moreover have "disk_ok D ?m" using r(2) disk_ok_cong [of ?m m1 D] by simp
  ultimately show thesis using that [of ?m ?f ub] r(4-6) c'(2) con assms(4) by simp
qed

lemma read_print_end:
  assumes "file_at D f cs" "file_size (dirent f) \<le> byte_offset f"
  shows "read_print_loop stk m f buf = Some (Inr (m, f))"
proof -
  have "start_cluster (dirent f) \<noteq> 0" "\<not> is_directory (dirent f)"
    using assms(1) fchain_start [of "volume f" "fat_of (volume f) D" "start_cluster (dirent f)" cs] by (auto simp: file_at_def)
  then show ?thesis using assms(2) by (subst read_print_loop.simps) (simp add: fat_read_file_def)
qed

text \<open>
  C14. The loop of \<open>_test_fat16_read\<close> ends, and what it has written to the console then is the part of the file from the offset on,
  to the last byte and no further, although it reads in pieces of 251 bytes that have nothing to do with the clusters of the disk.
  The disk and the tasks are as before.
\<close>

theorem read_print_file:
  assumes "disk_ok D m" "file_at D f cs" "con_follow (con m) log" "length buf = 251"
    and "file_size (dirent f) + 251 + cluster_bytes (volume f) < 2147483648"
    and "length log + (file_size (dirent f) - byte_offset f) \<le> 4294967294"
  shows "\<exists>m' f'. read_print_loop stk m f buf = Some (Inr (m', f')) \<and> disk_ok D m' \<and> sched m' = sched m \<and>
    con_follow (con m') (log @ drop (byte_offset f) (file_text D f cs))"
  using assms
proof (induction "file_size (dirent f) - byte_offset f" arbitrary: m f buf log rule: less_induct)
  case less
  have len: "length (file_text D f cs) = file_size (dirent f)" using length_file_text [OF less.prems(1,2)] .
  show ?case
  proof (cases "byte_offset f < file_size (dirent f)")
    case False
    then show ?thesis using read_print_end [OF less.prems(2)] less.prems(1,3) len by simp
  next
    case True
    define k where "k = min 251 (file_size (dirent f) - byte_offset f)"
    obtain m' f' buf' where s: "read_print_loop stk m f buf = read_print_loop stk m' f' buf'" "disk_ok D m'" "file_at D f' cs" "length buf' = 251"
      "con_follow (con m') (log @ take k (drop (byte_offset f) (file_text D f cs)))" "dirent f' = dirent f" "volume f' = volume f"
      "byte_offset f' = byte_offset f + k" "sched m' = sched m"
      using read_print_step [OF less.prems(1-4) True less.prems(5,6) k_def] by metis
    have k: "0 < k" "k \<le> file_size (dirent f) - byte_offset f" using True by (simp_all add: k_def)
    have tx: "file_text D f' cs = file_text D f cs" using s(6,7) by (simp add: file_text_def)
    have l: "length (log @ take k (drop (byte_offset f) (file_text D f cs))) + (file_size (dirent f') - byte_offset f') \<le> 4294967294"
      using less.prems(6) k(2) len s(6,8) by simp
    have sz: "file_size (dirent f') + 251 + cluster_bytes (volume f') < 2147483648" using less.prems(5) s(6,7) by simp
    have "file_size (dirent f') - byte_offset f' < file_size (dirent f) - byte_offset f" using k True s(6,8) by simp
    moreover have "take k (drop (byte_offset f) t) @ drop (byte_offset f + k) t = drop (byte_offset f) t" for t :: "char list"
      by (metis append_take_drop_id drop_drop add.commute)
    ultimately show ?thesis using less.hyps [OF _ s(2,3,5,4) sz l] s(1,8,9) tx by simp
  qed
qed

theorem read_print_file_witness:
  "\<exists>m m' f'. read_print_loop (\<lambda>_. NUL) m (sample_file\<lparr>byte_offset := 0, current_cluster := 3\<rparr>) (replicate 251 NUL) = Some (Inr (m', f')) \<and>
     con_follow (con m) [] \<and> con_follow (con m') (replicate 512 (CHR ''a'') @ replicate 88 (CHR ''b''))"
proof -
  let ?f = "sample_file\<lparr>byte_offset := 0, current_cluster := 3\<rparr>"
  obtain c where c: "con_follow c []"
    using some_console by (auto simp: con_follow_def)
  let ?m = "disk_machine c sample_disk"
  have ok: "disk_ok sample_disk ?m" by (rule disk_machine_ok) (simp add: sample_disk_length)
  have at: "file_at sample_disk ?f [3, 4]"
    using sample_chain sample_dirent_ok(2) sample_vol_ok by (simp add: file_at_def sample_file_def) (simp add: sample_dirent_def)
  have tx: "file_text sample_disk ?f [3, 4] = replicate 512 (CHR ''a'') @ replicate 88 (CHR ''b'')"
    using sample_text by (simp add: file_text_def)
  have sz: "file_size (dirent ?f) + 251 + cluster_bytes (volume ?f) < 2147483648"
    by (simp add: sample_file_def sample_vol_ok) (simp add: sample_dirent_def)
  have l: "length [] + (file_size (dirent ?f) - byte_offset ?f) \<le> 4294967294" by (simp add: sample_file_def sample_dirent_def)
  have cm: "con_follow (con ?m) []" using c by (simp add: disk_machine_def)
  from read_print_file [OF ok at cm _ sz l, of "replicate 251 NUL" "\<lambda>_. NUL"] show ?thesis unfolding tx using cm by fastforce
qed

section \<open>Setting up\<close>

text \<open>The console before its first use, with the heap as it may be.\<close>

definition con_fresh :: "console \<Rightarrow> bool" where
  "con_fresh c \<longleftrightarrow> \<not> console_init_flag c \<and> status_bar_lines c = 1 \<and> history_cnt c = 0 \<and> window_first_history c = 0 \<and>
     window_last_history c = 0 \<and> window_size c = 0 \<and> input_cnt c = 0"

lemma con_fresh_boot: "con_fresh c \<Longrightarrow> con_boot (c\<lparr>kernel_heap := init_heap h\<rparr>)"
  using init_heap_inv [of h] by (simp add: con_boot_def con_fresh_def has_room_def init_heap_view)

text \<open>
  In loopback mode, which bit 4 of the modem control register turns on, a serial port receives what it sends.
\<close>

definition uart_loopback :: "io \<Rightarrow> bool" where
  "uart_loopback p \<longleftrightarrow> (\<forall>tr b. dev p (tr @ [Out 0x3FC 0x1E, Out 0x3F8 b]) 0x3F8 = b)"

lemma init_serial_ok:
  assumes "uart_loopback (pio m)"
  shows "\<exists>p. init_serial m = Some (Inr (m\<lparr>pio := p\<rparr>, 0)) \<and> dev p = dev (pio m)"
proof -
  have "dev (pio m) (tr @ [Out 0x3FC 0x1E, Out 0x3F8 0xAE]) 0x3F8 = 0xAE" for tr using assms by (simp add: uart_loopback_def)
  from this [of "trace (pio m) @ [Out 0x3F9 0, Out 0x3FB 0x80, Out 0x3F8 1, Out 0x3F9 0, Out 0x3FB 3, Out 0x3FA 0xC7, Out 0x3FC 0x0B]"]
  show ?thesis by (auto simp: init_serial_def Let_def inb_def outb_def log_event_def intro!: exI)
qed

lemma dev_keep: "dev (config_pic p) = dev p" "dev (init_timer p) = dev p"
  by (simp_all add: config_pic_def init_timer_def Let_def)

lemma init_syscall_ok:
  "length (syscall_table k) = 64 \<Longrightarrow>
     init_syscall k = Inr (k\<lparr>syscall_table := (syscall_table k)[16 := Some Fn_printl, 32 := Some Fn_foo]\<rparr>)"
  by (simp add: init_syscall_def wr_def)

lemma init_idt_ok:
  assumes "length (idt k) = 64"
  shows "\<exists>t. init_idt isr idt_addr k = Inr (k\<lparr>mach := (mach k)\<lparr>pio := config_pic (pio (mach k))\<rparr>, idt := t, idt_limit := 511, idt_base := idt_addr\<rparr>) \<and>
    length t = 64 \<and> (\<forall>n<64. t ! n = gate (isr n) (if n = 63 then 0xEF else 0x8F))"
proof -
  obtain t where t: "init_irqs isr [0..<64] (idt k) = Inr t" "length t = 64" "\<forall>i<64. t ! i = gate (isr i) 0x8F"
    using init_irqs_eq [of "[0..<64]" "idt k" isr] assms by (auto simp del: upt.simps)
  have g: "(gate a 0x8F)\<lparr>type_attr := f\<rparr> = gate a f" for a f by (simp add: gate_def)
  show ?thesis
    using t by (intro exI [of _ "t[63 := gate (isr 63) 0xEF]"]) (simp add: init_idt_def Let_def rd_in wr_in nth_list_update g del: upt.simps)
qed

text \<open>
  C15. The set-up part of \<open>main\<close> returns on every machine whose serial port passes the loopback test, whatever memory holds. It leaves a
  well-formed heap, an initialised console with no text, a blank screen, a gate for each of the 64 interrupts of which only that of the
  system call is open to user code, a table of system calls with the two entries, and tasks that are as before. If the memory of the heap
  was blank, the console is in a state from which its theorems start.
\<close>

theorem kernel_setup:
  assumes "con_fresh (con (mach k))" "length (idt k) = 64" "syscall_table k = replicate 64 None" "uart_loopback (pio (mach k))"
  shows "\<exists>k'. main_setup isr idt_addr k = Some (Inr k') \<and> heap_inv (kernel_heap (con (mach k'))) \<and>
    con_geom (con (mach k')) \<and> ring (con (mach k')) [] \<and> (\<forall>x<80. \<forall>y<25. vga_cell (screen (con (mach k'))) x y = NUL) \<and>
    length (idt k') = 64 \<and> (\<forall>n<64. gate_offset (idt k' ! n) = isr n \<and> type_attr (idt k' ! n) = (if n = 63 then 0xEF else 0x8F)) \<and>
    idt_base k' = idt_addr \<and>
    (\<forall>n<64. syscall_table k' ! n = (if n = SYS_PRINTL then Some Fn_printl else if n = SYS_FOO then Some Fn_foo else None)) \<and>
    sched (mach k') = sched (mach k) \<and> kbd k' = kbd k \<and>
    ((\<forall>a. ram (con (mach k)) a = NUL) \<longrightarrow> con_reach (con (mach k')) [])"
proof -
  let ?c = "(con (mach k))\<lparr>kernel_heap := init_heap (kernel_heap (con (mach k)))\<rparr>"
  obtain c1 where c1: "init_console ?c = Some (Inr c1)" "con_geom c1" "ring c1 []" "screen c1 = vga_init (screen ?c)" "heap_inv (kernel_heap c1)"
    using init_console_geom [OF con_fresh_boot [OF assms(1)]] by metis
  let ?c2 = "c1\<lparr>screen := vga_clear_all (screen c1)\<rparr>"
  have std: "vga_std (vga_clear_all (vga_init v))" for v
    unfolding vga_clear_all_puts by (rule vga_screen.puts_ok) (simp add: vga_std_def vga_init_def)
  have c2: "con_geom ?c2" "ring ?c2 []" "heap_inv (kernel_heap ?c2)" "\<forall>x<80. \<forall>y<25. vga_cell (screen ?c2) x y = NUL"
    using c1(2-5) std vga_clear_all_blank by (simp_all add: con_geom_def ring_def)
  have m: "main_console ?c ?c2" using c1(1) con_fresh_boot [OF assms(1)] by (auto simp: main_console_def)
  have "con_reach ?c2 []" if "\<forall>a. ram (con (mach k)) a = NUL" using con_reach.start [OF m main_console_blank [OF m]] that by simp
  note c2 = c2 this
  let ?k = "k\<lparr>mach := (mach k)\<lparr>con := ?c2\<rparr>\<rparr>"
  obtain t where t: "init_idt isr idt_addr ?k =
      Inr (?k\<lparr>mach := (mach ?k)\<lparr>pio := config_pic (pio (mach ?k))\<rparr>, idt := t, idt_limit := 511, idt_base := idt_addr\<rparr>)"
    "length t = 64" "\<forall>n<64. t ! n = gate (isr n) (if n = 63 then 0xEF else 0x8F)"
    using init_idt_ok [of ?k isr idt_addr] assms(2) by auto
  let ?m = "(mach k)\<lparr>con := ?c2, pio := init_timer (config_pic (pio (mach k)))\<rparr>"
  have "uart_loopback (pio ?m)" using assms(4) by (simp add: uart_loopback_def dev_keep)
  then obtain p where p: "init_serial ?m = Some (Inr (?m\<lparr>pio := p\<rparr>, 0))" using init_serial_ok by blast
  let ?k' = "k\<lparr>mach := ?m\<lparr>pio := p\<rparr>, idt := t, idt_limit := 511, idt_base := idt_addr,
    syscall_table := (syscall_table k)[16 := Some Fn_printl, 32 := Some Fn_foo]\<rparr>"
  have "main_setup isr idt_addr k = Some (Inr ?k')"
    using c1(1) t(1) p assms(3) by (simp add: main_setup_def init_devices_def Let_def init_syscall_ok)
  moreover have "type_attr (gate a f) = f" for a f by (simp add: gate_def)
  ultimately show ?thesis using c2 t(2,3) assms(3)
    by (intro exI [of _ ?k']) (simp add: gate_offset_gate nth_list_update)
qed

text \<open>A machine with a console that was not used and a serial port that shows the last byte sent.\<close>

definition echo_machine :: machine where
  "echo_machine = \<lparr>con = boot_console, pio = \<lparr>dev = (\<lambda>tr port. if tr = [] then 0 else case last tr of In _ v \<Rightarrow> 0 | Out _ b \<Rightarrow> b), trace = []\<rparr>,
     mem = (\<lambda>_. NUL), sched = boot_sched\<rparr>"

theorem kernel_setup_witness:
  "\<exists>k'. main_setup (\<lambda>n. 0xC0800000 + of_nat n) 0xC0900000 ((some_kernel boot_console)\<lparr>mach := echo_machine\<rparr>) = Some (Inr k') \<and>
     gate_offset (idt k' ! 14) = 0xC080000E \<and> syscall_table k' ! 0x20 = Some Fn_foo \<and> vga_cell (screen (con (mach k'))) 79 24 = NUL"
proof -
  let ?k = "(some_kernel boot_console)\<lparr>mach := echo_machine\<rparr>"
  have h1: "con_fresh (con (mach ?k))" using boot_console_boot by (simp add: echo_machine_def con_boot_def con_fresh_def)
  have h2: "length (idt ?k) = 64" "syscall_table ?k = replicate 64 None" by (simp_all add: some_kernel_def)
  have h3: "uart_loopback (pio (mach ?k))" by (simp add: uart_loopback_def echo_machine_def)
  obtain k' where k': "main_setup (\<lambda>n. 0xC0800000 + of_nat n) 0xC0900000 ?k = Some (Inr k')"
    "\<forall>x<80. \<forall>y<25. vga_cell (screen (con (mach k'))) x y = NUL"
    "\<forall>n<64. gate_offset (idt k' ! n) = 0xC0800000 + of_nat n \<and> type_attr (idt k' ! n) = (if n = 63 then 0xEF else 0x8F)"
    "\<forall>n<64. syscall_table k' ! n = (if n = SYS_PRINTL then Some Fn_printl else if n = SYS_FOO then Some Fn_foo else None)"
    using kernel_setup [OF h1 h2 h3, of "\<lambda>n. 0xC0800000 + of_nat n" "0xC0900000"] by (elim exE conjE) (rule that)
  then show ?thesis by (intro exI [of _ k']) simp
qed

end
