(* ===== verification/Spec2Isabelle.thy ===== *)
theory Spec2Isabelle
  imports Ts_Com_Props Ts_Main_Props
begin

text \<open>
  A verification development for Ts_os, a small 32-bit kernel.

  \<^bold>\<open>The program.\<close> After the boot code the kernel of \<^verbatim>\<open>src/kernel\<close> sets up paging, the interrupt table and the
  devices and runs user programs as tasks. Interrupts drive everything after that: the timer ends the
  slice of a task and the scheduler switches to the next one; the keyboard driver decodes scan codes and
  hands key codes to the shell, which edits the input line of the console or scrolls it; kernel and user
  code print through the formatted output of \<^verbatim>\<open>src/lib/print.c\<close> onto the console, whose buffers come from the
  kernel heap and whose window is drawn on the VGA text screen; a user program enters the kernel by a
  system call. Programs and data are kept on a FAT16 volume, which \<^verbatim>\<open>src/fs/fat16.c\<close> reads and writes through the disk
  driver of \<^verbatim>\<open>src/drivers/ata.c\<close>.

  \<^bold>\<open>The model.\<close> Each component is a group of definitions with the names of the code, followed by a theory
  with its lemmas and properties. State is passed explicitly: a record per component, collected in
  \<open>machine\<close> (console, ports, memory, scheduler) and \<open>kernel\<close> (with keyboard, interrupt table and system
  calls). A function that can fail returns \<open>kerror + 'a\<close>: a panic, a failing assertion, a \<open>NULL\<close> dereference,
  an access outside an object, a division by zero. Where the code can run for ever the result is an
  \<open>option\<close> and \<^const>\<open>None\<close> means that the call does not return. Unsigned 32-bit arithmetic is written out
  with its wrap-around on numbers (\<open>add32\<close>, \<open>sub32\<close>) or done on words.

  \<^item> \<open>Ts_Prelude\<close>: machine integers, errors, checked buffers, collections of simplification rules.
  \<^item> \<open>Ts_Heap\<close>, \<open>Ts_Heap_Inv\<close>, \<open>Ts_Heap_Correct\<close>, \<open>Ts_Heap_Props\<close>: \<^verbatim>\<open>kernel/malloc.c\<close>, region headers linked in memory.
    The heap refines a sequence of regions: \<open>kmalloc\<close> is best fit with splitting, \<open>kfree\<close> joins free
    neighbours, and every reachable heap is tiled by its regions without adjacent free ones, with a free
    list of exactly the free ones. Requests whose size plus header exceeds 32 bits are outside the theorems.
  \<^item> \<open>Ts_Common\<close>, \<open>Ts_Frame\<close>: the bit scans of \<^verbatim>\<open>kernel/common.c\<close> and the frame bitmap of \<^verbatim>\<open>kernel/frame.c\<close>. For ranges
    that start at a multiple of eight frames \<open>alloc_frame\<close> takes the least idle frame; the interface
    \<open>frame_allocator\<close> is interpreted by it. For other starts it can hand out a busy frame (\<open>alloc_frame_offset\<close>).
  \<^item> \<open>Ts_Mem\<close>, \<open>Ts_Mem_Props\<close>: paging, \<^verbatim>\<open>kernel/mem.c\<close>, over physical memory and the translation of addresses by the
    processor. The early set-up yields exactly the intended map, from any contents of memory; temporary
    mappings come and go without touching other translations. There is no TLB and there are no access rights.
  \<^item> \<open>Ts_Vga\<close>, \<open>Ts_Console\<close>, \<open>Ts_Console_Inv\<close>, \<open>Ts_Console_Output\<close>, \<open>Ts_Console_Input\<close>, \<open>Ts_Console_Props\<close>: \<^verbatim>\<open>kernel/vga.c\<close> and
    \<^verbatim>\<open>kernel/console.c\<close>. In every console reached by output, scrolling and typing the screen shows the
    layout of one part of the text and the input line. The start is the console as \<open>main\<close> sets it up, if
    the memory of its window buffer was blank, which the code does not ensure, and otherwise the first
    clearing of the console. \<open>char_device\<close> is the interface for printing.
  \<^item> \<open>Ts_String\<close>, \<open>Ts_String_Props\<close>: \<^verbatim>\<open>lib/string.c\<close>; searching, tokens, conversion, copying.
  \<^item> \<open>Ts_Print\<close>, \<open>Ts_Print_Props\<close>: \<^verbatim>\<open>lib/print.c\<close>; \<open>printf\<close> sends the text that the format denotes, for the widths
    that the comments of the code describe and decimal numbers that are not negative.
  \<^item> \<open>Ts_Task\<close>, \<open>Ts_Task_Props\<close>: the scheduler of \<^verbatim>\<open>kernel/task.c\<close>, the switch of \<^verbatim>\<open>asm/process.asm\<close> and the timer of
    \<^verbatim>\<open>drivers/timer.c\<close>. Scheduling is round robin, keeps the context of every task, never gets stuck as long
    as a task is live, and every live task runs within 310 ticks: 31 other slots of 10 ticks each. The
    context of a task is its stack pointer and page directory; the registers on its stack are not modelled.
  \<^item> \<open>Ts_Port\<close>: \<open>inb\<close>, \<open>outb\<close>, \<open>inw\<close>, \<open>outw\<close> over a device that is a parameter: a function from the trace of port
    operations to the value that a port shows. Polling returns if the device shows the bit at some time.
  \<^item> \<open>Ts_Com\<close>, \<open>Ts_Com_Props\<close>: \<^verbatim>\<open>drivers/com.c\<close>; a file transfer stores exactly what the port delivers. The loop of the
    transfer is bounded by the announced length, which is enough because each round receives a byte.
  \<^item> \<open>Ts_Shell\<close>, \<open>Ts_Keyboard\<close>, \<open>Ts_Keyboard_Props\<close>: \<^verbatim>\<open>kernel/shell.c\<close> and \<^verbatim>\<open>drivers/keyboard.c\<close>; what is typed reaches the input
    line, and no scan code does harm but two.
  \<^item> \<open>Ts_Isr\<close>, \<open>Ts_Isr_Props\<close>: \<^verbatim>\<open>kernel/isr.c\<close> and \<^verbatim>\<open>kernel/sys.c\<close>; the interrupt handler keeps the invariants of all
    components together and acknowledges interrupts in the right order, for all interrupts but 63, which
    ends the running task; the interrupt table is complete.

  \<^item> \<open>Ts_Ata\<close>, \<open>Ts_Ata_Props\<close>: \<^verbatim>\<open>drivers/ata.c\<close> over the ports. On any drive that keeps to the ATA protocol, however long it is
    busy, sectors are read and written as asked; the interface \<open>block_device\<close> is interpreted by the driver.
  \<^item> \<open>Ts_Fat\<close>, \<open>Ts_Fat_File\<close>: \<^verbatim>\<open>fs/fat16.c\<close>; a volume and a file structure are records, the contents of local arrays before they
    are written are a parameter \<open>stk\<close>. \<open>Ts_Fat_Table\<close>: the allocation table as a function on cluster numbers, the interface
    \<open>fat_table\<close> and its interpretation; freeing a chain ends on every table. \<open>Ts_Fat_Dir\<close>, \<open>Ts_Fat_Path\<close>: directory entries,
    names, paths; \<open>fat16_find\<close> yields what a path stands for. \<open>Ts_Fat_Read\<close>, \<open>Ts_Fat_Write\<close>: clusters and chains as strings.
    \<open>Ts_Fat_Props\<close>: reading, and writing up to the end of a file or beyond, refine operations on the string of the file, and what was
    written is found and read again. The theorems are about volumes with sectors of 512 bytes whose areas lie below sector 65536 (\<open>vol_ok\<close>), which the
    16-bit sector numbers of the code demand, and offsets below \<open>2 ^ 31\<close>, since the code keeps them in an \<open>int\<close>.

  \<^item> \<open>Ts_Load\<close>, \<open>Ts_Load_Props\<close>: loading a task from an image in memory, \<open>load_task\<close> and what it calls in \<^verbatim>\<open>kernel/task.c\<close>, on
    top of paging and the scheduler. The slots of the window for temporary mappings are treated as a resource (\<open>free_slots\<close>, \<open>tmap\<close>);
    the kernel part of a new directory translates addresses as its parent does, and the trap frame is the one that the first switch
    to the task needs. \<open>alloc_kstack_and_task\<close> changes the task array as \<open>new_task\<close> of the scheduler does; a lemma shows that it uses the
    kernel stack that the directory already has.
  \<^item> \<open>Ts_Main\<close>, \<open>Ts_Main_Props\<close>: \<open>main\<close> and \<open>init_task0\<close> up to the switch to the first task, and the exercises of \<^verbatim>\<open>kernel/main.c\<close> for
    disk, file system and formatted output. The set-up brings heap, screen, interrupt table and system calls into
    the states that the theorems about them start from, and the console too if the memory of the heap was blank; the loop that prints a file composes disk, file system and console.

  \<^bold>\<open>Not modelled.\<close> The boot code in assembly, since nothing of it runs once the kernel is entered, except the dispatch of system
  calls, which is \<open>isr63\<close>; \<open>switch_to_user\<close>, debug code in assembly that is never called; the endless loops after the set-up, which
  only print; the test program \<^verbatim>\<open>test/test_string.c\<close>, which is not linked into the kernel; the sample programs of \<^verbatim>\<open>usr\<close>, which call the kernel and
  loop; and the early boot build of the console. Theorems on \<open>load_task\<close> as a whole are missing: they need that the image is not
  touched by the frames that are allocated while it is copied.
\<close>

end
